(* ===== verification/Prelude.thy ===== *)
theory Prelude
  imports Main "HOL-Library.Word"
begin

text \<open>
  Shared vocabulary of the development: bytes and byte strings, the C character
  classification functions in the C locale (all that the module relies on, as it never
  calls \<^verbatim>\<open>setlocale\<close>), the searching operations of \<^verbatim>\<open>std::string_view\<close>, and the list
  lemmas that the components share.

  A byte is a \<^typ>\<open>char\<close> (Isabelle characters are exactly the 256 byte values) and a
  \<^verbatim>\<open>std::string\<close>, \<^verbatim>\<open>std::string_view\<close> or \<^verbatim>\<open>ngx_str_t\<close> is a \<^typ>\<open>string\<close>: it may hold any byte,
  the NUL byte included, as the source's counted strings do.
\<close>

type_synonym byte = char
type_synonym bytes = string

section \<open>Characters\<close>

abbreviation ord :: "char \<Rightarrow> nat" where
  "ord c \<equiv> of_char c"

abbreviation NUL :: char where "NUL \<equiv> CHR 0x00"
abbreviation HT :: char where "HT \<equiv> CHR 0x09"
abbreviation LF :: char where "LF \<equiv> CHR 0x0A"
abbreviation VT :: char where "VT \<equiv> CHR 0x0B"
abbreviation FF :: char where "FF \<equiv> CHR 0x0C"
abbreviation CR :: char where "CR \<equiv> CHR 0x0D"
abbreviation SP :: char where "SP \<equiv> CHR 0x20"
abbreviation DQUOTE :: char where "DQUOTE \<equiv> CHR 0x22"
abbreviation BACKSLASH :: char where "BACKSLASH \<equiv> CHR 0x5C"

text \<open>\<^verbatim>\<open>std::tolower\<close>, \<^verbatim>\<open>std::isspace\<close>, \<^verbatim>\<open>std::isxdigit\<close> and \<^verbatim>\<open>std::isdigit\<close>.\<close>

definition tolower :: "char \<Rightarrow> char" where
  "tolower c = (if 65 \<le> ord c \<and> ord c \<le> 90 then char_of (ord c + 32) else c)"

definition isspace :: "char \<Rightarrow> bool" where
  "isspace c \<longleftrightarrow> c = SP \<or> c = HT \<or> c = LF \<or> c = VT \<or> c = FF \<or> c = CR"

definition isdigit :: "char \<Rightarrow> bool" where
  "isdigit c \<longleftrightarrow> 48 \<le> ord c \<and> ord c \<le> 57"

definition isxdigit :: "char \<Rightarrow> bool" where
  "isxdigit c \<longleftrightarrow> isdigit c \<or> (65 \<le> ord c \<and> ord c \<le> 70) \<or> (97 \<le> ord c \<and> ord c \<le> 102)"

text \<open>The value of a hexadecimal digit, as \<^verbatim>\<open>std::from_chars(..., 16)\<close> reads it.\<close>

definition hex_val :: "char \<Rightarrow> nat" where
  "hex_val c = (if isdigit c then ord c - 48
                else if 65 \<le> ord c \<and> ord c \<le> 70 then ord c - 55
                else ord c - 87)"

definition hex_digit :: "nat \<Rightarrow> char" where
  "hex_digit n = (if n < 10 then char_of (48 + n) else char_of (55 + n))"

lemma tolower_upper [simp]:
  "tolower CHR ''A'' = CHR ''a''"
  "tolower CHR ''B'' = CHR ''b''"
  "tolower CHR ''C'' = CHR ''c''"
  "tolower CHR ''D'' = CHR ''d''"
  "tolower CHR ''E'' = CHR ''e''"
  "tolower CHR ''F'' = CHR ''f''"
  "tolower CHR ''G'' = CHR ''g''"
  "tolower CHR ''H'' = CHR ''h''"
  "tolower CHR ''I'' = CHR ''i''"
  "tolower CHR ''J'' = CHR ''j''"
  "tolower CHR ''K'' = CHR ''k''"
  "tolower CHR ''L'' = CHR ''l''"
  "tolower CHR ''M'' = CHR ''m''"
  "tolower CHR ''N'' = CHR ''n''"
  "tolower CHR ''O'' = CHR ''o''"
  "tolower CHR ''P'' = CHR ''p''"
  "tolower CHR ''Q'' = CHR ''q''"
  "tolower CHR ''R'' = CHR ''r''"
  "tolower CHR ''S'' = CHR ''s''"
  "tolower CHR ''T'' = CHR ''t''"
  "tolower CHR ''U'' = CHR ''u''"
  "tolower CHR ''V'' = CHR ''v''"
  "tolower CHR ''W'' = CHR ''w''"
  "tolower CHR ''X'' = CHR ''x''"
  "tolower CHR ''Y'' = CHR ''y''"
  "tolower CHR ''Z'' = CHR ''z''"
  by (simp_all add: tolower_def char_of_def bit_Suc_0_iff)

lemma tolower_keep: "ord c < 65 \<or> 90 < ord c \<Longrightarrow> tolower c = c"
  by (auto simp: tolower_def)

lemma tolower_idem [simp]: "tolower (tolower c) = tolower c"
proof (cases "65 \<le> ord c \<and> ord c \<le> 90")
  case True
  then have "of_char (char_of (ord c + 32) :: char) = ord c + 32"
    by (simp add: of_char_of)
  with True show ?thesis
    by (simp add: tolower_def)
qed (auto simp: tolower_def)

lemma hex_val_less: "isxdigit c \<Longrightarrow> hex_val c < 16"
  by (auto simp: isxdigit_def isdigit_def hex_val_def)

lemma hex_digit_roundtrip:
  assumes "n < 16"
  shows "isxdigit (hex_digit n)" and "hex_val (hex_digit n) = n"
  using assms by (auto simp: hex_digit_def isxdigit_def isdigit_def hex_val_def of_char_of)

section \<open>Searching in strings\<close>

text \<open>
  \<open>find_pos P s\<close> is the index of the first element that satisfies \<open>P\<close>; \<^const>\<open>None\<close> is
  \<^verbatim>\<open>std::string_view::npos\<close>. The members \<^verbatim>\<open>find(ch)\<close>, \<^verbatim>\<open>find_first_of\<close> and
  \<^verbatim>\<open>find_first_not_of\<close> are its instances.
\<close>

fun find_pos :: "('a \<Rightarrow> bool) \<Rightarrow> 'a list \<Rightarrow> nat option" where
  "find_pos P [] = None"
| "find_pos P (x # xs) = (if P x then Some 0 else map_option Suc (find_pos P xs))"

abbreviation find_char :: "char \<Rightarrow> string \<Rightarrow> nat option" where
  "find_char c \<equiv> find_pos (\<lambda>x. x = c)"

named_theorems scan_simps \<open>how the searching operations relate to takeWhile and dropWhile\<close>

lemma find_pos_None_iff: "find_pos P xs = None \<longleftrightarrow> (\<forall>x \<in> set xs. \<not> P x)"
  by (induction xs) auto

lemma find_pos_None_takeWhile [scan_simps]:
  "find_pos P xs = None \<Longrightarrow> takeWhile (\<lambda>x. \<not> P x) xs = xs"
  by (simp add: find_pos_None_iff takeWhile_eq_all_conv)

lemma find_pos_SomeD:
  assumes "find_pos P xs = Some i"
  shows "i < length xs" and "P (xs ! i)" and "take i xs = takeWhile (\<lambda>x. \<not> P x) xs"
    and "drop i xs = dropWhile (\<lambda>x. \<not> P x) xs"
  using assms by (induction xs arbitrary: i) (auto split: if_splits)

lemma find_pos_takeWhile [scan_simps]:
  "find_pos P xs = Some i \<Longrightarrow> i = length (takeWhile (\<lambda>x. \<not> P x) xs)"
  using find_pos_SomeD(1,3) by (metis length_take min.absorb4)

lemma find_pos_append_hit:
  assumes "\<forall>x \<in> set xs. \<not> P x" and "P y"
  shows "find_pos P (xs @ y # ys) = Some (length xs)"
  using assms by (induction xs) auto

lemma find_pos_append_miss:
  assumes "\<forall>x \<in> set xs. \<not> P x"
  shows "find_pos P (xs @ ys) = map_option (\<lambda>i. length xs + i) (find_pos P ys)"
  using assms by (induction xs) (auto simp: option.map_comp comp_def option.map_ident cong: map_option_cong)

lemma dropWhile_all: "\<forall>x \<in> set xs. P x \<Longrightarrow> dropWhile P (xs @ ys) = dropWhile P ys"
  by (induction xs) auto

lemma takeWhile_stop: "\<forall>x \<in> set xs. P x \<Longrightarrow> \<not> P y \<Longrightarrow> takeWhile P (xs @ y # ys) = xs"
  by (induction xs) auto

lemma dropWhile_stop: "\<forall>x \<in> set xs. P x \<Longrightarrow> \<not> P y \<Longrightarrow> dropWhile P (xs @ y # ys) = y # ys"
  by (induction xs) auto

text \<open>The pieces between the occurrences of a separator.\<close>

fun split_on :: "'a \<Rightarrow> 'a list \<Rightarrow> 'a list list" where
  "split_on c [] = [[]]"
| "split_on c (x # xs) = (case split_on c xs of
     [] \<Rightarrow> []
   | p # ps \<Rightarrow> if x = c then [] # p # ps else (x # p) # ps)"

lemma split_on_unfold:
  "split_on c xs = takeWhile (\<lambda>x. x \<noteq> c) xs #
     (if c \<in> set xs then split_on c (drop 1 (dropWhile (\<lambda>x. x \<noteq> c) xs)) else [])"
  by (induction xs) (auto split: list.splits)

text \<open>Removing a trailing run, as a \<^verbatim>\<open>remove_suffix(1)\<close> loop does.\<close>

definition trim_back :: "('a \<Rightarrow> bool) \<Rightarrow> 'a list \<Rightarrow> 'a list" where
  "trim_back P s = rev (dropWhile P (rev s))"

lemma length_trim_back [simp]: "length (trim_back P s) \<le> length s"
  using length_dropWhile_le [of P "rev s"] by (simp add: trim_back_def)

section \<open>Maps\<close>

text \<open>\<^verbatim>\<open>std::unordered_map::emplace\<close>: nothing happens when the key is present.\<close>

definition emplace :: "'k \<Rightarrow> 'v \<Rightarrow> ('k \<times> 'v) list \<Rightarrow> ('k \<times> 'v) list" where
  "emplace k v m = (if k \<in> fst ` set m then m else m @ [(k, v)])"

lemma map_of_emplace: "map_of (emplace k v m) k' = (if k = k' \<and> map_of m k = None then Some v else map_of m k')"
proof (cases "k \<in> fst ` set m")
  case True
  then have "map_of m k \<noteq> None" by (simp add: map_of_eq_None_iff)
  with True show ?thesis by (auto simp: emplace_def)
next
  case False
  then have "map_of m k = None" by (simp add: map_of_eq_None_iff)
  with False show ?thesis by (auto simp: emplace_def map_add_def split: option.splits)
qed

text \<open>\<^verbatim>\<open>std::string_view::find\<close> of a text, whether it is found.\<close>

definition contains :: "bytes \<Rightarrow> bytes \<Rightarrow> bool" where
  "contains p s \<longleftrightarrow> list_ex (\<lambda>i. take (length p) (drop i s) = p) [0..<Suc (length s)]"

lemma contains_iff: "contains p s \<longleftrightarrow> (\<exists>a b. s = a @ p @ b)"
proof
  assume "contains p s"
  then obtain i where "i \<le> length s" "take (length p) (drop i s) = p" by (auto simp: contains_def list_ex_iff Bex_def less_Suc_eq_le simp del: upt_Suc)
  then have "s = take i s @ p @ drop (length p) (drop i s)" by (metis append_take_drop_id)
  then show "\<exists>a b. s = a @ p @ b" by blast
next
  assume "\<exists>a b. s = a @ p @ b"
  then obtain a b where "s = a @ p @ b" by blast
  then show "contains p s" by (auto simp: contains_def list_ex_iff simp del: upt_Suc intro!: bexI [of _ "length a"])
qed

lemma split_on_nonempty [simp]: "split_on c xs \<noteq> []"
  by (simp add: split_on_unfold [of c xs])

lemma split_on_none: "c \<notin> set xs \<Longrightarrow> split_on c xs = [xs]"
  by (induction xs) auto

lemma split_on_separator: "split_on c (xs @ c # ys) = split_on c xs @ split_on c ys"
proof (induction xs)
  case Nil
  show ?case by (cases "split_on c ys") simp_all
next
  case (Cons x xs)
  then show ?case by (cases "split_on c xs") simp_all
qed

lemma split_on_append: "c \<notin> set xs \<Longrightarrow> split_on c (xs @ c # ys) = xs # split_on c ys"
  by (simp add: split_on_separator split_on_none)

text \<open>The separator put back between the pieces.\<close>

fun join_with :: "'a \<Rightarrow> 'a list list \<Rightarrow> 'a list" where
  "join_with c [] = []"
| "join_with c [p] = p"
| "join_with c (p # q # ps) = p @ c # join_with c (q # ps)"

lemma split_on_join: "ps \<noteq> [] \<Longrightarrow> (\<And>p. p \<in> set ps \<Longrightarrow> c \<notin> set p) \<Longrightarrow> split_on c (join_with c ps) = ps"
proof (induction c ps rule: join_with.induct)
  case (2 c p)
  then show ?case by (simp add: split_on_none)
next
  case (3 c p q ps)
  then show ?case by (simp add: split_on_append)
qed simp

lemma join_with_Cons: "ps \<noteq> [] \<Longrightarrow> join_with c (p # ps) = p @ c # join_with c ps"
  by (cases ps) simp_all

lemma join_split_on: "join_with c (split_on c xs) = xs"
proof (induction xs)
  case (Cons x xs)
  obtain p ps where "split_on c xs = p # ps" by (cases "split_on c xs") auto
  with Cons show ?case by (cases ps) auto
qed simp

lemma split_on_pieces: "p \<in> set (split_on c xs) \<Longrightarrow> c \<notin> set p"
proof (induction xs arbitrary: p)
  case (Cons x xs)
  obtain q qs where "split_on c xs = q # qs" by (cases "split_on c xs") auto
  with Cons show ?case by (auto split: if_splits)
qed simp

section \<open>Decimal text\<close>

text \<open>\<^verbatim>\<open>std::to_chars\<close> and \<^verbatim>\<open>std::to_string\<close> of integers.\<close>

fun decimal :: "nat \<Rightarrow> bytes" where
  "decimal n = (if n < 10 then [char_of (48 + n)] else decimal (n div 10) @ [char_of (48 + n mod 10)])"

declare decimal.simps [simp del]

definition decimal_int :: "int \<Rightarrow> bytes" where
  "decimal_int i = (if i < 0 then CHR ''-'' # decimal (nat (- i)) else decimal (nat i))"

lemma decimal_length: "n < 10 ^ k \<Longrightarrow> 0 < k \<Longrightarrow> length (decimal n) \<le> k"
proof (induction n arbitrary: k rule: decimal.induct)
  case (1 n)
  show ?case
  proof (cases "n < 10")
    case False
    with "1.prems" obtain j where k: "k = Suc j" "0 < j" by (cases k; cases "k - 1") auto
    with "1.prems" have "n div 10 < 10 ^ j" by (simp add: less_mult_imp_div_less mult.commute)
    with "1.IH" [OF False] k show ?thesis by (simp add: decimal.simps [of n] False)
  qed (use "1.prems" in \<open>simp add: decimal.simps [of n]\<close>)
qed

lemma decimal_length_ge: "10 ^ k \<le> n \<Longrightarrow> k < length (decimal n)"
proof (induction n arbitrary: k rule: decimal.induct)
  case (1 n)
  show ?case
  proof (cases "n < 10")
    case True
    have "k = 0"
    proof (cases k)
      case (Suc j)
      have "(10::nat) \<le> 10 * 10 ^ j" by simp
      with True Suc "1.prems" show ?thesis by simp
    qed
    then show ?thesis by (simp add: decimal.simps [of n])
  next
    case False
    show ?thesis
    proof (cases k)
      case (Suc j)
      with "1.prems" have "10 ^ j \<le> n div 10" by (simp add: less_eq_div_iff_mult_less_eq mult.commute)
      with "1.IH" [OF False] Suc show ?thesis by (simp add: decimal.simps [of n] False)
    qed (simp add: decimal.simps [of n] False)
  qed
qed

lemma decimal_pos: "0 < length (decimal n)"
  by (simp add: decimal.simps [of n])

lemma decimal_digits: "list_all isdigit (decimal n)"
proof (induction n rule: decimal.induct)
  case (1 n)
  have d: "isdigit (char_of (48 + m))" if "m < 10" for m :: nat using that by (simp add: isdigit_def of_char_of)
  with 1 show ?case by (simp add: decimal.simps [of n])
qed

text \<open>The value of decimal digits, and \<^verbatim>\<open>std::from_chars\<close> into an unsigned type of \<open>w\<close> bits with the test that all of the text was read.\<close>

definition digits_nat :: "bytes \<Rightarrow> nat" where
  "digits_nat ds = foldl (\<lambda>k c. 10 * k + (ord c - 48)) 0 ds"

definition from_chars_unsigned :: "nat \<Rightarrow> bytes \<Rightarrow> nat option" where
  "from_chars_unsigned w s = (if s \<noteq> [] \<and> list_all isdigit s \<and> digits_nat s < 2 ^ w then Some (digits_nat s) else None)"

lemma digits_nat_decimal [simp]: "digits_nat (decimal k) = k"
proof (induction k rule: decimal.induct)
  case (1 k)
  have c: "ord (char_of (48 + m) :: char) = 48 + m" if "m < 10" for m :: nat using that by (simp add: of_char_of)
  show ?case using 1 by (cases "k < 10") (simp_all add: decimal.simps [of k] digits_nat_def c)
qed

lemma decimal_inj: "decimal m = decimal n \<Longrightarrow> m = n"
  using digits_nat_decimal [of m] by simp

lemma decimal_no: "\<not> isdigit c \<Longrightarrow> c \<notin> set (decimal n)"
  using decimal_digits [of n] by (auto simp: list_all_iff)

lemma from_chars_decimal [simp]: "n < 2 ^ w \<Longrightarrow> from_chars_unsigned w (decimal n) = Some n"
  using decimal_pos [of n] by (auto simp: from_chars_unsigned_def decimal_digits)

lemma last_separator_unique:
  assumes "xs @ c # ds = ys @ c # es" and "c \<notin> set ds" and "c \<notin> set es"
  shows "xs = ys \<and> ds = es"
proof -
  have t: "takeWhile (\<lambda>x. x \<noteq> c) (rev (zs @ c # us)) = rev us" if "c \<notin> set us" for zs us
  proof -
    have "takeWhile (\<lambda>x. x \<noteq> c) (rev us @ (c # rev zs)) = rev us @ takeWhile (\<lambda>x. x \<noteq> c) (c # rev zs)"
      using that by (intro takeWhile_append2) auto
    then show ?thesis by simp
  qed
  have "ds = es" using t [OF assms(2), of xs] t [OF assms(3), of ys] assms(1) by simp
  with assms(1) show ?thesis by simp
qed

end
