(* ===== verification/Filter_Buf.thy ===== *)
theory Filter_Buf
  imports Prelude
begin

text \<open>
  Buffered chains of the WAF context: \<^verbatim>\<open>FilterCtx\<close> of \<^verbatim>\<open>src/security/context.h\<close> and \<^verbatim>\<open>buffer_chain\<close> of
  \<^verbatim>\<open>src/security/context.cpp\<close>. A chain is the list of its buffers; the pointer \<^verbatim>\<open>out_latest\<close> to the
  last link is the end of that list. Pool allocations succeed or fail as a list of booleans says,
  and succeed once it is used up. nginx's \<^verbatim>\<open>ngx_buf_size\<close> is a parameter.
\<close>

record ngx_buf =
  b_mem :: bytes
  b_in_file :: bool
  b_file :: nat
  b_file_pos :: nat
  b_file_last :: nat
  b_temporary :: bool
  b_memory :: bool
  b_flush :: bool
  b_sync :: bool
  b_last_buf :: bool
  b_tag :: bool

type_synonym bufs = "ngx_buf list"
type_synonym allocs = "bool list"

definition zero_buf :: ngx_buf where
  "zero_buf = \<lparr>b_mem = [], b_in_file = False, b_file = 0, b_file_pos = 0, b_file_last = 0, b_temporary = False,
     b_memory = False, b_flush = False, b_sync = False, b_last_buf = False, b_tag = False\<rparr>"

definition has_last :: "bufs \<Rightarrow> bool" where
  "has_last ch \<longleftrightarrow> list_ex b_last_buf ch"

definition chain_length :: "bufs \<Rightarrow> nat" where
  "chain_length ch = length ch"

definition chain_size :: "(ngx_buf \<Rightarrow> nat) \<Rightarrow> bufs \<Rightarrow> nat" where
  "chain_size buf_size ch = sum_list (map buf_size ch)"

section \<open>FilterCtx\<close>

record filter_ctx =
  fc_out :: bufs
  fc_out_total :: nat
  fc_copied_total :: nat
  fc_found_last :: bool

definition fc_new :: filter_ctx where
  "fc_new = \<lparr>fc_out = [], fc_out_total = 0, fc_copied_total = 0, fc_found_last = False\<rparr>"

definition fc_clear :: "filter_ctx \<Rightarrow> filter_ctx" where
  "fc_clear fc = fc\<lparr>fc_out := [], fc_out_total := 0, fc_copied_total := 0\<rparr>"

definition fc_replace_out :: "(ngx_buf \<Rightarrow> nat) \<Rightarrow> bufs \<Rightarrow> filter_ctx \<Rightarrow> filter_ctx" where
  "fc_replace_out buf_size new_out fc =
     fc\<lparr>fc_out := new_out, fc_copied_total := 0, fc_out_total := sum_list (map buf_size new_out)\<rparr>"

section \<open>buffer_chain\<close>

fun ngx_alloc :: "allocs \<Rightarrow> bool \<times> allocs" where
  "ngx_alloc [] = (True, [])"
| "ngx_alloc (b # p) = (b, p)"

text \<open>The copy of a buffer that is consumed, and what is left of it: the size counted, the bytes copied.\<close>

record buf_copy =
  bc_new :: "ngx_buf option"
  bc_old :: ngx_buf
  bc_size :: nat
  bc_copied :: nat
  bc_pool :: allocs

definition copy_memory :: "ngx_buf \<Rightarrow> allocs \<Rightarrow> buf_copy" where
  "copy_memory buf p =
     (let sz = length (b_mem buf); (ok, p1) = ngx_alloc p
      in if 0 < sz then
           (if \<not> ok then \<lparr>bc_new = None, bc_old = buf, bc_size = 0, bc_copied = 0, bc_pool = p1\<rparr>
            else \<lparr>bc_new = Some (zero_buf\<lparr>b_mem := b_mem buf, b_temporary := True\<rparr>),
                   bc_old = buf\<lparr>b_mem := []\<rparr>, bc_size = sz, bc_copied = sz, bc_pool = p1\<rparr>)
         else
           (if \<not> ok then \<lparr>bc_new = None, bc_old = buf, bc_size = 0, bc_copied = 0, bc_pool = p1\<rparr>
            else \<lparr>bc_new = Some (zero_buf\<lparr>b_flush := b_flush buf, b_sync := b_sync buf\<rparr>),
                   bc_old = buf, bc_size = 0, bc_copied = 0, bc_pool = p1\<rparr>))"

definition copy_file :: "ngx_buf \<Rightarrow> allocs \<Rightarrow> buf_copy" where
  "copy_file buf p =
     (let (ok, p1) = ngx_alloc p
      in if \<not> ok then \<lparr>bc_new = None, bc_old = buf, bc_size = 0, bc_copied = 0, bc_pool = p1\<rparr>
         else
           let new = zero_buf\<lparr>b_in_file := True, b_file := b_file buf, b_file_pos := b_file_pos buf,
                              b_file_last := b_file_last buf\<rparr>;
               old = buf\<lparr>b_file_pos := b_file_last buf\<rparr>;
               sz = b_file_last buf - b_file_pos buf;
               msz = length (b_mem buf)
           in if \<not> b_temporary buf then \<lparr>bc_new = Some new, bc_old = old, bc_size = sz, bc_copied = 0, bc_pool = p1\<rparr>
              else if msz = 0 then
                \<lparr>bc_new = Some (new\<lparr>b_temporary := True\<rparr>), bc_old = old, bc_size = sz, bc_copied = 0, bc_pool = p1\<rparr>
              else
                let (ok2, p2) = ngx_alloc p1
                in if \<not> ok2 then \<lparr>bc_new = None, bc_old = old, bc_size = 0, bc_copied = 0, bc_pool = p2\<rparr>
                   else \<lparr>bc_new = Some (new\<lparr>b_temporary := True, b_mem := b_mem buf\<rparr>),
                          bc_old = old\<lparr>b_mem := []\<rparr>, bc_size = sz, bc_copied = msz, bc_pool = p2\<rparr>)"

definition copy_buf :: "ngx_buf \<Rightarrow> allocs \<Rightarrow> buf_copy" where
  "copy_buf buf p = (if b_in_file buf then copy_file buf p else copy_memory buf p)"

text \<open>One link: whether it was saved, the context, what is left of the input buffer, the pool.\<close>

definition buffer_link ::
  "(ngx_buf \<Rightarrow> nat) \<Rightarrow> bool \<Rightarrow> ngx_buf \<Rightarrow> filter_ctx \<Rightarrow> allocs \<Rightarrow> bool \<times> filter_ctx \<times> ngx_buf \<times> allocs" where
  "buffer_link buf_size consume buf fc p =
     (let (ok, p1) = ngx_alloc p
      in if \<not> ok then (False, fc, buf, p1)
         else if consume then
           (let c = copy_buf buf p1
            in case bc_new c of
                 None \<Rightarrow> (False, fc, bc_old c, bc_pool c)
               | Some new \<Rightarrow>
                   (True,
                    fc\<lparr>fc_out := fc_out fc @ [new\<lparr>b_last_buf := b_last_buf buf, b_tag := True\<rparr>],
                       fc_out_total := fc_out_total fc + bc_size c,
                       fc_copied_total := fc_copied_total fc + bc_copied c,
                       fc_found_last := fc_found_last fc \<or> b_last_buf buf\<rparr>,
                    bc_old c, bc_pool c))
         else
           (True,
            fc\<lparr>fc_out := fc_out fc @ [buf], fc_out_total := fc_out_total fc + buf_size buf,
               fc_found_last := fc_found_last fc \<or> b_last_buf buf\<rparr>,
            buf, p1))"

fun buffer_links ::
  "(ngx_buf \<Rightarrow> nat) \<Rightarrow> bool \<Rightarrow> bufs \<Rightarrow> filter_ctx \<Rightarrow> allocs \<Rightarrow> bool \<times> filter_ctx \<times> bufs \<times> allocs" where
  "buffer_links buf_size consume [] fc p = (True, fc, [], p)"
| "buffer_links buf_size consume (b # bs) fc p =
     (case buffer_link buf_size consume b fc p of
        (False, fc', b', p') \<Rightarrow> (False, fc', b' # bs, p')
      | (True, fc', b', p') \<Rightarrow>
          (case buffer_links buf_size consume bs fc' p' of
             (ok, fc'', bs', p'') \<Rightarrow> (ok, fc'', b' # bs', p'')))"

text \<open>Whether all was saved (\<^verbatim>\<open>NGX_OK\<close>), the context, the input chain afterwards, the pool.\<close>

definition buffer_chain ::
  "(ngx_buf \<Rightarrow> nat) \<Rightarrow> filter_ctx \<Rightarrow> allocs \<Rightarrow> bufs \<Rightarrow> bool \<Rightarrow> bool \<times> filter_ctx \<times> bufs \<times> allocs" where
  "buffer_chain buf_size fc p chain_in consume =
     (if chain_in \<noteq> [] \<and> fc_found_last fc then (False, fc, chain_in, p)
      else buffer_links buf_size consume chain_in fc p)"

section \<open>What a chain carries\<close>

text \<open>The content of a chain: its bytes in memory and its file ranges, in order.\<close>

datatype piece = Mem byte | File nat nat nat

definition buf_pieces :: "ngx_buf \<Rightarrow> piece list" where
  "buf_pieces b = (if b_in_file b then [File (b_file b) (b_file_pos b) (b_file_last b)] else map Mem (b_mem b))"

definition chain_pieces :: "bufs \<Rightarrow> piece list" where
  "chain_pieces bs = concat (map buf_pieces bs)"

lemma chain_pieces_simps [simp]:
  "chain_pieces [] = []" "chain_pieces (b # bs) = buf_pieces b @ chain_pieces bs" "chain_pieces (xs @ ys) = chain_pieces xs @ chain_pieces ys"
  by (simp_all add: chain_pieces_def)

text \<open>The amount of input held in memory, and an input of which nothing is left.\<close>

definition mem_size :: "bufs \<Rightarrow> nat" where
  "mem_size bs = sum_list (map (\<lambda>b. length (b_mem b)) bs)"

definition drained :: "ngx_buf \<Rightarrow> bool" where
  "drained b \<longleftrightarrow> (if b_in_file b then b_file_pos b = b_file_last b else b_mem b = [])"

lemma copy_buf_ok:
  assumes "bc_new (copy_buf buf p) = Some new"
  shows "buf_pieces new = buf_pieces buf" "drained (bc_old (copy_buf buf p))"
    "bc_copied (copy_buf buf p) \<le> length (b_mem buf)" "b_last_buf (bc_old (copy_buf buf p)) = b_last_buf buf"
  using assms
  by (auto simp: copy_buf_def copy_file_def copy_memory_def Let_def buf_pieces_def drained_def zero_buf_def
      split: prod.splits if_splits)

lemma buffer_link_ok:
  assumes "buffer_link sz consume buf fc p = (True, fc', buf', p')"
  shows "chain_pieces (fc_out fc') = chain_pieces (fc_out fc) @ buf_pieces buf"
    and "fc_out fc' \<noteq> []"
    and "fc_found_last fc' \<longleftrightarrow> fc_found_last fc \<or> b_last_buf buf"
    and "fc_copied_total fc' \<le> fc_copied_total fc + (if consume then length (b_mem buf) else 0)"
    and "if consume then drained buf' else buf' = buf"
    and "has_last (fc_out fc') \<longleftrightarrow> has_last (fc_out fc) \<or> b_last_buf buf"
proof -
  have upd: "buf_pieces (new\<lparr>b_last_buf := x, b_tag := y\<rparr>) = buf_pieces new" for new x y
    by (simp add: buf_pieces_def)
  note a = assms [unfolded buffer_link_def Let_def]
  show "chain_pieces (fc_out fc') = chain_pieces (fc_out fc) @ buf_pieces buf" "fc_out fc' \<noteq> []"
    "fc_found_last fc' \<longleftrightarrow> fc_found_last fc \<or> b_last_buf buf"
    "fc_copied_total fc' \<le> fc_copied_total fc + (if consume then length (b_mem buf) else 0)"
    "if consume then drained buf' else buf' = buf"
    "has_last (fc_out fc') \<longleftrightarrow> has_last (fc_out fc) \<or> b_last_buf buf"
    using a copy_buf_ok upd
    by (auto simp: has_last_def split: prod.splits if_splits option.splits)
qed

lemma buffer_links_ok:
  "buffer_links sz consume bs fc p = (True, fc', bs', p') \<Longrightarrow>
     chain_pieces (fc_out fc') = chain_pieces (fc_out fc) @ chain_pieces bs
     \<and> (fc_out fc' = [] \<longleftrightarrow> fc_out fc = [] \<and> bs = [])
     \<and> (fc_found_last fc' \<longleftrightarrow> fc_found_last fc \<or> has_last bs)
     \<and> fc_copied_total fc' \<le> fc_copied_total fc + (if consume then mem_size bs else 0)
     \<and> (if consume then list_all drained bs' else bs' = bs)
     \<and> (has_last (fc_out fc') \<longleftrightarrow> has_last (fc_out fc) \<or> has_last bs)"
proof (induction bs arbitrary: fc p fc' bs' p')
  case Nil
  then show ?case by (auto simp: mem_size_def has_last_def)
next
  case (Cons b bs)
  obtain ok fc1 b1 p1 where l: "buffer_link sz consume b fc p = (ok, fc1, b1, p1)" by (metis prod_cases4)
  with Cons.prems have ok: "ok" by (auto split: bool.splits prod.splits)
  obtain ok2 fc2 bs2 p2 where r: "buffer_links sz consume bs fc1 p1 = (ok2, fc2, bs2, p2)" by (metis prod_cases4)
  from Cons.prems l r ok have e: "ok2" "fc' = fc2" "bs' = b1 # bs2" by auto
  from r e(1) have IH: "chain_pieces (fc_out fc2) = chain_pieces (fc_out fc1) @ chain_pieces bs
     \<and> (fc_out fc2 = [] \<longleftrightarrow> fc_out fc1 = [] \<and> bs = [])
     \<and> (fc_found_last fc2 \<longleftrightarrow> fc_found_last fc1 \<or> has_last bs)
     \<and> fc_copied_total fc2 \<le> fc_copied_total fc1 + (if consume then mem_size bs else 0)
     \<and> (if consume then list_all drained bs2 else bs2 = bs)
     \<and> (has_last (fc_out fc2) \<longleftrightarrow> has_last (fc_out fc1) \<or> has_last bs)"
    by (intro Cons.IH) simp
  from l ok have l': "buffer_link sz consume b fc p = (True, fc1, b1, p1)" by simp
  note k = buffer_link_ok [OF l']
  show ?case unfolding e
    using IH k by (auto simp: mem_size_def has_last_def split: if_splits)
qed

text \<open>
  When \<^verbatim>\<open>buffer_chain\<close> succeeds, the saved chain carries what it carried before followed by
  exactly what the input carried, end marker included; in consuming mode nothing is left in the
  input and no more than its bytes in memory is copied, otherwise the input is untouched.
\<close>

theorem buffer_chain_conserves:
  assumes "buffer_chain sz fc p chain_in consume = (True, fc', chain_out, p')"
  shows "chain_pieces (fc_out fc') = chain_pieces (fc_out fc) @ chain_pieces chain_in
    \<and> (has_last (fc_out fc') \<longleftrightarrow> has_last (fc_out fc) \<or> has_last chain_in)
    \<and> fc_copied_total fc' \<le> fc_copied_total fc + (if consume then mem_size chain_in else 0)
    \<and> (if consume then list_all drained chain_out else chain_out = chain_in)"
  using assms buffer_links_ok [of sz consume chain_in fc p fc' chain_out p']
  by (auto simp: buffer_chain_def split: if_splits)

theorem buffer_chain_conserves_witness:
  "let b1 = zero_buf\<lparr>b_mem := ''ab'', b_temporary := True\<rparr>;
       b2 = zero_buf\<lparr>b_in_file := True, b_file_last := 7, b_last_buf := True\<rparr>
   in \<exists>fc' out p'. buffer_chain (\<lambda>b. length (b_mem b)) fc_new [] [b1, b2] True = (True, fc', out, p')
      \<and> chain_pieces (fc_out fc') = [Mem CHR ''a'', Mem CHR ''b'', File 0 0 7] \<and> has_last (fc_out fc')"
proof -
  let ?b1 = "zero_buf\<lparr>b_mem := ''ab'', b_temporary := True\<rparr>" and ?b2 = "zero_buf\<lparr>b_in_file := True, b_file_last := 7, b_last_buf := True\<rparr>"
  have "fst (buffer_chain (\<lambda>b. length (b_mem b)) fc_new [] [?b1, ?b2] True)"
    by (simp add: buffer_chain_def fc_new_def buffer_link_def copy_buf_def copy_memory_def copy_file_def zero_buf_def Let_def)
  then obtain fc' out p' where
    e: "buffer_chain (\<lambda>b. length (b_mem b)) fc_new [] [?b1, ?b2] True = (True, fc', out, p')"
    by (cases "buffer_chain (\<lambda>b. length (b_mem b)) fc_new [] [?b1, ?b2] True") auto
  from buffer_chain_conserves [OF e]
  have "chain_pieces (fc_out fc') = [Mem CHR ''a'', Mem CHR ''b'', File 0 0 7]" "has_last (fc_out fc')"
    by (simp_all add: fc_new_def buf_pieces_def zero_buf_def has_last_def)
  with e show ?thesis unfolding Let_def by blast
qed

end
