(* ===== verification/Chain_Stream.thy ===== *)
theory Chain_Stream
  imports Prelude "HOL-Library.Monad_Syntax"
begin

text \<open>
  The two input streams over a chain of nginx buffers: \<^verbatim>\<open>NgxChainInputStream\<close>
  (\<^verbatim>\<open>src/security/body_parse/chain_is.h\<close>), which the multipart parser reads, and
  \<^verbatim>\<open>RapidNgxChainInputStream\<close> (\<^verbatim>\<open>src/security/body_parse/body_json.cpp\<close>), which feeds rapidjson.
  A chain is the list of the bytes between \<^verbatim>\<open>pos\<close> and \<^verbatim>\<open>last\<close> of its buffers. A stream holds the
  unread bytes of the current buffer and the buffers that follow.

  \<^const>\<open>None\<close> is the result of a read that has no byte to return: the failed assertion
  \<^verbatim>\<open>"read over eof"\<close> at the end of the chain, or a read past the end of an empty buffer. Both
  streams are shown to implement one interface, \<open>byte_source\<close>: the concatenation of the buffers.
\<close>

section \<open>NgxChainInputStream\<close>

type_synonym chain = "bytes list"

record stream =
  st_cur :: bytes
  st_next :: chain
  st_global_pos :: nat

text \<open>The constructor throws \<^verbatim>\<open>std::invalid_argument\<close> on a null chain.\<close>

definition stream_of :: "chain \<Rightarrow> stream option" where
  "stream_of chain = (case chain of [] \<Rightarrow> None
     | b # bs \<Rightarrow> Some \<lparr>st_cur = b, st_next = bs, st_global_pos = 0\<rparr>)"

definition advance_buffer :: "stream \<Rightarrow> stream option" where
  "advance_buffer s = (case st_next s of [] \<Rightarrow> None
     | b # bs \<Rightarrow> Some (s\<lparr>st_cur := b, st_next := bs\<rparr>))"

definition eof :: "stream \<Rightarrow> bool" where
  "eof s \<longleftrightarrow> st_cur s = [] \<and> st_next s = []"

text \<open>Moving to the next buffer when the current one is exhausted, once, as the code does.\<close>

definition settle :: "stream \<Rightarrow> stream option" where
  "settle s = (if st_cur s = [] then advance_buffer s else Some s)"

definition peek :: "stream \<Rightarrow> (byte \<times> stream) option" where
  "peek s = settle s \<bind> (\<lambda>s1. case st_cur s1 of [] \<Rightarrow> None | c # _ \<Rightarrow> Some (c, s1))"

definition read :: "stream \<Rightarrow> (byte \<times> stream) option" where
  "read s = settle s \<bind> (\<lambda>s1. case st_cur s1 of [] \<Rightarrow> None
     | c # cs \<Rightarrow> Some (c, s1\<lparr>st_cur := cs, st_global_pos := st_global_pos s1 + 1\<rparr>))"

text \<open>\<^verbatim>\<open>read(buffer, buf_size)\<close>: it skips empty buffers and does not move the global position.\<close>

function read_buf :: "nat \<Rightarrow> stream \<Rightarrow> bytes \<times> stream" where
  "read_buf n s =
     (if n = 0 then ([], s)
      else if st_cur s = [] then
        (case advance_buffer s of None \<Rightarrow> ([], s) | Some s1 \<Rightarrow> read_buf n s1)
      else
        let read_now = min (length (st_cur s)) n;
            (bs, s') = read_buf (n - read_now) (s\<lparr>st_cur := drop read_now (st_cur s)\<rparr>)
        in (take read_now (st_cur s) @ bs, s'))"
  by pat_completeness auto
termination
  by (relation "measure (\<lambda>(n, s). n + length (st_next s))")
    (auto simp: advance_buffer_def split: list.splits)

declare read_buf.simps [simp del]

text \<open>\<^verbatim>\<open>read_until\<close>: at most \<open>n\<close> bytes, up to the delimiter, which is included.\<close>

fun read_until :: "nat \<Rightarrow> byte \<Rightarrow> stream \<Rightarrow> (bytes \<times> stream) option" where
  "read_until 0 delim s = Some ([], s)"
| "read_until (Suc n) delim s =
     (if eof s then Some ([], s)
      else read s \<bind> (\<lambda>(ch, s1).
             if ch = delim then Some ([ch], s1)
             else read_until n delim s1 \<bind> (\<lambda>(bs, s2). Some (ch # bs, s2))))"

definition stream_minus :: "stream \<Rightarrow> stream \<Rightarrow> nat" where
  "stream_minus s t = st_global_pos s - st_global_pos t"

section \<open>RapidNgxChainInputStream\<close>

record rstream =
  rs_cur :: bytes
  rs_next :: chain
  rs_read :: nat
  rs_limit :: nat

definition rstream_of :: "chain \<Rightarrow> nat \<Rightarrow> rstream option" where
  "rstream_of chain limit = (case chain of [] \<Rightarrow> None
     | b # bs \<Rightarrow> Some \<lparr>rs_cur = b, rs_next = bs, rs_read = 0, rs_limit = limit\<rparr>)"

definition rs_advance :: "rstream \<Rightarrow> rstream option" where
  "rs_advance s =
     (if rs_limit s \<le> rs_read s then None
      else case rs_next s of [] \<Rightarrow> None | b # bs \<Rightarrow> Some (s\<lparr>rs_cur := b, rs_next := bs\<rparr>))"

text \<open>\<^verbatim>\<open>make_readable\<close> advances until there is a byte; \<^const>\<open>None\<close> is its false.\<close>

function make_readable :: "rstream \<Rightarrow> rstream option" where
  "make_readable s =
     (if rs_cur s \<noteq> [] then Some s
      else case rs_advance s of None \<Rightarrow> None | Some s1 \<Rightarrow> make_readable s1)"
  by pat_completeness auto
termination
  by (relation "measure (\<lambda>s. length (rs_next s))")
    (auto simp: rs_advance_def split: list.splits if_splits)

declare make_readable.simps [simp del]

definition rs_peek :: "rstream \<Rightarrow> byte" where
  "rs_peek s = (case make_readable s of None \<Rightarrow> NUL | Some s1 \<Rightarrow> hd (rs_cur s1))"

definition rs_take :: "rstream \<Rightarrow> byte \<times> rstream" where
  "rs_take s = (case make_readable s of None \<Rightarrow> (NUL, s)
     | Some s1 \<Rightarrow> (hd (rs_cur s1), s1\<lparr>rs_cur := tl (rs_cur s1), rs_read := rs_read s1 + 1\<rparr>))"

definition rs_tell :: "rstream \<Rightarrow> nat" where
  "rs_tell s = rs_read s"

section \<open>The byte source interface\<close>

text \<open>Reading \<open>n\<close> bytes one at a time, stopping early at the end.\<close>

primrec read_n :: "('s \<Rightarrow> bool) \<Rightarrow> ('s \<Rightarrow> (byte \<times> 's) option) \<Rightarrow> nat \<Rightarrow> 's \<Rightarrow> (bytes \<times> 's) option" where
  "read_n at_end get 0 s = Some ([], s)"
| "read_n at_end get (Suc n) s =
     (if at_end s then Some ([], s)
      else get s \<bind> (\<lambda>(c, s1). read_n at_end get n s1 \<bind> (\<lambda>(cs, s2). Some (c # cs, s2))))"

locale byte_source =
  fixes at_end :: "'s \<Rightarrow> bool"
    and get :: "'s \<Rightarrow> (byte \<times> 's) option"
    and abs :: "'s \<Rightarrow> bytes"
    and invar :: "'s \<Rightarrow> bool"
  assumes at_end_iff: "invar s \<Longrightarrow> at_end s \<longleftrightarrow> abs s = []"
    and get_Cons: "invar s \<Longrightarrow> abs s = c # cs \<Longrightarrow> \<exists>s'. get s = Some (c, s') \<and> abs s' = cs \<and> invar s'"
begin

lemma getE:
  assumes "invar s" and "\<not> at_end s"
  obtains c cs s' where "abs s = c # cs" and "get s = Some (c, s')" and "abs s' = cs" and "invar s'"
proof -
  from assms obtain c cs where a: "abs s = c # cs"
    by (cases "abs s") (auto simp: at_end_iff)
  from get_Cons [OF assms(1) a] that a show thesis by blast
qed

lemma read_n_spec:
  "invar s \<Longrightarrow> \<exists>s'. read_n at_end get n s = Some (take n (abs s), s') \<and> abs s' = drop n (abs s) \<and> invar s'"
proof (induction n arbitrary: s)
  case (Suc n)
  show ?case
  proof (cases "at_end s")
    case True
    with Suc.prems show ?thesis by (simp add: at_end_iff)
  next
    case False
    from getE [OF Suc.prems False] obtain c cs s1
      where a: "abs s = c # cs" "get s = Some (c, s1)" "abs s1 = cs" "invar s1" .
    from Suc.IH [OF a(4)] show ?thesis using a False by auto
  qed
qed simp

end

section \<open>NgxChainInputStream is a byte source\<close>

text \<open>
  The chain streams agree with their concatenation as long as no buffer after the current one
  is empty.
\<close>

definition st_abs :: "stream \<Rightarrow> bytes" where
  "st_abs s = st_cur s @ concat (st_next s)"

definition st_wf :: "stream \<Rightarrow> bool" where
  "st_wf s \<longleftrightarrow> [] \<notin> set (st_next s)"

lemma eof_iff: "st_wf s \<Longrightarrow> eof s \<longleftrightarrow> st_abs s = []"
  by (cases "st_next s") (auto simp: eof_def st_abs_def st_wf_def)

lemma read_Cons:
  assumes "st_wf s" and "st_abs s = c # cs"
  shows "\<exists>s'. read s = Some (c, s') \<and> st_abs s' = cs \<and> st_wf s'"
proof (cases "st_cur s")
  case Nil
  with assms obtain b bs where "st_next s = b # bs" and "b \<noteq> []"
    by (cases "st_next s") (auto simp: st_abs_def st_wf_def)
  with assms Nil show ?thesis
    by (cases b) (auto simp: read_def settle_def advance_buffer_def st_abs_def st_wf_def)
next
  case (Cons c' cs')
  with assms show ?thesis by (auto simp: read_def settle_def st_abs_def st_wf_def)
qed

interpretation ngx_stream: byte_source eof read st_abs st_wf
  by unfold_locales (auto simp: eof_iff intro: read_Cons)

lemma peek_Cons:
  assumes "st_wf s" and "st_abs s = c # cs"
  shows "\<exists>s'. peek s = Some (c, s') \<and> st_abs s' = c # cs \<and> st_wf s'"
proof (cases "st_cur s")
  case Nil
  with assms obtain b bs where "st_next s = b # bs" and "b \<noteq> []"
    by (cases "st_next s") (auto simp: st_abs_def st_wf_def)
  with assms Nil show ?thesis
    by (cases b) (auto simp: peek_def settle_def advance_buffer_def st_abs_def st_wf_def)
next
  case (Cons c' cs')
  with assms show ?thesis by (auto simp: peek_def settle_def st_abs_def st_wf_def)
qed

text \<open>The measure of every loop over a stream: unread bytes and buffers.\<close>

definition st_size :: "stream \<Rightarrow> nat" where
  "st_size s = length (st_abs s) + length (st_next s)"

lemma settle_size: "settle s = Some s' \<Longrightarrow> st_size s' \<le> st_size s"
  by (auto simp: settle_def advance_buffer_def st_size_def st_abs_def split: if_splits list.splits)

lemma read_size: "read s = Some (c, s') \<Longrightarrow> st_size s' < st_size s"
  by (auto simp: read_def st_size_def st_abs_def split: bind_splits list.splits dest!: settle_size)

lemma peek_size: "peek s = Some (c, s') \<Longrightarrow> st_size s' \<le> st_size s"
  by (auto simp: peek_def split: bind_splits list.splits dest: settle_size)

text \<open>How many bytes \<^verbatim>\<open>read_until\<close> takes from a byte list.\<close>

definition until_len :: "nat \<Rightarrow> byte \<Rightarrow> bytes \<Rightarrow> nat" where
  "until_len n delim l = min n (case find_char delim l of None \<Rightarrow> length l | Some i \<Rightarrow> Suc i)"

lemma until_len_simps [simp]:
  "until_len 0 delim l = 0" "until_len n delim [] = 0"
  "until_len (Suc n) delim (c # l) = (if c = delim then 1 else Suc (until_len n delim l))"
  by (auto simp: until_len_def split: option.splits)

lemma read_until_spec:
  "st_wf s \<Longrightarrow> \<exists>s'. read_until n delim s = Some (take (until_len n delim (st_abs s)) (st_abs s), s')
     \<and> st_abs s' = drop (until_len n delim (st_abs s)) (st_abs s) \<and> st_wf s'"
proof (induction n arbitrary: s)
  case (Suc n)
  show ?case
  proof (cases "eof s")
    case True
    with Suc.prems show ?thesis by (simp add: eof_iff)
  next
    case False
    from ngx_stream.getE [OF Suc.prems False] obtain c cs s1
      where a: "st_abs s = c # cs" "read s = Some (c, s1)" "st_abs s1 = cs" "st_wf s1" .
    from Suc.IH [OF a(4)] show ?thesis using a False by auto
  qed
qed simp

lemma advance_buffer_abs:
  "st_cur s = [] \<Longrightarrow> advance_buffer s = Some s' \<Longrightarrow> st_abs s' = st_abs s \<and> (st_wf s \<longrightarrow> st_wf s')"
  by (auto simp: advance_buffer_def st_abs_def st_wf_def split: list.splits)

text \<open>The bulk read needs no assumption on the buffers: its loop skips the empty ones.\<close>

lemma read_buf_spec:
  "read_buf n s = (bs, s') \<Longrightarrow>
     bs = take n (st_abs s) \<and> st_abs s' = drop n (st_abs s) \<and> (st_wf s \<longrightarrow> st_wf s')"
proof (induction n s arbitrary: bs s' rule: read_buf.induct)
  case (1 n s)
  consider (zero) "n = 0" | (adv) "n \<noteq> 0" "st_cur s = []" | (copy) "n \<noteq> 0" "st_cur s \<noteq> []" by blast
  then show ?case
  proof cases
    case zero
    with "1.prems" show ?thesis by (simp add: read_buf.simps)
  next
    case adv
    show ?thesis
    proof (cases "advance_buffer s")
      case None
      with adv "1.prems" have "bs = []" "s' = s" and "st_next s = []"
        by (auto simp: read_buf.simps [of n s] advance_buffer_def split: list.splits)
      with adv show ?thesis by (simp add: st_abs_def)
    next
      case (Some s1)
      with adv "1.prems" have "read_buf n s1 = (bs, s')" by (simp add: read_buf.simps [of n s])
      with "1.IH"(1) [OF adv Some] advance_buffer_abs [OF adv(2) Some] show ?thesis by auto
    qed
  next
    case copy
    let ?k = "min (length (st_cur s)) n" and ?s1 = "s\<lparr>st_cur := drop (min (length (st_cur s)) n) (st_cur s)\<rparr>"
    obtain bs1 where r: "read_buf (n - ?k) ?s1 = (bs1, s')" and bs: "bs = take ?k (st_cur s) @ bs1"
      using copy "1.prems" by (auto simp: read_buf.simps [of n s] Let_def split: prod.splits)
    have "bs1 = take (n - ?k) (st_abs ?s1) \<and> st_abs s' = drop (n - ?k) (st_abs ?s1)
        \<and> (st_wf ?s1 \<longrightarrow> st_wf s')"
      using "1.IH"(2) [OF copy refl r] by auto
    then show ?thesis
      using bs by (auto simp: st_abs_def st_wf_def min_def)
  qed
qed

section \<open>RapidNgxChainInputStream is a byte source\<close>

text \<open>
  What the JSON reader can see: the current buffer, and each later buffer as long as fewer
  than \<open>limit\<close> bytes were read when it is entered.
\<close>

fun visible :: "bytes \<Rightarrow> chain \<Rightarrow> nat \<Rightarrow> nat \<Rightarrow> bytes" where
  "visible cur [] r l = cur"
| "visible cur (b # bs) r l = cur @ (if l \<le> r + length cur then [] else visible b bs (r + length cur) l)"

definition rs_abs :: "rstream \<Rightarrow> bytes" where
  "rs_abs s = visible (rs_cur s) (rs_next s) (rs_read s) (rs_limit s)"

definition rs_eof :: "rstream \<Rightarrow> bool" where
  "rs_eof s \<longleftrightarrow> make_readable s = None"

definition rs_get :: "rstream \<Rightarrow> (byte \<times> rstream) option" where
  "rs_get s = (if rs_eof s then None else Some (rs_take s))"

lemma make_readable_abs:
  "case make_readable s of None \<Rightarrow> rs_abs s = [] | Some s1 \<Rightarrow> rs_abs s1 = rs_abs s \<and> rs_cur s1 \<noteq> []"
proof (induction s rule: make_readable.induct)
  case (1 s)
  show ?case
  proof (cases "rs_cur s = []")
    case True
    show ?thesis
    proof (cases "rs_advance s")
      case None
      with True show ?thesis
        by (cases "rs_next s") (auto simp: make_readable.simps [of s] rs_abs_def rs_advance_def split: if_splits)
    next
      case (Some s1)
      with True have "rs_abs s1 = rs_abs s"
        by (auto simp: rs_abs_def rs_advance_def split: if_splits list.splits)
      with 1 True Some show ?thesis by (simp add: make_readable.simps [of s] split: option.splits)
    qed
  qed (simp add: make_readable.simps [of s])
qed

lemma visible_tl: "cur \<noteq> [] \<Longrightarrow> visible cur bs r l = hd cur # visible (tl cur) bs (r + 1) l"
  by (cases cur; cases bs) auto

interpretation rapid_stream: byte_source rs_eof rs_get rs_abs "\<lambda>_. True"
proof (unfold_locales, goal_cases)
  case (1 s)
  from make_readable_abs [of s] show ?case
    by (cases "rs_next (the (make_readable s))") (auto simp: rs_eof_def rs_abs_def split: option.splits)
next
  case (2 s c cs)
  with make_readable_abs [of s] obtain s1
    where m: "make_readable s = Some s1" "rs_abs s1 = c # cs" "rs_cur s1 \<noteq> []"
    by (cases "make_readable s") auto
  then show ?case
    by (auto simp: rs_get_def rs_eof_def rs_take_def rs_abs_def visible_tl)
qed

lemma rs_peek_abs: "rs_peek s = (case rs_abs s of [] \<Rightarrow> NUL | c # _ \<Rightarrow> c)"
proof (cases "make_readable s")
  case (Some s1)
  with make_readable_abs [of s] have "rs_abs s = hd (rs_cur s1) # visible (tl (rs_cur s1))
      (rs_next s1) (rs_read s1 + 1) (rs_limit s1)"
    using visible_tl [of "rs_cur s1" "rs_next s1" "rs_read s1" "rs_limit s1"] by (simp add: rs_abs_def)
  with Some show ?thesis by (simp add: rs_peek_def)
qed (use make_readable_abs [of s] in \<open>simp add: rs_peek_def\<close>)

lemma visible_limit: "take (l - r) (cur @ concat bs) = take (l - r) (visible cur bs r l)"
proof (induction cur bs r l rule: visible.induct)
  case (2 cur b bs r l)
  then show ?case by (cases "l \<le> r + length cur") (auto simp: add.commute)
qed simp

section \<open>Properties\<close>

text \<open>
  Reading from a chain in which no buffer after the first is empty returns the concatenation
  of its buffers, byte by byte, by \<^verbatim>\<open>read_until\<close> and in bulk alike, and \<^verbatim>\<open>eof\<close> holds exactly when
  every byte was read: the way the body was cut into buffers is invisible to a parser.
\<close>

theorem chain_reads_concatenation:
  assumes "stream_of (b # bs) = Some s" and "[] \<notin> set bs"
  shows "(\<exists>s'. read_n eof read n s = Some (take n (concat (b # bs)), s')
            \<and> (eof s' \<longleftrightarrow> length (concat (b # bs)) \<le> n))
    \<and> fst (read_buf n s) = take n (concat (b # bs))
    \<and> (\<exists>s'. read_until n delim s
          = Some (take (until_len n delim (concat (b # bs))) (concat (b # bs)), s'))"
proof -
  have wf: "st_wf s" and abs: "st_abs s = concat (b # bs)"
    using assms by (auto simp: stream_of_def st_wf_def st_abs_def)
  from ngx_stream.read_n_spec [OF wf, of n] obtain s'
    where "read_n eof read n s = Some (take n (st_abs s), s')" "st_abs s' = drop n (st_abs s)" "st_wf s'"
    by blast
  with abs have 1: "\<exists>s'. read_n eof read n s = Some (take n (concat (b # bs)), s')
      \<and> (eof s' \<longleftrightarrow> length (concat (b # bs)) \<le> n)"
    by (auto simp: eof_iff)
  have 2: "fst (read_buf n s) = take n (concat (b # bs))"
    using read_buf_spec [of n s] abs by (metis prod.collapse)
  from 1 2 read_until_spec [OF wf, of n delim] abs show ?thesis by auto
qed

theorem chain_reads_concatenation_witness:
  "\<exists>s. stream_of [''a'', ''bc''] = Some s \<and> fst (read_buf 2 s) = ''ab''"
  using chain_reads_concatenation [of "''a''" "[''bc'']" _ 2 LF]
  by (auto simp: stream_of_def)

text \<open>
  An empty buffer after the first breaks this: \<^verbatim>\<open>eof\<close> answers no while \<^verbatim>\<open>read\<close> and \<^verbatim>\<open>operator*\<close>
  have no byte to return and run past the end of the empty buffer. The JSON stream and the bulk
  read skip such buffers.
\<close>

theorem empty_buffer_out_of_bounds:
  "stream_of [b, []] = Some s \<Longrightarrow>
     (\<exists>s'. read_n eof read (length b) s = Some (b, s') \<and> \<not> eof s' \<and> read s' = None \<and> peek s' = None)"
proof -
  assume s: "stream_of [b, []] = Some s"
  have "\<exists>g'. read_n eof read (length b) \<lparr>st_cur = b, st_next = [[]], st_global_pos = g\<rparr>
      = Some (b, \<lparr>st_cur = [], st_next = [[]], st_global_pos = g'\<rparr>)" for g
  proof (induction b arbitrary: g)
    case (Cons a b)
    from Cons.IH [of "Suc g"] show ?case by (auto simp: eof_def read_def settle_def)
  qed simp
  from this [of 0] s show ?thesis
    by (auto simp: stream_of_def eof_def read_def peek_def settle_def advance_buffer_def)
qed

theorem empty_buffer_out_of_bounds_witness:
  "\<exists>s s'. stream_of [''{}'', []] = Some s
     \<and> read_n eof read (length ''{}'') s = Some (''{}'', s') \<and> \<not> eof s' \<and> read s' = None"
proof -
  obtain s where s: "stream_of [''{}'', []] = Some s" by (simp add: stream_of_def)
  from empty_buffer_out_of_bounds [OF s] s show ?thesis by blast
qed

text \<open>
  The JSON stream delivers at least the first \<open>limit\<close> bytes of the chain and then zero bytes
  for ever, but the limit is tested only when a buffer is entered: a chain of one buffer is
  delivered whole, however small the limit.
\<close>

theorem json_stream_limit:
  "rstream_of (b # bs) limit = Some s \<Longrightarrow>
     take limit (rs_abs s) = take limit (concat (b # bs))
     \<and> (\<exists>s'. read_n rs_eof rs_get n s = Some (take n (rs_abs s), s')
          \<and> (length (rs_abs s) \<le> n \<longrightarrow> rs_peek s' = NUL \<and> fst (rs_take s') = NUL))
     \<and> (bs = [] \<longrightarrow> rs_abs s = b)"
proof -
  assume s: "rstream_of (b # bs) limit = Some s"
  have 1: "take limit (rs_abs s) = take limit (concat (b # bs))"
    using s visible_limit [of limit 0 b bs] by (auto simp: rstream_of_def rs_abs_def)
  from rapid_stream.read_n_spec [of n s] obtain s'
    where r: "read_n rs_eof rs_get n s = Some (take n (rs_abs s), s')" "rs_abs s' = drop n (rs_abs s)"
    by blast
  have "length (rs_abs s) \<le> n \<longrightarrow> rs_peek s' = NUL \<and> fst (rs_take s') = NUL"
  proof
    assume "length (rs_abs s) \<le> n"
    with r(2) have "rs_abs s' = []" by simp
    then show "rs_peek s' = NUL \<and> fst (rs_take s') = NUL"
      using rapid_stream.at_end_iff [of s'] by (simp add: rs_peek_abs rs_take_def rs_eof_def)
  qed
  with 1 r s show ?thesis by (auto simp: rstream_of_def rs_abs_def)
qed

theorem json_stream_limit_witness:
  "\<exists>s. rstream_of [''[1,2]''] 2 = Some s \<and> rs_abs s = ''[1,2]''"
  using json_stream_limit [of "''[1,2]''" "[]" 2 _ 0] by (auto simp: rstream_of_def)

end
