(* ===== verification/Ddwaf_Obj.thy ===== *)
theory Ddwaf_Obj
  imports Prelude Complex_Main
begin

text \<open>
  libddwaf objects: \<^verbatim>\<open>src/security/ddwaf_obj.h\<close> and \<^verbatim>\<open>src/security/ddwaf_obj.cpp\<close>. An object is a
  tree; the memory of arrays, maps and strings is the arena of \<open>Memres\<close>. Keys belong to the
  entries of maps. A finite double is the rational it denotes.
\<close>

section \<open>Objects\<close>

datatype exn = Out_of_range | Invalid_argument | Runtime_error | Logic_error

datatype f64 = Fin rat | PInf | NInf | NaN

datatype ddwaf_obj =
    Obj_invalid
  | Obj_signed "64 word"
  | Obj_unsigned "64 word"
  | Obj_string bytes
  | Obj_array "ddwaf_obj list"
  | Obj_map "(bytes \<times> ddwaf_obj) list"
  | Obj_bool bool
  | Obj_float f64
  | Obj_null

fun is_numeric :: "ddwaf_obj \<Rightarrow> bool" where
  "is_numeric (Obj_signed _) = True"
| "is_numeric (Obj_unsigned _) = True"
| "is_numeric (Obj_float _) = True"
| "is_numeric _ = False"

fun is_bool :: "ddwaf_obj \<Rightarrow> bool" where
  "is_bool (Obj_bool _) = True"
| "is_bool _ = False"

fun is_string :: "ddwaf_obj \<Rightarrow> bool" where
  "is_string (Obj_string _) = True"
| "is_string _ = False"

text \<open>The checked conversions of the constructors of \<^verbatim>\<open>ddwaf_map_obj\<close> and \<^verbatim>\<open>ddwaf_arr_obj\<close>.\<close>

fun as_map :: "ddwaf_obj \<Rightarrow> exn + (bytes \<times> ddwaf_obj) list" where
  "as_map (Obj_map es) = Inr es"
| "as_map _ = Inl Invalid_argument"

fun as_array :: "ddwaf_obj \<Rightarrow> exn + ddwaf_obj list" where
  "as_array (Obj_array es) = Inr es"
| "as_array _ = Inl Invalid_argument"

text \<open>\<^verbatim>\<open>get\<close> and \<^verbatim>\<open>get_opt\<close> of a map: the first entry with the key.\<close>

fun get_opt :: "(bytes \<times> ddwaf_obj) list \<Rightarrow> bytes \<Rightarrow> ddwaf_obj option" where
  "get_opt [] key = None"
| "get_opt ((k, v) # es) key = (if k = key then Some v else get_opt es key)"

definition map_get :: "(bytes \<times> ddwaf_obj) list \<Rightarrow> bytes \<Rightarrow> exn + ddwaf_obj" where
  "map_get es key = (case get_opt es key of Some v \<Rightarrow> Inr v | None \<Rightarrow> Inl Out_of_range)"

definition arr_at :: "ddwaf_obj list \<Rightarrow> nat \<Rightarrow> exn + ddwaf_obj" where
  "arr_at es i = (if length es \<le> i then Inl Out_of_range else Inr (es ! i))"

section \<open>Numeric values\<close>

text \<open>The integral target types of \<^verbatim>\<open>numeric_val\<close>.\<close>

datatype int_type = T_int32 | T_int64 | T_uint32 | T_uint64

fun type_min :: "int_type \<Rightarrow> int" where
  "type_min T_int32 = - (2 ^ 31)"
| "type_min T_int64 = - (2 ^ 63)"
| "type_min T_uint32 = 0"
| "type_min T_uint64 = 0"

fun type_max :: "int_type \<Rightarrow> int" where
  "type_max T_int32 = 2 ^ 31 - 1"
| "type_max T_int64 = 2 ^ 63 - 1"
| "type_max T_uint32 = 2 ^ 32 - 1"
| "type_max T_uint64 = 2 ^ 64 - 1"

text \<open>
  \<^verbatim>\<open>adjusted_max\<close>: the maximum as a double. The maximum of \<^verbatim>\<open>uint64_t\<close> is not representable and
  rounds up to \<open>2 ^ 64\<close>.
\<close>

fun adjusted_max :: "int_type \<Rightarrow> rat" where
  "adjusted_max T_int64 = 9223372036854774784"
| "adjusted_max T_uint64 = 2 ^ 64"
| "adjusted_max T = of_int (type_max T)"

text \<open>Conversion of a finite double to an integer truncates towards zero.\<close>

definition trunc :: "rat \<Rightarrow> int" where
  "trunc q = (if 0 \<le> q then \<lfloor>q\<rfloor> else \<lceil>q\<rceil>)"

text \<open>The result of converting a NaN is undefined behaviour.\<close>

datatype 'a num_result = Num_ok 'a | Num_exn exn | Num_undefined

fun float_val :: "int_type \<Rightarrow> f64 \<Rightarrow> int num_result" where
  "float_val T (Fin q) =
     (if q < of_int (type_min T) \<or> adjusted_max T < q then Num_exn Out_of_range
      else if trunc q < type_min T \<or> type_max T < trunc q then Num_undefined
      else Num_ok (trunc q))"
| "float_val T PInf = Num_exn Out_of_range"
| "float_val T NInf = Num_exn Out_of_range"
| "float_val T NaN = Num_undefined"

fun numeric_val :: "int_type \<Rightarrow> ddwaf_obj \<Rightarrow> int num_result" where
  "numeric_val T (Obj_signed w) =
     (if sint w < type_min T \<or> type_max T < sint w then Num_exn Out_of_range else Num_ok (sint w))"
| "numeric_val T (Obj_unsigned w) =
     (if type_max T < uint w then Num_exn Out_of_range else Num_ok (uint w))"
| "numeric_val T (Obj_float d) = float_val T d"
| "numeric_val T _ = Num_exn Invalid_argument"

text \<open>Conversion of an integer to a double: round to nearest, ties to even.\<close>

fun bit_length :: "nat \<Rightarrow> nat" where
  "bit_length n = (if n = 0 then 0 else Suc (bit_length (n div 2)))"

declare bit_length.simps [simp del]

definition round_nat :: "nat \<Rightarrow> nat" where
  "round_nat n =
     (let k = bit_length n - 53; q = n div 2 ^ k; r = n mod 2 ^ k
      in (if 2 ^ k < 2 * r \<or> (2 * r = 2 ^ k \<and> odd q) then q + 1 else q) * 2 ^ k)"

definition f64_of_int :: "int \<Rightarrow> f64" where
  "f64_of_int i = Fin (of_int (sgn i) * of_nat (round_nat (nat \<bar>i\<bar>)))"

text \<open>
  \<^verbatim>\<open>numeric_val<double>\<close>: the minimum it compares with is \<^verbatim>\<open>std::numeric_limits<double>::min()\<close>, the
  smallest positive normal number.
\<close>

definition dbl_min :: rat where
  "dbl_min = 1 / 2 ^ 1022"

fun f64_less_min :: "f64 \<Rightarrow> bool" where
  "f64_less_min (Fin q) \<longleftrightarrow> q < dbl_min"
| "f64_less_min NInf \<longleftrightarrow> True"
| "f64_less_min _ \<longleftrightarrow> False"

fun numeric_val_double :: "ddwaf_obj \<Rightarrow> exn + f64" where
  "numeric_val_double (Obj_signed w) =
     (if f64_less_min (f64_of_int (sint w)) then Inl Out_of_range else Inr (f64_of_int (sint w)))"
| "numeric_val_double (Obj_unsigned w) = Inr (f64_of_int (uint w))"
| "numeric_val_double (Obj_float d) =
     (if f64_less_min d \<or> d = PInf then Inl Out_of_range else Inr d)"
| "numeric_val_double _ = Inl Invalid_argument"

section \<open>From JSON documents\<close>

text \<open>
  The values of a rapidjson document. A number is an integer in the range of \<^verbatim>\<open>int64_t\<close> or
  \<^verbatim>\<open>uint64_t\<close>, or a double.
\<close>

datatype json =
    JNull
  | JBool bool
  | JInt int
  | JDouble f64
  | JString bytes
  | JArray "json list"
  | JObject "(bytes \<times> json) list"

definition is_int64 :: "int \<Rightarrow> bool" where
  "is_int64 i \<longleftrightarrow> - (2 ^ 63) \<le> i \<and> i < 2 ^ 63"

definition is_uint64 :: "int \<Rightarrow> bool" where
  "is_uint64 i \<longleftrightarrow> 0 \<le> i \<and> i < 2 ^ 64"

text \<open>The key is read as a C string, so that it ends at the first NUL.\<close>

definition c_string :: "bytes \<Rightarrow> bytes" where
  "c_string s = takeWhile (\<lambda>c. c \<noteq> NUL) s"

fun json_to_obj_impl :: "int \<Rightarrow> json \<Rightarrow> exn + ddwaf_obj"
  and json_members :: "int \<Rightarrow> (bytes \<times> json) list \<Rightarrow> exn + (bytes \<times> ddwaf_obj) list"
  and json_elems :: "int \<Rightarrow> json list \<Rightarrow> exn + ddwaf_obj list"
where
  "json_to_obj_impl max_depth doc =
     (if max_depth = 0 then Inl Runtime_error
      else case doc of
        JBool b \<Rightarrow> Inr (Obj_bool b)
      | JObject ms \<Rightarrow> (case json_members (max_depth - 1) ms of Inl e \<Rightarrow> Inl e | Inr es \<Rightarrow> Inr (Obj_map es))
      | JArray vs \<Rightarrow> (case json_elems (max_depth - 1) vs of Inl e \<Rightarrow> Inl e | Inr es \<Rightarrow> Inr (Obj_array es))
      | JString s \<Rightarrow> Inr (Obj_string s)
      | JInt i \<Rightarrow>
          if is_int64 i then Inr (Obj_signed (word_of_int i))
          else if is_uint64 i then Inr (Obj_unsigned (word_of_int i))
          else Inl Runtime_error
      | JDouble d \<Rightarrow> Inr (Obj_float d)
      | JNull \<Rightarrow> Inr Obj_null)"
| "json_members d [] = Inr []"
| "json_members d ((k, v) # ms) =
     (case json_to_obj_impl d v of Inl e \<Rightarrow> Inl e
      | Inr o1 \<Rightarrow> (case json_members d ms of Inl e \<Rightarrow> Inl e | Inr os \<Rightarrow> Inr ((c_string k, o1) # os)))"
| "json_elems d [] = Inr []"
| "json_elems d (v # vs) =
     (case json_to_obj_impl d v of Inl e \<Rightarrow> Inl e
      | Inr o1 \<Rightarrow> (case json_elems d vs of Inl e \<Rightarrow> Inl e | Inr os \<Rightarrow> Inr (o1 # os)))"

declare json_to_obj_impl.simps [simp del]

definition json_to_object :: "json \<Rightarrow> int \<Rightarrow> exn + ddwaf_obj" where
  "json_to_object doc max_depth = json_to_obj_impl max_depth doc"

text \<open>\<^verbatim>\<open>deep_copy\<close>, by the type of the source.\<close>

fun deep_copy :: "ddwaf_obj \<Rightarrow> ddwaf_obj" where
  "deep_copy (Obj_map es) = Obj_map (map (\<lambda>(k, v). (k, deep_copy v)) es)"
| "deep_copy (Obj_array es) = Obj_array (map deep_copy es)"
| "deep_copy (Obj_string s) = Obj_string s"
| "deep_copy v = v"

section \<open>Properties\<close>

lemma bit_length_less: "n < 2 ^ bit_length n"
proof (induction n rule: bit_length.induct)
  case (1 n)
  show ?case
  proof (cases "n = 0")
    case False
    with 1 have "n div 2 < 2 ^ bit_length (n div 2)" by simp
    then have "n < 2 * 2 ^ bit_length (n div 2)" by linarith
    with False show ?thesis by (simp add: bit_length.simps [of n])
  qed (simp add: bit_length.simps)
qed

lemma bit_length_mono: "n < 2 ^ k \<Longrightarrow> bit_length n \<le> k"
proof (induction n arbitrary: k rule: bit_length.induct)
  case (1 n)
  show ?case
  proof (cases "n = 0")
    case False
    with 1(2) obtain k' where k: "k = Suc k'" by (cases k) auto
    with 1(2) have "n div 2 < 2 ^ k'" by simp
    with 1(1) False k show ?thesis by (simp add: bit_length.simps [of n])
  qed (simp add: bit_length.simps)
qed

lemma round_nat_exact: "n < 2 ^ 53 \<Longrightarrow> round_nat n = n"
  using bit_length_mono [of n 53] by (simp add: round_nat_def)

lemma round_nat_pos: "0 < n \<Longrightarrow> 0 < round_nat n"
proof -
  assume n: "0 < n"
  show ?thesis
  proof (cases "bit_length n \<le> 53")
    case True
    with n show ?thesis by (simp add: round_nat_def)
  next
    case False
    have "2 ^ (bit_length n - 53) \<le> n"
    proof (rule ccontr)
      assume "\<not> ?thesis"
      then have "bit_length n \<le> bit_length n - 53" by (intro bit_length_mono) simp
      with False show False by simp
    qed
    then have "0 < n div 2 ^ (bit_length n - 53)" by (simp add: div_greater_zero_iff)
    then show ?thesis by (simp add: round_nat_def Let_def)
  qed
qed

lemma dbl_min_bounds: "0 < dbl_min" "dbl_min \<le> 1"
  by (simp_all add: dbl_min_def)

lemma f64_less_min_int: "f64_less_min (f64_of_int i) \<longleftrightarrow> i \<le> 0"
proof -
  have "(of_nat (round_nat (nat \<bar>i\<bar>)) :: rat) \<ge> 1" if "i \<noteq> 0"
  proof -
    from that have "0 < round_nat (nat \<bar>i\<bar>)" by (intro round_nat_pos) simp
    then have "1 \<le> round_nat (nat \<bar>i\<bar>)" by simp
    then show ?thesis by (metis of_nat_1 of_nat_le_iff)
  qed
  then show ?thesis
    using dbl_min_bounds by (cases "i = 0"; cases "0 < i") (force simp: f64_of_int_def)+
qed

text \<open>
  Conversion of an object to an \<^verbatim>\<open>int\<close>: an integer result is in the range of the type and is
  the object's value, truncated for a float; every integral object in range is converted.
\<close>

theorem numeric_val_int_range:
  "(numeric_val T_int32 v = Num_ok n \<longrightarrow>
      - (2 ^ 31) \<le> n \<and> n < 2 ^ 31 \<and>
      (case v of Obj_signed w \<Rightarrow> n = sint w | Obj_unsigned w \<Rightarrow> n = uint w
       | Obj_float (Fin q) \<Rightarrow> n = trunc q | _ \<Rightarrow> False)) \<and>
   (v = Obj_signed w \<and> - (2 ^ 31) \<le> sint w \<and> sint w < 2 ^ 31 \<longrightarrow> numeric_val T_int32 v = Num_ok (sint w)) \<and>
   (numeric_val T_int32 v = Num_undefined \<longrightarrow> v = Obj_float NaN)"
proof (cases v)
  case (Obj_float d)
  show ?thesis
  proof (cases d)
    case (Fin q)
    have "- (2 ^ 31) \<le> trunc q \<and> trunc q \<le> 2 ^ 31 - 1"
      if "- (2 ^ 31) \<le> q" "q \<le> 2 ^ 31 - 1"
      using that by (auto simp: trunc_def floor_le_iff ceiling_le_iff le_floor_iff le_ceiling_iff)
    then show ?thesis using Obj_float Fin by (auto simp: not_less)
  qed (use Obj_float in auto)
next
  case (Obj_unsigned w)
  have "- 2147483648 \<le> uint w" by (rule order_trans [of _ 0]) simp_all
  with Obj_unsigned show ?thesis by auto
qed auto

theorem numeric_val_int_range_witness:
  "numeric_val T_int32 (Obj_signed 403) = Num_ok 403 \<and> (- (2 ^ 31) \<le> (403::int) \<and> (403::int) < 2 ^ 31)"
  using numeric_val_int_range [of "Obj_signed 403" 403 "403"] by simp

text \<open>
  Conversion to \<^verbatim>\<open>double\<close>: a positive integer is converted (exactly below \<open>2 ^ 53\<close>), but every
  signed integer or finite float that is zero or negative raises \<^verbatim>\<open>out_of_range\<close>, since the lower
  bound is the smallest positive double and not the lowest one.
\<close>

theorem numeric_val_double_nonpositive:
  "(sint w \<le> 0 \<longrightarrow> numeric_val_double (Obj_signed w) = Inl Out_of_range) \<and>
   (q \<le> 0 \<longrightarrow> numeric_val_double (Obj_float (Fin q)) = Inl Out_of_range) \<and>
   (0 < sint w \<and> sint w < 2 ^ 53 \<longrightarrow> numeric_val_double (Obj_signed w) = Inr (Fin (of_int (sint w))))"
proof -
  have "q < dbl_min" if "q \<le> 0" using that dbl_min_bounds by linarith
  moreover have "f64_of_int i = Fin (of_int i)" if "0 < i" "i < 2 ^ 53" for i
    using that round_nat_exact [of "nat i"] by (simp add: f64_of_int_def)
  moreover have "numeric_val_double (Obj_signed w)
      = (if sint w \<le> 0 then Inl Out_of_range else Inr (f64_of_int (sint w)))"
    by (simp add: f64_less_min_int)
  ultimately show ?thesis by (simp del: numeric_val_double.simps(1))
qed

theorem numeric_val_double_nonpositive_witness:
  "numeric_val_double (Obj_signed 0) = Inl Out_of_range \<and>
   numeric_val_double (Obj_float (Fin (- 1))) = Inl Out_of_range"
  using numeric_val_double_nonpositive [of 0 "- 1"] by simp

text \<open>The two conversions whose result C++ leaves undefined.\<close>

lemma numeric_val_undefined:
  "numeric_val T (Obj_float NaN) = Num_undefined"
  "numeric_val T_uint64 (Obj_float (Fin (2 ^ 64))) = Num_undefined"
  by (simp_all add: trunc_def)

fun json_depth :: "json \<Rightarrow> int" where
  "json_depth (JArray vs) = 1 + Max (insert 0 (set (map json_depth vs)))"
| "json_depth (JObject ms) = 1 + Max (insert 0 (set (map (\<lambda>(k, v). json_depth v) ms)))"
| "json_depth _ = 1"

fun json_number_ok :: "json \<Rightarrow> bool" where
  "json_number_ok (JInt i) = (is_int64 i \<or> is_uint64 i)"
| "json_number_ok (JArray vs) = (\<forall>v \<in> set vs. json_number_ok v)"
| "json_number_ok (JObject ms) = (\<forall>(k, v) \<in> set ms. json_number_ok v)"
| "json_number_ok _ = True"

fun obj_of_json :: "json \<Rightarrow> ddwaf_obj" where
  "obj_of_json JNull = Obj_null"
| "obj_of_json (JBool b) = Obj_bool b"
| "obj_of_json (JInt i) = (if is_int64 i then Obj_signed (word_of_int i) else Obj_unsigned (word_of_int i))"
| "obj_of_json (JDouble d) = Obj_float d"
| "obj_of_json (JString s) = Obj_string s"
| "obj_of_json (JArray vs) = Obj_array (map obj_of_json vs)"
| "obj_of_json (JObject ms) = Obj_map (map (\<lambda>(k, v). (c_string k, obj_of_json v)) ms)"

lemma json_depth_pos: "1 \<le> json_depth j"
  by (cases j) auto

lemma Suc_Max_le:
  "finite A \<Longrightarrow> 1 + Max (insert 0 (f ` A)) \<le> (d::int) \<longleftrightarrow> 1 \<le> d \<and> (\<forall>a \<in> A. f a < d)"
proof -
  assume "finite A"
  then have "Max (insert 0 (f ` A)) \<le> d - 1 \<longleftrightarrow> 0 \<le> d - 1 \<and> (\<forall>a \<in> A. f a \<le> d - 1)"
    by (simp add: Max_le_iff del: Max_insert)
  moreover have "1 + Max (insert 0 (f ` A)) \<le> d \<longleftrightarrow> Max (insert 0 (f ` A)) \<le> d - 1" by linarith
  ultimately show ?thesis by auto
qed

lemma json_to_obj_impl_spec:
  "0 \<le> d \<Longrightarrow> json_number_ok j \<Longrightarrow>
     json_to_obj_impl d j = (if json_depth j \<le> d then Inr (obj_of_json j) else Inl Runtime_error)"
  "0 \<le> d \<Longrightarrow> (\<forall>(k, v) \<in> set ms. json_number_ok v) \<Longrightarrow>
     json_members d ms = (if \<forall>(k, v) \<in> set ms. json_depth v \<le> d
       then Inr (map (\<lambda>(k, v). (c_string k, obj_of_json v)) ms) else Inl Runtime_error)"
  "0 \<le> d \<Longrightarrow> (\<forall>v \<in> set vs. json_number_ok v) \<Longrightarrow>
     json_elems d vs = (if \<forall>v \<in> set vs. json_depth v \<le> d
       then Inr (map obj_of_json vs) else Inl Runtime_error)"
proof (induction d j and d ms and d vs rule: json_to_obj_impl_json_members_json_elems.induct)
  case (1 d doc)
  have z: "\<not> json_depth doc \<le> 0" using json_depth_pos [of doc] by linarith
  show ?case
  proof (cases "d = 0")
    case True
    with z show ?thesis by (simp add: json_to_obj_impl.simps)
  next
    case False
    with 1 show ?thesis
      by (cases doc) (auto simp: json_to_obj_impl.simps Suc_Max_le case_prod_beta simp del: Max_insert)
  qed
qed auto

text \<open>
  \<^verbatim>\<open>json_to_object\<close> converts a document exactly when its nesting does not exceed the given
  depth, and raises an error otherwise. The tree keeps every value; a key is cut at its first
  NUL byte.
\<close>

theorem json_to_object_correct:
  assumes "0 \<le> max_depth" and "json_number_ok doc"
  shows "json_to_object doc max_depth =
     (if json_depth doc \<le> max_depth then Inr (obj_of_json doc) else Inl Runtime_error)"
  using json_to_obj_impl_spec(1) [OF assms] by (simp add: json_to_object_def)

theorem json_to_object_correct_witness:
  "json_to_object (JObject [(''a'', JArray [JInt 1])]) 3 = Inr (Obj_map [(''a'', Obj_array [Obj_signed 1])]) \<and>
   json_to_object (JObject [(''a'', JArray [JInt 1])]) 2 = Inl Runtime_error"
  using json_to_object_correct [of 3 "JObject [(''a'', JArray [JInt 1])]"]
    json_to_object_correct [of 2 "JObject [(''a'', JArray [JInt 1])]"]
  by (simp add: is_int64_def c_string_def)

lemma deep_copy_id: "deep_copy v = v"
proof (induction v)
  case (Obj_map es)
  then show ?case by (force intro!: map_idI)
qed (auto intro!: map_idI)

end
