(* ===== verification/Body_Json.thy ===== *)
theory Body_Json
  imports Chain_Stream Ddwaf_Obj
begin

text \<open>
  The JSON body parser: \<^verbatim>\<open>ToDdwafObjHandler\<close> and \<^verbatim>\<open>parse_json\<close> of
  \<^verbatim>\<open>src/security/body_parse/body_json.cpp\<close>. The handler receives the events of rapidjson's reader and
  builds an object with a stack of growing arrays, one per open container; on truncated input the
  containers that are still open are closed by \<^verbatim>\<open>finish\<close>. rapidjson's reader is a parameter: the
  events it emits for a stream, and whether it reports an error.

  \<^const>\<open>None\<close> is a failed assertion or an access outside an array or the stack.
\<close>

section \<open>The handler\<close>

datatype sax =
    Ev_Null
  | Ev_Bool bool
  | Ev_Int "32 word"
  | Ev_Uint "32 word"
  | Ev_Int64 "64 word"
  | Ev_Uint64 "64 word"
  | Ev_Double f64
  | Ev_String bytes
  | Ev_Key bytes
  | Ev_StartObject
  | Ev_EndObject nat
  | Ev_StartArray
  | Ev_EndArray nat

type_synonym entry = "bytes \<times> ddwaf_obj"

text \<open>A zero-initialised object, as the pool hands out.\<close>

definition zero_entry :: entry where
  "zero_entry = ([], Obj_invalid)"

record jbuf =
  jb_arr :: "entry list"
  jb_len :: nat
  jb_key_last :: bool

abbreviation jb_cap :: "jbuf \<Rightarrow> nat" where
  "jb_cap b \<equiv> length (jb_arr b)"

definition cur_obj :: "jbuf \<Rightarrow> entry option" where
  "cur_obj b = (if 0 < jb_len b \<and> jb_len b \<le> jb_cap b then Some (jb_arr b ! (jb_len b - 1)) else None)"

definition set_cur :: "entry \<Rightarrow> jbuf \<Rightarrow> jbuf option" where
  "set_cur e b = (if 0 < jb_len b \<and> jb_len b \<le> jb_cap b
     then Some (b\<lparr>jb_arr := (jb_arr b)[jb_len b - 1 := e]\<rparr>) else None)"

text \<open>The constructor: the bottom of the stack is the caller's slot. The head of the list is the top.\<close>

definition handler_init :: "entry \<Rightarrow> jbuf list" where
  "handler_init slot = [\<lparr>jb_arr = [slot], jb_len = 0, jb_key_last = False\<rparr>]"

definition empty_buf :: jbuf where
  "empty_buf = \<lparr>jb_arr = [], jb_len = 0, jb_key_last = False\<rparr>"

text \<open>\<^verbatim>\<open>do_get_slot\<close>: the buffer in which the slot to be written is the current object.\<close>

definition do_get_slot :: "bool \<Rightarrow> jbuf \<Rightarrow> jbuf option" where
  "do_get_slot for_key b =
     (if for_key \<and> jb_key_last b then None
      else if jb_key_last b then Some (b\<lparr>jb_key_last := False\<rparr>)
      else
        let b1 = (if for_key then b\<lparr>jb_key_last := True\<rparr> else b)
        in if jb_len b1 < jb_cap b1 then Some (b1\<lparr>jb_len := jb_len b1 + 1\<rparr>)
           else let new_cap = max (jb_cap b1 * 2) 1
                in Some (b1\<lparr>jb_arr := jb_arr b1 @ replicate (new_cap - jb_cap b1) zero_entry,
                             jb_len := jb_len b1 + 1\<rparr>))"

definition set_val :: "ddwaf_obj \<Rightarrow> jbuf \<Rightarrow> jbuf option" where
  "set_val v b = cur_obj b \<bind> (\<lambda>(k, _). set_cur (k, v) b)"

definition put_val :: "ddwaf_obj \<Rightarrow> jbuf list \<Rightarrow> jbuf list option" where
  "put_val v bufs = (case bufs of [] \<Rightarrow> None
     | b # bs \<Rightarrow> do_get_slot False b \<bind> set_val v \<bind> (\<lambda>b'. Some (b' # bs)))"

definition put_key :: "bytes \<Rightarrow> jbuf list \<Rightarrow> jbuf list option" where
  "put_key k bufs = (case bufs of [] \<Rightarrow> None
     | b # bs \<Rightarrow> do_get_slot True b \<bind> (\<lambda>b1. cur_obj b1 \<bind> (\<lambda>(_, v). set_cur (k, v) b1 \<bind> (\<lambda>b'. Some (b' # bs)))))"

definition push_array :: "jbuf list \<Rightarrow> jbuf list option" where
  "push_array bufs = put_val (Obj_array []) bufs \<bind> (\<lambda>bs. Some (empty_buf # bs))"

definition push_map :: "jbuf list \<Rightarrow> jbuf list option" where
  "push_map bufs = put_val (Obj_map []) bufs \<bind> (\<lambda>bs. Some (empty_buf # bs))"

text \<open>\<^verbatim>\<open>pop_container\<close> keeps the type that was stored when the container was opened.\<close>

fun with_entries :: "ddwaf_obj \<Rightarrow> entry list \<Rightarrow> ddwaf_obj" where
  "with_entries (Obj_array _) es = Obj_array (map snd es)"
| "with_entries (Obj_map _) es = Obj_map es"
| "with_entries v es = v"

definition pop_container :: "jbuf list \<Rightarrow> jbuf list option" where
  "pop_container bufs =
     (case bufs of
        b # c # bs \<Rightarrow> cur_obj c \<bind> (\<lambda>(k, v).
          set_cur (k, with_entries v (take (jb_len b) (jb_arr b))) c \<bind> (\<lambda>c'. Some (c' # bs)))
      | _ \<Rightarrow> None)"

fun handle :: "sax \<Rightarrow> jbuf list \<Rightarrow> jbuf list option" where
  "handle Ev_Null bufs = put_val Obj_null bufs"
| "handle (Ev_Bool b) bufs = put_val (Obj_bool b) bufs"
| "handle (Ev_Int i) bufs = put_val (Obj_signed (scast i)) bufs"
| "handle (Ev_Uint u) bufs = put_val (Obj_unsigned (ucast u)) bufs"
| "handle (Ev_Int64 i) bufs = put_val (Obj_signed i) bufs"
| "handle (Ev_Uint64 u) bufs = put_val (Obj_unsigned u) bufs"
| "handle (Ev_Double d) bufs = put_val (Obj_float d) bufs"
| "handle (Ev_String s) bufs = put_val (Obj_string s) bufs"
| "handle (Ev_Key k) bufs = put_key k bufs"
| "handle Ev_StartObject bufs = push_map bufs"
| "handle (Ev_EndObject _) bufs = pop_container bufs"
| "handle Ev_StartArray bufs = push_array bufs"
| "handle (Ev_EndArray _) bufs = pop_container bufs"

primrec handle_all :: "sax list \<Rightarrow> jbuf list \<Rightarrow> jbuf list option" where
  "handle_all [] bufs = Some bufs"
| "handle_all (e # es) bufs = handle e bufs \<bind> handle_all es"

text \<open>\<^verbatim>\<open>finish\<close>: closes what is open and returns the root object, if there is one.\<close>

function close_all :: "jbuf list \<Rightarrow> jbuf list option" where
  "close_all bufs = (if 1 < length bufs then pop_container bufs \<bind> close_all else Some bufs)"
  by pat_completeness auto
termination
  by (relation "measure length")
    (auto simp: pop_container_def split: list.splits bind_splits)

declare close_all.simps [simp del]

definition finish :: "jbuf list \<Rightarrow> entry option option" where
  "finish bufs = close_all bufs \<bind> (\<lambda>bs. case bs of [] \<Rightarrow> None
     | b # _ \<Rightarrow> if jb_len b = 0 then Some None else cur_obj b \<bind> (\<lambda>e. Some (Some e)))"

text \<open>\<^verbatim>\<open>parse_json\<close>: the result and the slot, or \<^const>\<open>None\<close>; the reader's error is only logged.\<close>

definition parse_json ::
  "(rstream \<Rightarrow> sax list \<times> bool) \<Rightarrow> entry \<Rightarrow> chain \<Rightarrow> nat \<Rightarrow> (bool \<times> entry) option" where
  "parse_json reader slot chain limit =
     rstream_of chain limit \<bind> (\<lambda>is.
       let (events, is_error) = reader is
       in handle_all events (handler_init slot) \<bind> finish \<bind>
            (\<lambda>r. case r of None \<Rightarrow> Some (False, slot) | Some e \<Rightarrow> Some (True, e)))"

section \<open>The events of an object\<close>

text \<open>The events a JSON reader emits for a document with the given content.\<close>

fun events :: "ddwaf_obj \<Rightarrow> sax list" where
  "events Obj_invalid = [Ev_Null]"
| "events Obj_null = [Ev_Null]"
| "events (Obj_bool b) = [Ev_Bool b]"
| "events (Obj_signed i) = [Ev_Int64 i]"
| "events (Obj_unsigned u) = [Ev_Uint64 u]"
| "events (Obj_float d) = [Ev_Double d]"
| "events (Obj_string s) = [Ev_String s]"
| "events (Obj_array vs) = Ev_StartArray # concat (map events vs) @ [Ev_EndArray (length vs)]"
| "events (Obj_map es) = Ev_StartObject # concat (map (\<lambda>(k, v). Ev_Key k # events v) es) @ [Ev_EndObject (length es)]"

fun no_invalid :: "ddwaf_obj \<Rightarrow> bool" where
  "no_invalid Obj_invalid = False"
| "no_invalid (Obj_array vs) = (\<forall>v \<in> set vs. no_invalid v)"
| "no_invalid (Obj_map es) = (\<forall>(k, v) \<in> set es. no_invalid v)"
| "no_invalid _ = True"

text \<open>The entries of a buffer, and the well-formed buffers.\<close>

definition contents :: "jbuf \<Rightarrow> entry list" where
  "contents b = take (jb_len b) (jb_arr b)"

definition jb_wf :: "jbuf \<Rightarrow> bool" where
  "jb_wf b \<longleftrightarrow> jb_len b \<le> jb_cap b \<and> (jb_key_last b \<longrightarrow> 0 < jb_len b)"

text \<open>The key found in the slot that is taken next: that of the caller's slot, or none.\<close>

definition spare_key :: "jbuf \<Rightarrow> bytes" where
  "spare_key b = (if jb_len b < jb_cap b then fst (jb_arr b ! jb_len b) else [])"

definition put_entry :: "jbuf \<Rightarrow> ddwaf_obj \<Rightarrow> entry list" where
  "put_entry b v =
     (if jb_key_last b then butlast (contents b) @ [(fst (last (contents b)), v)]
      else contents b @ [(spare_key b, v)])"

lemma length_contents: "jb_wf b \<Longrightarrow> length (contents b) = jb_len b"
  by (simp add: contents_def jb_wf_def)

lemma set_cur_contents:
  assumes "jb_wf b" and "0 < jb_len b"
  obtains b' where "set_cur e b = Some b'" and "contents b' = butlast (contents b) @ [e]"
    and "jb_key_last b' = jb_key_last b" and "jb_wf b'" and "jb_len b' = jb_len b"
proof
  let ?b = "b\<lparr>jb_arr := (jb_arr b)[jb_len b - 1 := e]\<rparr>"
  from assms have l: "jb_len b \<le> jb_cap b" by (simp add: jb_wf_def)
  with assms show "set_cur e b = Some ?b" by (simp add: set_cur_def)
  obtain n where "jb_len b = Suc n" using assms by (cases "jb_len b") auto
  with l show "contents ?b = butlast (contents b) @ [e]"
    by (simp add: contents_def butlast_take take_Suc_conv_app_nth)
qed (use assms in \<open>auto simp: jb_wf_def\<close>)

lemma cur_obj_contents: "jb_wf b \<Longrightarrow> 0 < jb_len b \<Longrightarrow> cur_obj b = Some (last (contents b))"
  by (cases "jb_len b") (simp_all add: cur_obj_def contents_def jb_wf_def take_Suc_conv_app_nth)

text \<open>Taking a slot: a pending key is used up, otherwise the entries grow by one.\<close>

lemma do_get_slot_False:
  assumes "jb_wf b"
  obtains b' where "do_get_slot False b = Some b'" and "jb_wf b'" and "0 < jb_len b'"
    and "\<not> jb_key_last b'" and "butlast (contents b') @ [(fst (last (contents b')), v)] = put_entry b v"
proof (cases "jb_key_last b")
  case True
  with assms that [of "b\<lparr>jb_key_last := False\<rparr>"] show thesis
    by (auto simp: do_get_slot_def jb_wf_def put_entry_def contents_def)
next
  case False
  with assms that show thesis
    by (cases "jb_len b < jb_cap b")
      (auto simp: do_get_slot_def jb_wf_def put_entry_def contents_def spare_key_def zero_entry_def
        take_Suc_conv_app_nth nth_append replicate_eq_replicate Let_def)
qed

lemma put_val_ok:
  assumes "jb_wf b"
  obtains b' where "put_val v (b # bs) = Some (b' # bs)" and "jb_wf b'" and "\<not> jb_key_last b'"
    and "contents b' = put_entry b v"
proof -
  from do_get_slot_False [OF assms, of v] obtain b1
    where b1: "do_get_slot False b = Some b1" "jb_wf b1" "0 < jb_len b1" "\<not> jb_key_last b1"
      "butlast (contents b1) @ [(fst (last (contents b1)), v)] = put_entry b v" .
  from set_cur_contents [OF b1(2,3), of "(fst (last (contents b1)), v)"] obtain b2
    where "set_cur (fst (last (contents b1)), v) b1 = Some b2"
      "contents b2 = put_entry b v" "jb_key_last b2 = jb_key_last b1" "jb_wf b2"
    using b1(5) by metis
  with b1 that show thesis
    by (simp add: put_val_def set_val_def cur_obj_contents case_prod_beta)
qed

lemma put_key_ok:
  assumes "jb_wf b" and "\<not> jb_key_last b"
  obtains b' where "put_key k (b # bs) = Some (b' # bs)" and "jb_wf b'" and "jb_key_last b'"
    and "\<exists>v. contents b' = contents b @ [(k, v)]"
proof -
  obtain b1 where b1: "do_get_slot True b = Some b1" "jb_wf b1" "0 < jb_len b1" "jb_key_last b1"
    "butlast (contents b1) = contents b"
    using assms
    by (cases "jb_len b < jb_cap b")
      (auto simp: do_get_slot_def jb_wf_def contents_def take_Suc_conv_app_nth Let_def)
  from set_cur_contents [OF b1(2,3), of "(k, snd (last (contents b1)))"] obtain b2
    where "set_cur (k, snd (last (contents b1))) b1 = Some b2"
      "contents b2 = contents b @ [(k, snd (last (contents b1)))]" "jb_key_last b2 = jb_key_last b1" "jb_wf b2"
    using b1(5) by metis
  with b1 that [of b2] show thesis
    by (auto simp: put_key_def cur_obj_contents case_prod_beta)
qed

lemma put_entry_snoc: "\<exists>xs k. \<forall>v. put_entry b v = xs @ [(k, v)]"
  by (auto simp: put_entry_def)

lemma put_entry_no_key:
  "\<not> jb_key_last b \<Longrightarrow> map snd (put_entry b v) = map snd (contents b) @ [v]"
  by (simp add: put_entry_def)

lemma put_entry_key:
  "jb_key_last b \<Longrightarrow> contents b = xs @ [(k, w)] \<Longrightarrow> put_entry b v = xs @ [(k, v)]"
  by (simp add: put_entry_def)

lemma pop_ok:
  assumes "jb_wf c" and "\<not> jb_key_last c" and "contents c = put_entry b v"
  obtains c' where "pop_container (d # c # bs) = Some (c' # bs)" and "jb_wf c'" and "\<not> jb_key_last c'"
    and "contents c' = put_entry b (with_entries v (contents d))"
proof -
  obtain xs k where p: "\<And>w. put_entry b w = xs @ [(k, w)]" using put_entry_snoc [of b] by blast
  from assms p have l: "0 < jb_len c" using length_contents [OF assms(1)] by auto
  from set_cur_contents [OF assms(1) l, of "(k, with_entries v (contents d))"] obtain c'
    where "set_cur (k, with_entries v (contents d)) c = Some c'"
      "contents c' = put_entry b (with_entries v (contents d))" "\<not> jb_key_last c'" "jb_wf c'"
    using assms p by (metis butlast_snoc)
  with that cur_obj_contents [OF assms(1) l] assms(3) p show thesis
    by (simp add: pop_container_def contents_def [of d])
qed

lemma handle_all_append: "handle_all (xs @ ys) bufs = handle_all xs bufs \<bind> handle_all ys"
  by (induction xs arbitrary: bufs) (auto split: bind_splits)

text \<open>What the handler does with the events of a value: it stores that value in the next slot.\<close>

definition stores :: "ddwaf_obj \<Rightarrow> bool" where
  "stores v \<longleftrightarrow> (\<forall>b bs. jb_wf b \<longrightarrow> (\<exists>b'. handle_all (events v) (b # bs) = Some (b' # bs)
     \<and> jb_wf b' \<and> \<not> jb_key_last b' \<and> contents b' = put_entry b v))"

lemma storesE:
  assumes "stores v" and "jb_wf b"
  obtains b' where "handle_all (events v) (b # bs) = Some (b' # bs)" and "jb_wf b'"
    and "\<not> jb_key_last b'" and "contents b' = put_entry b v"
  using assms unfolding stores_def by meson

lemma stores_scalar:
  assumes "\<And>bufs. handle_all (events v) bufs = put_val v bufs \<bind> Some"
  shows "stores v"
  unfolding stores_def
proof (intro allI impI)
  fix b bs assume "jb_wf b"
  from put_val_ok [OF this, of v bs] show "\<exists>b'. handle_all (events v) (b # bs) = Some (b' # bs)
     \<and> jb_wf b' \<and> \<not> jb_key_last b' \<and> contents b' = put_entry b v"
    by (metis assms bind.bind_lunit)
qed

lemma handle_elems:
  "\<forall>v \<in> set vs. stores v \<Longrightarrow> jb_wf c \<Longrightarrow> \<not> jb_key_last c \<Longrightarrow>
     \<exists>c'. handle_all (concat (map events vs)) (c # bs) = Some (c' # bs)
        \<and> map snd (contents c') = map snd (contents c) @ vs"
proof (induction vs arbitrary: c)
  case (Cons v vs)
  from Cons.prems have "stores v" by simp
  from storesE [OF this Cons.prems(2), of bs] obtain c1
    where "handle_all (events v) (c # bs) = Some (c1 # bs)" "jb_wf c1" "\<not> jb_key_last c1"
      "contents c1 = put_entry c v" .
  with Cons.IH [of c1] Cons.prems show ?case
    by (simp add: handle_all_append put_entry_no_key)
qed simp

lemma handle_members:
  "\<forall>(k, v) \<in> set es. stores v \<Longrightarrow> jb_wf c \<Longrightarrow> \<not> jb_key_last c \<Longrightarrow>
     \<exists>c'. handle_all (concat (map (\<lambda>(k, v). Ev_Key k # events v) es)) (c # bs) = Some (c' # bs)
        \<and> contents c' = contents c @ es"
proof (induction es arbitrary: c)
  case (Cons e es)
  obtain k v where e: "e = (k, v)" by fastforce
  from put_key_ok [OF Cons.prems(2,3), of k bs] obtain c1 w
    where c1: "put_key k (c # bs) = Some (c1 # bs)" "jb_wf c1" "jb_key_last c1"
      "contents c1 = contents c @ [(k, w)]" by metis
  from Cons.prems e have "stores v" by simp
  from storesE [OF this c1(2), of bs] obtain c2
    where "handle_all (events v) (c1 # bs) = Some (c2 # bs)" "jb_wf c2" "\<not> jb_key_last c2"
      "contents c2 = put_entry c1 v" .
  with Cons.IH [of c2] Cons.prems e c1 show ?case
    by (simp add: handle_all_append put_entry_key [OF c1(3,4)])
qed simp

lemma empty_buf_simps [simp]: "jb_wf empty_buf" "\<not> jb_key_last empty_buf" "contents empty_buf = []"
  by (simp_all add: empty_buf_def jb_wf_def contents_def)

lemma stores_container:
  assumes "push = (\<lambda>bufs. put_val v0 bufs \<bind> (\<lambda>bs. Some (empty_buf # bs)))"
    and "\<And>bs. \<exists>c'. handle_all inner (empty_buf # bs) = Some (c' # bs) \<and> with_entries v0 (contents c') = v"
    and "\<And>bufs. handle_all (events v) bufs = push bufs \<bind> handle_all inner \<bind> pop_container \<bind> Some"
  shows "stores v"
  unfolding stores_def
proof (intro allI impI)
  fix b bs assume "jb_wf b"
  from put_val_ok [OF this, of v0 bs] obtain c
    where c: "put_val v0 (b # bs) = Some (c # bs)" "jb_wf c" "\<not> jb_key_last c" "contents c = put_entry b v0" .
  from assms(2) [of "c # bs"] obtain d
    where d: "handle_all inner (empty_buf # c # bs) = Some (d # c # bs)" "with_entries v0 (contents d) = v"
    by blast
  from pop_ok [OF c(2-4), of d bs] d(2) obtain c'
    where "pop_container (d # c # bs) = Some (c' # bs)" "jb_wf c'" "\<not> jb_key_last c'"
      "contents c' = put_entry b v" by metis
  with c d show "\<exists>b'. handle_all (events v) (b # bs) = Some (b' # bs)
     \<and> jb_wf b' \<and> \<not> jb_key_last b' \<and> contents b' = put_entry b v"
    by (simp add: assms(1,3))
qed

lemma handle_all_Nil: "handle_all [] = Some"
  by (rule ext) simp

lemma handle_all_end:
  "handle_all [Ev_EndArray n] = pop_container" "handle_all [Ev_EndObject n] = pop_container"
  by (rule ext; simp add: handle_all_Nil)+

lemma stores_all: "no_invalid v \<Longrightarrow> stores v"
proof (induction v)
  case (Obj_array vs)
  then have "\<forall>v \<in> set vs. stores v" by simp
  then have "\<exists>c'. handle_all (concat (map events vs)) (empty_buf # bs) = Some (c' # bs)
      \<and> with_entries (Obj_array []) (contents c') = Obj_array vs" for bs
    using handle_elems [of vs empty_buf bs] by auto
  then show ?case
    by (rule stores_container [OF refl]) (simp add: push_array_def handle_all_append handle_all_end)
next
  case (Obj_map es)
  then have "\<forall>(k, v) \<in> set es. stores v" by force
  then have "\<exists>c'. handle_all (concat (map (\<lambda>(k, v). Ev_Key k # events v) es)) (empty_buf # bs) = Some (c' # bs)
      \<and> with_entries (Obj_map []) (contents c') = Obj_map es" for bs
    using handle_members [of es empty_buf bs] by auto
  then show ?case
    by (rule stores_container [OF refl]) (simp add: push_map_def handle_all_append handle_all_end)
qed (simp_all add: stores_scalar handle_all_Nil)

section \<open>Truncated input\<close>

text \<open>
  The invariant of the stack: it is not empty, its buffers are well formed, and every buffer below
  the top has the object of the container that is open above it.
\<close>

fun stack_ok :: "jbuf list \<Rightarrow> bool" where
  "stack_ok [] \<longleftrightarrow> False"
| "stack_ok (b # bs) \<longleftrightarrow> jb_wf b \<and> (\<forall>c \<in> set bs. jb_wf c \<and> 0 < jb_len c)"

definition started :: "jbuf list \<Rightarrow> bool" where
  "started bufs \<longleftrightarrow> 0 < jb_len (last bufs)"

lemma put_entry_ne: "put_entry b v \<noteq> []"
  by (simp add: put_entry_def)

lemma put_val_stack:
  assumes "stack_ok bufs" and "put_val v bufs = Some bufs'"
  shows "stack_ok bufs' \<and> (\<forall>c \<in> set bufs'. 0 < jb_len c)"
proof -
  from assms(1) obtain b bs where b: "bufs = b # bs" by (cases bufs) auto
  with assms have wf: "jb_wf b" by simp
  from put_val_ok [OF wf, of v bs] assms(2) b obtain b'
    where b': "bufs' = b' # bs" "jb_wf b'" "contents b' = put_entry b v" by (metis option.inject)
  then have "0 < jb_len b'"
    using length_contents [OF b'(2)] put_entry_ne [of b v] by (metis length_greater_0_conv)
  with assms(1) b b' show ?thesis by simp
qed

lemma put_key_stack:
  assumes "stack_ok bufs" and "put_key k bufs = Some bufs'"
  shows "stack_ok bufs' \<and> (\<forall>c \<in> set bufs'. 0 < jb_len c)"
proof -
  from assms(1) obtain b bs where b: "bufs = b # bs" by (cases bufs) auto
  with assms have wf: "jb_wf b" by simp
  from assms(2) b have kl: "\<not> jb_key_last b" by (auto simp: put_key_def do_get_slot_def)
  from put_key_ok [OF wf kl, of k bs] assms(2) b obtain b' v
    where b': "bufs' = b' # bs" "jb_wf b'" "contents b' = contents b @ [(k, v)]" by (metis option.inject)
  then have "0 < jb_len b'" using length_contents [OF b'(2)] by auto
  with assms(1) b b' show ?thesis by simp
qed

lemma pop_stack:
  assumes "stack_ok (b # c # bs)"
  shows "\<exists>c'. pop_container (b # c # bs) = Some (c' # bs) \<and> stack_ok (c' # bs) \<and> jb_len c' = jb_len c"
proof -
  from assms have c: "jb_wf c" "0 < jb_len c" by auto
  obtain k v where l: "last (contents c) = (k, v)" by fastforce
  from set_cur_contents [OF c, of "(k, with_entries v (take (jb_len b) (jb_arr b)))"] obtain c'
    where "set_cur (k, with_entries v (take (jb_len b) (jb_arr b))) c = Some c'" "jb_wf c'"
      "jb_len c' = jb_len c" .
  with assms l show ?thesis
    by (simp add: pop_container_def cur_obj_contents [OF c])
qed

lemma handle_stack:
  assumes "stack_ok bufs" and "handle e bufs = Some bufs'"
  shows "stack_ok bufs' \<and> started bufs'"
proof -
  have st: "started bs" if "stack_ok bs" "\<forall>c \<in> set bs. 0 < jb_len c" for bs
    using that by (cases bs) (auto simp: started_def)
  have pop: ?thesis if "pop_container bufs = Some bufs'"
  proof -
    from that obtain b c bs where b: "bufs = b # c # bs" by (auto simp: pop_container_def split: list.splits)
    from pop_stack [of b c bs] assms(1) b that obtain c'
      where "bufs' = c' # bs" "stack_ok (c' # bs)" "jb_len c' = jb_len c" by auto
    with assms(1) b show ?thesis by (auto simp: started_def)
  qed
  have push: ?thesis if p: "put_val v bufs \<bind> (\<lambda>bs. Some (empty_buf # bs)) = Some bufs'" for v
  proof -
    from p obtain bs where bs: "put_val v bufs = Some bs" "bufs' = empty_buf # bs"
      by (auto split: bind_splits)
    from put_val_stack [OF assms(1) bs(1)] st bs(2) show ?thesis
      by (cases bs) (auto simp: started_def)
  qed
  have put: ?thesis if "put_val v bufs = Some bufs'" for v
    using put_val_stack [OF assms(1) that] st by blast
  have key: ?thesis if "put_key k bufs = Some bufs'" for k
    using put_key_stack [OF assms(1) that] st by blast
  show ?thesis
    using assms(2)
    apply (cases e)
    apply (simp_all only: handle.simps push_array_def push_map_def)
    apply (erule put | erule key | erule pop | erule push)+
    done
qed

lemma handle_all_stack:
  "stack_ok bufs \<Longrightarrow> handle_all es bufs = Some bufs' \<Longrightarrow>
     stack_ok bufs' \<and> (es \<noteq> [] \<longrightarrow> started bufs')"
proof (induction es arbitrary: bufs)
  case (Cons e es)
  from Cons.prems(2) obtain b1 where b1: "handle e bufs = Some b1" "handle_all es b1 = Some bufs'"
    by (auto split: bind_splits)
  with handle_stack [OF Cons.prems(1) b1(1)] Cons.IH [of b1] show ?case by (cases es) auto
qed auto

lemma close_all_ok:
  "stack_ok bufs \<Longrightarrow> \<exists>b. close_all bufs = Some [b] \<and> jb_wf b \<and> (jb_len b = jb_len (last bufs))"
proof (induction bufs rule: close_all.induct)
  case (1 bufs)
  show ?case
  proof (cases "1 < length bufs")
    case True
    then obtain b c bs where b: "bufs = b # c # bs" by (metis One_nat_def length_Cons less_nat_zero_code list.exhaust list.size(3) nat_neq_iff)
    with pop_stack [of b c bs] 1(2) obtain c'
      where c: "pop_container bufs = Some (c' # bs)" "stack_ok (c' # bs)" "jb_len c' = jb_len c" by auto
    from 1(1) [OF True c(1,2)] c b True show ?thesis
      by (auto simp: close_all.simps [of "b # c # bs"])
  next
    case False
    with 1(2) obtain b where "bufs = [b]" by (cases bufs rule: stack_ok.cases) auto
    with 1(2) show ?thesis by (simp add: close_all.simps)
  qed
qed

lemma finish_ok:
  assumes "stack_ok bufs"
  shows "\<exists>r. finish bufs = Some r \<and> (r \<noteq> None \<longleftrightarrow> started bufs)"
proof -
  from close_all_ok [OF assms] obtain b
    where "close_all bufs = Some [b]" "jb_wf b" "jb_len b = jb_len (last bufs)" by blast
  then show ?thesis
    by (cases "jb_len b = 0") (auto simp: finish_def started_def cur_obj_contents)
qed

lemma init_ok: "stack_ok (handler_init slot)" "\<not> started (handler_init slot)"
  by (simp_all add: handler_init_def jb_wf_def started_def)

lemma handle_events_init:
  assumes "no_invalid v"
  obtains b where "handle_all (events v) (handler_init slot) = Some [b]" and "jb_wf b"
    and "contents b = [(fst slot, v)]"
proof -
  let ?b = "\<lparr>jb_arr = [slot], jb_len = 0, jb_key_last = False\<rparr>"
  have "jb_wf ?b" by (simp add: jb_wf_def)
  from storesE [OF stores_all [OF assms] this, of "[]"] that show thesis
    by (auto simp: handler_init_def put_entry_def contents_def spare_key_def)
qed

section \<open>Properties of the JSON parser\<close>

text \<open>
  C31. A complete document: when the reader emits the events of a value, the parser stores that
  very value in the slot, keeps the slot's key, and reports success.
\<close>

theorem json_body_built:
  assumes "chain \<noteq> []" and "no_invalid v" and "\<And>is. fst (reader is) = events v"
  shows "parse_json reader slot chain limit = Some (True, (fst slot, v))"
proof -
  obtain b where b: "handle_all (events v) (handler_init slot) = Some [b]" "jb_wf b"
    "contents b = [(fst slot, v)]" by (rule handle_events_init [OF assms(2)])
  then have "jb_len b = 1" using length_contents [of b] by simp
  with b have "finish [b] = Some (Some (fst slot, v))"
    using cur_obj_contents [of b] by (simp add: finish_def close_all.simps)
  moreover obtain st where "rstream_of chain limit = Some st"
    using assms(1) by (cases chain) (auto simp: rstream_of_def)
  ultimately show ?thesis using b assms(3) by (simp add: parse_json_def case_prod_beta Let_def)
qed

theorem json_body_built_witness:
  "parse_json (\<lambda>is. (events (Obj_map [(''a'', Obj_array [Obj_null, Obj_string ''x''])]), False)) (''body'', Obj_invalid) [''{}''] 10
     = Some (True, (''body'', Obj_map [(''a'', Obj_array [Obj_null, Obj_string ''x''])]))"
  using json_body_built [of "[''{}'']" "Obj_map [(''a'', Obj_array [Obj_null, Obj_string ''x''])]"
      "\<lambda>is. (events (Obj_map [(''a'', Obj_array [Obj_null, Obj_string ''x''])]), False)" "(''body'', Obj_invalid)" 10]
  by simp

text \<open>
  A truncated document: for every prefix of the events of a value the parser returns without
  violating an assertion or leaving an array, and reports an object exactly when there was an event.
\<close>

theorem json_body_truncated:
  assumes "chain \<noteq> []" and "no_invalid v" and "\<And>is. fst (reader is) = take n (events v)"
  shows "\<exists>e. parse_json reader slot chain limit = Some (0 < n, e)"
proof -
  obtain b where "handle_all (events v) (handler_init slot) = Some [b]"
    by (rule handle_events_init [OF assms(2)])
  then obtain bufs where h: "handle_all (take n (events v)) (handler_init slot) = Some bufs"
    by (metis append_take_drop_id bind_eq_Some_conv handle_all_append)
  have ne: "events v \<noteq> []" by (cases v) auto
  from handle_all_stack [OF init_ok(1) h] have ok: "stack_ok bufs" "0 < n \<longrightarrow> started bufs"
    using ne by auto
  moreover have "n = 0 \<longrightarrow> \<not> started bufs" using h init_ok(2) [of slot] by auto
  ultimately obtain r where "finish bufs = Some r" "r \<noteq> None \<longleftrightarrow> 0 < n"
    using finish_ok [OF ok(1)] by auto
  moreover obtain st where "rstream_of chain limit = Some st"
    using assms(1) by (cases chain) (auto simp: rstream_of_def)
  ultimately show ?thesis
    using h assms(3) by (cases r) (auto simp: parse_json_def case_prod_beta Let_def)
qed

theorem json_body_truncated_witness:
  "\<exists>e. parse_json (\<lambda>is. ([Ev_StartArray, Ev_Bool True], True)) (''body'', Obj_invalid) [''[true''] 10 = Some (True, e)"
  using json_body_truncated [of "[''[true'']" "Obj_array [Obj_bool True]" "\<lambda>is. ([Ev_StartArray, Ev_Bool True], True)"
      2 "(''body'', Obj_invalid)" 10]
  by simp

end
