(* ===== verification/Ddwaf_Req.thy ===== *)
theory Ddwaf_Req
  imports Body_Json
begin

text \<open>
  The WAF context of a request: \<^verbatim>\<open>src/security/ddwaf_req.cpp\<close>. libddwaf is a parameter: the return
  code of \<^verbatim>\<open>ddwaf_run\<close> and the entries of its result map are arguments of \<open>waf_run\<close>. The text
  that rapidjson's writer makes of the events it receives, zlib's deflate and the base64 codec are
  collected in a record. \<^const>\<open>Num_undefined\<close> is undefined behaviour: the conversion of a NaN, or
  the use of an action that is not a map as a map.
\<close>

section \<open>Outcomes\<close>

fun nbind :: "'a num_result \<Rightarrow> ('a \<Rightarrow> 'b num_result) \<Rightarrow> 'b num_result" where
  "nbind (Num_ok x) f = f x"
| "nbind (Num_exn e) f = Num_exn e"
| "nbind Num_undefined f = Num_undefined"

fun of_sum :: "exn + 'a \<Rightarrow> 'a num_result" where
  "of_sum (Inl e) = Num_exn e"
| "of_sum (Inr x) = Num_ok x"

lemma nbind_ok_iff: "nbind m f = Num_ok y \<longleftrightarrow> (\<exists>x. m = Num_ok x \<and> f x = Num_ok y)"
  by (cases m) auto

section \<open>Writing JSON\<close>

fun ddwaf_object_to_json :: "ddwaf_obj \<Rightarrow> sax list" where
  "ddwaf_object_to_json (Obj_map es) =
     Ev_StartObject # concat (map (\<lambda>(k, v). Ev_Key k # ddwaf_object_to_json v) es) @ [Ev_EndObject (length es)]"
| "ddwaf_object_to_json (Obj_array es) = Ev_StartArray # concat (map ddwaf_object_to_json es) @ [Ev_EndArray (length es)]"
| "ddwaf_object_to_json (Obj_string s) = [Ev_String s]"
| "ddwaf_object_to_json (Obj_signed i) = [Ev_Int64 i]"
| "ddwaf_object_to_json (Obj_unsigned i) = [Ev_Uint64 i]"
| "ddwaf_object_to_json (Obj_float d) = [Ev_Double d]"
| "ddwaf_object_to_json (Obj_bool b) = [Ev_Bool b]"
| "ddwaf_object_to_json Obj_invalid = [Ev_Null]"
| "ddwaf_object_to_json Obj_null = [Ev_Null]"

record waf_env =
  json_text :: "sax list \<Rightarrow> bytes"
  deflate_gzip :: "bytes \<Rightarrow> bytes option"
  base64_encode :: "bytes \<Rightarrow> bytes"

section \<open>Actions\<close>

datatype spec_ct = CT_AUTO | CT_HTML | CT_JSON | CT_NONE

record block_spec =
  bs_status :: int
  bs_ct :: spec_ct
  bs_location :: bytes

datatype act_type = BLOCK_REQUEST | REDIRECT_REQUEST | GENERATE_STACK | GENERATE_SCHEMA | UNKNOWN

type_synonym action = "bytes \<times> ddwaf_obj"

definition action_type :: "action \<Rightarrow> act_type" where
  "action_type act =
     (if fst act = ''block_request'' then BLOCK_REQUEST
      else if fst act = ''redirect_request'' then REDIRECT_REQUEST
      else if fst act = ''generate_stack'' then GENERATE_STACK
      else if fst act = ''generate_schema'' then GENERATE_SCHEMA
      else UNKNOWN)"

text \<open>\<^verbatim>\<open>action_.get(k)\<close>; the action was taken from the array of actions without a check of its type.\<close>

definition action_get :: "action \<Rightarrow> bytes \<Rightarrow> ddwaf_obj num_result" where
  "action_get act k = (case snd act of Obj_map es \<Rightarrow> of_sum (map_get es k) | _ \<Rightarrow> Num_undefined)"

text \<open>
  \<^verbatim>\<open>std::from_chars\<close> for \<^verbatim>\<open>int\<close> with the test that the whole text was consumed: an optional minus
  sign and decimal digits, the value in range.
\<close>

definition digits_val :: "bytes \<Rightarrow> int" where
  "digits_val ds = foldl (\<lambda>n c. 10 * n + (int (ord c) - 48)) 0 ds"

definition from_chars_all :: "bytes \<Rightarrow> int option" where
  "from_chars_all sv =
     (let neg = sv \<noteq> [] \<and> hd sv = CHR ''-''; ds = (if neg then tl sv else sv);
          n = (if neg then - digits_val ds else digits_val ds)
      in if ds \<noteq> [] \<and> list_all isdigit ds \<and> type_min T_int32 \<le> n \<and> n \<le> type_max T_int32 then Some n else None)"

definition get_int_param :: "action \<Rightarrow> bytes \<Rightarrow> int num_result" where
  "get_int_param act k =
     nbind (action_get act k) (\<lambda>v.
       if is_numeric v then numeric_val T_int32 v
       else case v of
         Obj_string sv \<Rightarrow> (case from_chars_all sv of Some n \<Rightarrow> Num_ok n | None \<Rightarrow> Num_exn Runtime_error)
       | _ \<Rightarrow> Num_exn Runtime_error)"

definition get_string_param :: "action \<Rightarrow> bytes \<Rightarrow> bytes num_result" where
  "get_string_param act k =
     nbind (action_get act k) (\<lambda>v. case v of Obj_string sv \<Rightarrow> Num_ok sv | _ \<Rightarrow> Num_exn Runtime_error)"

definition spec_ct_of :: "bytes \<Rightarrow> spec_ct" where
  "spec_ct_of ct_sv =
     (if ct_sv = ''auto'' then CT_AUTO
      else if ct_sv = ''html'' then CT_HTML
      else if ct_sv = ''json'' then CT_JSON
      else if ct_sv = ''none'' then CT_NONE
      else CT_AUTO)"

definition create_block_request_action :: "action \<Rightarrow> block_spec num_result" where
  "create_block_request_action act =
     nbind (get_int_param act ''status_code'') (\<lambda>status.
     nbind (get_string_param act ''type'') (\<lambda>ct_sv.
       Num_ok \<lparr>bs_status = status, bs_ct = spec_ct_of ct_sv, bs_location = []\<rparr>))"

definition create_redirect_request_action :: "action \<Rightarrow> block_spec num_result" where
  "create_redirect_request_action act =
     nbind (get_int_param act ''status_code'') (\<lambda>status.
     nbind (get_string_param act ''location'') (\<lambda>loc.
       Num_ok \<lparr>bs_status = status, bs_ct = CT_NONE, bs_location = loc\<rparr>))"

fun resolve_block_spec :: "action list \<Rightarrow> block_spec option num_result" where
  "resolve_block_spec [] = Num_ok None"
| "resolve_block_spec (act # actions) =
     (case action_type act of
        UNKNOWN \<Rightarrow> resolve_block_spec actions
      | GENERATE_STACK \<Rightarrow> resolve_block_spec actions
      | GENERATE_SCHEMA \<Rightarrow> resolve_block_spec actions
      | BLOCK_REQUEST \<Rightarrow> nbind (create_block_request_action act) (\<lambda>s. Num_ok (Some s))
      | REDIRECT_REQUEST \<Rightarrow> nbind (create_redirect_request_action act) (\<lambda>s. Num_ok (Some s)))"

section \<open>Attributes\<close>

definition kMaxPlainSchemaAllowed :: nat where "kMaxPlainSchemaAllowed = 260"
definition kMaxSchemaSize :: nat where "kMaxSchemaSize = 25000"

definition is_schema_key :: "bytes \<Rightarrow> bool" where
  "is_schema_key k \<longleftrightarrow> take (length ''_dd.appsec.s.'') k = ''_dd.appsec.s.''"

definition gzip_compress :: "waf_env \<Rightarrow> bytes \<Rightarrow> bytes option" where
  "gzip_compress env text = (if text = [] then None else deflate_gzip env text)"

text \<open>The value \<^verbatim>\<open>handle_schema\<close> hands to its callback, if it calls it.\<close>

definition handle_schema :: "waf_env \<Rightarrow> ddwaf_obj \<Rightarrow> bytes option" where
  "handle_schema env obj =
     (let json = json_text env (ddwaf_object_to_json obj)
      in if kMaxPlainSchemaAllowed < length json then
           (case gzip_compress env json of
              None \<Rightarrow> None
            | Some compressed \<Rightarrow>
                if kMaxSchemaSize * 3 div 4 + 1 < length compressed then None
                else let b64 = base64_encode env compressed
                     in if kMaxSchemaSize < length b64 then None else Some b64)
         else Some json)"

record waf_ctx =
  wc_keep :: bool
  wc_results :: "(bytes \<times> ddwaf_obj) list list"
  wc_tags :: "(bytes \<times> bytes) list"
  wc_metrics :: "(bytes \<times> f64) list"

definition handle_non_schema_attribute :: "bytes \<times> ddwaf_obj \<Rightarrow> waf_ctx \<Rightarrow> waf_ctx num_result" where
  "handle_non_schema_attribute a ctx =
     (case a of (k, obj) \<Rightarrow>
        if is_numeric obj then
          nbind (of_sum (numeric_val_double obj)) (\<lambda>d. Num_ok (ctx\<lparr>wc_metrics := emplace k d (wc_metrics ctx)\<rparr>))
        else case obj of
          Obj_string s \<Rightarrow> Num_ok (ctx\<lparr>wc_tags := emplace k s (wc_tags ctx)\<rparr>)
        | _ \<Rightarrow> Num_ok ctx)"

definition attribute_step :: "waf_env \<Rightarrow> bytes \<times> ddwaf_obj \<Rightarrow> waf_ctx \<Rightarrow> waf_ctx num_result" where
  "attribute_step env a ctx =
     (if is_schema_key (fst a) then
        Num_ok (case handle_schema env (snd a) of
                  Some json \<Rightarrow> ctx\<lparr>wc_tags := emplace (fst a) json (wc_tags ctx)\<rparr>
                | None \<Rightarrow> ctx)
      else handle_non_schema_attribute a ctx)"

text \<open>The loop over the attributes; when it throws, what was collected before stays.\<close>

fun attributes_loop :: "waf_env \<Rightarrow> (bytes \<times> ddwaf_obj) list \<Rightarrow> waf_ctx \<Rightarrow> waf_ctx \<times> unit num_result" where
  "attributes_loop env [] ctx = (ctx, Num_ok ())"
| "attributes_loop env (a # as) ctx =
     (case attribute_step env a ctx of
        Num_ok ctx' \<Rightarrow> attributes_loop env as ctx'
      | Num_exn e \<Rightarrow> (ctx, Num_exn e)
      | Num_undefined \<Rightarrow> (ctx, Num_undefined))"

section \<open>DdwafContext\<close>

definition waf_ctx_new :: waf_ctx where
  "waf_ctx_new = \<lparr>wc_keep = False, wc_results = [], wc_tags = [], wc_metrics = []\<rparr>"

datatype ret_code = DDWAF_ERR | DDWAF_OK | DDWAF_MATCH

definition new_keep :: "ret_code \<Rightarrow> (bytes \<times> ddwaf_obj) list \<Rightarrow> bool \<Rightarrow> bool" where
  "new_keep code result keep =
     (case get_opt result ''keep'' of
        Some (Obj_bool b) \<Rightarrow> keep \<or> b
      | _ \<Rightarrow> code = DDWAF_MATCH)"

definition run_attributes :: "waf_env \<Rightarrow> (bytes \<times> ddwaf_obj) list \<Rightarrow> waf_ctx \<Rightarrow> waf_ctx \<times> unit num_result" where
  "run_attributes env result ctx =
     (case get_opt result ''attributes'' of
        None \<Rightarrow> (ctx, Num_ok ())
      | Some v \<Rightarrow> (case as_map v of Inl e \<Rightarrow> (ctx, Num_exn e) | Inr as \<Rightarrow> attributes_loop env as ctx))"

definition run_actions :: "ret_code \<Rightarrow> (bytes \<times> ddwaf_obj) list \<Rightarrow> block_spec option num_result" where
  "run_actions code result =
     (if code = DDWAF_MATCH then
        (case get_opt result ''actions'' of
           None \<Rightarrow> Num_ok None
         | Some v \<Rightarrow> nbind (of_sum (as_map v)) resolve_block_spec)
      else Num_ok None)"

definition waf_run ::
  "waf_env \<Rightarrow> ret_code \<Rightarrow> (bytes \<times> ddwaf_obj) list \<Rightarrow> waf_ctx \<Rightarrow> waf_ctx \<times> block_spec option num_result" where
  "waf_run env code result ctx =
     (let ctx1 = ctx\<lparr>wc_results := wc_results ctx @ [result], wc_keep := new_keep code result (wc_keep ctx)\<rparr>
      in case run_attributes env result ctx1 of
           (ctx2, Num_ok _) \<Rightarrow> (ctx2, run_actions code result)
         | (ctx2, Num_exn e) \<Rightarrow> (ctx2, Num_exn e)
         | (ctx2, Num_undefined) \<Rightarrow> (ctx2, Num_undefined))"

fun events_size :: "(bytes \<times> ddwaf_obj) list list \<Rightarrow> bool num_result" where
  "events_size [] = Num_ok False"
| "events_size (r # rs) =
     (case get_opt r ''events'' of
        None \<Rightarrow> events_size rs
      | Some v \<Rightarrow> nbind (of_sum (as_array v)) (\<lambda>es. if es \<noteq> [] then Num_ok True else events_size rs))"

definition has_matches :: "waf_ctx \<Rightarrow> bool num_result" where
  "has_matches ctx = events_size (wc_results ctx)"

fun collect_events :: "(bytes \<times> ddwaf_obj) list list \<Rightarrow> ddwaf_obj list list num_result" where
  "collect_events [] = Num_ok []"
| "collect_events (r # rs) =
     (case get_opt r ''events'' of
        None \<Rightarrow> collect_events rs
      | Some v \<Rightarrow> nbind (of_sum (as_array v)) (\<lambda>es. nbind (collect_events rs) (\<lambda>ess.
          Num_ok (if es = [] then ess else es # ess))))"

text \<open>\<^verbatim>\<open>report_matches\<close>: the context after the call and the text handed to the callback, if any.\<close>

definition report_matches :: "waf_env \<Rightarrow> waf_ctx \<Rightarrow> (waf_ctx \<times> bytes option) num_result" where
  "report_matches env ctx =
     (if wc_results ctx = [] then Num_ok (ctx, None)
      else nbind (collect_events (wc_results ctx)) (\<lambda>events_arrs.
        if events_arrs = [] then Num_ok (ctx, None)
        else Num_ok (ctx\<lparr>wc_results := []\<rparr>,
               Some (json_text env ([Ev_StartObject, Ev_String ''triggers'', Ev_StartArray]
                 @ concat (map (\<lambda>evts. concat (map ddwaf_object_to_json evts)) events_arrs)
                 @ [Ev_EndArray (length (wc_results ctx)), Ev_EndObject 1])))))"

section \<open>Blocking decisions\<close>

lemma written_events: "ddwaf_object_to_json v = events v"
proof (induction v rule: ddwaf_object_to_json.induct)
  case (1 es)
  then have "map (\<lambda>(k, v). Ev_Key k # ddwaf_object_to_json v) es = map (\<lambda>(k, v). Ev_Key k # events v) es"
    by (auto intro!: map_cong)
  then show ?case by (simp only: ddwaf_object_to_json.simps events.simps)
next
  case (2 es)
  then have "map ddwaf_object_to_json es = map events es" by simp
  then show ?case by (simp only: ddwaf_object_to_json.simps events.simps)
qed simp_all

definition inert :: "action \<Rightarrow> bool" where
  "inert act \<longleftrightarrow> action_type act \<in> {UNKNOWN, GENERATE_STACK, GENERATE_SCHEMA}"

lemma resolve_inert:
  "list_all inert pre \<Longrightarrow> resolve_block_spec (pre @ acts) = resolve_block_spec acts"
  by (induction pre) (auto simp: inert_def)

definition int_text :: "int \<Rightarrow> ddwaf_obj \<Rightarrow> bool" where
  "int_text n v \<longleftrightarrow> (- (2 ^ 31) \<le> n \<and> n < 2 ^ 31) \<and>
     (v = Obj_signed (word_of_int n) \<or> (0 \<le> n \<and> v = Obj_unsigned (word_of_int n))
      \<or> (\<exists>sv. v = Obj_string sv \<and> from_chars_all sv = Some n))"

lemma get_int_param_int_text:
  assumes "get_opt ps k = Some v" and "int_text n v"
  shows "get_int_param (t, Obj_map ps) k = Num_ok n"
proof -
  have r: "- (2 ^ 31) \<le> n" "n < 2 ^ 31" using assms(2) by (auto simp: int_text_def)
  then have s: "sint (word_of_int n :: 64 word) = n"
    by (simp add: signed_take_bit_int_eq_self_iff sint_sbintrunc')
  have u: "uint (word_of_int n :: 64 word) = n" if "0 \<le> n"
    using r that by (simp add: uint_word_of_int)
  from assms(2) r s u show ?thesis
    by (auto simp: int_text_def get_int_param_def action_get_def map_get_def assms(1))
qed

text \<open>
  C23. When libddwaf reports a match, the request is blocked by the first action that blocks or
  redirects: a \<^verbatim>\<open>block_request\<close> gives its status and the content type it names (automatic for any other name), a \<^verbatim>\<open>redirect_request\<close> its status and
  location. The status may be a number or its decimal text; actions of other types are passed
  over.
\<close>

theorem first_blocking_action:
  assumes "list_all inert pre" and "get_opt result ''actions'' = Some (Obj_map (pre @ (t, Obj_map ps) # post))"
    and "get_opt ps ''status_code'' = Some v" and "int_text n v"
    and "t = ''block_request'' \<and> get_opt ps ''type'' = Some (Obj_string s)
           \<and> spec = \<lparr>bs_status = n, bs_ct = (if s = ''html'' then CT_HTML else if s = ''json'' then CT_JSON else if s = ''none'' then CT_NONE else CT_AUTO), bs_location = []\<rparr>
         \<or> t = ''redirect_request'' \<and> get_opt ps ''location'' = Some (Obj_string s)
           \<and> spec = \<lparr>bs_status = n, bs_ct = CT_NONE, bs_location = s\<rparr>"
  shows "run_actions DDWAF_MATCH result = Num_ok (Some spec)"
proof -
  have r: "run_actions DDWAF_MATCH result = resolve_block_spec ((t, Obj_map ps) # post)"
    by (simp add: run_actions_def assms(2) resolve_inert [OF assms(1)])
  have s: "get_int_param (t, Obj_map ps) ''status_code'' = Num_ok n"
    by (rule get_int_param_int_text [OF assms(3,4)])
  from assms(5) show ?thesis
  proof
    assume a: "t = ''block_request'' \<and> get_opt ps ''type'' = Some (Obj_string s)
           \<and> spec = \<lparr>bs_status = n, bs_ct = (if s = ''html'' then CT_HTML else if s = ''json'' then CT_JSON else if s = ''none'' then CT_NONE else CT_AUTO), bs_location = []\<rparr>"
    then have "action_type (t, Obj_map ps) = BLOCK_REQUEST" by (simp add: action_type_def)
    with a s show ?thesis
      by (simp add: r create_block_request_action_def get_string_param_def action_get_def map_get_def spec_ct_of_def)
  next
    assume a: "t = ''redirect_request'' \<and> get_opt ps ''location'' = Some (Obj_string s)
           \<and> spec = \<lparr>bs_status = n, bs_ct = CT_NONE, bs_location = s\<rparr>"
    then have "action_type (t, Obj_map ps) = REDIRECT_REQUEST" by (simp add: action_type_def)
    with a s show ?thesis
      by (simp add: r create_redirect_request_action_def get_string_param_def action_get_def map_get_def)
  qed
qed

theorem first_blocking_action_witness:
  "run_actions DDWAF_MATCH
     [(''actions'', Obj_map [(''generate_stack'', Obj_map []),
        (''redirect_request'', Obj_map [(''location'', Obj_string ''/blocked''), (''status_code'', Obj_string ''303'')]),
        (''block_request'', Obj_map [])])]
   = Num_ok (Some \<lparr>bs_status = 303, bs_ct = CT_NONE, bs_location = ''/blocked''\<rparr>)"
  by (rule first_blocking_action [of "[(''generate_stack'', Obj_map [])]" _ "''redirect_request''"
        "[(''location'', Obj_string ''/blocked''), (''status_code'', Obj_string ''303'')]" "[(''block_request'', Obj_map [])]"
        "Obj_string ''303''" 303 "''/blocked''"])
    (simp_all add: inert_def action_type_def int_text_def from_chars_all_def digits_val_def isdigit_def)

section \<open>Attributes and the blocking decision\<close>

definition nonpositive :: "ddwaf_obj \<Rightarrow> bool" where
  "nonpositive v = (case v of Obj_signed w \<Rightarrow> sint w \<le> 0 | Obj_float d \<Rightarrow> f64_less_min d | _ \<Rightarrow> False)"

lemma nonpositive_throws: "nonpositive v \<Longrightarrow> is_numeric v \<and> numeric_val_double v = Inl Out_of_range"
  by (cases v) (auto simp: nonpositive_def f64_less_min_int)

lemma attributes_loop_cases:
  "snd (attributes_loop env as ctx) = Num_ok () \<or> snd (attributes_loop env as ctx) = Num_exn Out_of_range
    \<or> snd (attributes_loop env as ctx) = Num_exn Invalid_argument"
proof (induction as arbitrary: ctx)
  case (Cons a as)
  have "(\<exists>c. attribute_step env a ctx = Num_ok c) \<or> attribute_step env a ctx = Num_exn Out_of_range
      \<or> attribute_step env a ctx = Num_exn Invalid_argument"
  proof (cases "is_schema_key (fst a)")
    case False
    then show ?thesis
      by (cases a; cases "snd a") (auto simp: attribute_step_def handle_non_schema_attribute_def)
  qed (simp add: attribute_step_def)
  with Cons.IH show ?case by (elim disjE exE) simp_all
qed simp

lemma attributes_loop_throws:
  assumes "(k, v) \<in> set as" and "\<not> is_schema_key k" and "nonpositive v"
  shows "\<exists>e. snd (attributes_loop env as ctx) = Num_exn e"
  using assms(1)
proof (induction as arbitrary: ctx)
  case (Cons a as)
  show ?case
  proof (cases "a = (k, v)")
    case True
    with assms nonpositive_throws [OF assms(3)] show ?thesis
      by (simp add: attribute_step_def handle_non_schema_attribute_def)
  next
    case False
    with Cons have IH: "\<exists>e. snd (attributes_loop env as c) = Num_exn e" for c by auto
    show ?thesis using attributes_loop_cases [of env "a # as" ctx] IH
      by (auto split: num_result.splits)
  qed
qed simp

text \<open>
  A numeric attribute that is not positive makes the run end in an exception before the
  actions are looked at: whatever they say, no blocking decision is returned.
\<close>

theorem nonpositive_attribute_loses_block:
  assumes "get_opt result ''attributes'' = Some (Obj_map as)"
    and "(k, v) \<in> set as" and "\<not> is_schema_key k" and "nonpositive v"
  shows "\<exists>e. snd (waf_run env code result ctx) = Num_exn e"
proof -
  let ?ctx = "ctx\<lparr>wc_results := wc_results ctx @ [result], wc_keep := new_keep code result (wc_keep ctx)\<rparr>"
  obtain e c where "attributes_loop env as ?ctx = (c, Num_exn e)"
    using attributes_loop_throws [OF assms(2-4), of env ?ctx] by (metis prod.collapse)
  then show ?thesis by (simp add: waf_run_def run_attributes_def assms(1) Let_def)
qed

definition blocking_result :: "(bytes \<times> ddwaf_obj) list" where
  "blocking_result =
     [(''keep'', Obj_bool True),
      (''attributes'', Obj_map [(''_dd.appsec.score'', Obj_signed 0)]),
      (''actions'', Obj_map [(''block_request'',
          Obj_map [(''status_code'', Obj_signed 403), (''type'', Obj_string ''auto'')])])]"

definition plain_env :: waf_env where
  "plain_env = \<lparr>json_text = (\<lambda>evs. replicate (length evs) CHR ''x''), deflate_gzip = (\<lambda>s. Some (take 1 s)), base64_encode = (\<lambda>s. s @ s)\<rparr>"

theorem nonpositive_attribute_loses_block_witness:
  "run_actions DDWAF_MATCH blocking_result = Num_ok (Some \<lparr>bs_status = 403, bs_ct = CT_AUTO, bs_location = []\<rparr>)
   \<and> (\<exists>e. snd (waf_run plain_env DDWAF_MATCH blocking_result waf_ctx_new) = Num_exn e)"
proof
  show "run_actions DDWAF_MATCH blocking_result = Num_ok (Some \<lparr>bs_status = 403, bs_ct = CT_AUTO, bs_location = []\<rparr>)"
    by (simp add: blocking_result_def run_actions_def action_type_def create_block_request_action_def get_int_param_def
        get_string_param_def action_get_def map_get_def spec_ct_of_def)
  show "\<exists>e. snd (waf_run plain_env DDWAF_MATCH blocking_result waf_ctx_new) = Num_exn e"
    by (rule nonpositive_attribute_loses_block [of _ "[(''_dd.appsec.score'', Obj_signed 0)]" "''_dd.appsec.score''" "Obj_signed 0"])
      (simp_all add: blocking_result_def is_schema_key_def nonpositive_def)
qed

section \<open>What a context collects\<close>

text \<open>The invariant of a context: no tag is collected twice, and the schema tags are bounded.\<close>

definition waf_ctx_ok :: "waf_ctx \<Rightarrow> bool" where
  "waf_ctx_ok ctx \<longleftrightarrow> distinct (map fst (wc_tags ctx)) \<and> distinct (map fst (wc_metrics ctx))
     \<and> list_all (\<lambda>(k, v). is_schema_key k \<longrightarrow> length v \<le> kMaxSchemaSize) (wc_tags ctx)"

lemma emplace_distinct: "distinct (map fst m) \<Longrightarrow> distinct (map fst (emplace k v m))"
  by (auto simp: emplace_def)

lemma handle_schema_bound: "handle_schema env v = Some t \<Longrightarrow> length t \<le> kMaxSchemaSize"
  by (auto simp: handle_schema_def Let_def kMaxPlainSchemaAllowed_def kMaxSchemaSize_def split: if_splits option.splits)

lemma emplace_all: "list_all P m \<Longrightarrow> P (k, v) \<Longrightarrow> list_all P (emplace k v m)"
  by (simp add: emplace_def)

lemma emplace_keeps: "map_of m k = Some v \<Longrightarrow> map_of (emplace k' v' m) k = Some v"
  by (auto simp: emplace_def map_add_def split: option.splits)

definition extends :: "waf_ctx \<Rightarrow> waf_ctx \<Rightarrow> bool" where
  "extends ctx ctx' \<longleftrightarrow> (\<forall>k v. map_of (wc_tags ctx) k = Some v \<longrightarrow> map_of (wc_tags ctx') k = Some v)
     \<and> (\<forall>k v. map_of (wc_metrics ctx) k = Some v \<longrightarrow> map_of (wc_metrics ctx') k = Some v)
     \<and> wc_results ctx' = wc_results ctx \<and> wc_keep ctx' = wc_keep ctx"

lemma extends_refl: "extends ctx ctx"
  by (simp add: extends_def)

lemma extends_trans: "extends a b \<Longrightarrow> extends b c \<Longrightarrow> extends a c"
  by (simp add: extends_def)

lemma attribute_step_cases:
  assumes "attribute_step env a ctx = Num_ok ctx'"
  shows "ctx' = ctx \<or> (\<exists>d. ctx' = ctx\<lparr>wc_metrics := emplace (fst a) d (wc_metrics ctx)\<rparr>)
    \<or> (\<exists>t. ctx' = ctx\<lparr>wc_tags := emplace (fst a) t (wc_tags ctx)\<rparr> \<and> (is_schema_key (fst a) \<longrightarrow> length t \<le> kMaxSchemaSize))"
proof (cases "is_schema_key (fst a)")
  case True
  with assms handle_schema_bound [of env "snd a"] show ?thesis
    by (cases "handle_schema env (snd a)") (auto simp: attribute_step_def)
next
  case False
  obtain k v where a: "a = (k, v)" by (cases a)
  with False assms show ?thesis
    by (auto simp: attribute_step_def handle_non_schema_attribute_def nbind_ok_iff split: if_splits ddwaf_obj.splits)
qed

lemma attribute_step_ok:
  assumes "waf_ctx_ok ctx" and "attribute_step env a ctx = Num_ok ctx'"
  shows "waf_ctx_ok ctx' \<and> extends ctx ctx'"
  using attribute_step_cases [OF assms(2)]
proof (elim disjE exE conjE)
  fix t assume "ctx' = ctx\<lparr>wc_tags := emplace (fst a) t (wc_tags ctx)\<rparr>" "is_schema_key (fst a) \<longrightarrow> length t \<le> kMaxSchemaSize"
  with assms(1) show ?thesis
    by (simp add: waf_ctx_ok_def extends_def emplace_distinct emplace_all emplace_keeps del: map_of_eq_Some_iff)
qed (use assms(1) in \<open>simp_all add: waf_ctx_ok_def extends_def emplace_distinct emplace_keeps del: map_of_eq_Some_iff\<close>)

lemma attributes_loop_ok:
  "waf_ctx_ok ctx \<Longrightarrow> waf_ctx_ok (fst (attributes_loop env as ctx)) \<and> extends ctx (fst (attributes_loop env as ctx))"
proof (induction as arbitrary: ctx)
  case (Cons a as)
  show ?case
  proof (cases "attribute_step env a ctx")
    case (Num_ok c)
    with attribute_step_ok [OF Cons.prems Num_ok] Cons.IH [of c] show ?thesis
      by (auto intro: extends_trans)
  qed (use Cons.prems in \<open>auto intro: extends_refl\<close>)
qed (simp add: extends_refl)

lemma waf_run_ok:
  assumes "waf_ctx_ok ctx"
  shows "waf_ctx_ok (fst (waf_run env code result ctx))"
    and "extends (ctx\<lparr>wc_results := wc_results ctx @ [result], wc_keep := new_keep code result (wc_keep ctx)\<rparr>)
           (fst (waf_run env code result ctx))"
proof -
  let ?c = "ctx\<lparr>wc_results := wc_results ctx @ [result], wc_keep := new_keep code result (wc_keep ctx)\<rparr>"
  have ok: "waf_ctx_ok ?c" using assms by (simp add: waf_ctx_ok_def)
  have f: "fst (waf_run env code result ctx) = fst (run_attributes env result ?c)"
    by (auto simp: waf_run_def Let_def split: prod.splits num_result.splits)
  have "waf_ctx_ok (fst (run_attributes env result ?c)) \<and> extends ?c (fst (run_attributes env result ?c))"
    using ok attributes_loop_ok [OF ok]
    by (auto simp: run_attributes_def extends_refl split: option.splits sum.splits)
  with f show "waf_ctx_ok (fst (waf_run env code result ctx))"
    "extends ?c (fst (waf_run env code result ctx))" by auto
qed

definition waf_runs :: "waf_env \<Rightarrow> (ret_code \<times> (bytes \<times> ddwaf_obj) list) list \<Rightarrow> waf_ctx" where
  "waf_runs env rs = fold (\<lambda>(code, result) ctx. fst (waf_run env code result ctx)) rs waf_ctx_new"

lemma waf_runs_snoc: "waf_runs env (rs @ [(code, result)]) = fst (waf_run env code result (waf_runs env rs))"
  by (simp add: waf_runs_def)

text \<open>
  C24. Invariant of the WAF context of a request, over every sequence of runs, throwing ones
  included: the results of all the runs are kept in order; every tag and metric is collected
  once, under distinct names, and a later run never changes one; a schema tag is never longer than
  25000 bytes.
\<close>

theorem waf_context_invariant:
  "waf_ctx_ok (waf_runs env rs) \<and> wc_results (waf_runs env rs) = map snd rs
   \<and> (map_of (wc_tags (waf_runs env rs)) k = Some v \<longrightarrow> map_of (wc_tags (waf_runs env (rs @ rs'))) k = Some v)"
proof -
  have ok: "waf_ctx_ok (waf_runs env rs) \<and> wc_results (waf_runs env rs) = map snd rs" for rs
  proof (induction rs rule: rev_induct)
    case Nil
    show ?case by (simp add: waf_runs_def waf_ctx_new_def waf_ctx_ok_def)
  next
    case (snoc r rs)
    then show ?case
      using waf_run_ok [where ctx = "waf_runs env rs" and env = env and code = "fst r" and result = "snd r"]
      by (cases r) (simp add: waf_runs_snoc extends_def)
  qed
  have "map_of (wc_tags (waf_runs env rs)) k = Some v \<longrightarrow> map_of (wc_tags (waf_runs env (rs @ rs'))) k = Some v"
  proof (induction rs' rule: rev_induct)
    case (snoc r rs')
    then show ?case
      using waf_run_ok(2) [where ctx = "waf_runs env (rs @ rs')" and env = env and code = "fst r" and result = "snd r"] ok [of "rs @ rs'"]
      by (cases r) (simp add: waf_runs_snoc extends_def flip: append_assoc)
  qed simp
  with ok show ?thesis by blast
qed

theorem waf_context_invariant_witness:
  "map_of (wc_tags (waf_runs plain_env [(DDWAF_OK, [(''attributes'', Obj_map [(''_dd.appsec.s.req'', Obj_null)])]),
      (DDWAF_MATCH, [(''attributes'', Obj_map [(''_dd.appsec.s.req'', Obj_array [])])])])) ''_dd.appsec.s.req'' = Some ''x''"
  using waf_context_invariant [of plain_env "[(DDWAF_OK, [(''attributes'', Obj_map [(''_dd.appsec.s.req'', Obj_null)])])]"
      "''_dd.appsec.s.req''" "''x''" "[(DDWAF_MATCH, [(''attributes'', Obj_map [(''_dd.appsec.s.req'', Obj_array [])])])]"]
  by (simp add: waf_runs_def waf_run_def run_attributes_def attribute_step_def is_schema_key_def handle_schema_def
      plain_env_def kMaxPlainSchemaAllowed_def waf_ctx_new_def emplace_def)

text \<open>
  The keep flag is lost by a later run without a keep flag that does not match, and after a report
  the same events are not reported again.
\<close>

lemma keep_lost:
  assumes "get_opt result ''keep'' = None" and "code \<noteq> DDWAF_MATCH"
  shows "\<not> wc_keep (fst (waf_run env code result ctx))"
proof -
  have l: "wc_keep (fst (attributes_loop env as c)) = wc_keep c" for as c
  proof (induction as arbitrary: c)
    case (Cons a as)
    show ?case
    proof (cases "attribute_step env a c")
      case (Num_ok c')
      then have "wc_keep c' = wc_keep c" by (auto dest!: attribute_step_cases)
      with Num_ok Cons.IH [of c'] show ?thesis by simp
    qed simp_all
  qed simp
  let ?c = "ctx\<lparr>wc_results := wc_results ctx @ [result], wc_keep := new_keep code result (wc_keep ctx)\<rparr>"
  have "wc_keep (fst (waf_run env code result ctx)) = wc_keep (fst (run_attributes env result ?c))"
    unfolding waf_run_def Let_def by (cases "run_attributes env result ?c") (auto split: num_result.splits)
  also have "\<dots> = new_keep code result (wc_keep ctx)"
    using l [of _ ?c] by (auto simp: run_attributes_def split: option.splits sum.splits)
  finally show ?thesis using assms by (simp add: new_keep_def)
qed

definition result_events :: "(bytes \<times> ddwaf_obj) list \<Rightarrow> ddwaf_obj list" where
  "result_events r = (case get_opt r ''events'' of Some (Obj_array es) \<Rightarrow> es | _ \<Rightarrow> [])"

definition well_typed_result :: "(bytes \<times> ddwaf_obj) list \<Rightarrow> bool" where
  "well_typed_result r = (case get_opt r ''events'' of None \<Rightarrow> True | Some (Obj_array es) \<Rightarrow> True | _ \<Rightarrow> False)"

lemma concat_map_concat: "concat (map (\<lambda>xs. concat (map f xs)) xss) = concat (map f (concat xss))"
  by (induction xss) auto

lemma collect_events_spec:
  "list_all well_typed_result rs \<Longrightarrow> collect_events rs = Num_ok (filter (\<lambda>es. es \<noteq> []) (map result_events rs))"
proof (induction rs)
  case (Cons r rs)
  then show ?case
    by (auto simp: well_typed_result_def result_events_def split: option.splits ddwaf_obj.splits)
qed simp

lemma events_size_spec:
  "list_all well_typed_result rs \<Longrightarrow> events_size rs = Num_ok (concat (map result_events rs) \<noteq> [])"
proof (induction rs)
  case (Cons r rs)
  then show ?case
    by (auto simp: well_typed_result_def result_events_def split: option.splits ddwaf_obj.splits)
qed simp

text \<open>
  C25. The report of a request holds the events of all its WAF runs, in the order of the runs, in
  one \<^verbatim>\<open>triggers\<close> array; it is made exactly when there is an event, and only once.
\<close>

theorem matches_reported_once:
  assumes "list_all well_typed_result (wc_results ctx)"
  shows "let evts = concat (map result_events (wc_results ctx)) in
    has_matches ctx = Num_ok (evts \<noteq> []) \<and>
    (\<exists>ctx' n. report_matches env ctx = Num_ok (ctx',
        if evts = [] then None
        else Some (json_text env (Ev_StartObject # Ev_String ''triggers'' # Ev_StartArray
          # concat (map events evts) @ [Ev_EndArray n, Ev_EndObject 1])))
      \<and> report_matches env ctx' = Num_ok (ctx', None))"
proof -
  let ?evts = "concat (map result_events (wc_results ctx))"
  let ?arrs = "filter (\<lambda>es. es \<noteq> []) (map result_events (wc_results ctx))"
  have e: "?arrs = [] \<longleftrightarrow> ?evts = []" by (auto simp: filter_empty_conv)
  have "concat (filter (\<lambda>es. es \<noteq> []) ess) = concat ess" for ess :: "ddwaf_obj list list"
    by (induction ess) auto
  then have "concat ?arrs = ?evts" by blast
  then have "concat (map (\<lambda>evts. concat (map ddwaf_object_to_json evts)) ?arrs) = concat (map events ?evts)"
    using concat_map_concat [of events ?arrs] by (simp add: ext [of ddwaf_object_to_json events, OF written_events])
  then show ?thesis
    using e collect_events_spec [OF assms] events_size_spec [OF assms]
    by (auto simp: Let_def has_matches_def report_matches_def)
qed

theorem matches_reported_once_witness:
  "report_matches plain_env (waf_runs plain_env [(DDWAF_MATCH, [(''events'', Obj_array [Obj_null])]), (DDWAF_OK, [])])
   = Num_ok ((waf_runs plain_env [(DDWAF_MATCH, [(''events'', Obj_array [Obj_null])]), (DDWAF_OK, [])])\<lparr>wc_results := []\<rparr>,
       Some ''xxxxxx'')
   \<and> has_matches (waf_runs plain_env [(DDWAF_MATCH, [(''events'', Obj_array [Obj_null])]), (DDWAF_OK, [])]) = Num_ok True"
  using matches_reported_once [of "waf_runs plain_env [(DDWAF_MATCH, [(''events'', Obj_array [Obj_null])]), (DDWAF_OK, [])]" plain_env]
  by (simp add: waf_runs_def waf_run_def run_attributes_def waf_ctx_new_def well_typed_result_def result_events_def
      new_keep_def report_matches_def plain_env_def numeral_eq_Suc Let_def)

end
