(* ===== verification/Blocking.thy ===== *)
theory Blocking
  imports Ddwaf_Req "HOL-Library.Log_Nat"
begin

text \<open>
  The blocking response: \<^verbatim>\<open>src/security/blocking.cpp\<close>. \<^verbatim>\<open>strtod\<close> rounds the rational
  its text denotes to the nearest double, ties to even, with the subnormal numbers and the overflow
  to infinity (\<open>round_double_nearest\<close> and \<open>round_double_exact\<close> justify the rounding). \<^const>\<open>None\<close> marks the call of \<^verbatim>\<open>front()\<close> or \<^verbatim>\<open>back()\<close> on an
  empty view, which \<^verbatim>\<open>trim\<close> makes on a text of blanks only. What nginx answers to the calls that
  \<^verbatim>\<open>block\<close> makes is a record of parameters; \<^verbatim>\<open>ngx_http_clean_header\<close> is a change of the response headers
  and of the content length.
\<close>

section \<open>strtod\<close>

definition radix_val :: "nat \<Rightarrow> bytes \<Rightarrow> nat" where
  "radix_val b ds = foldl (\<lambda>n c. b * n + hex_val c) 0 ds"

definition exponent_of :: "char \<Rightarrow> bytes \<Rightarrow> int" where
  "exponent_of e s =
     (case s of
        [] \<Rightarrow> 0
      | c # r \<Rightarrow>
          if tolower c \<noteq> e then 0
          else let neg = r \<noteq> [] \<and> hd r = CHR ''-''; r' = (if r \<noteq> [] \<and> (hd r = CHR ''-'' \<or> hd r = CHR ''+'') then tl r else r);
                   n = int (radix_val 10 (takeWhile isdigit r'))
               in if neg then - n else n)"

definition rat_power :: "nat \<Rightarrow> int \<Rightarrow> rat" where
  "rat_power b e = (if 0 \<le> e then of_nat b ^ nat e else 1 / of_nat b ^ nat (- e))"

definition strtod_number :: "nat \<Rightarrow> (char \<Rightarrow> bool) \<Rightarrow> char \<Rightarrow> nat \<Rightarrow> bytes \<Rightarrow> rat option" where
  "strtod_number b isd e eb s =
     (let i = takeWhile isd s; r1 = dropWhile isd s;
          point = (r1 \<noteq> [] \<and> hd r1 = CHR ''.'');
          f = (if point then takeWhile isd (tl r1) else []);
          r2 = (if point then dropWhile isd (tl r1) else r1)
      in if i = [] \<and> f = [] then None
         else Some (of_nat (radix_val b (i @ f)) / of_nat b ^ length f * rat_power eb (exponent_of e r2)))"

text \<open>
  Rounding of a non-negative rational: the exponent of its leading bit, the exponent of the last of
  53 bits (not below that of the subnormal numbers), and the nearest multiple of that power of two.
\<close>

definition bin_exponent :: "rat \<Rightarrow> int" where
  "bin_exponent q =
     (let (n, d) = quotient_of q; e = bitlen n - bitlen d in if q < rat_power 2 e then e - 1 else e)"

definition ulp_exponent :: "rat \<Rightarrow> int" where
  "ulp_exponent q = max (- 1074) (bin_exponent q - 52)"

definition round_even :: "rat \<Rightarrow> int" where
  "round_even q =
     (let f = \<lfloor>q\<rfloor>; r = q - of_int f in if 1 / 2 < r \<or> (r = 1 / 2 \<and> odd f) then f + 1 else f)"

definition round_double :: "rat \<Rightarrow> f64" where
  "round_double q =
     (if q \<le> 0 then Fin 0
      else let k = ulp_exponent q; v = of_int (round_even (q * rat_power 2 (- k))) * rat_power 2 k
           in if 2 ^ 1024 \<le> v then PInf else Fin v)"

definition starts_ci :: "bytes \<Rightarrow> bytes \<Rightarrow> bool" where
  "starts_ci p s \<longleftrightarrow> map tolower (take (length p) s) = p"

definition strtod_abs :: "bytes \<Rightarrow> f64 option" where
  "strtod_abs s =
     (if starts_ci ''inf'' s then Some PInf
      else if starts_ci ''nan'' s then Some NaN
      else case (if starts_ci ''0x'' s then strtod_number 16 isxdigit CHR ''p'' 2 (drop 2 s) else None) of
             Some q \<Rightarrow> Some (round_double q)
           | None \<Rightarrow> map_option round_double (strtod_number 10 isdigit CHR ''e'' 10 s))"

fun f64_uminus :: "f64 \<Rightarrow> f64" where
  "f64_uminus (Fin q) = Fin (- q)"
| "f64_uminus PInf = NInf"
| "f64_uminus NInf = PInf"
| "f64_uminus NaN = NaN"

text \<open>\<^const>\<open>None\<close> is the case in which nothing is converted.\<close>

definition strtod :: "bytes \<Rightarrow> f64 option" where
  "strtod s =
     (let s1 = dropWhile isspace s
      in if s1 \<noteq> [] \<and> hd s1 = CHR ''-'' then map_option f64_uminus (strtod_abs (tl s1))
         else if s1 \<noteq> [] \<and> hd s1 = CHR ''+'' then strtod_abs (tl s1)
         else strtod_abs s1)"

section \<open>Accept entries\<close>

record accept_entry =
  ae_type :: bytes
  ae_subtype :: bytes
  ae_qvalue :: f64

definition trim :: "bytes \<Rightarrow> bytes option" where
  "trim sv = (let s = dropWhile isspace sv in if s = [] then None else Some (trim_back isspace s))"

text \<open>\<^verbatim>\<open>find("q=")\<close>: the first position of the text.\<close>

fun find_q :: "bytes \<Rightarrow> nat option" where
  "find_q [] = None"
| "find_q (c # r) = (if take 2 (c # r) = ''q='' then Some 0 else map_option Suc (find_q r))"

definition q_valid :: "f64 \<Rightarrow> bool" where
  "q_valid d = (case d of Fin q \<Rightarrow> 0 < q \<and> q \<le> 1 | PInf \<Rightarrow> False | NInf \<Rightarrow> False | NaN \<Rightarrow> True)"

definition qvalue_of :: "bytes \<Rightarrow> f64" where
  "qvalue_of params =
     (case find_q params of
        None \<Rightarrow> Fin 1
      | Some q_pos \<Rightarrow>
          if q_pos = 0 \<or> params ! (q_pos - 1) = SP then
            (case strtod (drop (q_pos + 2) params) of
               None \<Rightarrow> Fin 1
             | Some d \<Rightarrow> if q_valid d then d else Fin 1)
          else Fin 1)"

definition entry_deref :: "bytes \<Rightarrow> accept_entry option" where
  "entry_deref part =
     (case find_char CHR ''/'' part of
        None \<Rightarrow> Some \<lparr>ae_type = [], ae_subtype = [], ae_qvalue = Fin 1\<rparr>
      | Some slash_pos \<Rightarrow>
          trim (take slash_pos part) \<bind> (\<lambda>ty.
            let sv = drop (slash_pos + 1) part
            in case find_char CHR '';'' sv of
                 None \<Rightarrow> trim sv \<bind> (\<lambda>sub. Some \<lparr>ae_type = ty, ae_subtype = sub, ae_qvalue = Fin 1\<rparr>)
               | Some semicolon_pos \<Rightarrow>
                   trim (take semicolon_pos sv) \<bind> (\<lambda>sub.
                     Some \<lparr>ae_type = ty, ae_subtype = sub, ae_qvalue = qvalue_of (drop (semicolon_pos + 1) sv)\<rparr>)))"

text \<open>The iterator: the position and the end of the current part; \<^const>\<open>None\<close> is \<^verbatim>\<open>end()\<close>.\<close>

definition find_end :: "bytes \<Rightarrow> nat \<Rightarrow> nat" where
  "find_end header pos =
     (case find_char CHR '','' (drop pos header) of None \<Rightarrow> length header | Some colon_pos \<Rightarrow> pos + colon_pos)"

definition accept_begin :: "bytes \<Rightarrow> (nat \<times> nat) option" where
  "accept_begin header = Some (0, find_end header 0)"

definition accept_next :: "bytes \<Rightarrow> nat \<times> nat \<Rightarrow> (nat \<times> nat) option" where
  "accept_next header it =
     (if snd it = length header then None else Some (snd it + 1, find_end header (snd it + 1)))"

definition part_sv :: "bytes \<Rightarrow> nat \<times> nat \<Rightarrow> bytes" where
  "part_sv header it = take (snd it - fst it) (drop (fst it) header)"

section \<open>Choosing the content type\<close>

datatype resp_ct = HTML | JSON | NONE

text \<open>Specificities as their underlying integers: none, asterisk, partial, full.\<close>

record accept_choice =
  ch_spec :: nat
  ch_qvalue :: f64
  ch_pos :: nat

definition no_choice :: accept_choice where
  "no_choice = \<lparr>ch_spec = 0, ch_qvalue = Fin 0, ch_pos = 0\<rparr>"

definition update_choice :: "nat \<Rightarrow> accept_entry \<Rightarrow> nat \<Rightarrow> accept_choice \<Rightarrow> accept_choice" where
  "update_choice spec ae pos c =
     (if ch_spec c < spec then \<lparr>ch_spec = spec, ch_qvalue = ae_qvalue ae, ch_pos = pos\<rparr> else c)"

text \<open>One iteration on the choices for JSON and HTML.\<close>

definition ct_step :: "accept_entry \<Rightarrow> nat \<Rightarrow> accept_choice \<times> accept_choice \<Rightarrow> accept_choice \<times> accept_choice" where
  "ct_step ae pos s =
     (case s of (json, html) \<Rightarrow>
        if ae_type ae = ''*'' \<and> ae_subtype ae = ''*'' then (update_choice 1 ae pos json, update_choice 1 ae pos html)
        else if ae_type ae = ''text'' \<and> ae_subtype ae = ''*'' then (json, update_choice 2 ae pos html)
        else if ae_type ae = ''text'' \<and> ae_subtype ae = ''html'' then (json, update_choice 3 ae pos html)
        else if ae_type ae = ''application'' \<and> ae_subtype ae = ''*'' then (update_choice 2 ae pos json, html)
        else if ae_type ae = ''application'' \<and> ae_subtype ae = ''json'' then (update_choice 3 ae pos json, html)
        else (json, html))"

lemma find_end_bounds: "pos \<le> length header \<Longrightarrow> pos \<le> find_end header pos \<and> find_end header pos \<le> length header"
  by (auto simp: find_end_def split: option.splits dest: find_pos_SomeD(1))

lemma find_end_beyond: "length header \<le> pos \<Longrightarrow> find_end header pos = length header"
  by (simp add: find_end_def)

function ct_loop ::
  "bytes \<Rightarrow> (nat \<times> nat) option \<Rightarrow> nat \<Rightarrow> accept_choice \<times> accept_choice \<Rightarrow> (accept_choice \<times> accept_choice) option" where
  "ct_loop header None pos s = Some s"
| "ct_loop header (Some it) pos s =
     entry_deref (part_sv header it) \<bind> (\<lambda>ae. ct_loop header (accept_next header it) (pos + 1) (ct_step ae pos s))"
  by pat_completeness auto
termination
proof (relation "measure (\<lambda>(h, it, pos, s). case it of None \<Rightarrow> 0
    | Some (p, e) \<Rightarrow> if e = length h then 1 else if length h < e then 2 else 2 + (length h - e))", goal_cases)
  case (2 header it pos s ae)
  show ?case
  proof (cases "snd it < length header")
    case True
    then show ?thesis
      using find_end_bounds [of "snd it + 1" header] by (auto simp: accept_next_def split: prod.splits)
  next
    case False
    then show ?thesis
      by (auto simp: accept_next_def find_end_beyond split: prod.splits)
  qed
qed simp

text \<open>The comparisons of doubles are false for a NaN.\<close>

fun f64_less :: "f64 \<Rightarrow> f64 \<Rightarrow> bool" where
  "f64_less (Fin a) (Fin b) \<longleftrightarrow> a < b"
| "f64_less NaN _ \<longleftrightarrow> False"
| "f64_less _ NaN \<longleftrightarrow> False"
| "f64_less PInf _ \<longleftrightarrow> False"
| "f64_less _ NInf \<longleftrightarrow> False"
| "f64_less NInf _ \<longleftrightarrow> True"
| "f64_less _ PInf \<longleftrightarrow> True"

definition ct_decide :: "accept_choice \<times> accept_choice \<Rightarrow> resp_ct" where
  "ct_decide s =
     (case s of (json, html) \<Rightarrow>
        if f64_less (ch_qvalue json) (ch_qvalue html) then HTML
        else if f64_less (ch_qvalue html) (ch_qvalue json) then JSON
        else if ch_pos html < ch_pos json then HTML
        else JSON)"

definition determine_ct :: "bytes option \<Rightarrow> resp_ct option" where
  "determine_ct accept =
     (case accept of
        None \<Rightarrow> Some JSON
      | Some header \<Rightarrow> map_option ct_decide (ct_loop header (accept_begin header) 0 (no_choice, no_choice)))"

definition resolve_content_type :: "block_spec \<Rightarrow> bytes option \<Rightarrow> resp_ct option" where
  "resolve_content_type spec accept =
     (case bs_ct spec of
        CT_AUTO \<Rightarrow> determine_ct accept
      | CT_HTML \<Rightarrow> Some HTML
      | CT_NONE \<Rightarrow> Some NONE
      | CT_JSON \<Rightarrow> Some JSON)"

fun content_type_header :: "resp_ct \<Rightarrow> bytes" where
  "content_type_header HTML = ''text/html;charset=utf-8''"
| "content_type_header JSON = ''application/json''"
| "content_type_header NONE = []"

section \<open>BlockingService\<close>

record blocking_service =
  templ_html :: bytes
  templ_json :: bytes

definition load_template :: "(bytes \<Rightarrow> bytes option) \<Rightarrow> bytes \<Rightarrow> exn + bytes" where
  "load_template files path = (case files path of None \<Rightarrow> Inl Runtime_error | Some s \<Rightarrow> Inr s)"

text \<open>The constructor; the default templates are arguments.\<close>

definition template_of :: "(bytes \<Rightarrow> bytes option) \<Rightarrow> bytes \<Rightarrow> bytes option \<Rightarrow> exn + bytes" where
  "template_of files dflt path = (case path of None \<Rightarrow> Inr dflt | Some p \<Rightarrow> load_template files p)"

definition blocking_service_new ::
  "(bytes \<Rightarrow> bytes option) \<Rightarrow> bytes \<Rightarrow> bytes \<Rightarrow> bytes option \<Rightarrow> bytes option \<Rightarrow> exn + blocking_service" where
  "blocking_service_new files dflt_html dflt_json html_path json_path =
     (case template_of files dflt_html html_path of
        Inl e \<Rightarrow> Inl e
      | Inr h \<Rightarrow> (case template_of files dflt_json json_path of
                     Inl e \<Rightarrow> Inl e
                   | Inr j \<Rightarrow> Inr \<lparr>templ_html = h, templ_json = j\<rparr>))"

definition service_initialize ::
  "(bytes \<Rightarrow> bytes option) \<Rightarrow> bytes \<Rightarrow> bytes \<Rightarrow> bytes option \<Rightarrow> bytes option
     \<Rightarrow> blocking_service option \<Rightarrow> exn + blocking_service" where
  "service_initialize files dflt_html dflt_json html_path json_path instance =
     (case instance of
        Some _ \<Rightarrow> Inl Runtime_error
      | None \<Rightarrow> blocking_service_new files dflt_html dflt_json html_path json_path)"

datatype output_call =
    Send_header int bytes "(bytes \<times> bytes) list"
  | Output_null
  | Output_last bytes

record block_req =
  bq_accept :: "bytes option"
  bq_header_only :: bool
  bq_keepalive :: bool
  bq_header_sent :: bool
  bq_lingering_close :: bool
  bq_chunked :: bool
  bq_status :: int
  bq_err_status :: int
  bq_content_type :: bytes
  bq_headers :: "(bytes \<times> bytes) list"
  bq_content_length :: int
  bq_calls :: "output_call list"

record block_env =
  be_discard_ok :: bool
  be_clean_header :: "(bytes \<times> bytes) list \<times> int \<Rightarrow> (bytes \<times> bytes) list \<times> int"
  be_push_ok :: bool
  be_send_header_rc :: int
  be_calloc_ok :: bool
  be_output_rc :: "bytes option \<Rightarrow> int"

abbreviation NGX_OK :: int where "NGX_OK \<equiv> 0"
abbreviation NGX_ERROR :: int where "NGX_ERROR \<equiv> - 1"
abbreviation NGX_AGAIN :: int where "NGX_AGAIN \<equiv> - 2"
abbreviation NGX_DONE :: int where "NGX_DONE \<equiv> - 4"

definition push_header :: "block_env \<Rightarrow> bytes \<Rightarrow> bytes \<Rightarrow> block_req \<Rightarrow> block_req" where
  "push_header env name v req = (if be_push_ok env then req\<lparr>bq_headers := bq_headers req @ [(name, v)]\<rparr> else req)"

text \<open>Everything \<^verbatim>\<open>block\<close> does before it sends the header.\<close>

definition block_prepare :: "block_env \<Rightarrow> block_spec \<Rightarrow> resp_ct \<Rightarrow> block_req \<Rightarrow> block_req" where
  "block_prepare env spec ct req =
     (let r1 = (if ct = NONE then req\<lparr>bq_header_only := True\<rparr> else req);
          r1b = (if be_discard_ok env then r1 else r1\<lparr>bq_keepalive := False\<rparr>);
          (hs, n) = be_clean_header env (bq_headers r1b, bq_content_length r1b);
          r2 = r1b\<lparr>bq_header_sent := False, bq_headers := hs, bq_content_length := n, bq_status := bs_status spec, bq_err_status := 0,
                  bq_content_type := content_type_header ct\<rparr>;
          r3 = (if bs_location spec \<noteq> [] then push_header env ''Location'' (bs_location spec) r2 else r2);
          r4 = (if bq_header_only r3 then r3\<lparr>bq_content_length := 0, bq_chunked := False\<rparr> else r3)
      in r4\<lparr>bq_keepalive := False, bq_lingering_close := False\<rparr>)"

definition block :: "block_env \<Rightarrow> blocking_service \<Rightarrow> block_spec \<Rightarrow> block_req \<Rightarrow> (int \<times> block_req) option" where
  "block env svc spec req =
     resolve_content_type spec (bq_accept req) \<bind> (\<lambda>ct.
       let templ = (if ct = HTML then templ_html svc else templ_json svc);
           r = block_prepare env spec ct req;
           r1 = r\<lparr>bq_calls := bq_calls r @ [Send_header (bq_status r) (bq_content_type r) (bq_headers r)]\<rparr>;
           res = be_send_header_rc env
       in if res \<noteq> NGX_OK then Some (res, r1)
          else if bq_header_only r1 then
            Some (be_output_rc env None, r1\<lparr>bq_calls := bq_calls r1 @ [Output_null]\<rparr>)
          else if \<not> be_calloc_ok env then Some (NGX_ERROR, r1)
          else Some (be_output_rc env (Some templ), r1\<lparr>bq_calls := bq_calls r1 @ [Output_last templ]\<rparr>))"

section \<open>The rounding of strtod\<close>

lemma rat_power_powi: "rat_power 2 e = 2 powi e"
  by (simp add: rat_power_def power_int_def power_inverse [symmetric] inverse_eq_divide power_one_over)

lemma round_even_bound: "\<bar>of_int (round_even q) - q\<bar> \<le> 1 / 2"
proof -
  have "of_int \<lfloor>q\<rfloor> \<le> q" "q < of_int \<lfloor>q\<rfloor> + 1" by linarith+
  then show ?thesis by (auto simp: round_even_def Let_def abs_le_iff)
qed

lemma round_even_int: "round_even (of_int i) = i"
  by (simp add: round_even_def)

lemma bitlen_powi:
  assumes "0 < n"
  shows "(2::rat) powi (bitlen n - 1) \<le> of_int n" and "of_int n < (2::rat) powi bitlen n"
proof -
  from assms have p: "0 < bitlen n"
    using bitlen_eq_zero_iff [of n] bitlen_nonneg [of n] by linarith
  have b: "2 ^ nat (bitlen n - 1) \<le> n" "n < 2 ^ nat (bitlen n)" using bitlen_bounds [OF assms] by simp_all
  from b(1) have "(2::rat) ^ nat (bitlen n - 1) \<le> of_int n"
    by (metis of_int_le_iff of_int_numeral of_int_power)
  moreover from b(2) have "of_int n < (2::rat) ^ nat (bitlen n)"
    by (metis of_int_less_iff of_int_numeral of_int_power)
  ultimately show "(2::rat) powi (bitlen n - 1) \<le> of_int n" and "of_int n < (2::rat) powi bitlen n"
    using p by (simp_all add: power_int_def)
qed

lemma bin_exponent_bounds:
  assumes "0 < q"
  shows "2 powi bin_exponent q \<le> q" and "q < 2 powi (bin_exponent q + 1)"
proof -
  obtain n d where nd: "quotient_of q = (n, d)" by fastforce
  have d: "0 < d" and q: "q = of_int n / of_int d"
    using quotient_of_denom_pos [OF nd] quotient_of_div [OF nd] by simp_all
  from assms d q have n: "0 < n" by (simp add: zero_less_divide_iff)
  let ?e = "bitlen n - bitlen d"
  note N = bitlen_powi [OF n] and D = bitlen_powi [OF d]
  have "q < 2 powi bitlen n / 2 powi (bitlen d - 1)"
    unfolding q using N D n d by (intro frac_less) (simp_all add: power_int_def)
  also have "\<dots> = 2 powi (?e + 1)" by (subst power_int_diff [symmetric]) (simp_all add: algebra_simps)
  finally have up: "q < 2 powi (?e + 1)" .
  have "2 powi (?e - 1) = (2::rat) powi (bitlen n - 1) / 2 powi bitlen d"
    by (subst power_int_diff [symmetric]) (simp_all add: algebra_simps)
  also have "\<dots> \<le> q"
    unfolding q using N D n d by (intro frac_le) (simp_all add: less_imp_le)
  finally have low: "2 powi (?e - 1) \<le> q" .
  from up low show "2 powi bin_exponent q \<le> q" and "q < 2 powi (bin_exponent q + 1)"
    by (auto simp: bin_exponent_def nd rat_power_powi Let_def)
qed

text \<open>The rounded value is at most half a unit in the last place away.\<close>

lemma round_double_nearest:
  assumes "0 < q" and "round_double q = Fin v"
  shows "\<bar>v - q\<bar> \<le> 2 powi (ulp_exponent q) / 2"
proof -
  let ?k = "ulp_exponent q"
  have v: "v = of_int (round_even (q * 2 powi (- ?k))) * 2 powi ?k"
    using assms by (auto simp: round_double_def Let_def rat_power_powi split: if_splits)
  have "v - q = (of_int (round_even (q * 2 powi (- ?k))) - q * 2 powi (- ?k)) * 2 powi ?k"
    by (simp add: v algebra_simps power_int_minus)
  then have "\<bar>v - q\<bar> = \<bar>of_int (round_even (q * 2 powi (- ?k))) - q * 2 powi (- ?k)\<bar> * 2 powi ?k"
    by (simp add: abs_mult)
  also have "\<dots> \<le> 1 / 2 * 2 powi ?k"
    using round_even_bound by (intro mult_right_mono) simp_all
  finally show ?thesis by simp
qed

text \<open>Every double is its own rounding.\<close>

lemma round_double_exact:
  assumes m: "0 < m" "m < 2 ^ 53" and k: "- 1074 \<le> k" "k \<le> 971"
  shows "round_double (of_int m * 2 powi k) = Fin (of_int m * 2 powi k)"
proof -
  let ?q = "of_int m * 2 powi k :: rat"
  let ?u = "ulp_exponent ?q"
  have q: "0 < ?q" using m by simp
  have "(of_int m :: rat) < 2 powi 53" using m(2) by (simp add: power_int_def)
  then have lt: "?q < 2 powi (53 + k)" by (simp add: power_int_add)
  with bin_exponent_bounds(1) [OF q] have "(2::rat) powi bin_exponent ?q < 2 powi (53 + k)" by linarith
  then have "bin_exponent ?q < 53 + k" by (metis power_int_increasing linorder_not_le one_le_numeral)
  then have u: "?u \<le> k" using k by (simp add: ulp_exponent_def)
  have "?q * 2 powi (- ?u) = of_int m * 2 powi (k - ?u)" by (simp add: power_int_diff power_int_minus field_simps)
  also have "\<dots> = of_int (m * 2 ^ nat (k - ?u))" using u by (simp add: power_int_def)
  finally have e: "of_int (round_even (?q * 2 powi (- ?u))) = ?q * 2 powi (- ?u)" by (metis round_even_int)
  have "(2::rat) powi (53 + k) \<le> 2 powi 1024" using k by (intro power_int_increasing) simp_all
  with lt have "\<not> 2 ^ 1024 \<le> ?q" by (simp add: power_int_def)
  moreover have v: "of_int (round_even (?q * 2 powi (- ?u))) * 2 powi ?u = ?q"
    unfolding e by (simp add: power_int_minus)
  ultimately show ?thesis
    using q unfolding round_double_def Let_def rat_power_powi v by simp
qed

section \<open>The choice of the content type\<close>

text \<open>How specifically an entry accepts a type, and the entry that decides.\<close>

definition rank_html :: "accept_entry \<Rightarrow> nat" where
  "rank_html ae =
     (if ae_type ae = ''*'' \<and> ae_subtype ae = ''*'' then 1
      else if ae_type ae = ''text'' then (if ae_subtype ae = ''*'' then 2 else if ae_subtype ae = ''html'' then 3 else 0)
      else 0)"

definition rank_json :: "accept_entry \<Rightarrow> nat" where
  "rank_json ae =
     (if ae_type ae = ''*'' \<and> ae_subtype ae = ''*'' then 1
      else if ae_type ae = ''application'' then (if ae_subtype ae = ''*'' then 2 else if ae_subtype ae = ''json'' then 3 else 0)
      else 0)"

definition decides :: "(accept_entry \<Rightarrow> nat) \<Rightarrow> accept_entry list \<Rightarrow> accept_choice \<Rightarrow> bool" where
  "decides rank es c \<longleftrightarrow>
     list_all (\<lambda>ae. rank ae \<le> ch_spec c) es \<and>
     (if ch_spec c = 0 then c = no_choice
      else ch_pos c < length es \<and> rank (es ! ch_pos c) = ch_spec c \<and> ch_qvalue c = ae_qvalue (es ! ch_pos c)
        \<and> list_all (\<lambda>ae. rank ae < ch_spec c) (take (ch_pos c) es))"

lemma ct_step_ranks: "ct_step ae pos (j, h) = (update_choice (rank_json ae) ae pos j, update_choice (rank_html ae) ae pos h)"
  by (auto simp: ct_step_def rank_json_def rank_html_def update_choice_def)

lemma decides_snoc:
  "decides rank es c \<Longrightarrow> decides rank (es @ [ae]) (update_choice (rank ae) ae (length es) c)"
  by (auto simp: decides_def update_choice_def no_choice_def nth_append list_all_iff)

fun steps_from :: "accept_entry list \<Rightarrow> nat \<Rightarrow> accept_choice \<times> accept_choice \<Rightarrow> accept_choice \<times> accept_choice" where
  "steps_from [] pos s = s"
| "steps_from (ae # es) pos s = steps_from es (pos + 1) (ct_step ae pos s)"

lemma steps_from_decides:
  assumes "decides rank_json pre j" and "decides rank_html pre h"
  shows "\<exists>j' h'. steps_from es (length pre) (j, h) = (j', h') \<and> decides rank_json (pre @ es) j' \<and> decides rank_html (pre @ es) h'"
  using assms
proof (induction es arbitrary: pre j h)
  case (Cons ae es)
  show ?case
    using Cons.IH [OF decides_snoc [OF Cons.prems(1), of ae] decides_snoc [OF Cons.prems(2), of ae]]
    by (simp add: ct_step_ranks)
qed simp

definition accept_entries :: "bytes \<Rightarrow> accept_entry list option" where
  "accept_entries header = those (map entry_deref (split_on CHR '','' header))"

lemma ct_loop_parts:
  "p \<le> length header \<Longrightarrow> ct_loop header (Some (p, find_end header p)) pos s =
     map_option (\<lambda>es. steps_from es pos s) (those (map entry_deref (split_on CHR '','' (drop p header))))"
proof (induction "length header - p" arbitrary: p pos s rule: less_induct)
  case less
  let ?r = "drop p header"
  let ?part = "takeWhile (\<lambda>x. x \<noteq> CHR '','') ?r"
  show ?case
  proof (cases "find_char CHR '','' ?r")
    case None
    then have n: "CHR '','' \<notin> set ?r" by (auto simp: find_pos_None_iff)
    from None have e: "find_end header p = length header" by (simp add: find_end_def)
    have "part_sv header (p, length header) = ?r" by (simp add: part_sv_def)
    moreover have "?part = ?r" using n by (auto simp: takeWhile_eq_all_conv)
    then have "split_on CHR '','' ?r = [?r]" using n by (subst split_on_unfold) simp
    ultimately show ?thesis
      using e by (cases "entry_deref ?r") (simp_all add: accept_next_def)
  next
    case (Some i)
    note i = find_pos_SomeD [OF Some]
    have c: "CHR '','' \<in> set ?r" using i(1,2) by (metis nth_mem)
    from Some have e: "find_end header p = p + i" by (simp add: find_end_def)
    have part: "part_sv header (p, p + i) = ?part" using i(3) by (simp add: part_sv_def)
    have rest: "drop (p + i + 1) header = drop 1 (dropWhile (\<lambda>x. x \<noteq> CHR '','') ?r)"
      using i(4) by (metis drop_drop add.commute add.assoc)
    have lt: "p + i < length header" using i(1) by simp
    have IH: "ct_loop header (Some (p + i + 1, find_end header (p + i + 1))) (pos + 1) s' =
      map_option (\<lambda>es. steps_from es (pos + 1) s') (those (map entry_deref (split_on CHR '','' (drop (p + i + 1) header))))" for s'
      using lt by (intro less) auto
    have sp: "split_on CHR '','' ?r = ?part # split_on CHR '','' (drop (p + i + 1) header)"
      using c unfolding rest by (subst split_on_unfold) simp
    show ?thesis
      unfolding sp using lt IH
      by (cases "entry_deref ?part") (simp_all add: e part accept_next_def option.map_comp comp_def)
  qed
qed

lemma f64_less_asym: "f64_less a b \<Longrightarrow> \<not> f64_less b a"
  by (cases a; cases b) auto

text \<open>
  C27. The content type of an automatic blocking response for an \<^verbatim>\<open>Accept\<close> header whose entries are
  all readable: among the entries, the first of the most specific ones decides for HTML and
  likewise for JSON (quality zero when there is none); HTML is sent when its quality is the higher
  one as a double, or when neither is higher and its entry comes first, and JSON otherwise.
\<close>

theorem accept_negotiation:
  assumes "accept_entries header = Some es"
  shows "\<exists>json html. decides rank_json es json \<and> decides rank_html es html
    \<and> determine_ct (Some header) =
        Some (if f64_less (ch_qvalue json) (ch_qvalue html)
                 \<or> (\<not> f64_less (ch_qvalue html) (ch_qvalue json) \<and> ch_pos html < ch_pos json)
              then HTML else JSON)"
proof -
  have d: "decides rank_json [] no_choice" "decides rank_html [] no_choice"
    by (simp_all add: decides_def no_choice_def)
  have "ct_loop header (accept_begin header) 0 (no_choice, no_choice) = Some (steps_from es 0 (no_choice, no_choice))"
    using ct_loop_parts [of 0 header 0] assms by (simp add: accept_begin_def accept_entries_def)
  moreover obtain json html where "steps_from es 0 (no_choice, no_choice) = (json, html)"
    "decides rank_json es json" "decides rank_html es html"
    using steps_from_decides [OF d, of es] by auto
  ultimately show ?thesis
    using f64_less_asym [of "ch_qvalue json" "ch_qvalue html"]
    by (intro exI [of _ json] exI [of _ html]) (simp add: determine_ct_def ct_decide_def)
qed

text \<open>Witness: a header with two entries; the one for HTML has the higher quality.\<close>

theorem accept_negotiation_witness:
  "determine_ct (Some ''application/json;q=0.5, text/html'') = Some HTML"
proof -
  let ?es = "[\<lparr>ae_type = ''application'', ae_subtype = ''json'', ae_qvalue = Fin (1 / 2)\<rparr>,
              \<lparr>ae_type = ''text'', ae_subtype = ''html'', ae_qvalue = Fin 1\<rparr>]"
  have "accept_entries ''application/json;q=0.5, text/html'' = Some ?es" by code_simp
  from accept_negotiation [OF this] obtain json html where
    d: "decides rank_json ?es json" "decides rank_html ?es html"
    and r: "determine_ct (Some ''application/json;q=0.5, text/html'') =
      Some (if f64_less (ch_qvalue json) (ch_qvalue html)
               \<or> (\<not> f64_less (ch_qvalue html) (ch_qvalue json) \<and> ch_pos html < ch_pos json)
            then HTML else JSON)" by blast
  from d(1) have "ch_qvalue json = Fin (1 / 2)"
    by (auto simp: decides_def rank_json_def no_choice_def less_Suc_eq split: if_splits)
  moreover from d(2) have "ch_qvalue html = Fin 1"
    by (auto simp: decides_def rank_html_def no_choice_def less_Suc_eq split: if_splits)
  ultimately show ?thesis using r by simp
qed

text \<open>Two different qualities that are the same double count as equal.\<close>

lemma equal_doubles_tie: "round_double (1 / 10) = round_double (1000000000000000001 / 10000000000000000000)"
  by code_simp

text \<open>A quality of zero, which in HTTP means not acceptable, counts as one.\<close>

lemma zero_quality_is_one: "qvalue_of ''q=0'' = Fin 1"
  by code_simp

text \<open>A text without a type makes \<^verbatim>\<open>trim\<close> look at the front of an empty view.\<close>

lemma slash_only_undefined: "entry_deref ''/'' = None"
  by (simp add: entry_deref_def trim_def)

section \<open>The response\<close>

text \<open>
  The blocking response when nginx accepts its header: the status and the headers of the
  specification, no body for a request without body or a response without content, and otherwise the
  template of the content type as the last buffer; the connection is not kept alive.
\<close>

lemma block_response:
  assumes "resolve_content_type spec (bq_accept req) = Some ct" and "be_send_header_rc env = NGX_OK"
    and "be_calloc_ok env" and "be_push_ok env"
    and "be_clean_header env (bq_headers req, bq_content_length req) = (hs, n)"
  shows "\<exists>r. block env svc spec req = Some (be_output_rc env (if bq_header_only req \<or> ct = NONE then None
             else Some (if ct = HTML then templ_html svc else templ_json svc)), r)
      \<and> bq_calls r = bq_calls req @ [
          Send_header (bs_status spec) (content_type_header ct)
            (hs @ (if bs_location spec = [] then [] else [(''Location'', bs_location spec)])),
          (if bq_header_only req \<or> ct = NONE then Output_null
           else Output_last (if ct = HTML then templ_html svc else templ_json svc))]
      \<and> \<not> bq_keepalive r \<and> \<not> bq_lingering_close r \<and> \<not> bq_header_sent r
      \<and> bq_header_only r = (bq_header_only req \<or> ct = NONE)
      \<and> bq_content_length r = (if bq_header_only r then 0 else n)
      \<and> bq_chunked r = (\<not> bq_header_only r \<and> bq_chunked req)"
  using assms by (auto simp: block_def block_prepare_def push_header_def Let_def)

end
