(* ===== verification/Ngx_List.thy ===== *)
theory Ngx_List
  imports Prelude "HOL-Library.Monad_Syntax"
begin

text \<open>
  nginx header lists (\<^verbatim>\<open>ngx_list_t\<close>) and the iterator over them, \<^verbatim>\<open>NginxListIter\<close> of
  \<^verbatim>\<open>src/security/util.h\<close>. A list is the non-empty list of its parts, each the list of its \<^verbatim>\<open>nelts\<close>
  elements; an iterator position is a part number and an index in that part.
\<close>

record header_elt =
  he_key :: bytes
  he_lowcase_key :: bytes
  he_value :: bytes
  he_hash :: nat

type_synonym 'a ngx_list = "'a list list"
type_synonym ngx_pos = "nat \<times> nat"

definition ngx_begin :: ngx_pos where
  "ngx_begin = (0, 0)"

definition ngx_end :: "'a ngx_list \<Rightarrow> ngx_pos" where
  "ngx_end ps = (length ps - 1, length (last ps))"

text \<open>The loop of \<^verbatim>\<open>operator++\<close> after the increment.\<close>

function ngx_adv :: "'a ngx_list \<Rightarrow> ngx_pos \<Rightarrow> ngx_pos" where
  "ngx_adv ps (p, i) =
     (if length (ps ! p) \<le> i \<and> Suc p < length ps then ngx_adv ps (Suc p, 0) else (p, i))"
  by pat_completeness auto
termination
  by (relation "measure (\<lambda>(ps, p, i). length ps - p)") auto

declare ngx_adv.simps [simp del]

definition ngx_incr :: "'a ngx_list \<Rightarrow> ngx_pos \<Rightarrow> ngx_pos" where
  "ngx_incr ps pos = ngx_adv ps (fst pos, snd pos + 1)"

text \<open>\<^verbatim>\<open>operator*\<close>; \<^const>\<open>None\<close> is an access outside the part.\<close>

definition ngx_deref :: "'a ngx_list \<Rightarrow> ngx_pos \<Rightarrow> 'a option" where
  "ngx_deref ps pos = (if fst pos < length ps \<and> snd pos < length (ps ! fst pos)
     then Some (ps ! fst pos ! snd pos) else None)"

text \<open>The elements from a position on, and the positions at which the iterator rests.\<close>

definition ngx_rest :: "'a ngx_list \<Rightarrow> ngx_pos \<Rightarrow> 'a list" where
  "ngx_rest ps pos = drop (snd pos) (ps ! fst pos) @ concat (drop (Suc (fst pos)) ps)"

definition ngx_norm :: "'a ngx_list \<Rightarrow> ngx_pos \<Rightarrow> bool" where
  "ngx_norm ps pos \<longleftrightarrow> fst pos < length ps \<and> snd pos \<le> length (ps ! fst pos) \<and>
     (snd pos = length (ps ! fst pos) \<longrightarrow> Suc (fst pos) = length ps)"

lemma ngx_adv_rest:
  "fst pos < length ps \<Longrightarrow> snd pos \<le> length (ps ! fst pos) \<Longrightarrow>
     ngx_rest ps (ngx_adv ps pos) = ngx_rest ps pos \<and> ngx_norm ps (ngx_adv ps pos)"
proof (induction ps pos rule: ngx_adv.induct)
  case (1 ps p i)
  show ?case
  proof (cases "length (ps ! p) \<le> i \<and> Suc p < length ps")
    case True
    with 1 have "ngx_rest ps (ngx_adv ps (Suc p, 0)) = ngx_rest ps (Suc p, 0)"
        "ngx_norm ps (ngx_adv ps (Suc p, 0))" by auto
    moreover have "ngx_rest ps (p, i) = ngx_rest ps (Suc p, 0)"
      using True by (simp add: ngx_rest_def flip: Cons_nth_drop_Suc)
    ultimately show ?thesis using True by (simp add: ngx_adv.simps [of ps p i])
  next
    case False
    with 1 show ?thesis by (auto simp: ngx_adv.simps [of ps p i] ngx_norm_def)
  qed
qed

lemma ngx_end_iff:
  assumes "ngx_norm ps pos"
  shows "pos = ngx_end ps \<longleftrightarrow> ngx_rest ps pos = []"
proof -
  from assms have ne: "ps \<noteq> []" by (auto simp: ngx_norm_def)
  then have l: "last ps = ps ! (length ps - 1)" by (rule last_conv_nth)
  show ?thesis
  proof
    assume "pos = ngx_end ps"
    with ne l show "ngx_rest ps pos = []" by (simp add: ngx_rest_def ngx_end_def)
  next
    assume "ngx_rest ps pos = []"
    with assms have "snd pos = length (ps ! fst pos)" by (auto simp: ngx_rest_def ngx_norm_def)
    with assms l show "pos = ngx_end ps" 
      by (cases pos) (auto simp: ngx_norm_def ngx_end_def, metis One_nat_def diff_Suc_1)
  qed
qed

lemma ngx_rest_Cons:
  assumes "ngx_norm ps pos" and "ngx_rest ps pos = x # xs"
  shows "ngx_deref ps pos = Some x" "ngx_rest ps (ngx_incr ps pos) = xs" "ngx_norm ps (ngx_incr ps pos)"
proof -
  obtain p i where pos: "pos = (p, i)" by fastforce
  have i: "i < length (ps ! p)"
  proof (rule ccontr)
    assume "\<not> ?thesis"
    with assms pos show False by (auto simp: ngx_norm_def ngx_rest_def)
  qed
  have p: "p < length ps" using assms pos by (simp add: ngx_norm_def)
  have d: "drop i (ps ! p) = ps ! p ! i # drop (Suc i) (ps ! p)" using i by (simp add: Cons_nth_drop_Suc)
  with assms pos i p show "ngx_deref ps pos = Some x" by (auto simp: ngx_deref_def ngx_rest_def)
  from d assms pos have "ngx_rest ps (p, Suc i) = xs" by (auto simp: ngx_rest_def)
  with ngx_adv_rest [of "(p, Suc i)" ps] p i pos
  show "ngx_rest ps (ngx_incr ps pos) = xs" "ngx_norm ps (ngx_incr ps pos)"
    by (auto simp: ngx_incr_def)
qed

text \<open>The start of a list is a resting position unless its first part is empty and others follow.\<close>

definition ngx_list_ok :: "'a ngx_list \<Rightarrow> bool" where
  "ngx_list_ok ps \<longleftrightarrow> ps \<noteq> [] \<and> (hd ps = [] \<longrightarrow> length ps = 1)"

lemma ngx_begin_norm: "ngx_list_ok ps \<Longrightarrow> ngx_norm ps ngx_begin \<and> ngx_rest ps ngx_begin = concat ps"
  by (cases ps) (auto simp: ngx_list_ok_def ngx_norm_def ngx_begin_def ngx_rest_def)

section \<open>Iterating a list\<close>

text \<open>A range-based \<^verbatim>\<open>for\<close> loop over \<^verbatim>\<open>NgnixHeaderIterable\<close> collects the elements.\<close>

partial_function (option) ngx_collect :: "'a ngx_list \<Rightarrow> ngx_pos \<Rightarrow> 'a list option" where
  "ngx_collect ps pos =
     (if pos = ngx_end ps then Some []
      else ngx_deref ps pos \<bind> (\<lambda>x. ngx_collect ps (ngx_incr ps pos) \<bind> (\<lambda>xs. Some (x # xs))))"

lemma ngx_collect_rest: "ngx_norm ps pos \<Longrightarrow> ngx_collect ps pos = Some (ngx_rest ps pos)"
proof (induction "ngx_rest ps pos" arbitrary: pos)
  case Nil
  then show ?case by (subst ngx_collect.simps) (simp add: ngx_end_iff)
next
  case (Cons x xs)
  note c = ngx_rest_Cons [OF Cons.prems Cons.hyps(2) [symmetric]]
  have "pos \<noteq> ngx_end ps" using Cons.prems Cons.hyps(2) ngx_end_iff [OF Cons.prems] by auto
  with c Cons.hyps(1) [OF c(2) [symmetric] c(3)] Cons.hyps(2) show ?case
    by (subst ngx_collect.simps) simp
qed

end
