(* ===== verification/Memres.thy ===== *)
theory Memres
  imports Prelude
begin

text \<open>
  The memory resource of \<^verbatim>\<open>src/security/ddwaf_memres.h\<close>: a bump allocator with one list of
  segments for WAF objects and one for string bytes, and the pool of recycled object arrays
  on top of it. An allocation is a region: the index of its segment, its offset there and
  its length (in objects or bytes). The contents of the memory are kept by the users of the
  regions; what is proved here is that regions lie inside their segment and that no two
  regions ever overlap, for both kinds of allocation through one interface, \<open>arena\<close>.
  The counters are of type \<^verbatim>\<open>size_t\<close>: their sums wrap at \<open>2 ^ 64\<close>. What is proved therefore holds
  for requests below \<open>2 ^ 63\<close>, the size no C++ object reaches; \<open>huge_string_overruns\<close> shows that a
  length near \<open>2 ^ 64\<close> gets a region that leaves its segment.
\<close>

section \<open>DdwafMemres\<close>

record memres =
  cur_object_seg_size :: nat
  cur_string_seg_size :: nat
  allocs_object :: "nat list"
  allocs_string :: "nat list"
  objects_stored :: nat
  strings_stored :: nat

text \<open>A pointer into a segment: segment number and offset.\<close>

type_synonym ptr = "nat \<times> nat"

record region =
  r_seg :: nat
  r_off :: nat
  r_len :: nat

definition kMinObjSegSize :: nat where "kMinObjSegSize = 20"
definition kMinStrSegSize :: nat where "kMinStrSegSize = 512"

definition memres_init :: memres where
  "memres_init = \<lparr>cur_object_seg_size = 0, cur_string_seg_size = 0, allocs_object = [],
     allocs_string = [], objects_stored = 0, strings_stored = 0\<rparr>"

definition new_objects_segment :: "nat \<Rightarrow> memres \<Rightarrow> memres" where
  "new_objects_segment num_objects m =
     m\<lparr>allocs_object := allocs_object m @ [num_objects],
       cur_object_seg_size := num_objects, objects_stored := 0\<rparr>"

definition new_strings_segment :: "nat \<Rightarrow> memres \<Rightarrow> memres" where
  "new_strings_segment sz m =
     m\<lparr>allocs_string := allocs_string m @ [sz],
       cur_string_seg_size := sz, strings_stored := 0\<rparr>"

text \<open>The sum of two \<^verbatim>\<open>size_t\<close> values.\<close>

definition size_add :: "nat \<Rightarrow> nat \<Rightarrow> nat" where
  "size_add a b = (a + b) mod 2 ^ 64"

text \<open>
  \<^verbatim>\<open>allocate_objects\<close>: the null pointer for zero objects, otherwise a pointer to
  \<open>num_objects\<close> zero-initialised objects at the end of the newest segment.
\<close>

definition allocate_objects :: "nat \<Rightarrow> memres \<Rightarrow> ptr option \<times> memres" where
  "allocate_objects num_objects m =
     (if num_objects = 0 then (None, m)
      else
        let m1 = (if cur_object_seg_size m \<le> size_add (objects_stored m) num_objects
                  then new_objects_segment (max kMinObjSegSize num_objects) m else m);
            p = (length (allocs_object m1) - 1, objects_stored m1)
        in (Some p, m1\<lparr>objects_stored := size_add (objects_stored m1) num_objects\<rparr>))"

definition allocate_string :: "nat \<Rightarrow> memres \<Rightarrow> ptr \<times> memres" where
  "allocate_string len m =
     (let m1 = (if cur_string_seg_size m \<le> size_add (strings_stored m) len
                then new_strings_segment (max kMinStrSegSize len) m else m);
          p = (length (allocs_string m1) - 1, strings_stored m1)
      in (p, m1\<lparr>strings_stored := size_add (strings_stored m1) len\<rparr>))"

definition memres_clear :: "memres \<Rightarrow> memres" where
  "memres_clear m = m\<lparr>cur_object_seg_size := 0, cur_string_seg_size := 0,
     objects_stored := 0, strings_stored := 0, allocs_object := [], allocs_string := []\<rparr>"

section \<open>Regions\<close>

definition region_within :: "nat list \<Rightarrow> region \<Rightarrow> bool" where
  "region_within segs r \<longleftrightarrow>
     r_len r = 0 \<or> r_seg r < length segs \<and> r_off r + r_len r \<le> segs ! r_seg r"

definition regions_disjoint :: "region \<Rightarrow> region \<Rightarrow> bool" where
  "regions_disjoint r s \<longleftrightarrow> r_len r = 0 \<or> r_len s = 0 \<or>
     r_seg r \<noteq> r_seg s \<or> r_off r + r_len r \<le> r_off s \<or> r_off s + r_len s \<le> r_off r"

text \<open>
  Everything allocated so far lies below the bump pointer: in an older segment, or in the
  newest one before \<open>stored\<close>.
\<close>

definition below :: "nat list \<Rightarrow> nat \<Rightarrow> region \<Rightarrow> bool" where
  "below segs stored r \<longleftrightarrow> region_within segs r \<and>
     (r_len r = 0 \<or> r_seg r + 1 < length segs \<or> r_off r + r_len r \<le> stored)"

text \<open>A sequence of allocations by any allocator, the regions in the order they were made.\<close>

primrec alloc_all :: "(nat \<Rightarrow> 'm \<Rightarrow> region \<times> 'm) \<Rightarrow> nat list \<Rightarrow> 'm \<Rightarrow> region list \<times> 'm" where
  "alloc_all alloc [] m = ([], m)"
| "alloc_all alloc (n # ns) m =
     (let (r, m1) = alloc n m; (rs, m2) = alloc_all alloc ns m1 in (r # rs, m2))"

section \<open>The arena interface\<close>

text \<open>
  What a user of either allocator relies on: \<open>segs\<close> are the segment sizes and \<open>stored\<close> the
  bump pointer of a state, \<open>inv\<close> the representation invariant, and \<open>alloc n\<close>, for a request below
  \<open>bound\<close>, returns a region of \<open>n\<close> cells above everything allocated before.
\<close>

locale arena =
  fixes alloc :: "nat \<Rightarrow> 'm \<Rightarrow> region \<times> 'm"
    and segs :: "'m \<Rightarrow> nat list"
    and stored :: "'m \<Rightarrow> nat"
    and inv :: "'m \<Rightarrow> bool"
    and bound :: nat
  assumes alloc_inv: "inv m \<Longrightarrow> n < bound \<Longrightarrow> inv (snd (alloc n m))"
    and alloc_len: "r_len (fst (alloc n m)) = n"
    and alloc_below: "inv m \<Longrightarrow> n < bound \<Longrightarrow>
          below (segs (snd (alloc n m))) (stored (snd (alloc n m))) (fst (alloc n m))"
    and alloc_keeps: "inv m \<Longrightarrow> n < bound \<Longrightarrow> below (segs m) (stored m) r \<Longrightarrow>
          below (segs (snd (alloc n m))) (stored (snd (alloc n m))) r"
    and alloc_fresh: "inv m \<Longrightarrow> n < bound \<Longrightarrow> below (segs m) (stored m) r \<Longrightarrow>
          regions_disjoint r (fst (alloc n m))"
begin

lemma alloc_all_disjoint:
  assumes "inv m" and "\<forall>r \<in> set old. below (segs m) (stored m) r"
    and "list_all (\<lambda>n. n < bound) ns"
  shows "inv (snd (alloc_all alloc ns m))
    \<and> (\<forall>r \<in> set old \<union> set (fst (alloc_all alloc ns m)).
          below (segs (snd (alloc_all alloc ns m))) (stored (snd (alloc_all alloc ns m))) r)
    \<and> (\<forall>r \<in> set old. \<forall>s \<in> set (fst (alloc_all alloc ns m)). regions_disjoint r s)
    \<and> sorted_wrt regions_disjoint (fst (alloc_all alloc ns m))
    \<and> map r_len (fst (alloc_all alloc ns m)) = ns"
  using assms
proof (induction ns arbitrary: m old)
  case Nil
  then show ?case by simp
next
  case (Cons n ns)
  obtain r m1 where a: "alloc n m = (r, m1)" by fastforce
  have n: "n < bound" and ns: "list_all (\<lambda>n. n < bound) ns" using Cons.prems(3) by simp_all
  have m1: "inv m1" and r: "below (segs m1) (stored m1) r" and len: "r_len r = n"
    using alloc_inv [OF Cons.prems(1) n] alloc_below [OF Cons.prems(1) n] alloc_len [of n m] a
    by auto
  have old: "\<forall>x \<in> set (r # old). below (segs m1) (stored m1) x"
    using alloc_keeps [OF Cons.prems(1) n] Cons.prems(2) a r by auto
  have fresh: "\<forall>x \<in> set old. regions_disjoint x r"
    using alloc_fresh [OF Cons.prems(1) n] Cons.prems(2) a by auto
  obtain rs m2 where b: "alloc_all alloc ns m1 = (rs, m2)" by fastforce
  from Cons.IH [OF m1 old ns] b fresh show ?case
    by (auto simp: a len)
qed

end

section \<open>Both allocators are arenas\<close>

definition string_region :: "nat \<Rightarrow> memres \<Rightarrow> region \<times> memres" where
  "string_region len m =
     (let ((seg, off), m') = allocate_string len m in (\<lparr>r_seg = seg, r_off = off, r_len = len\<rparr>, m'))"

text \<open>A zero-object allocation returns no memory; its region is empty at the bump pointer.\<close>

definition object_region :: "nat \<Rightarrow> memres \<Rightarrow> region \<times> memres" where
  "object_region n m =
     (case allocate_objects n m of
        (Some (seg, off), m') \<Rightarrow> (\<lparr>r_seg = seg, r_off = off, r_len = n\<rparr>, m')
      | (None, m') \<Rightarrow> (\<lparr>r_seg = length (allocs_object m) - 1, r_off = objects_stored m, r_len = n\<rparr>, m'))"

definition string_inv :: "memres \<Rightarrow> bool" where
  "string_inv m \<longleftrightarrow>
     (if allocs_string m = [] then cur_string_seg_size m = 0 \<and> strings_stored m = 0
      else cur_string_seg_size m = last (allocs_string m) \<and> strings_stored m \<le> cur_string_seg_size m
        \<and> cur_string_seg_size m < 2 ^ 63)"

definition object_inv :: "memres \<Rightarrow> bool" where
  "object_inv m \<longleftrightarrow>
     (if allocs_object m = [] then cur_object_seg_size m = 0 \<and> objects_stored m = 0
      else cur_object_seg_size m = last (allocs_object m) \<and> objects_stored m \<le> cur_object_seg_size m
        \<and> cur_object_seg_size m < 2 ^ 63)"

lemmas region_simps =
  below_def region_within_def regions_disjoint_def nth_append last_conv_nth

lemmas string_simps =
  string_region_def allocate_string_def new_strings_segment_def string_inv_def kMinStrSegSize_def
  Let_def

lemmas object_simps =
  object_region_def allocate_objects_def new_objects_segment_def object_inv_def kMinObjSegSize_def
  Let_def

lemma size_add_exact: "a + n < 2 ^ 64 \<Longrightarrow> size_add a n = a + n"
  by (simp add: size_add_def)

interpretation strings: arena string_region allocs_string strings_stored string_inv "2 ^ 63"
  by unfold_locales (auto simp: string_simps region_simps size_add_exact split: if_splits)

interpretation objects: arena object_region allocs_object objects_stored object_inv "2 ^ 63"
  by unfold_locales (auto simp: object_simps region_simps size_add_exact split: if_splits)

text \<open>
  The bound is needed: after a string of \<open>10\<close> bytes, a request of \<open>2 ^ 64 - 5\<close> bytes wraps the sum
  to \<open>5\<close>, no new segment is made, and the region leaves its segment; the bump pointer moves back.
\<close>

lemma huge_string_overruns:
  "let (rs, m) = alloc_all string_region [10, 2 ^ 64 - 5] memres_init in
     \<not> region_within (allocs_string m) (rs ! 1) \<and> strings_stored m = 5"
  by (simp add: string_simps memres_init_def size_add_def region_within_def)

section \<open>DdwafObjArrPool\<close>

text \<open>
  \<^verbatim>\<open>free_\<close> maps an array size to the arrays of that size that were outgrown; a missing key of
  the \<^verbatim>\<open>unordered_map\<close> is the empty list.
\<close>

record pool =
  pool_memres :: memres
  pool_free :: "nat \<Rightarrow> ptr list"

definition pool_init :: "memres \<Rightarrow> pool" where
  "pool_init m = \<lparr>pool_memres = m, pool_free = (\<lambda>_. [])\<rparr>"

definition pool_alloc :: "nat \<Rightarrow> pool \<Rightarrow> ptr option \<times> pool" where
  "pool_alloc sz p =
     (if pool_free p sz \<noteq> []
      then (Some (last (pool_free p sz)),
            p\<lparr>pool_free := (pool_free p)(sz := butlast (pool_free p sz))\<rparr>)
      else let (q, m) = allocate_objects sz (pool_memres p) in (q, p\<lparr>pool_memres := m\<rparr>))"

text \<open>
  \<^verbatim>\<open>realloc\<close>: the first \<open>cur_size\<close> objects are copied to the new array (the users of the pool
  model that copy) and the old array goes to the free list of its size.
\<close>

definition pool_realloc :: "ptr option \<Rightarrow> nat \<Rightarrow> nat \<Rightarrow> pool \<Rightarrow> ptr option \<times> pool" where
  "pool_realloc arr cur_size new_size p =
     (let (new_arr, p1) = pool_alloc new_size p
      in if cur_size > 0
         then (new_arr, p1\<lparr>pool_free := (pool_free p1)(cur_size := pool_free p1 cur_size @ [the arr])\<rparr>)
         else (new_arr, p1))"

text \<open>
  Ownership: the arrays in use (\<open>live\<close>) and the recycled ones never share a cell.
\<close>

definition region_of :: "nat \<Rightarrow> ptr \<Rightarrow> region" where
  "region_of sz q = \<lparr>r_seg = fst q, r_off = snd q, r_len = sz\<rparr>"

definition free_regions :: "pool \<Rightarrow> region set" where
  "free_regions p = {r. (r_seg r, r_off r) \<in> set (pool_free p (r_len r))}"

definition pool_ok :: "pool \<Rightarrow> region set \<Rightarrow> bool" where
  "pool_ok p live \<longleftrightarrow>
     object_inv (pool_memres p)
     \<and> (\<forall>r \<in> live \<union> free_regions p.
          0 < r_len r \<and> below (allocs_object (pool_memres p)) (objects_stored (pool_memres p)) r)
     \<and> live \<inter> free_regions p = {} \<and> (\<forall>sz. distinct (pool_free p sz))
     \<and> pairwise regions_disjoint (live \<union> free_regions p)"

lemma region_of_simps [simp]:
  "r_len (region_of sz q) = sz" "r_seg (region_of sz q) = fst q" "r_off (region_of sz q) = snd q"
  "region_of sz q = region_of sz' q' \<longleftrightarrow> sz = sz' \<and> q = q'"
  by (auto simp: region_of_def prod_eq_iff)

lemma regions_disjoint_sym: "regions_disjoint r s \<Longrightarrow> regions_disjoint s r"
  by (auto simp: regions_disjoint_def)

lemma regions_disjoint_irrefl: "0 < r_len r \<Longrightarrow> \<not> regions_disjoint r r"
  by (auto simp: regions_disjoint_def)

lemma object_region_Some:
  "allocate_objects n m = (Some q, m') \<Longrightarrow> object_region n m = (region_of n q, m')"
  by (cases q) (simp add: object_region_def region_of_def)

lemma allocate_objects_pos:
  assumes "0 < n"
  obtains q m' where "allocate_objects n m = (Some q, m')"
  using assms by (auto simp: allocate_objects_def Let_def)

lemma set_butlast_distinct:
  assumes "distinct xs" and "xs \<noteq> []"
  shows "set (butlast xs) = set xs - {last xs}"
  using assms by (cases xs rule: rev_exhaust) auto

lemma region_of_in_free [simp]: "region_of n q \<in> free_regions p \<longleftrightarrow> q \<in> set (pool_free p n)"
  by (simp add: free_regions_def region_of_def)

lemma region_eq_region_of: "r = region_of sz q \<longleftrightarrow> r_len r = sz \<and> (r_seg r, r_off r) = q"
  by (cases r) (auto simp: region_of_def)

lemma free_regions_pop:
  assumes "pool_free p sz \<noteq> []" and "distinct (pool_free p sz)"
  shows "free_regions (p\<lparr>pool_free := (pool_free p)(sz := butlast (pool_free p sz))\<rparr>)
    = free_regions p - {region_of sz (last (pool_free p sz))}"
  using set_butlast_distinct [OF assms(2,1)]
  by (intro set_eqI) (simp add: free_regions_def region_eq_region_of)

lemma free_regions_push:
  "free_regions (p\<lparr>pool_free := (pool_free p)(sz := pool_free p sz @ [q])\<rparr>)
    = insert (region_of sz q) (free_regions p)"
  by (intro set_eqI) (simp add: free_regions_def region_eq_region_of)

text \<open>
  A fresh or recycled array is disjoint from every live array, and the pool keeps its
  ownership invariant with the new array live.
\<close>

lemma pool_alloc_ok:
  assumes ok: "pool_ok p live" and n: "0 < n" and bound: "n < 2 ^ 63"
  obtains q p' where "pool_alloc n p = (Some q, p')" and "pool_ok p' (insert (region_of n q) live)"
    and "region_of n q \<notin> live"
proof (cases "pool_free p n = []")
  case False
  let ?q = "last (pool_free p n)"
  let ?p = "p\<lparr>pool_free := (pool_free p)(n := butlast (pool_free p n))\<rparr>"
  have mem: "region_of n ?q \<in> free_regions p"
    using last_in_set [OF False] by simp
  have fr: "free_regions ?p = free_regions p - {region_of n ?q}"
    using ok False by (intro free_regions_pop) (auto simp: pool_ok_def)
  have un: "insert (region_of n ?q) live \<union> free_regions ?p = live \<union> free_regions p"
    unfolding fr using mem by blast
  have dis: "\<forall>sz. distinct (pool_free ?p sz)"
    using ok by (simp add: pool_ok_def distinct_butlast)
  have "insert (region_of n ?q) live \<inter> free_regions ?p = {}"
    using ok mem unfolding fr pool_ok_def by blast
  with ok dis have "pool_ok ?p (insert (region_of n ?q) live)"
    unfolding pool_ok_def un by simp
  moreover have "region_of n ?q \<notin> live"
    using ok mem by (auto simp: pool_ok_def)
  ultimately show thesis
    using False by (intro that [of ?q ?p]) (auto simp: pool_alloc_def)
next
  case True
  obtain q m' where a: "allocate_objects n (pool_memres p) = (Some q, m')"
    using allocate_objects_pos [OF n] by blast
  let ?p = "p\<lparr>pool_memres := m'\<rparr>" and ?r = "region_of n q"
  have inv: "object_inv (pool_memres p)" using ok by (simp add: pool_ok_def)
  have fr: "free_regions ?p = free_regions p" by (simp add: free_regions_def)
  have old: "\<forall>s \<in> live \<union> free_regions p.
      0 < r_len s \<and> below (allocs_object m') (objects_stored m') s \<and> regions_disjoint s ?r"
    using objects.alloc_keeps [OF inv bound] objects.alloc_fresh [OF inv bound] ok
    by (auto simp: object_region_Some [OF a] pool_ok_def)
  have fresh: "?r \<notin> live \<union> free_regions p"
    using old regions_disjoint_irrefl by blast
  have "pool_ok ?p (insert ?r live)"
    using ok n old fresh objects.alloc_inv [OF inv bound] objects.alloc_below [OF inv bound]
    by (auto simp: pool_ok_def fr object_region_Some [OF a] pairwise_insert intro: regions_disjoint_sym)
  then show thesis
    using True fresh by (intro that [of q ?p]) (auto simp: pool_alloc_def a)
qed

lemma pool_ok_free:
  assumes "pool_ok p (insert (region_of n q) live)" and "region_of n q \<notin> live"
  shows "pool_ok (p\<lparr>pool_free := (pool_free p)(n := pool_free p n @ [q])\<rparr>) live"
proof -
  have "live \<union> insert (region_of n q) (free_regions p) = insert (region_of n q) live \<union> free_regions p"
    by auto
  moreover have "q \<notin> set (pool_free p n)"
    using assms(1) by (auto simp: pool_ok_def)
  ultimately show ?thesis
    using assms by (auto simp: pool_ok_def free_regions_push)
qed

section \<open>Properties\<close>

text \<open>
  C28. Any sequence of string allocations, and any sequence of object allocations, from an empty
  memory resource, each of a length below \<open>2 ^ 63\<close>, gives regions of the requested lengths that lie
  inside their segments and never overlap one another; the \<^verbatim>\<open>size_t\<close> sums, which wrap at \<open>2 ^ 64\<close>,
  do not wrap on the way.
\<close>

theorem allocations_disjoint:
  assumes "list_all (\<lambda>n. n < 2 ^ 63) lens" and "list_all (\<lambda>n. n < 2 ^ 63) ns"
  shows "(let (rs, m) = alloc_all string_region lens memres_init in
      map r_len rs = lens \<and> (\<forall>r \<in> set rs. region_within (allocs_string m) r)
      \<and> sorted_wrt regions_disjoint rs)
   \<and> (let (rs, m) = alloc_all object_region ns memres_init in
      map r_len rs = ns \<and> (\<forall>r \<in> set rs. region_within (allocs_object m) r)
      \<and> sorted_wrt regions_disjoint rs)"
proof -
  have "string_inv memres_init" and "object_inv memres_init"
    by (simp_all add: string_inv_def object_inv_def memres_init_def)
  from strings.alloc_all_disjoint [OF this(1) _ assms(1), of "[]"]
    objects.alloc_all_disjoint [OF this(2) _ assms(2), of "[]"]
  show ?thesis by (auto simp: below_def split: prod.splits)
qed

text \<open>Witness: three strings, the last too large for the first segment, and one array.\<close>

theorem allocations_disjoint_witness:
  "sorted_wrt regions_disjoint (fst (alloc_all string_region [500, 10, 600] memres_init))
   \<and> length (allocs_string (snd (alloc_all string_region [500, 10, 600] memres_init))) = 2"
proof
  show "sorted_wrt regions_disjoint (fst (alloc_all string_region [500, 10, 600] memres_init))"
    using allocations_disjoint [of "[500, 10, 600]" "[30]"] by (auto split: prod.splits)
  show "length (allocs_string (snd (alloc_all string_region [500, 10, 600] memres_init))) = 2"
    by (simp add: string_region_def allocate_string_def new_strings_segment_def memres_init_def
        kMinStrSegSize_def size_add_exact Let_def)
qed

text \<open>
  Growing an array through the pool (\<^verbatim>\<open>realloc\<close>) always returns an array that is disjoint
  from every array still in use, whether it is fresh or recycled, and gives up the old one:
  the ownership invariant is kept with the new array in the place of the old.
\<close>

theorem pool_realloc_safe:
  assumes ok: "pool_ok p live" and grow: "cur_size < new_size" and bound: "new_size < 2 ^ 63"
    and old: "if cur_size = 0 then old_regions = {}
              else \<exists>q. arr = Some q \<and> old_regions = {region_of cur_size q}"
    and live: "old_regions \<subseteq> live"
  shows "\<exists>q p'. pool_realloc arr cur_size new_size p = (Some q, p')
    \<and> (\<forall>r \<in> live. regions_disjoint r (region_of new_size q))
    \<and> pool_ok p' (insert (region_of new_size q) (live - old_regions))"
proof -
  have "0 < new_size" using grow by simp
  then obtain q p1 where a: "pool_alloc new_size p = (Some q, p1)"
    and ok1: "pool_ok p1 (insert (region_of new_size q) live)" and new: "region_of new_size q \<notin> live"
    using pool_alloc_ok [OF ok _ bound] by blast
  have dis: "\<forall>r \<in> live. regions_disjoint r (region_of new_size q)"
  proof
    fix r assume r: "r \<in> live"
    with new have "r \<noteq> region_of new_size q" by blast
    moreover have "pairwise regions_disjoint (insert (region_of new_size q) live \<union> free_regions p1)"
      using ok1 by (simp add: pool_ok_def)
    ultimately show "regions_disjoint r (region_of new_size q)"
      using r by (auto elim: pairwiseD)
  qed
  show ?thesis
  proof (cases "cur_size = 0")
    case True
    with old a ok1 dis show ?thesis by (simp add: pool_realloc_def)
  next
    case False
    with old obtain q0 where arr: "arr = Some q0" "old_regions = {region_of cur_size q0}" by auto
    let ?live = "insert (region_of new_size q) (live - old_regions)"
    have "insert (region_of new_size q) live = insert (region_of cur_size q0) ?live"
      and "region_of cur_size q0 \<notin> ?live"
      using live arr grow by auto
    with ok1 have "pool_ok (p1\<lparr>pool_free := (pool_free p1)(cur_size := pool_free p1 cur_size @ [q0])\<rparr>) ?live"
      by (intro pool_ok_free) auto
    with a dis False arr(1) show ?thesis by (simp add: pool_realloc_def)
  qed
qed

text \<open>Witness: the pool of a fresh memory resource, growing from nothing to one object.\<close>

theorem pool_realloc_safe_witness:
  "\<exists>q p'. pool_realloc None 0 1 (pool_init memres_init) = (Some q, p')
     \<and> pool_ok p' {region_of 1 q}"
proof -
  have "pool_ok (pool_init memres_init) {}"
    by (simp add: pool_ok_def pool_init_def memres_init_def object_inv_def free_regions_def)
  from pool_realloc_safe [OF this, of 0 1 "{}" None] show ?thesis by simp
qed

end
