(* ===== verification/Decode.thy ===== *)
theory Decode
  imports Memres
begin

text \<open>
  Percent-decoding and query-string iteration: \<^verbatim>\<open>src/security/decode.h\<close> and
  \<^verbatim>\<open>src/security/decode.cpp\<close>. The decoder is the three-state machine of \<^verbatim>\<open>decode_percent\<close>;
  it is compared with a decoder by look-ahead and shown to invert every well-formed encoding.
  \<^verbatim>\<open>QueryStringIter\<close> and \<^verbatim>\<open>qs_iter_agg\<close> are records with the operations of the two classes;
  the memory resource they share is passed explicitly.
\<close>

section \<open>Percent-decoding\<close>

definition decode_plus :: "byte \<Rightarrow> byte" where
  "decode_plus c = (if c = CHR ''+'' then SP else c)"

datatype pct_state = NORMAL | PERCENT | PERCENT1

text \<open>\<^verbatim>\<open>std::from_chars\<close> on two hexadecimal digits, cast to \<^verbatim>\<open>unsigned char\<close>.\<close>

definition hex_byte :: "byte \<Rightarrow> byte \<Rightarrow> byte" where
  "hex_byte a b = char_of ((16 * hex_val a + hex_val b) mod 256)"

text \<open>
  One iteration of the loop: the new state and the bytes written. \<open>prev\<close> is \<^verbatim>\<open>*(r - 1)\<close>,
  \<open>dp\<close> the template argument \<^verbatim>\<open>DecodePlus\<close>.
\<close>

fun decode_step :: "bool \<Rightarrow> pct_state \<Rightarrow> byte \<Rightarrow> byte \<Rightarrow> pct_state \<times> bytes" where
  "decode_step dp NORMAL prev c =
     (if c = CHR ''%'' then (PERCENT, []) else (NORMAL, [if dp then decode_plus c else c]))"
| "decode_step dp PERCENT prev c =
     (if isxdigit c then (PERCENT1, []) else (NORMAL, [CHR ''%'', decode_plus c]))"
| "decode_step dp PERCENT1 prev c =
     (if isxdigit c then (NORMAL, [hex_byte prev c])
      else (NORMAL, [CHR ''%'', prev, if dp then decode_plus c else c]))"

text \<open>The loop, and the bytes flushed when the input ends inside an escape.\<close>

fun decode_loop :: "bool \<Rightarrow> pct_state \<Rightarrow> byte \<Rightarrow> bytes \<Rightarrow> bytes" where
  "decode_loop dp st prev [] =
     (case st of NORMAL \<Rightarrow> [] | PERCENT \<Rightarrow> [CHR ''%''] | PERCENT1 \<Rightarrow> [CHR ''%'', prev])"
| "decode_loop dp st prev (c # cs) =
     (case decode_step dp st prev c of (st', out) \<Rightarrow> out @ decode_loop dp st' c cs)"

definition decode_percent :: "bool \<Rightarrow> bytes \<Rightarrow> bytes" where
  "decode_percent dp sv = decode_loop dp NORMAL NUL sv"

definition decode_urlencoded :: "bytes \<Rightarrow> bytes" where
  "decode_urlencoded sv = decode_percent False sv"

section \<open>QueryStringIter\<close>

record qs_iter =
  qs_trim :: bool
  qs_str :: bytes
  qs_pos :: nat
  qs_interned :: "bytes list"
  qs_separator :: byte

definition qs_make :: "bytes \<Rightarrow> byte \<Rightarrow> bool \<Rightarrow> qs_iter" where
  "qs_make s sep trim = \<lparr>qs_trim = trim, qs_str = s, qs_pos = 0, qs_interned = [], qs_separator = sep\<rparr>"

definition qs_reset :: "qs_iter \<Rightarrow> qs_iter" where
  "qs_reset it = it\<lparr>qs_pos := 0\<rparr>"

definition qs_ended :: "qs_iter \<Rightarrow> bool" where
  "qs_ended it \<longleftrightarrow> qs_pos it = length (qs_str it)"

definition qs_rest :: "qs_iter \<Rightarrow> bytes" where
  "qs_rest it = drop (qs_pos it) (qs_str it)"

text \<open>
  \<^verbatim>\<open>intern_string\<close>: a string of the same contents is returned; a new one is copied, with a
  terminator, into the memory resource. The set is indexed by \<^verbatim>\<open>char *\<close>, that is, by the bytes
  before the first NUL.
\<close>

definition intern_string :: "bytes \<Rightarrow> qs_iter \<Rightarrow> memres \<Rightarrow> bytes \<times> qs_iter \<times> memres" where
  "intern_string sv it m =
     (if sv \<in> set (qs_interned it) then (sv, it, m)
      else let (_, m') = allocate_string (length sv + 1) m
           in (sv, it\<lparr>qs_interned := takeWhile (\<lambda>c. c \<noteq> NUL) sv # qs_interned it\<rparr>, m'))"

definition decode_no_trim :: "bytes \<Rightarrow> qs_iter \<Rightarrow> memres \<Rightarrow> bytes \<times> qs_iter \<times> memres" where
  "decode_no_trim sv it m =
     (if sv = [] then ([], it, m)
      else case find_pos (\<lambda>c. c = CHR ''%'' \<or> c = CHR ''+'') sv of
             None \<Rightarrow> (sv, it, m)
           | Some _ \<Rightarrow> intern_string (decode_percent True sv) it m)"

definition decode_trim :: "bytes \<Rightarrow> qs_iter \<Rightarrow> memres \<Rightarrow> bytes \<times> qs_iter \<times> memres" where
  "decode_trim sv it m =
     (let (res, it', m') = decode_no_trim sv it m
      in (trim_back isspace (dropWhile isspace res), it', m'))"

definition qs_decode :: "bytes \<Rightarrow> qs_iter \<Rightarrow> memres \<Rightarrow> bytes \<times> qs_iter \<times> memres" where
  "qs_decode sv it m = (if qs_trim it then decode_trim sv it m else decode_no_trim sv it m)"

text \<open>The key-value text of the current position, up to the separator.\<close>

definition qs_kv :: "qs_iter \<Rightarrow> bytes" where
  "qs_kv it = (case find_char (qs_separator it) (qs_rest it) of
                 None \<Rightarrow> qs_rest it | Some sep_pos \<Rightarrow> take sep_pos (qs_rest it))"

definition qs_cur_key :: "qs_iter \<Rightarrow> memres \<Rightarrow> bytes \<times> qs_iter \<times> memres" where
  "qs_cur_key it m =
     (case find_char (CHR ''='') (qs_kv it) of
        None \<Rightarrow> qs_decode (qs_kv it) it m
      | Some eq_pos \<Rightarrow> qs_decode (take eq_pos (qs_kv it)) it m)"

text \<open>\<^verbatim>\<open>operator*\<close>; the elements of the braced pair are evaluated from left to right.\<close>

definition qs_deref :: "qs_iter \<Rightarrow> memres \<Rightarrow> (bytes \<times> bytes) \<times> qs_iter \<times> memres" where
  "qs_deref it m =
     (let kv = qs_kv it in
      case find_char (CHR ''='') kv of
        None \<Rightarrow> (let (k, it1, m1) = qs_decode kv it m in ((k, []), it1, m1))
      | Some eq_pos \<Rightarrow>
          if eq_pos = length kv - 1
          then (let (k, it1, m1) = qs_decode (take eq_pos kv) it m in ((k, []), it1, m1))
          else (let (k, it1, m1) = qs_decode (take eq_pos kv) it m;
                    (v, it2, m2) = qs_decode (take (length kv - eq_pos - 1) (drop (eq_pos + 1) kv)) it1 m1
                in ((k, v), it2, m2)))"

definition qs_next :: "qs_iter \<Rightarrow> qs_iter" where
  "qs_next it =
     (case find_char (qs_separator it) (qs_rest it) of
        None \<Rightarrow> it\<lparr>qs_pos := length (qs_str it)\<rparr>
      | Some sep_pos \<Rightarrow> it\<lparr>qs_pos := qs_pos it + sep_pos + 1\<rparr>)"

section \<open>qs_iter_agg\<close>

text \<open>
  The concatenation of several iterators. \<^const>\<open>None\<close> stands for an access \<^verbatim>\<open>iters[cur]\<close> out of
  range.
\<close>

record qs_agg =
  agg_iters :: "qs_iter list"
  agg_cur :: nat

definition agg_init :: qs_agg where
  "agg_init = \<lparr>agg_iters = [], agg_cur = 0\<rparr>"

definition agg_add :: "qs_iter \<Rightarrow> qs_agg \<Rightarrow> qs_agg option" where
  "agg_add it a =
     (let a1 = a\<lparr>agg_iters := agg_iters a @ [it]\<rparr> in
      if agg_cur a1 = length (agg_iters a1)
      then (if agg_cur a1 < length (agg_iters a1)
            then Some (if qs_ended (agg_iters a1 ! agg_cur a1) then a1\<lparr>agg_cur := agg_cur a1 + 1\<rparr> else a1)
            else None)
      else Some a1)"

definition agg_ended :: "qs_agg \<Rightarrow> bool" where
  "agg_ended a \<longleftrightarrow> length (agg_iters a) \<le> agg_cur a"

text \<open>The loop \<^verbatim>\<open>while (cur < iters.size() && iters[cur]->ended()) cur++\<close>.\<close>

function agg_skip :: "qs_agg \<Rightarrow> qs_agg" where
  "agg_skip a = (if agg_cur a < length (agg_iters a) \<and> qs_ended (agg_iters a ! agg_cur a)
                 then agg_skip (a\<lparr>agg_cur := agg_cur a + 1\<rparr>) else a)"
  by pat_completeness auto
termination
  by (relation "measure (\<lambda>a. length (agg_iters a) - agg_cur a)") auto

definition agg_reset :: "qs_agg \<Rightarrow> qs_agg" where
  "agg_reset a = agg_skip (a\<lparr>agg_iters := map qs_reset (agg_iters a), agg_cur := 0\<rparr>)"

definition agg_cur_key :: "qs_agg \<Rightarrow> memres \<Rightarrow> (bytes \<times> qs_agg \<times> memres) option" where
  "agg_cur_key a m =
     (if agg_cur a < length (agg_iters a)
      then let (k, it, m') = qs_cur_key (agg_iters a ! agg_cur a) m
           in Some (k, a\<lparr>agg_iters := (agg_iters a)[agg_cur a := it]\<rparr>, m')
      else None)"

definition agg_deref :: "qs_agg \<Rightarrow> memres \<Rightarrow> ((bytes \<times> bytes) \<times> qs_agg \<times> memres) option" where
  "agg_deref a m =
     (if agg_cur a < length (agg_iters a)
      then let (kv, it, m') = qs_deref (agg_iters a ! agg_cur a) m
           in Some (kv, a\<lparr>agg_iters := (agg_iters a)[agg_cur a := it]\<rparr>, m')
      else None)"

definition agg_next :: "qs_agg \<Rightarrow> qs_agg option" where
  "agg_next a =
     (if agg_cur a < length (agg_iters a)
      then Some (agg_skip (a\<lparr>agg_iters := (agg_iters a)[agg_cur a := qs_next (agg_iters a ! agg_cur a)]\<rparr>))
      else None)"

declare agg_skip.simps [simp del]

section \<open>The decoder by look-ahead\<close>

text \<open>
  A decoder that looks at the two bytes after a percent sign instead of keeping a state: the
  reading a maintainer has of the machine. An incomplete escape is copied literally, and the
  byte that ended it is not examined again as the start of another escape.
\<close>

definition plain :: "bool \<Rightarrow> byte \<Rightarrow> byte" where
  "plain dp c = (if dp then decode_plus c else c)"

fun pct_ref :: "bool \<Rightarrow> bytes \<Rightarrow> bytes" where
  "pct_ref dp [] = []"
| "pct_ref dp (c # cs) =
     (if c \<noteq> CHR ''%'' then plain dp c # pct_ref dp cs
      else case cs of
        [] \<Rightarrow> [CHR ''%'']
      | a # cs' \<Rightarrow>
          if \<not> isxdigit a then CHR ''%'' # decode_plus a # pct_ref dp cs'
          else case cs' of
            [] \<Rightarrow> [CHR ''%'', a]
          | b # cs'' \<Rightarrow>
              if isxdigit b then hex_byte a b # pct_ref dp cs''
              else CHR ''%'' # a # plain dp b # pct_ref dp cs'')"

lemma decode_loop_ref: "decode_loop dp NORMAL prev s = pct_ref dp s"
proof (induction dp s arbitrary: prev rule: pct_ref.induct)
  case (2 dp c cs)
  then show ?case
    by (auto simp: plain_def split: list.splits)
qed simp

lemma decode_percent_ref: "decode_percent dp s = pct_ref dp s"
  by (simp add: decode_percent_def decode_loop_ref)

section \<open>Well-formed encodings\<close>

text \<open>
  An encoded text is a sequence of tokens: a literal byte, an escape written with two given
  hexadecimal digits, or (for form data) a plus sign for a space. \<open>render\<close> writes it,
  \<open>meaning\<close> is the text it stands for.
\<close>

datatype token = Lit byte | Esc byte byte | Plus

fun token_ok :: "bool \<Rightarrow> token \<Rightarrow> bool" where
  "token_ok dp (Lit c) \<longleftrightarrow> c \<noteq> CHR ''%'' \<and> (dp \<longrightarrow> c \<noteq> CHR ''+'')"
| "token_ok dp (Esc a b) \<longleftrightarrow> isxdigit a \<and> isxdigit b"
| "token_ok dp Plus \<longleftrightarrow> dp"

fun token_text :: "token \<Rightarrow> bytes" where
  "token_text (Lit c) = [c]"
| "token_text (Esc a b) = [CHR ''%'', a, b]"
| "token_text Plus = ''+''"

fun token_byte :: "token \<Rightarrow> byte" where
  "token_byte (Lit c) = c"
| "token_byte (Esc a b) = hex_byte a b"
| "token_byte Plus = SP"

lemma pct_ref_render:
  "list_all (token_ok dp) ts \<Longrightarrow> pct_ref dp (concat (map token_text ts)) = map token_byte ts"
proof (induction ts)
  case (Cons t ts)
  then show ?case by (cases t) (auto simp: plain_def decode_plus_def)
qed simp

text \<open>The escape of a byte with upper-case digits, as encoders write it.\<close>

definition escape :: "byte \<Rightarrow> token" where
  "escape c = Esc (hex_digit (ord c div 16)) (hex_digit (ord c mod 16))"

lemma ord_less: "ord c < 256"
  by simp

lemma escape_ok: "token_ok dp (escape c)" and escape_byte: "token_byte (escape c) = c"
proof -
  have 1: "ord c div 16 < 16" and 2: "ord c mod 16 < 16"
    using ord_less [of c] by presburger+
  then show "token_ok dp (escape c)"
    by (simp add: escape_def hex_digit_roundtrip)
  have "16 * (ord c div 16) + ord c mod 16 = ord c" by simp
  with 1 2 show "token_byte (escape c) = c"
    by (simp add: escape_def hex_byte_def hex_digit_roundtrip)
qed

text \<open>The machine never writes more than it has read, the pending escape included.\<close>

lemma length_decode_loop:
  "length (decode_loop dp st prev s) \<le> length s + (case st of NORMAL \<Rightarrow> 0 | PERCENT \<Rightarrow> 1 | PERCENT1 \<Rightarrow> 2)"
proof (induction s arbitrary: st prev)
  case (Cons c s)
  from Cons.IH [of NORMAL c] Cons.IH [of PERCENT c] Cons.IH [of PERCENT1 c] show ?case
    by (cases st) auto
qed (simp split: pct_state.splits)

section \<open>Iteration\<close>

text \<open>The value of a decoding does not depend on what was interned before.\<close>

definition decoded :: "bool \<Rightarrow> bytes \<Rightarrow> bytes" where
  "decoded trim sv =
     (let d = decode_percent True sv
      in if trim then trim_back isspace (dropWhile isspace d) else d)"

lemma pct_ref_plain:
  "\<forall>c \<in> set s. \<not> (c = CHR ''%'' \<or> c = CHR ''+'') \<Longrightarrow> pct_ref True s = s"
  by (induction s) (auto simp: plain_def decode_plus_def)

lemma decode_no_trim_value: "fst (decode_no_trim sv it m) = decode_percent True sv"
proof (cases "find_pos (\<lambda>c. c = CHR ''%'' \<or> c = CHR ''+'') sv")
  case None
  then show ?thesis
    using find_pos_None_iff [THEN iffD1, OF None]
    by (auto simp: decode_no_trim_def decode_percent_ref pct_ref_plain)
next
  case (Some i)
  then show ?thesis
    by (auto simp: decode_no_trim_def intern_string_def Let_def split: prod.splits)
qed

lemma qs_decode_value: "fst (qs_decode sv it m) = decoded (qs_trim it) sv"
  using decode_no_trim_value [of sv it m]
  by (auto simp: qs_decode_def decode_trim_def decoded_def Let_def split: prod.splits)

lemma qs_decode_frame:
  "qs_decode sv it m = (v, it', m') \<Longrightarrow>
     qs_pos it' = qs_pos it \<and> qs_str it' = qs_str it \<and> qs_trim it' = qs_trim it
     \<and> qs_separator it' = qs_separator it"
  by (auto simp: qs_decode_def decode_trim_def decode_no_trim_def intern_string_def Let_def
      split: if_splits prod.splits option.splits)

text \<open>The pieces of a string between separators; a final empty piece is dropped.\<close>

function pieces :: "byte \<Rightarrow> bytes \<Rightarrow> bytes list" where
  "pieces sep s = (if s = [] then []
     else takeWhile (\<lambda>c. c \<noteq> sep) s # pieces sep (drop (length (takeWhile (\<lambda>c. c \<noteq> sep) s) + 1) s))"
  by pat_completeness auto
termination
  by (relation "measure (\<lambda>(sep, s). length s)") auto

declare pieces.simps [simp del]

text \<open>The pair a piece stands for: split at the first equals sign, both sides decoded.\<close>

definition kv_of :: "bool \<Rightarrow> bytes \<Rightarrow> bytes \<times> bytes" where
  "kv_of trim kv =
     (decoded trim (takeWhile (\<lambda>c. c \<noteq> CHR ''='') kv),
      decoded trim (drop (length (takeWhile (\<lambda>c. c \<noteq> CHR ''='') kv) + 1) kv))"

lemma decoded_Nil [simp]: "decoded trim [] = []"
  by (simp add: decoded_def decode_percent_def trim_back_def)

lemma qs_kv_eq: "qs_kv it = takeWhile (\<lambda>c. c \<noteq> qs_separator it) (qs_rest it)"
proof (cases "find_char (qs_separator it) (qs_rest it)")
  case None
  then show ?thesis by (simp add: qs_kv_def find_pos_None_takeWhile)
next
  case (Some i)
  then show ?thesis by (simp add: qs_kv_def find_pos_SomeD(3))
qed

lemma qs_cur_key_value: "fst (qs_cur_key it m) = fst (kv_of (qs_trim it) (qs_kv it))"
  using find_pos_SomeD(3) [of "\<lambda>c. c = CHR ''=''" "qs_kv it"]
  by (auto simp: qs_cur_key_def kv_of_def qs_decode_value find_pos_None_takeWhile split: option.splits)

lemma qs_deref_value:
  assumes "qs_deref it m = (kv, it', m')"
  shows "kv = kv_of (qs_trim it) (qs_kv it)"
proof (cases "find_char (CHR ''='') (qs_kv it)")
  case None
  then show ?thesis
    using assms qs_decode_value [of "qs_kv it" it m]
    by (auto simp: qs_deref_def kv_of_def find_pos_None_takeWhile Let_def split: prod.splits)
next
  case (Some i)
  note i = find_pos_SomeD [OF Some] and len = find_pos_takeWhile [OF Some]
  obtain k it1 m1 where k: "qs_decode (take i (qs_kv it)) it m = (k, it1, m1)"
    by (metis prod_cases3)
  have trim1: "qs_trim it1 = qs_trim it" using qs_decode_frame [OF k] by simp
  show ?thesis
    using assms Some i len k qs_decode_value [of "take i (qs_kv it)" it m] trim1
      qs_decode_value [of "drop (i + 1) (qs_kv it)" it1 m1]
    by (auto simp: qs_deref_def kv_of_def Let_def split: prod.splits if_splits)
qed

lemma qs_deref_frame:
  "qs_deref it m = (kv, it', m') \<Longrightarrow>
     qs_pos it' = qs_pos it \<and> qs_str it' = qs_str it \<and> qs_trim it' = qs_trim it
     \<and> qs_separator it' = qs_separator it"
  by (auto simp: qs_deref_def Let_def dest!: qs_decode_frame
      split: if_splits prod.splits option.splits)

text \<open>The loop every user of the iterator runs.\<close>

function qs_run :: "qs_iter \<Rightarrow> memres \<Rightarrow> (bytes \<times> bytes) list" where
  "qs_run it m =
     (if qs_ended it then []
      else case qs_deref it m of (kv, it', m') \<Rightarrow> kv # qs_run (qs_next it') m')"
  by pat_completeness auto
termination
proof (relation "measure (\<lambda>(it, m). if qs_ended it then 0 else 1 + (length (qs_str it) - qs_pos it))", goal_cases)
  case (2 it m kv y it' m')
  then have f: "qs_pos it' = qs_pos it" "qs_str it' = qs_str it"
    using qs_deref_frame [of it m kv it' m'] by auto
  show ?case
    using 2 f find_pos_SomeD(1) [of "\<lambda>c. c = qs_separator it'" "qs_rest it'"]
    by (auto simp: qs_next_def qs_ended_def qs_rest_def split: option.splits)
qed simp

declare qs_run.simps [simp del]

lemma qs_rest_next:
  "qs_rest (qs_next it) = drop (length (takeWhile (\<lambda>c. c \<noteq> qs_separator it) (qs_rest it)) + 1) (qs_rest it)"
proof (cases "find_char (qs_separator it) (qs_rest it)")
  case None
  then show ?thesis
    by (simp add: qs_next_def qs_rest_def find_pos_None_takeWhile)
next
  case (Some i)
  then show ?thesis
    using find_pos_takeWhile [OF Some] by (simp add: qs_next_def qs_rest_def add.commute)
qed

lemma qs_next_frame [simp]:
  "qs_str (qs_next it) = qs_str it" "qs_trim (qs_next it) = qs_trim it"
  "qs_separator (qs_next it) = qs_separator it"
  by (auto simp: qs_next_def split: option.splits)

lemma qs_next_pos: "qs_pos it \<le> length (qs_str it) \<Longrightarrow> qs_pos (qs_next it) \<le> length (qs_str it)"
  using find_pos_SomeD(1) [of "\<lambda>c. c = qs_separator it" "qs_rest it"]
  by (auto simp: qs_next_def qs_rest_def split: option.splits)

lemma qs_run_pieces:
  "qs_pos it \<le> length (qs_str it) \<Longrightarrow>
     qs_run it m = map (kv_of (qs_trim it)) (pieces (qs_separator it) (qs_rest it))"
proof (induction it m rule: qs_run.induct)
  case (1 it m)
  show ?case
  proof (cases "qs_ended it")
    case True
    then show ?thesis
      by (simp add: qs_run.simps pieces.simps qs_ended_def qs_rest_def)
  next
    case False
    obtain kv it' m' where d: "qs_deref it m = (kv, it', m')" by (metis prod_cases3)
    note f = qs_deref_frame [OF d]
    have rest: "qs_rest it' = qs_rest it" using f by (simp add: qs_rest_def)
    have ne: "qs_rest it \<noteq> []" using False 1(2) by (auto simp: qs_ended_def qs_rest_def)
    have "qs_pos (qs_next it') \<le> length (qs_str (qs_next it'))"
      using qs_next_pos [of it'] f 1(2) by simp
    from 1(1) [OF False d [symmetric] refl this] f
    have IH: "qs_run (qs_next it') m' =
        map (kv_of (qs_trim it)) (pieces (qs_separator it) (qs_rest (qs_next it')))"
      by simp
    show ?thesis
      using False d f IH ne qs_deref_value [OF d] pieces.simps [of "qs_separator it" "qs_rest it"]
      by (simp add: qs_run.simps [of it m] qs_rest_next qs_kv_eq rest)
  qed
qed

section \<open>Aggregates\<close>

lemma agg_add_inv:
  "agg_cur a \<le> length (agg_iters a) \<Longrightarrow>
     agg_add it a = Some (a\<lparr>agg_iters := agg_iters a @ [it]\<rparr>)"
  by (simp add: agg_add_def)

lemma agg_skip_iters [simp]: "agg_iters (agg_skip a) = agg_iters a"
  by (induction a rule: agg_skip.induct) (subst agg_skip.simps, simp)

lemma agg_skip_settles:
  "agg_ended (agg_skip a) \<or>
     (agg_cur (agg_skip a) < length (agg_iters a) \<and> \<not> qs_ended (agg_iters a ! agg_cur (agg_skip a)))"
proof (induction a rule: agg_skip.induct)
  case (1 a)
  then show ?case
    by (subst (1 2 3) agg_skip.simps) (auto simp: agg_ended_def)
qed

section \<open>Properties\<close>

text \<open>
  C29. The three-state machine of \<^verbatim>\<open>decode_percent\<close> computes exactly the decoding by look-ahead,
  on every input and for both values of the template argument, and never writes more bytes
  than it reads, so the capacity it reserves is enough.
\<close>

theorem decode_percent_correct:
  "decode_percent dp s = pct_ref dp s \<and> length (decode_percent dp s) \<le> length s"
  using length_decode_loop [of dp NORMAL NUL s]
  by (simp add: decode_percent_ref [symmetric]) (simp add: decode_percent_def)

text \<open>
  Round trip: decoding any well-formed percent-encoded text gives the text it encodes,
  whatever mixture of literal bytes, escapes in either digit case and plus signs it uses; in
  particular every byte string survives being escaped byte by byte.
\<close>

theorem decode_percent_roundtrip:
  assumes "list_all (token_ok dp) ts"
  shows "decode_percent dp (concat (map token_text ts)) = map token_byte ts
    \<and> decode_percent dp (concat (map (token_text \<circ> escape) s)) = s"
proof -
  have "list_all (token_ok dp) (map escape s)"
    by (simp add: list.pred_map list.pred_True comp_def escape_ok list_all_iff)
  from pct_ref_render [OF this] have "pct_ref dp (concat (map (token_text \<circ> escape) s)) = s"
    by (simp add: comp_def escape_byte)
  with pct_ref_render [OF assms] show ?thesis
    by (simp add: decode_percent_ref)
qed

theorem decode_percent_roundtrip_witness:
  "decode_percent True (concat (map token_text [Lit (CHR ''a''), Plus, Esc (CHR ''2'') (CHR ''f'')])) = ''a /''"
proof -
  have "list_all (token_ok True) [Lit (CHR ''a''), Plus, Esc (CHR ''2'') (CHR ''f'')]"
    by (simp add: isxdigit_def isdigit_def)
  from decode_percent_roundtrip [OF this] show ?thesis
    by (simp add: hex_byte_def hex_val_def isdigit_def char_of_def bit_Suc_0_iff)
qed

text \<open>
  \<^verbatim>\<open>decode_urlencoded\<close> is instantiated not to decode plus signs, and leaves a plain one
  alone, but a plus sign right after a percent sign is turned into a space: the \<^verbatim>\<open>PERCENT\<close> state
  calls \<^verbatim>\<open>decode_plus\<close> whatever the template argument says.
\<close>

theorem decode_urlencoded_plus:
  "decode_urlencoded ''+'' = ''+'' \<and> decode_urlencoded ''%+'' = ''% ''
   \<and> decode_urlencoded ''%a+'' = ''%a+''"
  by (simp add: decode_urlencoded_def decode_percent_def decode_plus_def isxdigit_def isdigit_def)

text \<open>
  Iterating a query string from the start yields, in order, the decoded key and value of
  every piece between separators (a trailing empty piece excepted), terminates, and at every
  position the key of the counting pass (\<^verbatim>\<open>cur_key\<close>) is the key of the filling pass
  (\<^verbatim>\<open>operator*\<close>), whatever has been interned in between.
\<close>

theorem qs_iteration:
  "qs_run (qs_make s sep trim) m = map (kv_of trim) (pieces sep s)
   \<and> fst (qs_cur_key it m1) = fst (fst (qs_deref it m2))"
proof
  show "qs_run (qs_make s sep trim) m = map (kv_of trim) (pieces sep s)"
    using qs_run_pieces [of "qs_make s sep trim" m] by (simp add: qs_make_def qs_rest_def)
  show "fst (qs_cur_key it m1) = fst (fst (qs_deref it m2))"
    using qs_deref_value [of it m2] by (metis qs_cur_key_value prod.collapse)
qed

text \<open>
  The aggregate of iterators settles on a position that has data or reports its end after
  \<^verbatim>\<open>reset\<close> and \<^verbatim>\<open>operator++\<close>, but \<^verbatim>\<open>add\<close> does not: the test it makes after \<^verbatim>\<open>push_back\<close> can never
  hold, so an aggregate whose first iterator is empty (an empty \<^verbatim>\<open>Cookie\<close> header) claims not to
  have ended although its current iterator has.
\<close>

theorem agg_add_does_not_settle:
  "(agg_ended (agg_reset a) \<or> \<not> qs_ended (agg_iters (agg_reset a) ! agg_cur (agg_reset a)))
   \<and> (agg_cur b \<le> length (agg_iters b) \<longrightarrow>
        agg_add it b = Some (b\<lparr>agg_iters := agg_iters b @ [it]\<rparr>))
   \<and> (\<exists>c. agg_add (qs_make [] (CHR '';'') True) agg_init = Some c
        \<and> \<not> agg_ended c \<and> qs_ended (agg_iters c ! agg_cur c))"
proof (intro conjI impI)
  show "agg_ended (agg_reset a) \<or> \<not> qs_ended (agg_iters (agg_reset a) ! agg_cur (agg_reset a))"
    using agg_skip_settles [of "a\<lparr>agg_iters := map qs_reset (agg_iters a), agg_cur := 0\<rparr>"]
    by (auto simp: agg_reset_def)
qed (simp_all add: agg_add_inv agg_init_def agg_ended_def qs_ended_def qs_make_def)

theorem agg_add_does_not_settle_witness:
  "agg_add (qs_make ''a=b'' (CHR '';'') True) agg_init
     = Some (agg_init\<lparr>agg_iters := [qs_make ''a=b'' (CHR '';'') True]\<rparr>)"
  using agg_add_does_not_settle [of agg_init agg_init "qs_make ''a=b'' (CHR '';'') True"]
  by (simp add: agg_init_def)

end
