(* ===== verification/Kv_Collect.thy ===== *)
theory Kv_Collect
  imports Decode Ddwaf_Obj "HOL-Library.Monad_Syntax"
begin

text \<open>
  \<^verbatim>\<open>ReqSerializer::set_value_from_iter\<close> of \<^verbatim>\<open>src/security/collection.cpp\<close>: the two passes that turn an
  iterator over key/value pairs into a map object, with one string per unique key and an array per
  repeated key. The C++ template is a function of the operations of its iterator type; the
  interface \<open>kv_source\<close> states what those operations promise, and the result is proved once for
  every iterator that keeps the promise. \<^const>\<open>None\<close> is an access outside the allocated arrays.
\<close>

section \<open>Counting\<close>

type_synonym bag = "(bytes \<times> nat) list"

fun bag_inc :: "bytes \<Rightarrow> bag \<Rightarrow> bag" where
  "bag_inc k [] = [(k, 1)]"
| "bag_inc k ((k', n) # b) = (if k = k' then (k', n + 1) # b else (k', n) # bag_inc k b)"

definition bag_get :: "bag \<Rightarrow> bytes \<Rightarrow> nat" where
  "bag_get b k = (case map_of b k of None \<Rightarrow> 0 | Some n \<Rightarrow> n)"

partial_function (option) count_keys ::
  "('i \<Rightarrow> bool) \<Rightarrow> ('i \<Rightarrow> memres \<Rightarrow> (bytes \<times> 'i \<times> memres) option) \<Rightarrow> ('i \<Rightarrow> memres \<Rightarrow> ('i \<times> memres) option)
     \<Rightarrow> 'i \<Rightarrow> memres \<Rightarrow> bag \<Rightarrow> ('i \<times> memres \<times> bag) option" where
  "count_keys ended cur_key nxt it m b =
     (if ended it then Some (it, m, b)
      else cur_key it m \<bind> (\<lambda>(k, it1, m1).
             nxt it1 m1 \<bind> (\<lambda>(it2, m2). count_keys ended cur_key nxt it2 m2 (bag_inc k b))))"

section \<open>Filling\<close>

text \<open>An entry of the map: a string, or an array with its allocated objects and \<^verbatim>\<open>nbEntries\<close>.\<close>

datatype kv_entry = E_str bytes | E_arr "ddwaf_obj list" nat

type_synonym kv_entries = "(bytes \<times> kv_entry) list"

text \<open>The first occurrence of a repeated key: \<^verbatim>\<open>make_array(num_occurr)\<close> sets \<^verbatim>\<open>nbEntries\<close>.\<close>

definition first_occurrence :: "nat \<Rightarrow> bool \<Rightarrow> bytes \<Rightarrow> kv_entry option" where
  "first_occurrence num del v =
     (if del then Some (E_arr (replicate num Obj_invalid) num)
      else if 0 < num then Some (E_arr ((replicate num Obj_invalid)[0 := Obj_string v]) 1)
      else None)"

fun next_occurrence :: "bool \<Rightarrow> bytes \<Rightarrow> kv_entry \<Rightarrow> kv_entry option" where
  "next_occurrence del v (E_arr cells nb) =
     (if del then Some (E_arr cells 0)
      else if nb < length cells then Some (E_arr (cells[nb := Obj_string v]) (nb + 1))
      else None)"
| "next_occurrence del v (E_str s) = None"

text \<open>
  One pair: \<open>cap\<close> entries are allocated, \<open>idx\<close> is \<^verbatim>\<open>indexed_entries\<close> (the position of the entry of
  a repeated key).
\<close>

definition fill_one ::
  "bag \<Rightarrow> nat \<Rightarrow> bytes \<Rightarrow> bytes \<Rightarrow> bool \<Rightarrow> (kv_entries \<times> (bytes \<times> nat) list) \<times> memres
     \<Rightarrow> ((kv_entries \<times> (bytes \<times> nat) list) \<times> memres) option" where
  "fill_one b cap k v del st =
     (case st of ((es, idx), m) \<Rightarrow>
        if bag_get b k = 1 then
          (if length es < cap then Some ((es @ [(k, E_str v)], idx), m) else None)
        else case map_of idx k of
          None \<Rightarrow>
            if length es < cap then
              first_occurrence (bag_get b k) del v \<bind> (\<lambda>e.
                Some ((es @ [(k, e)], (k, length es) # idx), snd (allocate_objects (bag_get b k) m)))
            else None
        | Some j \<Rightarrow>
            if j < length es then
              next_occurrence del v (snd (es ! j)) \<bind> (\<lambda>e. Some ((es[j := (fst (es ! j), e)], idx), m))
            else None)"

partial_function (option) fill ::
  "('i \<Rightarrow> bool) \<Rightarrow> ('i \<Rightarrow> memres \<Rightarrow> ((bytes \<times> bytes) \<times> 'i \<times> memres) option) \<Rightarrow> ('i \<Rightarrow> bool) \<Rightarrow> ('i \<Rightarrow> memres \<Rightarrow> ('i \<times> memres) option)
     \<Rightarrow> bag \<Rightarrow> nat \<Rightarrow> 'i \<Rightarrow> (kv_entries \<times> (bytes \<times> nat) list) \<times> memres \<Rightarrow> (kv_entries \<times> memres) option" where
  "fill ended deref is_delete nxt b cap it st =
     (if ended it then Some (fst (fst st), snd st)
      else deref it (snd st) \<bind> (\<lambda>(kv, it1, m1).
             fill_one b cap (fst kv) (snd kv) (is_delete it1) (fst st, m1) \<bind> (\<lambda>st1.
               nxt it1 (snd st1) \<bind> (\<lambda>(it2, m2). fill ended deref is_delete nxt b cap it2 (fst st1, m2)))))"

fun entry_obj :: "kv_entry \<Rightarrow> ddwaf_obj" where
  "entry_obj (E_str s) = Obj_string s"
| "entry_obj (E_arr cells nb) = Obj_array (take nb cells)"

text \<open>
  The map object: the entries that were allocated and not filled are zero-initialised.
\<close>

definition kv_obj :: "nat \<Rightarrow> kv_entries \<Rightarrow> ddwaf_obj" where
  "kv_obj cap es = Obj_map (map (\<lambda>(k, e). (k, entry_obj e)) es @ replicate (cap - length es) ([], Obj_invalid))"

definition set_value_from_iter ::
  "('i \<Rightarrow> bool) \<Rightarrow> ('i \<Rightarrow> memres \<Rightarrow> (bytes \<times> 'i \<times> memres) option)
     \<Rightarrow> ('i \<Rightarrow> memres \<Rightarrow> ((bytes \<times> bytes) \<times> 'i \<times> memres) option) \<Rightarrow> ('i \<Rightarrow> bool) \<Rightarrow> ('i \<Rightarrow> memres \<Rightarrow> ('i \<times> memres) option)
     \<Rightarrow> ('i \<Rightarrow> 'i) \<Rightarrow> 'i \<Rightarrow> memres \<Rightarrow> (ddwaf_obj \<times> memres) option" where
  "set_value_from_iter ended cur_key deref is_delete nxt reset it m =
     count_keys ended cur_key nxt it m [] \<bind> (\<lambda>(it1, m1, b).
       let (_, m2) = allocate_objects (length b) m1
       in fill ended deref is_delete nxt b (length b) (reset it1) (([], []), m2) \<bind>
            (\<lambda>(es, m3). Some (kv_obj (length b) es, m3)))"

section \<open>Grouping\<close>

text \<open>The specification: keys in order of first appearance, the values of each in order.\<close>

fun nub :: "'a list \<Rightarrow> 'a list" where
  "nub [] = []"
| "nub (x # xs) = x # filter (\<lambda>y. y \<noteq> x) (nub xs)"

definition vals_of :: "bytes \<Rightarrow> (bytes \<times> bytes) list \<Rightarrow> bytes list" where
  "vals_of k kvs = map snd (filter (\<lambda>p. fst p = k) kvs)"

definition group_entry :: "bytes list \<Rightarrow> ddwaf_obj" where
  "group_entry vs = (case vs of [v] \<Rightarrow> Obj_string v | _ \<Rightarrow> Obj_array (map Obj_string vs))"

definition group_obj :: "(bytes \<times> bytes) list \<Rightarrow> ddwaf_obj" where
  "group_obj kvs = Obj_map (map (\<lambda>k. (k, group_entry (vals_of k kvs))) (nub (map fst kvs)))"

lemma set_nub [simp]: "set (nub xs) = set xs"
  by (induction xs) auto

lemma distinct_nub [simp]: "distinct (nub xs)"
  by (induction xs) auto

lemma nub_snoc: "nub (xs @ [x]) = (if x \<in> set xs then nub xs else nub xs @ [x])"
  by (induction xs) auto

lemma bag_inc_get: "bag_get (bag_inc k b) k' = bag_get b k' + (if k = k' then 1 else 0)"
  by (induction k b rule: bag_inc.induct) (auto simp: bag_get_def)

lemma bag_inc_keys: "map fst (bag_inc k b) = (if k \<in> fst ` set b then map fst b else map fst b @ [k])"
  by (induction k b rule: bag_inc.induct) auto

definition bag_of :: "bytes list \<Rightarrow> bag" where
  "bag_of ks = fold bag_inc ks []"

lemma bag_of_snoc: "bag_of (ks @ [k]) = bag_inc k (bag_of ks)"
  by (simp add: bag_of_def)

lemma bag_of_keys: "map fst (bag_of ks) = nub ks"
proof (induction ks rule: rev_induct)
  case (snoc k ks)
  then have "fst ` set (bag_of ks) = set ks" by (metis list.set_map set_nub)
  with snoc show ?case by (simp add: bag_of_snoc bag_inc_keys nub_snoc)
qed (simp add: bag_of_def)

lemma bag_of_get: "bag_get (bag_of ks) k = count_list ks k"
proof (induction ks rule: rev_induct)
  case Nil
  show ?case by (simp add: bag_of_def bag_get_def)
qed (auto simp: bag_of_snoc bag_inc_get)

lemma length_bag_of: "length (bag_of ks) = length (nub ks)"
  by (metis bag_of_keys length_map)

lemma length_vals_of: "length (vals_of k kvs) = count_list (map fst kvs) k"
  by (induction kvs) (auto simp: vals_of_def)

lemma vals_of_snoc: "vals_of k (kvs @ [(k', v)]) = vals_of k kvs @ (if k = k' then [v] else [])"
  by (simp add: vals_of_def)

lemma vals_of_Nil_iff: "vals_of k kvs = [] \<longleftrightarrow> k \<notin> fst ` set kvs"
  by (auto simp: vals_of_def filter_empty_conv)

text \<open>The second pass on the list of pairs.\<close>

primrec fill_list ::
  "bag \<Rightarrow> nat \<Rightarrow> (bytes \<times> bytes) list \<Rightarrow> (kv_entries \<times> (bytes \<times> nat) list)
     \<Rightarrow> (kv_entries \<times> (bytes \<times> nat) list) option" where
  "fill_list b cap [] st = Some st"
| "fill_list b cap (kv # kvs) st =
     map_option fst (fill_one b cap (fst kv) (snd kv) False (st, memres_init)) \<bind> fill_list b cap kvs"

text \<open>The entry of a key when the pairs \<open>seen\<close> of all the pairs have been processed.\<close>

definition entry_at :: "(bytes \<times> bytes) list \<Rightarrow> (bytes \<times> bytes) list \<Rightarrow> bytes \<Rightarrow> kv_entry" where
  "entry_at kvs seen k =
     (let n = length (vals_of k kvs); vs = vals_of k seen
      in if n = 1 then E_str (hd vs)
         else E_arr (map Obj_string vs @ replicate (n - length vs) Obj_invalid) (length vs))"

definition idx_ok :: "(bytes \<times> bytes) list \<Rightarrow> bytes list \<Rightarrow> (bytes \<times> nat) list \<Rightarrow> bool" where
  "idx_ok kvs ks idx \<longleftrightarrow> (\<forall>k. length (vals_of k kvs) \<noteq> 1 \<longrightarrow>
     (case map_of idx k of None \<Rightarrow> k \<notin> set ks | Some j \<Rightarrow> j < length ks \<and> ks ! j = k))"

definition fill_inv :: "(bytes \<times> bytes) list \<Rightarrow> (bytes \<times> bytes) list \<Rightarrow> kv_entries \<times> (bytes \<times> nat) list \<Rightarrow> bool" where
  "fill_inv kvs seen st \<longleftrightarrow>
     fst st = map (\<lambda>k. (k, entry_at kvs seen k)) (nub (map fst seen)) \<and>
     idx_ok kvs (nub (map fst seen)) (snd st)"

lemma idx_ok_single:
  assumes "idx_ok kvs ks idx" and "length (vals_of k kvs) = 1"
  shows "idx_ok kvs (ks @ [k]) idx"
  unfolding idx_ok_def
proof (intro allI impI)
  fix k' assume k': "length (vals_of k' kvs) \<noteq> 1"
  with assms(2) have "k' \<noteq> k" by auto
  moreover from assms(1) k' have "case map_of idx k' of None \<Rightarrow> k' \<notin> set ks | Some j \<Rightarrow> j < length ks \<and> ks ! j = k'"
    by (simp add: idx_ok_def)
  ultimately show "case map_of idx k' of None \<Rightarrow> k' \<notin> set (ks @ [k])
      | Some j \<Rightarrow> j < length (ks @ [k]) \<and> (ks @ [k]) ! j = k'"
    by (cases "map_of idx k'") (auto simp: nth_append)
qed

lemma idx_ok_first:
  assumes "idx_ok kvs ks idx"
  shows "idx_ok kvs (ks @ [k]) ((k, length ks) # idx)"
  unfolding idx_ok_def
proof (intro allI impI)
  fix k' assume "length (vals_of k' kvs) \<noteq> 1"
  with assms have "case map_of idx k' of None \<Rightarrow> k' \<notin> set ks | Some j \<Rightarrow> j < length ks \<and> ks ! j = k'"
    by (simp add: idx_ok_def)
  then show "case map_of ((k, length ks) # idx) k' of None \<Rightarrow> k' \<notin> set (ks @ [k])
      | Some j \<Rightarrow> j < length (ks @ [k]) \<and> (ks @ [k]) ! j = k'"
    by (cases "map_of idx k'") (auto simp: nth_append)
qed

lemma entry_at_other: "k \<noteq> k' \<Longrightarrow> entry_at kvs (seen @ [(k', v)]) k = entry_at kvs seen k"
  by (simp add: entry_at_def vals_of_snoc)

lemma length_nub_less:
  assumes "kvs = seen @ (k, v) # rest" and "k \<notin> fst ` set seen"
  shows "length (nub (map fst seen)) < length (nub (map fst kvs))"
proof -
  have "card (set (map fst seen)) < card (set (map fst kvs))"
    using assms by (intro psubset_card_mono) auto
  then show ?thesis by (metis distinct_card distinct_nub set_nub)
qed

lemma fill_one_step:
  assumes kvs: "kvs = seen @ (k, v) # rest" and inv: "fill_inv kvs seen st"
  shows "\<exists>st'. fill_one (bag_of (map fst kvs)) (length (nub (map fst kvs))) k v False (st, m)
            = Some (st', if k \<in> fst ` set seen \<or> length (vals_of k kvs) = 1 then m
                         else snd (allocate_objects (length (vals_of k kvs)) m))
          \<and> fill_inv kvs (seen @ [(k, v)]) st'"
proof -
  obtain es idx where st: "st = (es, idx)" by fastforce
  have es: "es = map (\<lambda>k. (k, entry_at kvs seen k)) (nub (map fst seen))"
    using inv st by (simp add: fill_inv_def)
  let ?n = "length (vals_of k kvs)"
  have n: "bag_get (bag_of (map fst kvs)) k = ?n" by (simp add: bag_of_get length_vals_of)
  have vs: "vals_of k kvs = vals_of k seen @ v # vals_of k rest" using kvs by (simp add: vals_of_def)
  show ?thesis
  proof (cases "k \<in> fst ` set seen")
    case False
    then have nil: "vals_of k seen = []" by (simp add: vals_of_Nil_iff)
    have cap: "length es < length (nub (map fst kvs))" using length_nub_less [OF kvs False] es by simp
    have nub': "nub (map fst (seen @ [(k, v)])) = nub (map fst seen) @ [k]"
      using False by (simp add: nub_snoc)
    have old: "map (\<lambda>j. (j, entry_at kvs (seen @ [(k, v)]) j)) (nub (map fst seen)) = es"
    proof -
      have "j \<noteq> k" if "j \<in> set (nub (map fst seen))" for j using that False by auto
      then show ?thesis using es by (simp add: entry_at_other)
    qed
    show ?thesis
    proof (cases "?n = 1")
      case True
      then have "entry_at kvs (seen @ [(k, v)]) k = E_str v"
        using nil by (simp add: entry_at_def vals_of_snoc)
      moreover have "fill_inv kvs (seen @ [(k, v)]) (es @ [(k, E_str v)], idx)"
        unfolding fill_inv_def nub'
        using inv st True old calculation idx_ok_single [of kvs "nub (map fst seen)" idx k]
        by (simp add: fill_inv_def)
      ultimately show ?thesis using True cap n st by (simp add: fill_one_def)
    next
      case many: False
      let ?e = "E_arr ((replicate ?n Obj_invalid)[0 := Obj_string v]) 1"
      have pos: "0 < ?n" using vs by simp
      have e: "entry_at kvs (seen @ [(k, v)]) k = ?e"
        using nil many pos by (cases ?n) (simp_all add: entry_at_def vals_of_snoc)
      have none: "map_of idx k = None"
      proof (rule ccontr)
        assume "map_of idx k \<noteq> None"
        with inv st many have "k \<in> set (nub (map fst seen))"
          by (auto simp: fill_inv_def idx_ok_def simp del: set_nub split: option.splits intro: nth_mem)
        with False show False by simp
      qed
      have "fill_inv kvs (seen @ [(k, v)]) (es @ [(k, ?e)], (k, length es) # idx)"
        unfolding fill_inv_def nub'
        using inv st old e es idx_ok_first [of kvs "nub (map fst seen)" idx k]
        by (simp add: fill_inv_def)
      then show ?thesis using many False cap n st none pos
        by (simp add: fill_one_def first_occurrence_def)
    qed
  next
    case True
    then have "vals_of k seen \<noteq> []" by (simp add: vals_of_Nil_iff)
    then have many: "?n \<noteq> 1" "length (vals_of k seen) < ?n" using vs by auto
    have "case map_of idx k of None \<Rightarrow> k \<notin> set (nub (map fst seen))
        | Some j \<Rightarrow> j < length (nub (map fst seen)) \<and> nub (map fst seen) ! j = k"
      using inv st many(1) unfolding fill_inv_def idx_ok_def by auto
    with True obtain j where j: "map_of idx k = Some j" "j < length (nub (map fst seen))" "nub (map fst seen) ! j = k"
      by (cases "map_of idx k") auto
    let ?cells = "map Obj_string (vals_of k seen) @ replicate (?n - length (vals_of k seen)) Obj_invalid"
    have ej: "es ! j = (k, E_arr ?cells (length (vals_of k seen)))"
      using es j many by (simp add: entry_at_def Let_def)
    let ?e = "E_arr (?cells[length (vals_of k seen) := Obj_string v]) (length (vals_of k seen) + 1)"
    have "?cells[length (vals_of k seen) := Obj_string v] =
        map Obj_string (vals_of k seen @ [v]) @ replicate (?n - Suc (length (vals_of k seen))) Obj_invalid"
      using many(2) by (simp add: list_update_append Suc_diff_Suc [symmetric])
    then have e: "entry_at kvs (seen @ [(k, v)]) k = ?e"
      using many by (simp add: entry_at_def Let_def vals_of_snoc)
    have nub': "nub (map fst (seen @ [(k, v)])) = nub (map fst seen)"
      using True by (auto simp: nub_snoc)
    have "map (\<lambda>i. (i, entry_at kvs (seen @ [(k, v)]) i)) (nub (map fst seen)) = es[j := (k, ?e)]"
    proof (rule nth_equalityI)
      fix i assume i: "i < length (map (\<lambda>i. (i, entry_at kvs (seen @ [(k, v)]) i)) (nub (map fst seen)))"
      then show "map (\<lambda>i. (i, entry_at kvs (seen @ [(k, v)]) i)) (nub (map fst seen)) ! i = es[j := (k, ?e)] ! i"
        using es j e by (cases "i = j") (auto simp: entry_at_other nth_eq_iff_index_eq)
    qed (simp add: es)
    then have "fill_inv kvs (seen @ [(k, v)]) (es[j := (k, ?e)], idx)"
      unfolding fill_inv_def nub' using inv st by (simp add: fill_inv_def)
    then show ?thesis
      using many n st j ej True es
      by (simp add: fill_one_def)
  qed
qed

lemma fill_one_mem:
  "fill_one b cap k v del (st, m) = Some (st', m') \<Longrightarrow> \<exists>m2. fill_one b cap k v del (st, m1) = Some (st', m2)"
  by (auto simp: fill_one_def split: if_splits option.splits bind_splits prod.splits)

lemma kv_obj_complete:
  assumes "fill_inv kvs kvs (es, idx)"
  shows "kv_obj (length (nub (map fst kvs))) es = group_obj kvs"
proof -
  have es: "es = map (\<lambda>k. (k, entry_at kvs kvs k)) (nub (map fst kvs))"
    using assms by (simp add: fill_inv_def)
  have "entry_obj (entry_at kvs kvs k) = group_entry (vals_of k kvs)" for k
    by (cases "vals_of k kvs" rule: remdups_adj.cases) (auto simp: entry_at_def group_entry_def Let_def)
  then show ?thesis by (simp add: es kv_obj_def group_obj_def)
qed

section \<open>Deleted pairs\<close>

text \<open>
  A header list of a response may hold deleted entries. A pair is then marked; \<open>marks k ts\<close> are the marks of the pairs with
  the key \<open>k\<close>, and \<open>nb_at\<close> is the \<^verbatim>\<open>nbEntries\<close> that the second pass leaves in the array of a repeated key.
\<close>

type_synonym marked = "(bytes \<times> bytes) \<times> bool"

definition marks :: "bytes \<Rightarrow> marked list \<Rightarrow> bool list" where
  "marks k ts = map snd (filter (\<lambda>t. fst (fst t) = k) ts)"

definition nb_at :: "nat \<Rightarrow> bool list \<Rightarrow> nat" where
  "nb_at n ms = (case ms of [] \<Rightarrow> 0 | d # ds \<Rightarrow> foldl (\<lambda>nb d. if d then 0 else nb + 1) (if d then n else 1) ds)"

abbreviation overflows :: "bool list \<Rightarrow> bool" where
  "overflows ms \<equiv> take 2 ms = [True, False]"

lemma marks_snoc: "marks k (ts @ [((k', v), d)]) = marks k ts @ (if k = k' then [d] else [])"
  by (simp add: marks_def)

lemma marks_Nil_iff: "marks k ts = [] \<longleftrightarrow> k \<notin> fst ` fst ` set ts"
  by (auto simp: marks_def filter_empty_conv image_iff)

lemma length_marks: "length (marks k ts) = length (vals_of k (map fst ts))"
  by (induction ts) (auto simp: marks_def vals_of_def)

lemma nb_at_snoc: "ms \<noteq> [] \<Longrightarrow> nb_at n (ms @ [d]) = (if d then 0 else nb_at n ms + 1)"
  by (cases ms) (simp_all add: nb_at_def)

lemma overflows_snoc: "\<not> overflows ms \<Longrightarrow> overflows (ms @ [d]) \<longleftrightarrow> ms = [True] \<and> \<not> d"
  by (cases ms; cases "tl ms") (auto simp: numeral_2_eq_2)

lemma nb_at_bound: "ms \<noteq> [] \<Longrightarrow> ms \<noteq> [True] \<Longrightarrow> \<not> overflows ms \<Longrightarrow> nb_at n ms \<le> length ms"
proof (induction ms rule: rev_induct)
  case (snoc d ms)
  show ?case
  proof (cases "ms = []")
    case True
    with snoc.prems show ?thesis by (simp add: nb_at_def)
  next
    case False
    have "\<not> overflows ms" using snoc.prems(3) False by (cases ms; cases "tl ms") (auto simp: numeral_2_eq_2)
    with snoc False overflows_snoc [of ms d] show ?thesis by (auto simp: nb_at_snoc)
  qed
qed simp

definition mark_entry :: "marked list \<Rightarrow> marked list \<Rightarrow> bytes \<Rightarrow> kv_entry \<Rightarrow> bool" where
  "mark_entry ts seen k e \<longleftrightarrow> length (marks k ts) \<noteq> 1 \<longrightarrow>
     (\<exists>cells. e = E_arr cells (nb_at (length (marks k ts)) (marks k seen)) \<and> length cells = length (marks k ts))"

definition mark_inv :: "marked list \<Rightarrow> marked list \<Rightarrow> kv_entries \<times> (bytes \<times> nat) list \<Rightarrow> bool" where
  "mark_inv ts seen st \<longleftrightarrow> map fst (fst st) = nub (map (fst \<circ> fst) seen)
     \<and> (\<forall>j < length (fst st). mark_entry ts seen (fst (fst st ! j)) (snd (fst st ! j)))
     \<and> idx_ok (map fst ts) (nub (map (fst \<circ> fst) seen)) (snd st)"

lemma mark_entry_other: "k \<noteq> k' \<Longrightarrow> mark_entry ts (seen @ [((k', v), d)]) k e = mark_entry ts seen k e"
  by (simp add: mark_entry_def marks_snoc)

text \<open>
  One pair of the second pass: it goes out of bounds exactly when it is the second one of its key, not deleted, and the
  first one was deleted.
\<close>

lemma fill_marked_new:
  assumes ts: "ts = seen @ ((k, v), d) # rest" and inv: "mark_inv ts seen (es, idx)" and new: "k \<notin> fst ` fst ` set seen"
  shows "\<exists>st' m'. fill_one (bag_of (map (fst \<circ> fst) ts)) (length (nub (map (fst \<circ> fst) ts))) k v d ((es, idx), m) = Some (st', m')
    \<and> mark_inv ts (seen @ [((k, v), d)]) st'"
proof -
  let ?n = "length (marks k ts)"
  have n: "bag_get (bag_of (map (fst \<circ> fst) ts)) k = ?n" by (simp add: bag_of_get length_marks length_vals_of)
  have pos: "0 < ?n" using ts by (simp add: marks_def)
  have keys: "map fst es = nub (map (fst \<circ> fst) seen)" "idx_ok (map fst ts) (nub (map (fst \<circ> fst) seen)) idx"
    and ents: "\<And>j. j < length es \<Longrightarrow> mark_entry ts seen (fst (es ! j)) (snd (es ! j))"
    using inv by (auto simp: mark_inv_def)
  have "length (nub (map fst (map fst seen))) < length (nub (map fst (map fst ts)))"
    using ts new by (intro length_nub_less [of _ _ k v "map fst rest"]) (auto simp: image_image)
  then have cap: "length es < length (nub (map (fst \<circ> fst) ts))" using arg_cong [OF keys(1), of length] by (simp add: comp_def)
  have nub': "nub (map (fst \<circ> fst) (seen @ [((k, v), d)])) = nub (map (fst \<circ> fst) seen) @ [k]"
    using new by (auto simp: nub_snoc image_image)
  have ms: "marks k seen = []" using new by (simp add: marks_Nil_iff)
  have other: "fst (es ! j) \<noteq> k" if "j < length es" for j
  proof -
    have "fst (es ! j) \<in> set (map fst es)" using that by simp
    then show ?thesis using keys(1) new by (auto simp: image_image)
  qed
  have grow: "mark_inv ts (seen @ [((k, v), d)]) (es @ [(k, e)], idx')"
    if "mark_entry ts (seen @ [((k, v), d)]) k e" "idx_ok (map fst ts) (nub (map (fst \<circ> fst) seen) @ [k]) idx'" for e idx'
    unfolding mark_inv_def nub' using that keys(1) ents other by (auto simp: nth_append mark_entry_other less_Suc_eq)
  show ?thesis
  proof (cases "?n = 1")
    case True
    then have "mark_inv ts (seen @ [((k, v), d)]) (es @ [(k, E_str v)], idx)"
      using idx_ok_single [OF keys(2), of k] by (intro grow) (simp_all add: mark_entry_def length_marks)
    with True n cap show ?thesis by (auto simp: fill_one_def)
  next
    case False
    let ?e = "if d then E_arr (replicate ?n Obj_invalid) ?n else E_arr ((replicate ?n Obj_invalid)[0 := Obj_string v]) 1"
    have "mark_inv ts (seen @ [((k, v), d)]) (es @ [(k, ?e)], (k, length es) # idx)"
      using idx_ok_first [OF keys(2), of k] arg_cong [OF keys(1), of length] ms
      by (intro grow) (simp_all add: mark_entry_def marks_snoc nb_at_def)
    moreover have "map_of idx k = None"
    proof (cases "map_of idx k")
      case (Some j)
      with keys(2) False have "j < length (nub (map (fst \<circ> fst) seen))" "nub (map (fst \<circ> fst) seen) ! j = k"
        by (auto simp: idx_ok_def length_marks split: option.splits)
      then have "k \<in> set (nub (map (fst \<circ> fst) seen))" by (metis nth_mem)
      with new show ?thesis by (simp add: image_comp)
    qed
    ultimately show ?thesis using False n cap pos by (auto simp: fill_one_def first_occurrence_def)
  qed
qed

lemma fill_marked_again:
  assumes ts: "ts = seen @ ((k, v), d) # rest" and inv: "mark_inv ts seen (es, idx)" and old: "k \<in> fst ` fst ` set seen"
    and safe: "\<not> overflows (marks k seen)"
  shows "if marks k seen = [True] \<and> \<not> d
    then fill_one (bag_of (map (fst \<circ> fst) ts)) (length (nub (map (fst \<circ> fst) ts))) k v d ((es, idx), m) = None
    else \<exists>st' m'. fill_one (bag_of (map (fst \<circ> fst) ts)) (length (nub (map (fst \<circ> fst) ts))) k v d ((es, idx), m) = Some (st', m')
      \<and> mark_inv ts (seen @ [((k, v), d)]) st'"
proof -
  let ?n = "length (marks k ts)" and ?ms = "marks k seen"
  have n: "bag_get (bag_of (map (fst \<circ> fst) ts)) k = ?n" by (simp add: bag_of_get length_marks length_vals_of)
  have ms: "?ms \<noteq> []" using old by (simp add: marks_Nil_iff)
  have len: "length ?ms < ?n" using ts by (simp add: marks_def)
  with ms have many: "?n \<noteq> 1" by (cases ?ms) auto
  have keys: "map fst es = nub (map (fst \<circ> fst) seen)" "idx_ok (map fst ts) (nub (map (fst \<circ> fst) seen)) idx"
    and ents: "\<And>j. j < length es \<Longrightarrow> mark_entry ts seen (fst (es ! j)) (snd (es ! j))"
    using inv by (auto simp: mark_inv_def)
  have les: "length es = length (nub (map (fst \<circ> fst) seen))" using keys(1) by (metis length_map)
  have "case map_of idx k of None \<Rightarrow> k \<notin> set (nub (map (fst \<circ> fst) seen))
      | Some j \<Rightarrow> j < length (nub (map (fst \<circ> fst) seen)) \<and> nub (map (fst \<circ> fst) seen) ! j = k"
    using keys(2) many by (simp add: idx_ok_def length_marks)
  with old obtain j where j: "map_of idx k = Some j" "j < length es" "nub (map (fst \<circ> fst) seen) ! j = k"
    by (cases "map_of idx k") (auto simp: image_image les)
  have kj: "fst (es ! j) = k" using j keys(1) by (metis nth_map)
  from ents [OF j(2)] kj many obtain cells where c: "snd (es ! j) = E_arr cells (nb_at ?n ?ms)" "length cells = ?n"
    by (auto simp: mark_entry_def)
  have nub': "nub (map (fst \<circ> fst) (seen @ [((k, v), d)])) = nub (map (fst \<circ> fst) seen)"
    using old by (auto simp: nub_snoc image_image)
  have other: "fst (es ! i) \<noteq> k" if "i < length es" "i \<noteq> j" for i
    using that j(2) kj keys(1) distinct_nub [of "map (fst \<circ> fst) seen"] by (metis length_map nth_eq_iff_index_eq nth_map)
  have same: "map fst (es[j := (k, e)]) = map fst es" for e
    using kj by (simp add: map_update list_update_same_conv j(2))
  have upd: "mark_inv ts (seen @ [((k, v), d)]) (es[j := (k, e)], idx)" if "mark_entry ts (seen @ [((k, v), d)]) k e" for e
    unfolding mark_inv_def nub' using that keys ents other kj j(2)
    by (auto simp: nth_list_update mark_entry_other same simp del: map_update)
  have one: "fill_one (bag_of (map (fst \<circ> fst) ts)) (length (nub (map (fst \<circ> fst) ts))) k v d ((es, idx), m) =
      next_occurrence d v (E_arr cells (nb_at ?n ?ms)) \<bind> (\<lambda>e. Some ((es[j := (k, e)], idx), m))"
    using many n j c kj by (simp add: fill_one_def)
  show ?thesis
  proof (cases "?ms = [True] \<and> \<not> d")
    case True
    then show ?thesis using one c(2) by (simp add: nb_at_def)
  next
    case False
    have lt: "d \<or> nb_at ?n ?ms < ?n" using nb_at_bound [OF ms _ safe, of ?n] False len by auto
    define e where "e = (if d then E_arr cells 0 else E_arr (cells[nb_at ?n ?ms := Obj_string v]) (nb_at ?n ?ms + 1))"
    have e: "next_occurrence d v (E_arr cells (nb_at ?n ?ms)) = Some e" "mark_entry ts (seen @ [((k, v), d)]) k e"
      using c(2) ms lt by (auto simp: e_def mark_entry_def marks_snoc nb_at_snoc)
    from one e(1) have "fill_one (bag_of (map (fst \<circ> fst) ts)) (length (nub (map (fst \<circ> fst) ts))) k v d ((es, idx), m) =
        Some ((es[j := (k, e)], idx), m)" by (simp del: next_occurrence.simps)
    with False upd [OF e(2)] show ?thesis by auto
  qed
qed

lemma fill_marked_step:
  assumes "ts = seen @ ((k, v), d) # rest" and "mark_inv ts seen st" and "\<not> overflows (marks k seen)"
  shows "if overflows (marks k (seen @ [((k, v), d)]))
    then fill_one (bag_of (map (fst \<circ> fst) ts)) (length (nub (map (fst \<circ> fst) ts))) k v d (st, m) = None
    else \<exists>st' m'. fill_one (bag_of (map (fst \<circ> fst) ts)) (length (nub (map (fst \<circ> fst) ts))) k v d (st, m) = Some (st', m')
      \<and> mark_inv ts (seen @ [((k, v), d)]) st'"
proof -
  obtain es idx where st: "st = (es, idx)" by fastforce
  have o: "overflows (marks k (seen @ [((k, v), d)])) \<longleftrightarrow> marks k seen = [True] \<and> \<not> d"
    using overflows_snoc [OF assms(3)] by (simp add: marks_snoc)
  show ?thesis
  proof (cases "k \<in> fst ` fst ` set seen")
    case True
    from fill_marked_again [OF assms(1) assms(2) [unfolded st] True assms(3), of m] show ?thesis unfolding o st .
  next
    case False
    then have "marks k seen = []" by (simp add: marks_Nil_iff)
    with fill_marked_new [OF assms(1) assms(2) [unfolded st] False, of m] show ?thesis unfolding o st by simp
  qed
qed

section \<open>The iterator interface\<close>

text \<open>
  What \<^verbatim>\<open>set_value_from_iter\<close> relies on when pairs may be deleted: the iterator stands for the list of the marked pairs from
  its position, and for the list of all of them it returns to on \<^verbatim>\<open>reset\<close>.
\<close>

locale kv_marked =
  fixes ended :: "'i \<Rightarrow> bool"
    and cur_key :: "'i \<Rightarrow> memres \<Rightarrow> (bytes \<times> 'i \<times> memres) option"
    and deref :: "'i \<Rightarrow> memres \<Rightarrow> ((bytes \<times> bytes) \<times> 'i \<times> memres) option"
    and is_delete :: "'i \<Rightarrow> bool"
    and nxt :: "'i \<Rightarrow> memres \<Rightarrow> ('i \<times> memres) option"
    and reset :: "'i \<Rightarrow> 'i"
    and marked_items :: "'i \<Rightarrow> marked list"
    and all_marked :: "'i \<Rightarrow> marked list"
    and invar :: "'i \<Rightarrow> bool"
  assumes m_ended: "invar it \<Longrightarrow> ended it \<longleftrightarrow> marked_items it = []"
    and m_cur_key: "invar it \<Longrightarrow> marked_items it = ((k, v), d) # ts \<Longrightarrow>
      \<exists>it' m'. cur_key it m = Some (k, it', m') \<and> marked_items it' = marked_items it \<and> all_marked it' = all_marked it \<and> invar it'"
    and m_deref: "invar it \<Longrightarrow> marked_items it = ((k, v), d) # ts \<Longrightarrow>
      \<exists>it' m'. deref it m = Some ((k, v), it', m') \<and> marked_items it' = marked_items it \<and> all_marked it' = all_marked it
        \<and> invar it' \<and> is_delete it' = d"
    and m_nxt: "invar it \<Longrightarrow> marked_items it = t # ts \<Longrightarrow>
      \<exists>it' m'. nxt it m = Some (it', m') \<and> marked_items it' = ts \<and> all_marked it' = all_marked it \<and> invar it'"
    and m_reset: "invar it \<Longrightarrow> marked_items (reset it) = all_marked it \<and> invar (reset it)"
begin

lemma count_marked:
  "invar it \<Longrightarrow> \<exists>it' m'. count_keys ended cur_key nxt it m b = Some (it', m', fold bag_inc (map (fst \<circ> fst) (marked_items it)) b)
     \<and> all_marked it' = all_marked it \<and> invar it'"
proof (induction "marked_items it" arbitrary: it m b)
  case Nil
  then show ?case by (simp add: count_keys.simps [of ended] m_ended)
next
  case (Cons t ts)
  obtain k v d where t: "t = ((k, v), d)" by (metis prod.exhaust)
  from m_cur_key [OF Cons.prems, of k v d ts m] Cons.hyps(2) t obtain it1 m1
    where 1: "cur_key it m = Some (k, it1, m1)" "marked_items it1 = t # ts" "all_marked it1 = all_marked it" "invar it1" by auto
  from m_nxt [OF 1(4,2), of m1] obtain it2 m2
    where 2: "nxt it1 m1 = Some (it2, m2)" "marked_items it2 = ts" "all_marked it2 = all_marked it1" "invar it2" by blast
  from Cons.hyps(1) [OF 2(2) [symmetric] 2(4), of m2 "bag_inc k b"] 1 2 Cons.hyps(2) [symmetric] t Cons.prems
  show ?case by (simp add: count_keys.simps [of ended _ _ it] m_ended)
qed

lemma fill_marked:
  "invar it \<Longrightarrow> ts = seen @ marked_items it \<Longrightarrow> mark_inv ts seen st \<Longrightarrow> (\<forall>k. \<not> overflows (marks k seen)) \<Longrightarrow>
     fill ended deref is_delete nxt (bag_of (map (fst \<circ> fst) ts)) (length (nub (map (fst \<circ> fst) ts))) it (st, m) = None
       \<longleftrightarrow> (\<exists>k. overflows (marks k ts))"
proof (induction "marked_items it" arbitrary: it seen st m)
  case Nil
  then show ?case by (auto simp: fill.simps [of ended] m_ended)
next
  case (Cons t rest)
  obtain k v d where t: "t = ((k, v), d)" by (metis prod.exhaust)
  from m_deref [OF Cons.prems(1), of k v d rest m] Cons.hyps(2) t obtain it1 m1
    where 1: "deref it m = Some ((k, v), it1, m1)" "marked_items it1 = t # rest" "invar it1" "is_delete it1 = d" by auto
  from Cons.prems(2) Cons.hyps(2) t have ts: "ts = seen @ ((k, v), d) # rest" by simp
  have ne: "\<not> ended it" using Cons.prems(1) Cons.hyps(2) m_ended by (metis list.distinct(1))
  note step = fill_marked_step [OF ts Cons.prems(3), of m1]
  show ?case
  proof (cases "overflows (marks k (seen @ [((k, v), d)]))")
    case True
    have "take 2 (marks k ts) = take 2 (marks k (seen @ [((k, v), d)]) @ marks k rest)" by (simp add: ts marks_def)
    also have "\<dots> = [True, False]" using True length_take [of 2 "marks k (seen @ [((k, v), d)])"] by simp
    finally show ?thesis
      using step True Cons.prems(4) ne 1 by (auto simp: fill.simps [of ended _ _ _ _ _ it])
  next
    case False
    with step Cons.prems(4) obtain st' m2 where 3: "fill_one (bag_of (map (fst \<circ> fst) ts)) (length (nub (map (fst \<circ> fst) ts))) k v d (st, m1)
        = Some (st', m2)" "mark_inv ts (seen @ [((k, v), d)]) st'" by auto
    from m_nxt [OF 1(3,2), of m2] obtain it2 m3
      where 2: "nxt it1 m2 = Some (it2, m3)" "marked_items it2 = rest" "invar it2" by blast
    have "\<forall>k'. \<not> overflows (marks k' (seen @ [((k, v), d)]))" using False Cons.prems(4) by (auto simp: marks_snoc)
    with Cons.hyps(1) [OF 2(2) [symmetric] 2(3) _ 3(2), of m3] ts 2(2) ne 1 2 3 show ?thesis
      by (simp add: fill.simps [of ended _ _ _ _ _ it])
  qed
qed

lemma set_value_marked:
  assumes "invar it" and "marked_items it = all_marked it"
  shows "set_value_from_iter ended cur_key deref is_delete nxt reset it m = None \<longleftrightarrow> (\<exists>k. overflows (marks k (all_marked it)))"
proof -
  let ?ts = "all_marked it"
  from count_marked [OF assms(1), of m "[]"] assms(2) obtain it1 m1
    where 1: "count_keys ended cur_key nxt it m [] = Some (it1, m1, bag_of (map (fst \<circ> fst) ?ts))"
      "all_marked it1 = ?ts" "invar it1" by (auto simp: bag_of_def)
  note r = m_reset [OF 1(3)]
  have "mark_inv ?ts [] ([], [])" by (simp add: mark_inv_def idx_ok_def)
  from fill_marked [OF conjunct2 [OF r] _ this, of "snd (allocate_objects (length (bag_of (map (fst \<circ> fst) ?ts))) m1)"] r 1
  show ?thesis
    by (simp add: set_value_from_iter_def length_bag_of case_prod_beta Let_def marks_def bind_eq_None_conv)
qed

end

text \<open>
  What \<^verbatim>\<open>set_value_from_iter\<close> relies on: the iterator stands for the list of the pairs from its
  position, and for the list of all pairs it returns to on \<^verbatim>\<open>reset\<close>.
\<close>

locale kv_source =
  fixes ended :: "'i \<Rightarrow> bool"
    and cur_key :: "'i \<Rightarrow> memres \<Rightarrow> (bytes \<times> 'i \<times> memres) option"
    and deref :: "'i \<Rightarrow> memres \<Rightarrow> ((bytes \<times> bytes) \<times> 'i \<times> memres) option"
    and is_delete :: "'i \<Rightarrow> bool"
    and nxt :: "'i \<Rightarrow> memres \<Rightarrow> ('i \<times> memres) option"
    and reset :: "'i \<Rightarrow> 'i"
    and items :: "'i \<Rightarrow> (bytes \<times> bytes) list"
    and all_items :: "'i \<Rightarrow> (bytes \<times> bytes) list"
    and invar :: "'i \<Rightarrow> bool"
  assumes ended_iff: "invar it \<Longrightarrow> ended it \<longleftrightarrow> items it = []"
    and cur_key_law: "invar it \<Longrightarrow> items it = (k, v) # kvs \<Longrightarrow>
      \<exists>it' m'. cur_key it m = Some (k, it', m') \<and> items it' = items it \<and> all_items it' = all_items it \<and> invar it'"
    and deref_law: "invar it \<Longrightarrow> items it = (k, v) # kvs \<Longrightarrow>
      \<exists>it' m'. deref it m = Some ((k, v), it', m') \<and> items it' = items it \<and> all_items it' = all_items it
        \<and> invar it' \<and> \<not> is_delete it'"
    and nxt_law: "invar it \<Longrightarrow> items it = kv # kvs \<Longrightarrow>
      \<exists>it' m'. nxt it m = Some (it', m') \<and> items it' = kvs \<and> all_items it' = all_items it \<and> invar it'"
    and reset_law: "invar it \<Longrightarrow> items (reset it) = all_items it \<and> invar (reset it)"

text \<open>Pairs that are never deleted are marked pairs.\<close>

sublocale kv_source \<subseteq> unmarked: kv_marked ended cur_key deref is_delete nxt reset
  "\<lambda>it. map (\<lambda>kv. (kv, False)) (items it)" "\<lambda>it. map (\<lambda>kv. (kv, False)) (all_items it)" invar
proof (unfold_locales, goal_cases)
  case (1 it)
  then show ?case by (simp add: ended_iff)
next
  case (2 it k v d ts m)
  then obtain kvs where "items it = (k, v) # kvs" by (cases "items it") auto
  from cur_key_law [OF 2(1) this, of m] show ?case by fastforce
next
  case (3 it k v d ts m)
  then obtain kvs where i: "items it = (k, v) # kvs" "\<not> d" by (cases "items it") auto
  from deref_law [OF 3(1) i(1), of m] i(2) show ?case by fastforce
next
  case (4 it t ts m)
  then obtain kv kvs where i: "items it = kv # kvs" "ts = map (\<lambda>kv. (kv, False)) kvs" by (cases "items it") auto
  from nxt_law [OF 4(1) i(1), of m] i(2) show ?case by fastforce
next
  case (5 it)
  then show ?case by (simp add: reset_law)
qed

context kv_source
begin

lemma count_keys_spec:
  assumes "invar it"
  shows "\<exists>it' m'. count_keys ended cur_key nxt it m b = Some (it', m', fold bag_inc (map fst (items it)) b)
     \<and> all_items it' = all_items it \<and> invar it'"
proof -
  have "map fst (map (\<lambda>kv. (kv, False)) xs) = xs" for xs :: "(bytes \<times> bytes) list" by (simp add: comp_def)
  then have "map (\<lambda>kv. (kv, False)) xs = map (\<lambda>kv. (kv, False)) ys \<Longrightarrow> xs = ys" for xs ys :: "(bytes \<times> bytes) list" by metis
  with unmarked.count_marked [OF assms, of m b] show ?thesis by (fastforce simp: comp_def)
qed

lemma fill_spec:
  "invar it \<Longrightarrow> kvs = seen @ items it \<Longrightarrow> fill_inv kvs seen st \<Longrightarrow>
     \<exists>es idx m'. fill ended deref is_delete nxt (bag_of (map fst kvs)) (length (nub (map fst kvs))) it (st, m) = Some (es, m')
       \<and> fill_inv kvs kvs (es, idx)"
proof (induction "items it" arbitrary: it seen st m)
  case Nil
  then show ?case by (auto simp: fill.simps [of ended] ended_iff intro: exI [of _ "snd st"])
next
  case (Cons kv rest)
  obtain k v where kv: "kv = (k, v)" by fastforce
  from deref_law [OF Cons.prems(1), of k v rest m] Cons.hyps(2) kv obtain it1 m1
    where 1: "deref it m = Some ((k, v), it1, m1)" "items it1 = kv # rest" "invar it1" "\<not> is_delete it1" by auto
  from Cons.prems(2) Cons.hyps(2) kv have kvs: "kvs = seen @ (k, v) # rest" by simp
  from fill_one_step [OF kvs Cons.prems(3), of m1] obtain st' m2
    where 3: "fill_one (bag_of (map fst kvs)) (length (nub (map fst kvs))) k v False (st, m1) = Some (st', m2)"
      "fill_inv kvs (seen @ [(k, v)]) st'" by blast
  from nxt_law [OF 1(3,2), of m2] obtain it2 m3
    where 2: "nxt it1 m2 = Some (it2, m3)" "items it2 = rest" "invar it2" by blast
  have "\<not> ended it" using Cons.prems(1) Cons.hyps(2) ended_iff by (metis list.distinct(1))
  moreover from Cons.hyps(1) [OF 2(2) [symmetric] 2(3) _ 3(2), of m3] kvs 2(2)
  obtain es idx m' where "fill ended deref is_delete nxt (bag_of (map fst kvs)) (length (nub (map fst kvs))) it2 (st', m3) = Some (es, m')"
      "fill_inv kvs kvs (es, idx)" by auto
  ultimately show ?case
    using 1 2 3 by (auto simp: fill.simps [of ended _ _ _ _ _ it])
qed

theorem set_value_groups:
  assumes "invar it" and "items it = all_items it"
  shows "\<exists>m'. set_value_from_iter ended cur_key deref is_delete nxt reset it m = Some (group_obj (all_items it), m')"
proof -
  from count_keys_spec [OF assms(1), of m "[]"] assms(2) obtain it1 m1
    where 1: "count_keys ended cur_key nxt it m [] = Some (it1, m1, bag_of (map fst (all_items it)))"
      "all_items it1 = all_items it" "invar it1" by (auto simp: bag_of_def)
  note r = reset_law [OF 1(3)]
  have "fill_inv (all_items it) [] ([], [])" by (simp add: fill_inv_def idx_ok_def)
  from fill_spec [OF conjunct2 [OF r] _ this, of "snd (allocate_objects (length (bag_of (map fst (all_items it)))) m1)"] r 1(2)
  obtain es idx m' where f: "fill ended deref is_delete nxt (bag_of (map fst (all_items it))) (length (nub (map fst (all_items it))))
        (reset it1) (([], []), snd (allocate_objects (length (bag_of (map fst (all_items it)))) m1)) = Some (es, m')"
      "fill_inv (all_items it) (all_items it) (es, idx)" by auto
  from kv_obj_complete [OF f(2)] f(1) 1(1) show ?thesis
    by (simp add: set_value_from_iter_def length_bag_of case_prod_beta Let_def)
qed

end

section \<open>QueryStringIter is such an iterator\<close>

definition qs_items :: "qs_iter \<Rightarrow> (bytes \<times> bytes) list" where
  "qs_items it = map (kv_of (qs_trim it)) (pieces (qs_separator it) (qs_rest it))"

definition qs_all :: "qs_iter \<Rightarrow> (bytes \<times> bytes) list" where
  "qs_all it = map (kv_of (qs_trim it)) (pieces (qs_separator it) (qs_str it))"

definition qs_inv :: "qs_iter \<Rightarrow> bool" where
  "qs_inv it \<longleftrightarrow> qs_pos it \<le> length (qs_str it)"

lemma qs_ended_iff: "qs_inv it \<Longrightarrow> qs_ended it \<longleftrightarrow> qs_items it = []"
  by (auto simp: qs_inv_def qs_ended_def qs_items_def qs_rest_def pieces.simps)

lemma qs_items_Cons:
  "qs_inv it \<Longrightarrow> \<not> qs_ended it \<Longrightarrow> qs_items it = kv_of (qs_trim it) (qs_kv it) # qs_items (qs_next it)"
  using pieces.simps [of "qs_separator it" "qs_rest it"]
  by (auto simp: qs_inv_def qs_ended_def qs_items_def qs_kv_eq qs_rest_next) (simp add: qs_rest_def)

lemma qs_cur_key_frame:
  "qs_cur_key it m = (k, it', m') \<Longrightarrow> qs_pos it' = qs_pos it \<and> qs_str it' = qs_str it \<and> qs_trim it' = qs_trim it
     \<and> qs_separator it' = qs_separator it"
  by (auto simp: qs_cur_key_def split: option.splits dest: qs_decode_frame)

lemma qs_frame_items:
  assumes "qs_pos it' = qs_pos it \<and> qs_str it' = qs_str it \<and> qs_trim it' = qs_trim it \<and> qs_separator it' = qs_separator it"
  shows "qs_items it' = qs_items it" "qs_all it' = qs_all it" "qs_inv it' = qs_inv it"
    "qs_ended it' = qs_ended it"
  using assms by (simp_all add: qs_items_def qs_all_def qs_inv_def qs_ended_def qs_rest_def)

interpretation query_string: kv_source qs_ended "\<lambda>it m. Some (qs_cur_key it m)" "\<lambda>it m. Some (qs_deref it m)"
  "\<lambda>it. False" "\<lambda>it m. Some (qs_next it, m)" qs_reset qs_items qs_all qs_inv
proof (unfold_locales, goal_cases)
  case (2 it k v kvs m)
  obtain k' it' m' where c: "qs_cur_key it m = (k', it', m')" by (metis prod_cases3)
  have "\<not> qs_ended it" using 2 by (simp add: qs_ended_iff)
  with 2 c qs_cur_key_value [of it m] qs_items_Cons [of it] have "k' = k" by auto
  with 2 c qs_frame_items [OF qs_cur_key_frame [OF c]] show ?case by auto
next
  case (3 it k v kvs m)
  obtain kv it' m' where c: "qs_deref it m = (kv, it', m')" by (metis prod_cases3)
  have "\<not> qs_ended it" using 3 by (simp add: qs_ended_iff)
  with 3 qs_deref_value [OF c] qs_items_Cons [of it] have "kv = (k, v)" by auto
  with 3 c qs_frame_items [OF qs_deref_frame [OF c]] show ?case by auto
next
  case (4 it kv kvs)
  then have "\<not> qs_ended it" by (simp add: qs_ended_iff)
  with 4 qs_items_Cons [of it] qs_next_pos [of it] show ?case
    by (auto simp: qs_inv_def qs_all_def)
qed (auto simp: qs_ended_iff qs_inv_def qs_items_def qs_all_def qs_reset_def qs_rest_def)

lemma query_string_groups:
  "\<exists>m'. set_value_from_iter qs_ended (\<lambda>it m. Some (qs_cur_key it m)) (\<lambda>it m. Some (qs_deref it m)) (\<lambda>it. False)
     (\<lambda>it m. Some (qs_next it, m)) qs_reset (qs_make s sep trim) m = Some (group_obj (map (kv_of trim) (pieces sep s)), m')"
  using query_string.set_value_groups [of "qs_make s sep trim" m]
  by (simp add: qs_inv_def qs_items_def qs_all_def qs_make_def qs_rest_def)

section \<open>qs_iter_agg is such an iterator once it is settled\<close>

definition agg_items :: "qs_agg \<Rightarrow> (bytes \<times> bytes) list" where
  "agg_items a = concat (map qs_items (drop (agg_cur a) (agg_iters a)))"

definition agg_all :: "qs_agg \<Rightarrow> (bytes \<times> bytes) list" where
  "agg_all a = concat (map qs_all (agg_iters a))"

definition agg_settled :: "qs_agg \<Rightarrow> bool" where
  "agg_settled a \<longleftrightarrow> agg_ended a \<or> (agg_cur a < length (agg_iters a) \<and> \<not> qs_ended (agg_iters a ! agg_cur a))"

definition agg_inv :: "qs_agg \<Rightarrow> bool" where
  "agg_inv a \<longleftrightarrow> list_all qs_inv (agg_iters a) \<and> agg_settled a"

lemma agg_items_cur:
  "agg_cur a < length (agg_iters a) \<Longrightarrow>
     agg_items a = qs_items (agg_iters a ! agg_cur a) @ concat (map qs_items (drop (Suc (agg_cur a)) (agg_iters a)))"
  by (simp add: agg_items_def flip: Cons_nth_drop_Suc)

lemma agg_skip_items: "list_all qs_inv (agg_iters a) \<Longrightarrow> agg_items (agg_skip a) = agg_items a"
proof (induction a rule: agg_skip.induct)
  case (1 a)
  show ?case
  proof (cases "agg_cur a < length (agg_iters a) \<and> qs_ended (agg_iters a ! agg_cur a)")
    case True
    then have "qs_items (agg_iters a ! agg_cur a) = []"
      using 1(2) qs_ended_iff [of "agg_iters a ! agg_cur a"] by (simp add: list_all_length)
    with True 1 agg_items_cur [of a] show ?thesis
      by (subst agg_skip.simps) (simp add: agg_items_def)
  next
    case False
    then show ?thesis by (subst agg_skip.simps) auto
  qed
qed

lemma agg_skip_inv: "list_all qs_inv (agg_iters a) \<Longrightarrow> agg_inv (agg_skip a)"
  using agg_skip_settles [of a] by (simp add: agg_inv_def agg_settled_def)

lemma agg_inv_cur:
  assumes "agg_inv a" and "agg_items a \<noteq> []"
  shows "agg_cur a < length (agg_iters a)" "\<not> qs_ended (agg_iters a ! agg_cur a)"
    "qs_inv (agg_iters a ! agg_cur a)"
  using assms by (auto simp: agg_inv_def agg_settled_def agg_ended_def agg_items_def list_all_length)

text \<open>Replacing the current iterator by one that stands for the same pairs.\<close>

lemma agg_replace:
  assumes "agg_inv a" and "agg_items a \<noteq> []" and "a' = a\<lparr>agg_iters := (agg_iters a)[agg_cur a := it']\<rparr>"
    and "qs_pos it' = qs_pos it \<and> qs_str it' = qs_str it \<and> qs_trim it' = qs_trim it \<and> qs_separator it' = qs_separator it"
    and "it = agg_iters a ! agg_cur a"
  shows "agg_items a' = agg_items a" "agg_all a' = agg_all a" "agg_inv a'"
proof -
  note c = agg_inv_cur [OF assms(1,2)] and f = qs_frame_items [OF assms(4)]
  have m: "map qs_all (agg_iters a') = map qs_all (agg_iters a)"
    using assms c f by (simp add: map_update list_update_same_conv)
  show "agg_items a' = agg_items a"
    using agg_items_cur [OF c(1)] agg_items_cur [of a'] assms c f by simp
  show "agg_all a' = agg_all a" using m by (simp add: agg_all_def)
  show "agg_inv a'"
    using assms(1) c f assms(3,5) by (simp add: agg_inv_def agg_settled_def agg_ended_def list_all_length nth_list_update)
qed

interpretation cookies: kv_source agg_ended agg_cur_key agg_deref "\<lambda>a. False" "\<lambda>a m. agg_next a \<bind> (\<lambda>a'. Some (a', m))" agg_reset
  agg_items agg_all agg_inv
proof (unfold_locales, goal_cases)
  case (1 a)
  show ?case
  proof (cases "agg_ended a")
    case True
    then show ?thesis by (simp add: agg_items_def agg_ended_def)
  next
    case False
    with 1 have "agg_cur a < length (agg_iters a)" "\<not> qs_ended (agg_iters a ! agg_cur a)"
        "qs_inv (agg_iters a ! agg_cur a)"
      by (auto simp: agg_inv_def agg_settled_def list_all_length agg_ended_def)
    with False agg_items_cur [of a] show ?thesis by (simp add: qs_ended_iff)
  qed
next
  case (2 a k v kvs m)
  then have ne: "agg_items a \<noteq> []" by simp
  note c = agg_inv_cur [OF 2(1) ne]
  obtain k' it' m' where q: "qs_cur_key (agg_iters a ! agg_cur a) m = (k', it', m')" by (metis prod_cases3)
  have "k' = k"
    using qs_cur_key_value [of "agg_iters a ! agg_cur a" m] q qs_items_Cons [OF c(3,2)] agg_items_cur [OF c(1)] 2(2)
    by (auto dest: arg_cong [of _ _ fst])
  with q c agg_replace [OF 2(1) ne refl qs_cur_key_frame [OF q] refl] show ?case
    by (simp add: agg_cur_key_def)
next
  case (3 a k v kvs m)
  then have ne: "agg_items a \<noteq> []" by simp
  note c = agg_inv_cur [OF 3(1) ne]
  obtain kv it' m' where q: "qs_deref (agg_iters a ! agg_cur a) m = (kv, it', m')" by (metis prod_cases3)
  have "kv = (k, v)"
    using qs_deref_value [OF q] qs_items_Cons [OF c(3,2)] agg_items_cur [OF c(1)] 3(2) by auto
  with q c agg_replace [OF 3(1) ne refl qs_deref_frame [OF q] refl] show ?case
    by (simp add: agg_deref_def)
next
  case (4 a kv kvs)
  then have ne: "agg_items a \<noteq> []" by simp
  note c = agg_inv_cur [OF 4(1) ne]
  let ?it = "agg_iters a ! agg_cur a"
  let ?a = "a\<lparr>agg_iters := (agg_iters a)[agg_cur a := qs_next ?it]\<rparr>"
  have inv: "list_all qs_inv (agg_iters ?a)"
    using 4(1) c qs_next_pos [of ?it] by (auto simp: agg_inv_def list_all_length nth_list_update qs_inv_def)
  have "agg_items ?a = kvs"
    using agg_items_cur [of ?a] agg_items_cur [OF c(1)] qs_items_Cons [OF c(3,2)] 4(2) c by simp
  moreover have "map qs_all (agg_iters ?a) = map qs_all (agg_iters a)"
    using c by (simp add: map_update list_update_same_conv qs_all_def)
  ultimately show ?case
    using agg_skip_items [OF inv] agg_skip_inv [OF inv] c by (simp add: agg_next_def agg_all_def)
next
  case (5 a)
  let ?a = "a\<lparr>agg_iters := map qs_reset (agg_iters a), agg_cur := 0\<rparr>"
  have inv: "list_all qs_inv (agg_iters ?a)" by (simp add: list_all_iff qs_inv_def qs_reset_def)
  have "agg_items ?a = agg_all a"
    by (simp add: agg_items_def agg_all_def qs_items_def qs_all_def [abs_def] qs_reset_def qs_rest_def comp_def)
  with agg_skip_items [OF inv] agg_skip_inv [OF inv] show ?case by (simp add: agg_reset_def)
qed

end
