(* ===== verification/Http_Header.thy ===== *)
theory Http_Header
  imports Chain_Stream Decode
begin

text \<open>
  Header parsing: \<^verbatim>\<open>src/security/body_parse/header.cpp\<close>. \<^verbatim>\<open>HttpContentType::for_string\<close> parses a
  \<^verbatim>\<open>Content-Type\<close> value; \<^verbatim>\<open>MimeContentDisposition::for_stream\<close> consumes the headers of a MIME part
  and extracts the field name, on top of the coroutine \<^verbatim>\<open>unfold_next_header\<close>, which unfolds
  continued lines.

  The coroutine is represented by the bytes it yields together with the stream it leaves: every
  path of \<^verbatim>\<open>for_stream\<close> reads the generator to its end before the stream is used again, so the
  interleaving of the two is not observable. \<^const>\<open>None\<close> in the results of the stream functions is
  a read out of bounds.
\<close>

section \<open>Tokens and quoted strings\<close>

definition equals_ci :: "bytes \<Rightarrow> bytes \<Rightarrow> bool" where
  "equals_ci a lc_b \<longleftrightarrow> length a = length lc_b \<and> map tolower a = lc_b"

definition to_lc :: "bytes \<Rightarrow> bytes" where
  "to_lc sv = map tolower sv"

definition is_ows :: "byte \<Rightarrow> bool" where
  "is_ows c \<longleftrightarrow> c = SP \<or> c = HT"

definition consume_ows :: "bytes \<Rightarrow> bytes" where
  "consume_ows sv = dropWhile is_ows sv"

definition tchar :: "byte \<Rightarrow> bool" where
  "tchar c \<longleftrightarrow> c \<in> set (''abcdefghijklmnopqrstuvwxyz'' @ ''ABCDEFGHIJKLMNOPQRSTUVWXYZ''
     @ ''0123456789!#$%&'' @ [CHR 0x27] @ ''*+-.^_'' @ [CHR 0x60] @ ''|~'')"

text \<open>The token and the rest of the input; \<^const>\<open>None\<close> when the first character is not a token character.\<close>

definition consume_wg_token :: "bytes \<Rightarrow> (bytes \<times> bytes) option" where
  "consume_wg_token sv =
     (case find_pos (\<lambda>c. \<not> tchar c) sv of
        Some 0 \<Rightarrow> None
      | Some e \<Rightarrow> Some (take e sv, drop e sv)
      | None \<Rightarrow> Some (sv, []))"

definition qdtext :: "byte \<Rightarrow> bool" where
  "qdtext ch \<longleftrightarrow> ch = HT \<or> ch = SP \<or> (0x21 \<le> ord ch \<and> ch \<noteq> BACKSLASH \<and> ch \<noteq> CHR 0x7F)"

definition quotable :: "byte \<Rightarrow> bool" where
  "quotable ch \<longleftrightarrow> ch = HT \<or> ch = SP \<or> (0x21 \<le> ord ch \<and> ch \<noteq> CHR 0x7F)"

text \<open>The loop after the opening quote.\<close>

fun quoted_loop :: "bytes \<Rightarrow> (bytes \<times> bytes) option" where
  "quoted_loop [] = None"
| "quoted_loop (ch # sv) =
     (if ch = DQUOTE then Some ([], sv)
      else if qdtext ch then map_option (\<lambda>(r, rest). (ch # r, rest)) (quoted_loop sv)
      else if ch = BACKSLASH then
        (case sv of [] \<Rightarrow> None
         | ch2 # sv2 \<Rightarrow> if quotable ch2 then map_option (\<lambda>(r, rest). (ch2 # r, rest)) (quoted_loop sv2)
                        else None)
      else None)"

definition consume_9110_quoted_string :: "bytes \<Rightarrow> (bytes \<times> bytes) option" where
  "consume_9110_quoted_string sv =
     (case sv of [] \<Rightarrow> None | c # cs \<Rightarrow> if c = DQUOTE then quoted_loop cs else None)"

section \<open>HttpContentType\<close>

record http_content_type =
  ct_type :: bytes
  ct_subtype :: bytes
  ct_encoding :: bytes
  ct_boundary :: bytes

lemma consume_ows_le: "length (consume_ows sv) \<le> length sv"
  by (simp add: consume_ows_def length_dropWhile_le)

lemma consume_wg_token_le: "consume_wg_token sv = Some (t, rest) \<Longrightarrow> length rest \<le> length sv"
  by (auto simp: consume_wg_token_def split: option.splits nat.splits)

lemma quoted_loop_le: "quoted_loop sv = Some (r, rest) \<Longrightarrow> length rest < length sv"
proof (induction sv arbitrary: r rest rule: quoted_loop.induct)
  case (2 ch sv)
  then show ?case by (fastforce split: if_splits list.splits)
qed simp

lemma consume_9110_le: "consume_9110_quoted_string sv = Some (r, rest) \<Longrightarrow> length rest \<le> length sv"
  by (auto simp: consume_9110_quoted_string_def split: list.splits if_splits dest: quoted_loop_le)

text \<open>A parameter value: a quoted string or a token.\<close>

definition param_value :: "bytes \<Rightarrow> (bytes \<times> bytes) option" where
  "param_value sv =
     (case sv of [] \<Rightarrow> None
      | c # _ \<Rightarrow> if c = DQUOTE then consume_9110_quoted_string sv else consume_wg_token sv)"

definition set_param :: "bytes \<Rightarrow> bytes \<Rightarrow> http_content_type \<Rightarrow> http_content_type" where
  "set_param name v ct =
     (if equals_ci name ''charset'' then ct\<lparr>ct_encoding := v\<rparr>
      else if equals_ci name ''boundary'' then ct\<lparr>ct_boundary := v\<rparr>
      else ct)"

lemma param_value_le: "param_value sv = Some (r, rest) \<Longrightarrow> length rest \<le> length sv"
  by (auto simp: param_value_def split: list.splits if_splits dest: consume_9110_le consume_wg_token_le)

text \<open>The loop over the parameters.\<close>

function ct_params :: "http_content_type \<Rightarrow> bytes \<Rightarrow> http_content_type option" where
  "ct_params ct sv0 =
     (case consume_ows sv0 of
        [] \<Rightarrow> Some ct
      | c # sv1 \<Rightarrow>
          if c \<noteq> CHR '';'' then None
          else case consume_ows sv1 of
            [] \<Rightarrow> Some ct
          | d # ds \<Rightarrow>
              (case consume_wg_token (d # ds) of
                 None \<Rightarrow> ct_params ct (d # ds)
               | Some (name, sv3) \<Rightarrow>
                   if length sv3 < 2 then None
                   else if hd sv3 \<noteq> CHR ''='' then None
                   else case param_value (tl sv3) of
                     None \<Rightarrow> None
                   | Some (v, sv4) \<Rightarrow> ct_params (set_param name v ct) sv4))"
  by pat_completeness auto
termination
proof (relation "measure (\<lambda>(ct, sv). length sv)", goal_cases)
  case (2 ct sv0 c sv1 d ds)
  then show ?case using consume_ows_le [of sv0] consume_ows_le [of sv1] by simp
next
  case (3 ct sv0 c sv1 d ds x name sv3 y v sv4)
  then have "length sv4 \<le> length (tl sv3)" "length sv3 \<le> length (d # ds)"
    using param_value_le [of "tl sv3" v sv4] consume_wg_token_le [of "d # ds" name sv3] by auto
  then show ?case
    using 3 consume_ows_le [of sv0] consume_ows_le [of sv1] by simp
qed simp

declare ct_params.simps [simp del]

definition for_string :: "bytes \<Rightarrow> http_content_type option" where
  "for_string sv0 =
     (case consume_wg_token (consume_ows sv0) of
        None \<Rightarrow> None
      | Some (type, sv1) \<Rightarrow>
          (case sv1 of
             [] \<Rightarrow> None
           | c # sv2 \<Rightarrow>
               if c \<noteq> CHR ''/'' then None
               else case consume_wg_token sv2 of
                 None \<Rightarrow> None
               | Some (subtype, sv3) \<Rightarrow>
                   ct_params \<lparr>ct_type = to_lc type, ct_subtype = to_lc subtype,
                              ct_encoding = [], ct_boundary = []\<rparr> sv3))"

section \<open>Unfolding the headers of a MIME part\<close>

definition is_ext_ws :: "byte \<Rightarrow> bool" where
  "is_ext_ws ch \<longleftrightarrow> ch = SP \<or> ch = HT \<or> ch = VT \<or> ch = FF"

text \<open>\<^verbatim>\<open>while (!is.eof() && is.read() != LF)\<close>\<close>

function skip_line :: "stream \<Rightarrow> stream option" where
  "skip_line s = (if eof s then Some s
     else read s \<bind> (\<lambda>(ch, s1). if ch = LF then Some s1 else skip_line s1))"
  by pat_completeness auto
termination
  by (relation "measure st_size") (auto dest: read_size)

text \<open>\<^verbatim>\<open>do is.read(); while (!is.eof() && is_ext_ws(*is))\<close>\<close>

function skip_ws :: "stream \<Rightarrow> stream option" where
  "skip_ws s = read s \<bind> (\<lambda>(_, s1). if eof s1 then Some s1
     else peek s1 \<bind> (\<lambda>(c, s2). if is_ext_ws c then skip_ws s2 else Some s2))"
  by pat_completeness auto
termination
  by (relation "measure st_size") (auto dest!: read_size peek_size)

declare skip_line.simps [simp del] skip_ws.simps [simp del]

text \<open>
  The body of the coroutine's loop for the current byte: what it yields, whether the loop goes
  on, and the stream. A carriage return is dropped: the test for the line feed that should
  follow it looks at the same byte again and never succeeds, so the line feed is found by the
  next iteration.
\<close>

definition unfold_step :: "byte \<Rightarrow> stream \<Rightarrow> (bytes \<times> bool \<times> stream) option" where
  "unfold_step ch s =
     (if ch = CR then Some ([], \<not> eof s, s)
      else if ch = LF then
        (if eof s then Some ([], False, s)
         else peek s \<bind> (\<lambda>(c, s1).
                if is_ext_ws c then skip_ws s1 \<bind> (\<lambda>s2. Some ([], True, s2))
                else Some ([], False, s1)))
      else Some ([ch], True, s))"

lemma skip_ws_size: "skip_ws s = Some s' \<Longrightarrow> st_size s' \<le> st_size s"
proof (induction s arbitrary: s' rule: skip_ws.induct)
  case (1 s)
  from 1(2) obtain c s1 where r: "read s = Some (c, s1)"
    by (subst (asm) skip_ws.simps) (auto split: bind_splits)
  note rs = read_size [OF r]
  show ?case
  proof (cases "eof s1")
    case True
    with 1(2) r rs show ?thesis by (simp add: skip_ws.simps [of s])
  next
    case False
    with 1(2) r obtain d s2 where p: "peek s1 = Some (d, s2)"
      by (auto simp: skip_ws.simps [of s] split: bind_splits)
    note ps = peek_size [OF p]
    show ?thesis
    proof (cases "is_ext_ws d")
      case True
      with 1(2) r p False have "skip_ws s2 = Some s'" by (simp add: skip_ws.simps [of s])
      with 1(1) [OF r refl False p refl True] rs ps show ?thesis by fastforce
    next
      case dw: False
      with 1(2) r p False rs ps show ?thesis by (simp add: skip_ws.simps [of s])
    qed
  qed
qed

lemma skip_line_size: "skip_line s = Some s' \<Longrightarrow> st_size s' \<le> st_size s"
proof (induction s arbitrary: s' rule: skip_line.induct)
  case (1 s)
  show ?case
  proof (cases "eof s")
    case True
    with 1(2) show ?thesis by (simp add: skip_line.simps [of s])
  next
    case False
    with 1(2) obtain c s1 where r: "read s = Some (c, s1)"
      and k: "(if c = LF then Some s1 else skip_line s1) = Some s'"
      by (auto simp: skip_line.simps [of s] split: bind_splits)
    with 1(1) [OF False r refl] read_size [OF r] show ?thesis
      by (fastforce split: if_splits)
  qed
qed

lemma unfold_step_size: "unfold_step ch s = Some (out, go, s') \<Longrightarrow> st_size s' \<le> st_size s"
  by (auto simp: unfold_step_def split: if_splits bind_splits dest!: skip_ws_size)
    (auto dest!: peek_size)

text \<open>The coroutine's loop: the bytes it yields and the stream when it returns.\<close>

function unfold_loop :: "byte \<Rightarrow> stream \<Rightarrow> (bytes \<times> stream) option" where
  "unfold_loop ch s = unfold_step ch s \<bind> (\<lambda>(out, go, s1).
     if \<not> go \<or> eof s1 then Some (out, s1)
     else read s1 \<bind> (\<lambda>(ch', s2). unfold_loop ch' s2 \<bind> (\<lambda>(bs, s3). Some (out @ bs, s3))))"
  by pat_completeness auto
termination
  by (relation "measure (\<lambda>(ch, s). st_size s)") (auto dest!: read_size unfold_step_size)

declare unfold_loop.simps [simp del]

function unfold_next_header :: "stream \<Rightarrow> (bytes \<times> stream) option" where
  "unfold_next_header s =
     (if eof s then Some ([], s)
      else read s \<bind> (\<lambda>(ch, s1).
        if is_ext_ws ch then skip_line s1 \<bind> (\<lambda>s2. unfold_next_header s2)
        else if ch = CR then
          (if eof s1 then Some ([], s1)
           else read s1 \<bind> (\<lambda>(ch2, s2). if ch2 = LF then Some ([], s2) else unfold_loop ch2 s2))
        else if ch = LF then Some ([], s1)
        else unfold_loop ch s1))"
  by pat_completeness auto
termination
  by (relation "measure st_size") (auto dest!: read_size skip_line_size)

declare unfold_next_header.simps [simp del]

section \<open>Content-Disposition\<close>

text \<open>\<^verbatim>\<open>try_match_token\<close>: whether the token matched, and what is left of the generator.\<close>

fun try_match_token :: "bytes \<Rightarrow> bytes \<Rightarrow> bool \<times> bytes" where
  "try_match_token gen [] = (True, gen)"
| "try_match_token [] (t # ts) = (False, [])"
| "try_match_token (g # gs) (t # ts) =
     (if tolower g \<noteq> t then (False, g # gs) else try_match_token gs ts)"

text \<open>\<^verbatim>\<open>while (gen.has_next() && gen.next() != ';')\<close>\<close>

definition after_semicolon :: "bytes \<Rightarrow> bytes" where
  "after_semicolon gen = drop 1 (dropWhile (\<lambda>c. c \<noteq> CHR '';'') gen)"

text \<open>Looking for the \<open>=\<close> or \<open>;\<close> that ends an uninteresting parameter name.\<close>

datatype name_end = Found_eq bytes | Found_semicolon bytes | Found_nothing

fun skip_param_name :: "bytes \<Rightarrow> name_end" where
  "skip_param_name [] = Found_nothing"
| "skip_param_name (c # gen) =
     (if c = CHR ''='' then Found_eq gen
      else if c = CHR '';'' then Found_semicolon gen
      else skip_param_name gen)"

definition decoded_name :: "bytes \<Rightarrow> bytes" where
  "decoded_name v = (if CHR ''%'' \<in> set v then decode_urlencoded v else v)"

text \<open>
  The parameter value after the equals sign: the new name and the generator to continue with at
  \<^verbatim>\<open>next_parameter\<close>, or \<^const>\<open>None\<close> to go on to the next header. \<open>ch0\<close> is the value the variable \<^verbatim>\<open>ch\<close>
  holds from the skipping of white space; it is read again when the line ends right after the
  opening quote.
\<close>

definition param_content :: "bool \<Rightarrow> byte \<Rightarrow> bytes \<Rightarrow> bytes \<Rightarrow> (bytes \<times> bytes) option" where
  "param_content is_name ch0 gen name =
     (case gen of
        [] \<Rightarrow> None
      | g # gs \<Rightarrow>
          if g = DQUOTE then
            let v = takeWhile (\<lambda>c. c \<noteq> DQUOTE) gs;
                rest = dropWhile (\<lambda>c. c \<noteq> DQUOTE) gs;
                ch = (if rest \<noteq> [] then DQUOTE else if v \<noteq> [] then last v else ch0)
            in if ch \<noteq> DQUOTE then None
               else Some (if is_name then decoded_name v else name, drop 1 rest)
          else
            let stop = (\<lambda>c. c = SP \<or> c = HT \<or> c = CHR '';'');
                v = takeWhile (\<lambda>c. \<not> stop c) gen
            in Some (if v \<noteq> [] \<and> is_name then v else name, dropWhile (\<lambda>c. \<not> stop c) gen))"

lemma try_match_token_le: "try_match_token gen ts = (b, gen') \<Longrightarrow> length gen' \<le> length gen"
  by (induction gen ts rule: try_match_token.induct) (auto split: if_splits)

lemma try_match_token_less:
  "try_match_token gen (t # ts) = (True, gen') \<Longrightarrow> length gen' < length gen"
  by (cases gen) (auto split: if_splits dest: try_match_token_le)

lemma skip_param_name_less:
  "skip_param_name gen = Found_eq gen' \<or> skip_param_name gen = Found_semicolon gen'
     \<Longrightarrow> length gen' < length gen"
  by (induction gen) (auto split: if_splits)

lemma after_semicolon_le: "length (after_semicolon gen) \<le> length gen"
  using length_dropWhile_le [of "\<lambda>c. c \<noteq> CHR '';''" gen] by (simp add: after_semicolon_def)

lemma param_content_le: "param_content b ch0 gen name = Some (name', rest) \<Longrightarrow> length rest \<le> length gen"
  using length_dropWhile_le [of "\<lambda>c. c \<noteq> DQUOTE" "tl gen"]
    length_dropWhile_le [of "\<lambda>c. \<not> (c = SP \<or> c = HT \<or> c = CHR '';'')" gen]
  by (cases gen) (auto simp: param_content_def Let_def split: if_splits)

text \<open>
  The label \<^verbatim>\<open>next_parameter_after_semicolon\<close>: the name after the remaining parameters of the header.
\<close>

function cd_params :: "bytes \<Rightarrow> bytes \<Rightarrow> bytes" where
  "cd_params gen0 name =
     (case dropWhile is_ext_ws gen0 of
        [] \<Rightarrow> name
      | g # gs \<Rightarrow>
          (case try_match_token (g # gs) ''name='' of
             (True, gen1) \<Rightarrow>
               (case param_content True g gen1 name of
                  None \<Rightarrow> name
                | Some (name', rest) \<Rightarrow> cd_params (after_semicolon rest) name')
           | (False, gen1) \<Rightarrow>
               (case skip_param_name gen1 of
                  Found_nothing \<Rightarrow> name
                | Found_semicolon gen2 \<Rightarrow> cd_params gen2 name
                | Found_eq gen2 \<Rightarrow>
                    (case param_content False g gen2 name of
                       None \<Rightarrow> name
                     | Some (name', rest) \<Rightarrow> cd_params (after_semicolon rest) name'))))"
  by pat_completeness auto
termination
proof (relation "measure (\<lambda>(gen, name). length gen)", goal_cases)
  case (2 gen0 name g gs m gen1 x name' rest)
  then have "length rest < length (g # gs)"
    using param_content_le [of True g gen1 name name' rest]
      try_match_token_less [of "g # gs" "CHR ''n''" "''ame=''" gen1] by simp
  then show ?case
    using 2 length_dropWhile_le [of is_ext_ws gen0] after_semicolon_le [of rest] by simp
next
  case (3 gen0 name g gs m gen1 gen2 x name' rest)
  then have "length rest < length (g # gs)"
    using skip_param_name_less [of gen1 gen2] try_match_token_le [of "g # gs" "''name=''" False gen1]
      param_content_le [of False g gen2 name name' rest] by simp
  then show ?case
    using 3 length_dropWhile_le [of is_ext_ws gen0] after_semicolon_le [of rest] by simp
next
  case (4 gen0 name g gs m gen1 gen2)
  then have "length gen2 < length (g # gs)"
    using skip_param_name_less [of gen1 gen2] try_match_token_le [of "g # gs" "''name=''" False gen1] by simp
  then show ?case using 4 length_dropWhile_le [of is_ext_ws gen0] by simp
qed simp

declare cd_params.simps [simp del]

text \<open>The value of a \<^verbatim>\<open>Content-Disposition\<close> header, after the colon.\<close>

definition cd_value :: "bytes \<Rightarrow> bytes \<Rightarrow> bytes" where
  "cd_value gen name =
     (let g1 = drop 1 (dropWhile is_ext_ws gen)
      in if g1 = [] then name else cd_params (after_semicolon g1) name)"

text \<open>One header: the name found so far after it.\<close>

definition cd_header :: "bytes \<Rightarrow> bytes \<Rightarrow> bytes" where
  "cd_header gen name =
     (case try_match_token gen ''content-disposition:'' of
        (True, g) \<Rightarrow> cd_value g name
      | (False, _) \<Rightarrow> name)"

lemma unfold_loop_size: "unfold_loop ch s = Some (bs, s') \<Longrightarrow> st_size s' \<le> st_size s"
proof (induction ch s arbitrary: bs s' rule: unfold_loop.induct)
  case (1 ch s)
  from 1(2) obtain out go s1 where st: "unfold_step ch s = Some (out, go, s1)"
    by (subst (asm) unfold_loop.simps) (auto split: bind_splits)
  note sz = unfold_step_size [OF st]
  show ?case
  proof (cases "\<not> go \<or> eof s1")
    case True
    with 1(2) st sz show ?thesis by (simp add: unfold_loop.simps [of ch s])
  next
    case False
    with 1(2) st obtain ch' s2 bs2 where r: "read s1 = Some (ch', s2)"
      and l: "unfold_loop ch' s2 = Some (bs2, s')"
      by (auto simp: unfold_loop.simps [of ch s] split: bind_splits)
    from 1(1) [OF st refl refl False r refl l] read_size [OF r] sz show ?thesis by simp
  qed
qed

lemma unfold_next_header_size:
  assumes "unfold_next_header s = Some (bs, s')"
  shows "if eof s then s' = s else st_size s' < st_size s"
  using assms
proof (induction s arbitrary: bs s' rule: unfold_next_header.induct)
  case (1 s)
  show ?case
  proof (cases "eof s")
    case True
    with 1(2) show ?thesis by (simp add: unfold_next_header.simps [of s])
  next
    case False
    with 1(2) obtain ch s1 where r: "read s = Some (ch, s1)"
      by (auto simp: unfold_next_header.simps [of s] split: bind_splits)
    note sz = read_size [OF r]
    show ?thesis
    proof (cases "is_ext_ws ch")
      case True
      with 1(2) False r obtain s2 where l: "skip_line s1 = Some s2" "unfold_next_header s2 = Some (bs, s')"
        by (auto simp: unfold_next_header.simps [of s] split: bind_splits)
      from 1(1) [OF False r refl True l] skip_line_size [OF l(1)] sz False show ?thesis
        by (auto split: if_splits)
    next
      case nws: False
      from 1(2) False r nws sz show ?thesis
        by (auto simp: unfold_next_header.simps [of s] split: if_splits bind_splits
            dest!: unfold_loop_size) (auto dest!: read_size)
    qed
  qed
qed

function for_stream_loop :: "stream \<Rightarrow> bytes \<Rightarrow> (bytes \<times> stream) option" where
  "for_stream_loop s name =
     (if eof s then Some (name, s)
      else unfold_next_header s \<bind> (\<lambda>(gen, s1).
             if gen = [] then Some (name, s1)
             else for_stream_loop s1 (cd_header gen name)))"
  by pat_completeness auto
termination
  by (relation "measure (\<lambda>(s, name). st_size s)") (auto dest!: unfold_next_header_size)

declare for_stream_loop.simps [simp del]

text \<open>\<^verbatim>\<open>MimeContentDisposition::for_stream\<close>: the name, if one was found, and the stream after the headers.\<close>

definition for_stream :: "stream \<Rightarrow> (bytes option \<times> stream) option" where
  "for_stream s = for_stream_loop s [] \<bind> (\<lambda>(name, s1).
     Some (if name = [] then None else Some name, s1))"

section \<open>The header parser on byte lists\<close>

text \<open>
  What the stream functions compute when the stream is well formed, as functions of the unread
  bytes alone.
\<close>

definition line_rest :: "bytes \<Rightarrow> bytes" where
  "line_rest l = drop 1 (dropWhile (\<lambda>c. c \<noteq> LF) l)"

definition step_list :: "byte \<Rightarrow> bytes \<Rightarrow> bytes \<times> bool \<times> bytes" where
  "step_list ch l =
     (if ch = CR then ([], l \<noteq> [], l)
      else if ch = LF then
        (case l of [] \<Rightarrow> ([], False, [])
         | c # cs \<Rightarrow> if is_ext_ws c then ([], True, dropWhile is_ext_ws cs) else ([], False, l))
      else ([ch], True, l))"

lemma step_list_le: "step_list ch l = (out, go, l') \<Longrightarrow> length l' \<le> length l"
  using length_dropWhile_le [of is_ext_ws "tl l"]
  by (auto simp: step_list_def split: if_splits list.splits)

function loop_list :: "byte \<Rightarrow> bytes \<Rightarrow> bytes \<times> bytes" where
  "loop_list ch l =
     (case step_list ch l of (out, go, l1) \<Rightarrow>
        if \<not> go then (out, l1)
        else case l1 of [] \<Rightarrow> (out, [])
          | c # cs \<Rightarrow> (case loop_list c cs of (bs, l2) \<Rightarrow> (out @ bs, l2)))"
  by pat_completeness auto
termination
  by (relation "measure (\<lambda>(ch, l). length l)") (auto dest!: step_list_le [OF sym])

function header_list :: "bytes \<Rightarrow> bytes \<times> bytes" where
  "header_list l =
     (case l of [] \<Rightarrow> ([], [])
      | ch # l1 \<Rightarrow>
          if is_ext_ws ch then header_list (line_rest l1)
          else if ch = CR then
            (case l1 of [] \<Rightarrow> ([], [])
             | ch2 # l2 \<Rightarrow> if ch2 = LF then ([], l2) else loop_list ch2 l2)
          else if ch = LF then ([], l1)
          else loop_list ch l1)"
  by pat_completeness auto
termination
  by (relation "measure length")
    (auto simp: line_rest_def intro: le_imp_less_Suc diff_le_self order_trans [OF _ length_dropWhile_le])

declare loop_list.simps [simp del] header_list.simps [simp del]

lemma loop_list_le: "loop_list ch l = (bs, l') \<Longrightarrow> length l' \<le> length l"
proof (induction ch l arbitrary: bs l' rule: loop_list.induct)
  case (1 ch l)
  obtain out go l1 where st: "step_list ch l = (out, go, l1)" by (metis prod_cases3)
  show ?case
  proof (cases "go \<and> l1 \<noteq> []")
    case False
    with 1(2) st step_list_le [OF st] show ?thesis
      by (auto simp: loop_list.simps [of ch l] split: if_splits list.splits)
  next
    case True
    then obtain c cs where l1: "l1 = c # cs" by (cases l1) auto
    obtain bs2 l2 where "loop_list c cs = (bs2, l2)" by fastforce
    with 1 True st l1 step_list_le [OF st] show ?thesis
      by (fastforce simp: loop_list.simps [of ch l])
  qed
qed

lemma line_rest_le: "length (line_rest l) \<le> length l"
  using length_dropWhile_le [of "\<lambda>c. c \<noteq> LF" l] by (simp add: line_rest_def)

lemma header_list_less: "l \<noteq> [] \<Longrightarrow> header_list l = (bs, l') \<Longrightarrow> length l' < length l"
proof (induction l arbitrary: bs l' rule: header_list.induct)
  case (1 l)
  then obtain ch l1 where l: "l = ch # l1" by (cases l) auto
  show ?case
  proof (cases "is_ext_ws ch")
    case True
    with 1 l line_rest_le [of l1] show ?thesis
      by (cases "line_rest l1 = []") (fastforce simp: header_list.simps)+
  next
    case False
    with 1(3) l show ?thesis
      by (auto simp: header_list.simps [of "ch # l1"] split: if_splits list.splits dest!: loop_list_le)
  qed
qed

function headers_list :: "bytes \<Rightarrow> bytes \<Rightarrow> bytes \<times> bytes" where
  "headers_list l name =
     (if l = [] then (name, [])
      else case header_list l of (gen, l1) \<Rightarrow>
             if gen = [] then (name, l1) else headers_list l1 (cd_header gen name))"
  by pat_completeness auto
termination
  by (relation "measure (\<lambda>(l, name). length l)") (auto dest: header_list_less [OF _ sym])

declare headers_list.simps [simp del]

text \<open>The stream functions compute the list functions, however the bytes are split into buffers.\<close>

lemma skip_line_refines:
  "st_wf s \<Longrightarrow> \<exists>s'. skip_line s = Some s' \<and> st_abs s' = line_rest (st_abs s) \<and> st_wf s'"
proof (induction s rule: skip_line.induct)
  case (1 s)
  show ?case
  proof (cases "eof s")
    case True
    with 1(2) show ?thesis by (simp add: skip_line.simps [of s] eof_iff line_rest_def)
  next
    case False
    from ngx_stream.getE [OF 1(2) False] obtain c cs s1
      where a: "st_abs s = c # cs" "read s = Some (c, s1)" "st_abs s1 = cs" "st_wf s1" .
    show ?thesis
      using 1(1) [OF False a(2) refl _ a(4)] False a
      by (cases "c = LF") (auto simp: skip_line.simps [of s] line_rest_def)
  qed
qed

lemma skip_ws_refines:
  "st_wf s \<Longrightarrow> st_abs s = c # cs \<Longrightarrow>
     \<exists>s'. skip_ws s = Some s' \<and> st_abs s' = dropWhile is_ext_ws cs \<and> st_wf s'"
proof (induction s arbitrary: c cs rule: skip_ws.induct)
  case (1 s)
  from read_Cons [OF 1(2,3)] obtain s1 where r: "read s = Some (c, s1)" "st_abs s1 = cs" "st_wf s1"
    by blast
  show ?case
  proof (cases cs)
    case Nil
    with r have "eof s1" by (simp add: eof_iff)
    with r Nil show ?thesis by (simp add: skip_ws.simps [of s])
  next
    case (Cons d ds)
    with r have e: "\<not> eof s1" by (simp add: eof_iff)
    from peek_Cons [of s1 d ds] r Cons obtain s2
      where p: "peek s1 = Some (d, s2)" "st_abs s2 = d # ds" "st_wf s2" by auto
    show ?thesis
      using 1(1) [OF r(1) refl e p(1) refl _ p(3,2)] r e p Cons
      by (cases "is_ext_ws d") (auto simp: skip_ws.simps [of s])
  qed
qed

lemma unfold_step_refines:
  assumes "st_wf s" and "step_list ch (st_abs s) = (out, go, l)"
  shows "\<exists>s'. unfold_step ch s = Some (out, go, s') \<and> st_abs s' = l \<and> st_wf s'"
proof (cases "ch = LF \<and> st_abs s \<noteq> []")
  case False
  with assms show ?thesis
    by (auto simp: unfold_step_def step_list_def eof_iff split: if_splits)
next
  case True
  then obtain c cs where l: "st_abs s = c # cs" by (cases "st_abs s") auto
  from peek_Cons [OF assms(1) l] obtain s1
    where p: "peek s = Some (c, s1)" "st_abs s1 = c # cs" "st_wf s1" by blast
  from assms l True skip_ws_refines [OF p(3,2)] p show ?thesis
    by (auto simp: unfold_step_def step_list_def eof_iff split: if_splits)
qed

lemma unfold_loop_refines:
  "st_wf s \<Longrightarrow> loop_list ch (st_abs s) = (bs, l) \<Longrightarrow>
     \<exists>s'. unfold_loop ch s = Some (bs, s') \<and> st_abs s' = l \<and> st_wf s'"
proof (induction ch s arbitrary: bs l rule: unfold_loop.induct)
  case (1 ch s)
  obtain out go l1 where st: "step_list ch (st_abs s) = (out, go, l1)" by (metis prod_cases3)
  from unfold_step_refines [OF 1(2) st] obtain s1
    where u: "unfold_step ch s = Some (out, go, s1)" "st_abs s1 = l1" "st_wf s1" by blast
  show ?case
  proof (cases "\<not> go \<or> eof s1")
    case True
    with 1(3) u st show ?thesis
      by (auto simp: unfold_loop.simps [of ch s] loop_list.simps [of ch "st_abs s"] eof_iff
          split: if_splits)
  next
    case False
    then have "\<not> eof s1" by simp
    from ngx_stream.getE [OF u(3) this] obtain c cs s2
      where a: "st_abs s1 = c # cs" "read s1 = Some (c, s2)" "st_abs s2 = cs" "st_wf s2" .
    obtain bs2 where l2: "loop_list c cs = (bs2, l)" "bs = out @ bs2"
      using 1(3) st False u a
      by (auto simp: loop_list.simps [of ch "st_abs s"] split: prod.splits)
    from 1(1) [OF u(1) refl refl False a(2) refl a(4)] a l2 u False show ?thesis
      by (auto simp: unfold_loop.simps [of ch s])
  qed
qed

lemma unfold_next_header_refines:
  "st_wf s \<Longrightarrow> header_list (st_abs s) = (bs, l) \<Longrightarrow>
     \<exists>s'. unfold_next_header s = Some (bs, s') \<and> st_abs s' = l \<and> st_wf s'"
proof (induction s arbitrary: bs l rule: unfold_next_header.induct)
  case (1 s)
  show ?case
  proof (cases "eof s")
    case True
    with 1(2,3) show ?thesis
      by (auto simp: unfold_next_header.simps [of s] eof_iff header_list.simps)
  next
    case False
    from ngx_stream.getE [OF 1(2) False] obtain c cs s1
      where a: "st_abs s = c # cs" "read s = Some (c, s1)" "st_abs s1 = cs" "st_wf s1" .
    note h = header_list.simps [of "c # cs"] and u = unfold_next_header.simps [of s]
    from skip_line_refines [OF a(4)] obtain s2
      where l: "skip_line s1 = Some s2" "st_abs s2 = line_rest cs" "st_wf s2"
      using a by blast
    consider (ws) "is_ext_ws c" | (cr) "c = CR" "\<not> is_ext_ws c" "cs \<noteq> []"
      | (cr_end) "c = CR" "\<not> is_ext_ws c" "cs = []" | (other) "c \<noteq> CR" "\<not> is_ext_ws c" by blast
    then show ?thesis
    proof cases
      case ws
      with 1(3) a h have "header_list (st_abs s2) = (bs, l)" by (simp add: l)
      from 1(1) [OF False a(2) refl ws l(1,3) this] show ?thesis
        using ws a False l by (simp add: u)
    next
      case cr
      with a have "\<not> eof s1" by (simp add: eof_iff)
      from ngx_stream.getE [OF a(4) this] obtain d ds s3
        where b: "st_abs s1 = d # ds" "read s1 = Some (d, s3)" "st_abs s3 = ds" "st_wf s3" .
      with 1(3) cr a h False \<open>\<not> eof s1\<close> unfold_loop_refines [OF b(4)] show ?thesis
        by (auto simp: u split: if_splits)
    next
      case cr_end
      with 1(3) a h False show ?thesis by (simp add: u eof_iff)
    next
      case other
      with 1(3) a h False unfold_loop_refines [OF a(4)] show ?thesis
        by (auto simp: u split: if_splits)
    qed
  qed
qed

lemma for_stream_loop_refines:
  "st_wf s \<Longrightarrow> headers_list (st_abs s) name = (name', l) \<Longrightarrow>
     \<exists>s'. for_stream_loop s name = Some (name', s') \<and> st_abs s' = l \<and> st_wf s'"
proof (induction s name arbitrary: name' l rule: for_stream_loop.induct)
  case (1 s name)
  show ?case
  proof (cases "eof s")
    case True
    with 1(2,3) show ?thesis
      by (auto simp: for_stream_loop.simps [of s] headers_list.simps [of "[]"] eof_iff)
  next
    case False
    obtain gen l1 where g: "header_list (st_abs s) = (gen, l1)" by fastforce
    from unfold_next_header_refines [OF 1(2) this] obtain s1
      where u: "unfold_next_header s = Some (gen, s1)" "st_abs s1 = l1" "st_wf s1" by blast
    have ne: "st_abs s \<noteq> []" using False 1(2) by (simp add: eof_iff)
    show ?thesis
      using 1(1) [OF False u(1) refl _ u(3)] 1(3) ne g u False
      by (cases "gen = []")
        (auto simp: for_stream_loop.simps [of s] headers_list.simps [of "st_abs s"])
  qed
qed

section \<open>Headers as a client renders them\<close>

abbreviation "CRLF \<equiv> [CR, LF]"

text \<open>A header line folded into the pieces \<open>p # qs\<close>: each continuation starts with a space.\<close>

fun fold_line :: "bytes \<Rightarrow> bytes list \<Rightarrow> bytes" where
  "fold_line p [] = p @ CRLF"
| "fold_line p (q # qs) = p @ CRLF @ SP # fold_line q qs"

definition no_crlf :: "bytes \<Rightarrow> bool" where
  "no_crlf p \<longleftrightarrow> (\<forall>c \<in> set p. c \<noteq> CR \<and> c \<noteq> LF)"

text \<open>A piece of a line: it has neither CR nor LF and its first byte is not white space.\<close>

definition piece_ok :: "bytes \<Rightarrow> bool" where
  "piece_ok p \<longleftrightarrow> no_crlf p \<and> p \<noteq> [] \<and> \<not> is_ext_ws (hd p)"

definition starts_ws :: "bytes \<Rightarrow> bool" where
  "starts_ws l \<longleftrightarrow> l \<noteq> [] \<and> is_ext_ws (hd l)"

lemma loop_list_byte:
  "ch \<noteq> CR \<Longrightarrow> ch \<noteq> LF \<Longrightarrow>
     loop_list ch (c # cs) = (ch # fst (loop_list c cs), snd (loop_list c cs))"
  by (simp add: loop_list.simps [of ch] step_list_def split: prod.split)

lemma loop_list_CR: "loop_list CR (c # cs) = loop_list c cs"
  by (simp add: loop_list.simps [of CR] step_list_def split: prod.split)

lemma loop_list_LF: "\<not> starts_ws r \<Longrightarrow> loop_list LF r = ([], r)"
  by (cases r) (auto simp: loop_list.simps [of LF] step_list_def starts_ws_def)

lemma loop_list_fold:
  "\<not> is_ext_ws c \<Longrightarrow> loop_list LF (SP # c # cs) = loop_list c cs"
  by (simp add: loop_list.simps [of LF] step_list_def is_ext_ws_def split: prod.split)

lemma loop_list_text:
  "no_crlf (ch # p) \<Longrightarrow>
     loop_list ch (p @ c # r) = (ch # p @ fst (loop_list c r), snd (loop_list c r))"
proof (induction p arbitrary: ch)
  case (Cons a p)
  then show ?case by (simp add: loop_list_byte no_crlf_def)
qed (simp add: loop_list_byte no_crlf_def)

lemma loop_list_fold_line:
  "piece_ok p \<Longrightarrow> list_all piece_ok qs \<Longrightarrow> \<not> starts_ws r \<Longrightarrow>
     loop_list (hd p) (tl (fold_line p qs) @ r) = (concat (p # qs), r)"
proof (induction p qs rule: fold_line.induct)
  case (1 p)
  then obtain ch p' where "p = ch # p'" by (cases p) (auto simp: piece_ok_def)
  with 1 show ?case by (simp add: piece_ok_def loop_list_text loop_list_CR loop_list_LF)
next
  case (2 p q qs)
  then obtain ch p' c q' where pq: "p = ch # p'" "q = c # q'" by (cases p; cases q) (auto simp: piece_ok_def)
  have f: "fold_line q qs = c # tl (fold_line q qs)" using pq by (cases qs) auto
  from 2 pq have "loop_list c (tl (fold_line q qs) @ r) = (concat (q # qs), r)" by simp
  moreover have "\<not> is_ext_ws c" using 2(3) pq by (simp add: piece_ok_def)
  ultimately have "loop_list LF (SP # fold_line q qs @ r) = (concat (q # qs), r)"
    by (subst f) (simp add: loop_list_fold)
  with 2(2) pq show ?case by (simp add: piece_ok_def loop_list_text loop_list_CR)
qed

lemma header_list_line:
  assumes "piece_ok p" and "list_all piece_ok qs" and "\<not> starts_ws r"
  shows "header_list (fold_line p qs @ r) = (concat (p # qs), r)"
proof -
  obtain ch p' where p: "p = ch # p'" using assms by (cases p) (auto simp: piece_ok_def)
  then have f: "fold_line p qs = ch # tl (fold_line p qs)" by (cases qs) auto
  from p assms(1) have "\<not> is_ext_ws ch" "ch \<noteq> CR" "ch \<noteq> LF" by (auto simp: piece_ok_def no_crlf_def)
  then show ?thesis
    using loop_list_fold_line [OF assms] p by (subst f) (simp add: header_list.simps)
qed

definition render_headers :: "(bytes \<times> bytes list) list \<Rightarrow> bytes \<Rightarrow> bytes" where
  "render_headers hs body = concat (map (\<lambda>(p, qs). fold_line p qs) hs) @ CRLF @ body"

definition line_ok :: "bytes \<times> bytes list \<Rightarrow> bool" where
  "line_ok h \<longleftrightarrow> piece_ok (fst h) \<and> list_all piece_ok (snd h)"

lemma render_headers_starts: "list_all line_ok hs \<Longrightarrow> \<not> starts_ws (render_headers hs body)"
proof (cases hs)
  case Nil
  then show ?thesis by (simp add: render_headers_def starts_ws_def is_ext_ws_def)
next
  case (Cons h hs')
  assume "list_all line_ok hs"
  with Cons show ?thesis
    by (cases "snd h") (auto simp: render_headers_def starts_ws_def line_ok_def piece_ok_def hd_append
        split: prod.split list.splits)
qed

lemma headers_list_render:
  "list_all line_ok hs \<Longrightarrow>
     headers_list (render_headers hs body) name
       = (fold (\<lambda>(p, qs). cd_header (concat (p # qs))) hs name, body)"
proof (induction hs arbitrary: name)
  case Nil
  show ?case
    by (simp add: headers_list.simps render_headers_def header_list.simps is_ext_ws_def)
next
  case (Cons h hs)
  obtain p qs where h: "h = (p, qs)" by fastforce
  let ?r = "render_headers hs body"
  have r: "render_headers (h # hs) body = fold_line p qs @ ?r"
    by (simp add: render_headers_def h)
  have "header_list (fold_line p qs @ ?r) = (concat (p # qs), ?r)"
    using Cons.prems h render_headers_starts [of hs body]
    by (intro header_list_line) (simp_all add: line_ok_def [of "(p, qs)"])
  moreover have "fold_line p qs \<noteq> []" by (cases qs) auto
  moreover have "p \<noteq> []" using Cons.prems h by (simp add: line_ok_def piece_ok_def)
  ultimately show ?case
    using Cons r h by (simp add: headers_list.simps [of "fold_line p qs @ ?r"])
qed

text \<open>
  C30. The part headers are parsed independently of the way the body is split into buffers and
  of line folding: the parser sees each folded header as one line, considers the headers in
  order, and stops exactly at the start of the part's body.
\<close>

theorem part_headers_parsed:
  assumes "st_wf s" and "st_abs s = render_headers hs body" and "list_all line_ok hs"
  shows "\<exists>s'. for_stream s =
      Some (let name = fold (\<lambda>(p, qs). cd_header (concat (p # qs))) hs []
            in if name = [] then None else Some name, s') \<and> st_abs s' = body \<and> st_wf s'"
  using for_stream_loop_refines [of s "[]"] headers_list_render [OF assms(3), of body "[]"] assms(1,2)
  by (auto simp: for_stream_def Let_def)

theorem part_headers_parsed_witness:
  "\<exists>s'. for_stream \<lparr>st_cur = ''Content-Disposition:'' @ CRLF, st_next = ['' form-data; na'', ''me=x'' @ CRLF @ CRLF @ ''b''], st_global_pos = 0\<rparr>
     = Some (Some ''x'', s') \<and> st_abs s' = ''b'' \<and> st_wf s'"
proof -
  have "cd_header ''Content-Disposition:form-data; name=x'' [] = ''x''"
    by (simp add: cd_header_def cd_value_def tolower_keep cd_params.simps after_semicolon_def is_ext_ws_def param_content_def)
  then show ?thesis
    using part_headers_parsed [of "\<lparr>st_cur = ''Content-Disposition:'' @ CRLF, st_next = ['' form-data; na'', ''me=x'' @ CRLF @ CRLF @ ''b''], st_global_pos = 0\<rparr>"
      "[(''Content-Disposition:'', [''form-data; name=x''])]" "''b''"]
    by (simp add: st_wf_def st_abs_def render_headers_def line_ok_def piece_ok_def no_crlf_def is_ext_ws_def)
qed

section \<open>Content-Disposition of a form field\<close>

text \<open>The header browsers send for a form field, without and with a file name.\<close>

definition form_data :: "bytes \<Rightarrow> bytes" where
  "form_data n = ''Content-Disposition: form-data; name='' @ DQUOTE # n @ [DQUOTE]"

definition form_file :: "bytes \<Rightarrow> bytes \<Rightarrow> bytes" where
  "form_file n f = form_data n @ ''; filename='' @ DQUOTE # f @ [DQUOTE]"

lemma param_content_quoted:
  "DQUOTE \<notin> set v \<Longrightarrow> param_content is_name ch0 (DQUOTE # v @ DQUOTE # r) name
     = Some (if is_name then decoded_name v else name, r)"
  by (simp add: param_content_def Let_def takeWhile_append dropWhile_append takeWhile_stop dropWhile_stop)

lemma cd_params_name:
  "DQUOTE \<notin> set v \<Longrightarrow> cd_params (SP # ''name='' @ DQUOTE # v @ DQUOTE # r) name
     = cd_params (after_semicolon r) (decoded_name v)"
  by (simp add: cd_params.simps [of "SP # l" for l] is_ext_ws_def tolower_keep param_content_quoted)

lemma cd_params_filename:
  "DQUOTE \<notin> set v \<Longrightarrow> cd_params (SP # ''filename='' @ DQUOTE # v @ DQUOTE # r) name
     = cd_params (after_semicolon r) name"
  by (simp add: cd_params.simps [of "SP # l" for l] is_ext_ws_def tolower_keep param_content_quoted)

lemma cd_params_Nil: "cd_params [] name = name"
  by (simp add: cd_params.simps)

text \<open>
  For the Content-Disposition headers of form fields, with or without a file name, the name
  found is the quoted one, percent-decoded if it has a percent sign, and it replaces the name of an
  earlier header.
\<close>

theorem form_field_name:
  assumes "DQUOTE \<notin> set n" and "DQUOTE \<notin> set f"
  shows "cd_header (form_data n) old = decoded_name n \<and> cd_header (form_file n f) old = decoded_name n"
proof -
  have "cd_header (form_data n @ r) old = cd_params (after_semicolon r) (decoded_name n)" for r
    using cd_params_name [OF assms(1), of r old]
    by (simp add: cd_header_def cd_value_def form_data_def after_semicolon_def is_ext_ws_def tolower_keep)
  from this [of "[]"] this [of "''; filename='' @ DQUOTE # f @ [DQUOTE]"] show ?thesis
    using cd_params_filename [OF assms(2), of "[]" "decoded_name n"]
    by (simp add: form_file_def after_semicolon_def cd_params_Nil)
qed

theorem form_field_name_witness:
  "cd_header (form_data ''a b'') [] = ''a b'' \<and> cd_header (form_file ''a b'' ''x;name=y'') [] = ''a b''"
  using form_field_name [of "''a b''" "''x;name=y''" "[]"] by (simp add: decoded_name_def)

section \<open>Content-Type as a client renders it\<close>

fun quote_escape :: "bytes \<Rightarrow> bytes" where
  "quote_escape [] = []"
| "quote_escape (c # cs) = (if c = DQUOTE \<or> c = BACKSLASH then BACKSLASH # c # quote_escape cs else c # quote_escape cs)"

definition quoted :: "bytes \<Rightarrow> bytes" where
  "quoted v = DQUOTE # quote_escape v @ [DQUOTE]"

definition is_token :: "bytes \<Rightarrow> bool" where
  "is_token t \<longleftrightarrow> t \<noteq> [] \<and> list_all tchar t"

definition rendered_value :: "bytes \<Rightarrow> bytes" where
  "rendered_value v = (if is_token v then v else quoted v)"

fun render_params :: "(bytes \<times> bytes) list \<Rightarrow> bytes" where
  "render_params [] = []"
| "render_params ((n, v) # ps) = ''; '' @ n @ ''='' @ rendered_value v @ render_params ps"

lemma quoted_loop_escape:
  "list_all quotable v \<Longrightarrow> quoted_loop (quote_escape v @ DQUOTE # r) = Some (v, r)"
proof (induction v)
  case (Cons c v)
  have "quotable c \<Longrightarrow> c \<noteq> BACKSLASH \<Longrightarrow> qdtext c" by (auto simp: quotable_def qdtext_def)
  with Cons show ?case by (auto simp: qdtext_def)
qed simp

lemma consume_wg_token_token:
  assumes "is_token t" and "r = [] \<or> \<not> tchar (hd r)"
  shows "consume_wg_token (t @ r) = Some (t, r)"
proof (cases r)
  case Nil
  with assms have "find_pos (\<lambda>c. \<not> tchar c) (t @ r) = None"
    by (auto simp: find_pos_None_iff is_token_def list_all_iff)
  with Nil show ?thesis by (simp add: consume_wg_token_def)
next
  case (Cons c r')
  with assms have "find_pos (\<lambda>c. \<not> tchar c) (t @ r) = Some (length t)"
    by (simp add: find_pos_append_hit is_token_def list_all_iff)
  with assms show ?thesis by (cases "length t") (auto simp: consume_wg_token_def is_token_def)
qed

definition param_ok :: "bytes \<times> bytes \<Rightarrow> bool" where
  "param_ok p \<longleftrightarrow> is_token (fst p) \<and> list_all quotable (snd p)"

lemma tchar_not: "tchar c \<Longrightarrow> c \<noteq> DQUOTE \<and> \<not> is_ows c \<and> c \<noteq> CHR '';'' \<and> c \<noteq> CHR ''/'' \<and> c \<noteq> CHR ''=''"
  by (auto simp: tchar_def is_ows_def)

lemma token_ows: "is_token t \<Longrightarrow> consume_ows (t @ r) = t @ r"
  by (cases t) (auto simp: is_token_def consume_ows_def dest: tchar_not)

lemma render_params_hd: "render_params ps = [] \<or> hd (render_params ps) = CHR '';''"
  by (cases ps) auto

lemma param_value_rendered:
  assumes "list_all quotable v" and "r = [] \<or> hd r = CHR '';''"
  shows "param_value (rendered_value v @ r) = Some (v, r)"
proof (cases "is_token v")
  case True
  from True obtain c cs where "v = c # cs" "tchar c" by (cases v) (auto simp: is_token_def)
  with True consume_wg_token_token [OF True, of r] assms(2) tchar_not [of c] show ?thesis
    by (auto simp: param_value_def rendered_value_def dest: tchar_not)
next
  case False
  with quoted_loop_escape [OF assms(1), of r] show ?thesis
    by (simp add: param_value_def rendered_value_def quoted_def consume_9110_quoted_string_def)
qed

lemma rendered_value_ne: "rendered_value v \<noteq> []"
  by (auto simp: rendered_value_def quoted_def is_token_def)

lemma ct_params_render:
  "list_all param_ok ps \<Longrightarrow> ct_params ct (render_params ps) = Some (fold (\<lambda>(n, v). set_param n v) ps ct)"
proof (induction ps arbitrary: ct)
  case Nil
  show ?case by (simp add: ct_params.simps consume_ows_def)
next
  case (Cons p ps)
  obtain n v where p: "p = (n, v)" by fastforce
  let ?r = "render_params ps" and ?t = "''='' @ rendered_value v @ render_params ps"
  have n: "is_token n" "list_all quotable v" using Cons.prems p by (auto simp: param_ok_def)
  then obtain d ds where d: "n = d # ds" by (cases n) (auto simp: is_token_def)
  have w: "consume_wg_token (n @ ?t) = Some (n, ?t)"
    using n(1) tchar_not by (intro consume_wg_token_token) auto
  have pv: "param_value (rendered_value v @ ?r) = Some (v, ?r)"
    using param_value_rendered [OF n(2) render_params_hd] .
  have o: "consume_ows (SP # n @ ?t) = d # ds @ ?t"
    using token_ows [OF n(1), of ?t] d by (simp add: consume_ows_def is_ows_def)
  from w pv o d rendered_value_ne [of v] have "ct_params ct (render_params (p # ps)) = ct_params (set_param n v ct) ?r"
    by (subst ct_params.simps) (simp add: p consume_ows_def [of "CHR '';'' # l" for l] is_ows_def)
  with Cons p show ?case by simp
qed

lemma for_string_render:
  assumes "is_token t" and "is_token st" and "list_all param_ok ps"
  shows "for_string (t @ ''/'' @ st @ render_params ps) =
     Some (fold (\<lambda>(n, v). set_param n v) ps
       \<lparr>ct_type = to_lc t, ct_subtype = to_lc st, ct_encoding = [], ct_boundary = []\<rparr>)"
proof -
  have "consume_wg_token (t @ ''/'' @ st @ render_params ps) = Some (t, ''/'' @ st @ render_params ps)"
    using assms(1) tchar_not by (intro consume_wg_token_token) auto
  moreover have "consume_wg_token (st @ render_params ps) = Some (st, render_params ps)"
    using assms(2) tchar_not render_params_hd [of ps] by (intro consume_wg_token_token) fastforce+
  ultimately show ?thesis
    using token_ows [OF assms(1)] ct_params_render [OF assms(3)] by (simp add: for_string_def)
qed

text \<open>
  Content-Type round trip: a media type with any list of parameters, each value rendered as a
  token or as a quoted string with its escapes, is parsed back: type and subtype in lower case,
  and the values of the last charset and boundary parameters (their names in any case), byte for
  byte.
\<close>

theorem content_type_roundtrip:
  assumes "is_token t" and "is_token st" and "list_all param_ok ps"
  shows "for_string (t @ ''/'' @ st @ render_params ps) =
     Some (fold (\<lambda>(n, v). set_param n v) ps
       \<lparr>ct_type = to_lc t, ct_subtype = to_lc st, ct_encoding = [], ct_boundary = []\<rparr>)"
  by (rule for_string_render [OF assms])

theorem content_type_roundtrip_witness:
  "for_string (''Multipart/form-data; Boundary='' @ DQUOTE # ''a b'' @ [DQUOTE]) =
     Some \<lparr>ct_type = ''multipart'', ct_subtype = ''form-data'', ct_encoding = [], ct_boundary = ''a b''\<rparr>"
  using content_type_roundtrip [of "''Multipart''" "''form-data''" "[(''Boundary'', ''a b'')]"]
  by (simp add: is_token_def tchar_def param_ok_def rendered_value_def quoted_def quotable_def
      set_param_def equals_ci_def to_lc_def tolower_keep)

text \<open>
  The comment on \<^verbatim>\<open>consume_wg_token\<close> gives the grammar \<^verbatim>\<open>token = 1*tchar\<close>, but the function returns
  an empty token at the end of the input, so a media type without subtype is accepted.
\<close>

lemma empty_subtype_accepted:
  "for_string ''text/'' = Some \<lparr>ct_type = ''text'', ct_subtype = [], ct_encoding = [], ct_boundary = []\<rparr>"
  by (simp add: for_string_def consume_ows_def is_ows_def consume_wg_token_def tchar_def ct_params.simps
      to_lc_def tolower_keep)

end
