(* ===== verification/Multipart.thy ===== *)
theory Multipart
  imports Http_Header Ddwaf_Obj "HOL-Library.Char_ord" "HOL-Library.List_Lexorder"
begin

text \<open>
  The multipart/form-data parser: \<^verbatim>\<open>src/security/body_parse/body_multipart.cpp\<close>. The stream functions
  return \<^const>\<open>None\<close> for a read out of bounds. \<^verbatim>\<open>std::map<std::string, Buf>\<close> is an association list in
  increasing order of the keys, with the library's lexicographic order on byte strings.
\<close>

section \<open>Lines\<close>

datatype line_type = BOUNDARY | BOUNDARY_END | OTHER | END_OF_FILE

text \<open>The rest of a line that is not a boundary, including its line feed.\<close>

function read_line :: "stream \<Rightarrow> (bytes \<times> stream) option" where
  "read_line s = (if eof s then Some ([], s)
     else read s \<bind> (\<lambda>(ch, s1). if ch = LF then Some ([ch], s1)
            else read_line s1 \<bind> (\<lambda>(bs, s2). Some (ch # bs, s2))))"
  by pat_completeness auto
termination
  by (relation "measure st_size") (auto dest: read_size)

declare read_line.simps [simp del]

text \<open>After a boundary: whether it is the end boundary; the rest of the line is discarded.\<close>

definition after_boundary :: "stream \<Rightarrow> (line_type \<times> stream) option" where
  "after_boundary s =
     (if eof s then Some (BOUNDARY, s)
      else read s \<bind> (\<lambda>(ch, s1).
        if ch = CHR ''-'' \<and> \<not> eof s1 then
          read s1 \<bind> (\<lambda>(ch2, s2).
            let res = (if ch2 = CHR ''-'' then BOUNDARY_END else BOUNDARY)
            in (if ch2 \<noteq> LF then skip_line s2 else Some s2) \<bind> (\<lambda>s3. Some (res, s3)))
        else (if ch \<noteq> LF then skip_line s1 else Some s1) \<bind> (\<lambda>s3. Some (BOUNDARY, s3))))"

text \<open>
  \<^verbatim>\<open>consume_line\<close>: the type of the line, the \<^verbatim>\<open>append\<close> string (\<^const>\<open>None\<close> for the null pointer) and
  the stream.
\<close>

definition consume_line :: "bytes \<Rightarrow> bytes option \<Rightarrow> stream \<Rightarrow> (line_type \<times> bytes option \<times> stream) option" where
  "consume_line boundary app s =
     (let beg_bound_size = 2 + length boundary
      in read_until beg_bound_size LF s \<bind> (\<lambda>(bound_buf, s1).
           if bound_buf = [] then Some (END_OF_FILE, app, s1)
           else if last bound_buf = LF then Some (OTHER, map_option (\<lambda>a. a @ bound_buf) app, s1)
           else if eof s1 \<and> length bound_buf < beg_bound_size
                \<and> bound_buf = take (length bound_buf) (''--'' @ boundary) then
             Some (BOUNDARY_END, app, s1)
           else if length bound_buf = beg_bound_size \<and> bound_buf = ''--'' @ boundary then
             after_boundary s1 \<bind> (\<lambda>(res, s2). Some (res, app, s2))
           else
             (case app of
                Some a \<Rightarrow> read_line s1 \<bind> (\<lambda>(bs, s2). Some (OTHER, Some (a @ bound_buf @ bs), s2))
              | None \<Rightarrow> skip_line s1 \<bind> (\<lambda>s2. Some (OTHER, None, s2)))))"

definition remove_final_crlf :: "bytes \<Rightarrow> bytes" where
  "remove_final_crlf content =
     (if content \<noteq> [] \<and> last content = LF then
        let c1 = butlast content
        in if c1 \<noteq> [] \<and> last c1 = CR then butlast c1 else c1
      else content)"

section \<open>The values of a field\<close>

record mbuf =
  mb_vals :: "bytes list"
  mb_cap :: nat

definition mb_extend :: "mbuf \<Rightarrow> mbuf" where
  "mb_extend b = (let new_cap = mb_cap b * 2 in b\<lparr>mb_cap := (if new_cap = 0 then 1 else new_cap)\<rparr>)"

definition new_slot :: "bytes \<Rightarrow> mbuf \<Rightarrow> mbuf" where
  "new_slot v b =
     (let b1 = (if length (mb_vals b) = mb_cap b then mb_extend b else b)
      in b1\<lparr>mb_vals := mb_vals b1 @ [v]\<rparr>)"

type_synonym mdata = "(bytes \<times> mbuf) list"

text \<open>\<^verbatim>\<open>data[cd->name].new_slot(pool).make_string(content)\<close>\<close>

fun add_value :: "bytes \<Rightarrow> bytes \<Rightarrow> mdata \<Rightarrow> mdata" where
  "add_value k v [] = [(k, new_slot v \<lparr>mb_vals = [], mb_cap = 0\<rparr>)]"
| "add_value k v ((k', b) # d) =
     (if k = k' then (k', new_slot v b) # d
      else if k < k' then (k, new_slot v \<lparr>mb_vals = [], mb_cap = 0\<rparr>) # (k', b) # d
      else (k', b) # add_value k v d)"

definition mdata_obj :: "mdata \<Rightarrow> ddwaf_obj" where
  "mdata_obj d = Obj_map (map (\<lambda>(k, b).
     (k, if length (mb_vals b) = 1 then Obj_string (hd (mb_vals b))
         else Obj_array (map Obj_string (mb_vals b)))) d)"

section \<open>The parser\<close>

lemma read_until_size: "read_until n d s = Some (bs, s') \<Longrightarrow> st_size s' \<le> st_size s \<and> (bs \<noteq> [] \<longrightarrow> st_size s' < st_size s)"
proof (induction n arbitrary: s bs)
  case (Suc n)
  then show ?case
    by (fastforce split: if_splits bind_splits dest: read_size)
qed simp

lemma read_line_size: "read_line s = Some (bs, s') \<Longrightarrow> st_size s' \<le> st_size s"
proof (induction s arbitrary: bs s' rule: read_line.induct)
  case (1 s)
  show ?case
  proof (cases "eof s")
    case True
    with 1(2) show ?thesis by (simp add: read_line.simps [of s])
  next
    case False
    with 1(2) obtain c s1 where r: "read s = Some (c, s1)"
      by (auto simp: read_line.simps [of s] split: bind_splits)
    with 1(2) 1(1) [OF False r refl] read_size [OF r] False show ?thesis
      by (fastforce simp: read_line.simps [of s] split: if_splits bind_splits)
  qed
qed

lemma after_boundary_size: "after_boundary s = Some (r, s') \<Longrightarrow> st_size s' \<le> st_size s"
  by (auto simp: after_boundary_def Let_def split: if_splits bind_splits dest!: read_size skip_line_size)

lemma consume_line_size:
  assumes "consume_line b a s = Some (lt, a', s')" and "lt \<noteq> END_OF_FILE"
  shows "st_size s' < st_size s"
proof -
  from assms(1) obtain buf s1 where r: "read_until (2 + length b) LF s = Some (buf, s1)"
    by (auto simp: consume_line_def Let_def split: bind_splits)
  with assms have "buf \<noteq> []" by (auto simp: consume_line_def Let_def)
  with read_until_size [OF r] have "st_size s1 < st_size s" by simp
  moreover have "st_size s' \<le> st_size s1"
    using assms r \<open>buf \<noteq> []\<close>
    by (auto simp: consume_line_def Let_def split: if_splits bind_splits option.splits
        dest: read_line_size skip_line_size after_boundary_size)
  ultimately show ?thesis by simp
qed

text \<open>The search for the first boundary: whether an end boundary was found instead, and the stream.\<close>

function first_boundary :: "bytes \<Rightarrow> stream \<Rightarrow> (bool \<times> stream) option" where
  "first_boundary boundary s =
     (if eof s then Some (False, s)
      else consume_line boundary None s \<bind> (\<lambda>(lt, _, s1).
        if lt = BOUNDARY then Some (False, s1)
        else if lt = BOUNDARY_END then Some (True, s1)
        else if lt = END_OF_FILE then Some (False, s1)
        else first_boundary boundary s1))"
  by pat_completeness auto
termination
  by (relation "measure (\<lambda>(b, s). st_size s)") (auto dest: consume_line_size)

text \<open>The content of a part, up to the line that ends it.\<close>

function content_loop :: "bytes \<Rightarrow> bytes \<Rightarrow> stream \<Rightarrow> (line_type \<times> bytes \<times> stream) option" where
  "content_loop boundary content s =
     consume_line boundary (Some content) s \<bind> (\<lambda>(lt, content', s1).
       if lt = OTHER then content_loop boundary (the content') s1
       else Some (lt, the content', s1))"
  by pat_completeness auto
termination
  by (relation "measure (\<lambda>(b, c, s). st_size s)") (auto dest: consume_line_size)

declare first_boundary.simps [simp del] content_loop.simps [simp del]

definition final_content :: "line_type \<Rightarrow> bytes \<Rightarrow> bytes" where
  "final_content lt content =
     (if lt = BOUNDARY \<or> lt = BOUNDARY_END then remove_final_crlf content
      else let c = remove_final_crlf content
           in if c \<noteq> [] \<and> last c = CR then butlast c else c)"

lemma for_stream_loop_size: "for_stream_loop s n = Some (n', s') \<Longrightarrow> st_size s' \<le> st_size s"
proof (induction s n arbitrary: n' s' rule: for_stream_loop.induct)
  case (1 s n)
  show ?case
  proof (cases "eof s")
    case True
    with 1(2) show ?thesis by (simp add: for_stream_loop.simps [of s])
  next
    case False
    with 1(2) obtain gen s1 where u: "unfold_next_header s = Some (gen, s1)"
      by (auto simp: for_stream_loop.simps [of s] split: bind_splits)
    with 1(2) 1(1) [OF False u refl] unfold_next_header_size [OF u] False show ?thesis
      by (fastforce simp: for_stream_loop.simps [of s] split: if_splits)
  qed
qed

lemma for_stream_size: "for_stream s = Some (cd, s') \<Longrightarrow> st_size s' \<le> st_size s"
  by (auto simp: for_stream_def split: bind_splits dest: for_stream_loop_size)

lemma content_loop_size:
  "content_loop b c s = Some (lt, c', s') \<Longrightarrow> lt \<noteq> END_OF_FILE \<Longrightarrow> st_size s' < st_size s"
proof (induction b c s arbitrary: lt c' s' rule: content_loop.induct)
  case (1 b c s)
  from 1(2) obtain l a s1 where l: "consume_line b (Some c) s = Some (l, a, s1)"
    by (subst (asm) content_loop.simps) (auto split: bind_splits)
  show ?case
  proof (cases "l = OTHER")
    case True
    with 1(2) l have "content_loop b (the a) s1 = Some (lt, c', s')" by (simp add: content_loop.simps [of b c s])
    from 1(1) [OF l refl refl True this 1(3)] consume_line_size [OF l] True show ?thesis by simp
  next
    case False
    with 1(2,3) l consume_line_size [OF l] show ?thesis by (simp add: content_loop.simps [of b c s])
  qed
qed

text \<open>The label \<^verbatim>\<open>start_part\<close>: one part after the other.\<close>

function parts_loop :: "bytes \<Rightarrow> mdata \<Rightarrow> stream \<Rightarrow> (mdata \<times> stream) option" where
  "parts_loop boundary data s =
     for_stream s \<bind> (\<lambda>(cd, s1).
       content_loop boundary [] s1 \<bind> (\<lambda>(lt, content, s2).
         let data' = (case cd of None \<Rightarrow> data | Some name \<Rightarrow> add_value name (final_content lt content) data)
         in if lt = BOUNDARY \<and> \<not> eof s2 then parts_loop boundary data' s2
            else Some (data', s2)))"
  by pat_completeness auto
termination
  by (relation "measure (\<lambda>(b, d, s). st_size s)")
    (auto dest!: for_stream_size content_loop_size)

declare parts_loop.simps [simp del]

text \<open>
  \<^verbatim>\<open>parse_multipart\<close>: the outer option is the failure of a read, the inner one the object stored
  in the slot, \<^const>\<open>None\<close> when the function returns false.
\<close>

definition parse_multipart :: "bytes \<Rightarrow> chain \<Rightarrow> ddwaf_obj option option" where
  "parse_multipart boundary chain =
     stream_of chain \<bind> (\<lambda>s0.
       first_boundary boundary s0 \<bind> (\<lambda>(found_end, s1).
         if found_end then Some None
         else if eof s1 then Some None
         else parts_loop boundary [] s1 \<bind> (\<lambda>(data, _).
           if data = [] then Some None else Some (Some (mdata_obj data)))))"

section \<open>Lines on byte lists\<close>

definition line_take :: "bytes \<Rightarrow> bytes" where
  "line_take l = takeWhile (\<lambda>c. c \<noteq> LF) l @ take 1 (dropWhile (\<lambda>c. c \<noteq> LF) l)"

definition ab_list :: "bytes \<Rightarrow> line_type \<times> bytes" where
  "ab_list l =
     (case l of [] \<Rightarrow> (BOUNDARY, [])
      | ch # l1 \<Rightarrow>
          (case l1 of
             ch2 # l2 \<Rightarrow>
               if ch = CHR ''-'' then
                 (if ch2 = CHR ''-'' then BOUNDARY_END else BOUNDARY, if ch2 \<noteq> LF then line_rest l2 else l2)
               else (BOUNDARY, if ch \<noteq> LF then line_rest l1 else l1)
           | [] \<Rightarrow> (BOUNDARY, [])))"

definition cl_list :: "bytes \<Rightarrow> bytes \<Rightarrow> line_type \<times> bytes \<times> bytes" where
  "cl_list b l =
     (let n = until_len (2 + length b) LF l; buf = take n l; l1 = drop n l
      in if buf = [] then (END_OF_FILE, [], l1)
         else if last buf = LF then (OTHER, buf, l1)
         else if l1 = [] \<and> length buf < 2 + length b \<and> buf = take (length buf) (''--'' @ b)
           then (BOUNDARY_END, [], l1)
         else if buf = ''--'' @ b then (case ab_list l1 of (r, l2) \<Rightarrow> (r, [], l2))
         else (OTHER, buf @ line_take l1, line_rest l1))"

lemma read_line_refines:
  "st_wf s \<Longrightarrow> \<exists>s'. read_line s = Some (line_take (st_abs s), s') \<and> st_abs s' = line_rest (st_abs s) \<and> st_wf s'"
proof (induction s rule: read_line.induct)
  case (1 s)
  show ?case
  proof (cases "eof s")
    case True
    with 1(2) show ?thesis by (simp add: read_line.simps [of s] eof_iff line_rest_def line_take_def)
  next
    case False
    from ngx_stream.getE [OF 1(2) False] obtain c cs s1
      where a: "st_abs s = c # cs" "read s = Some (c, s1)" "st_abs s1 = cs" "st_wf s1" .
    show ?thesis
      using 1(1) [OF False a(2) refl _ a(4)] False a
      by (cases "c = LF") (auto simp: read_line.simps [of s] line_rest_def line_take_def)
  qed
qed

lemma line_rest_Nil [simp]: "line_rest [] = []"
  by (simp add: line_rest_def)

lemma after_boundary_refines:
  assumes "st_wf s" and "ab_list (st_abs s) = (r, l)"
  shows "\<exists>s'. after_boundary s = Some (r, s') \<and> st_abs s' = l \<and> st_wf s'"
proof (cases "eof s")
  case True
  with assms show ?thesis by (simp add: after_boundary_def ab_list_def eof_iff)
next
  case False
  from ngx_stream.getE [OF assms(1) False] obtain c cs s1
    where a: "st_abs s = c # cs" "read s = Some (c, s1)" "st_abs s1 = cs" "st_wf s1" .
  show ?thesis
  proof (cases "eof s1")
    case True
    with a have "cs = []" by (simp add: eof_iff)
    moreover have "\<exists>s'. skip_line s1 = Some s' \<and> st_abs s' = [] \<and> st_wf s'"
      using skip_line_refines [OF a(4)] a \<open>cs = []\<close> by simp
    ultimately show ?thesis using assms(2) a False True by (auto simp: after_boundary_def ab_list_def)
  next
    case ne: False
    from ngx_stream.getE [OF a(4) ne] obtain d ds s2
      where b: "st_abs s1 = d # ds" "read s1 = Some (d, s2)" "st_abs s2 = ds" "st_wf s2" .
    with assms(2) a False ne skip_line_refines [OF a(4)] skip_line_refines [OF b(4)] show ?thesis
      by (auto simp: after_boundary_def ab_list_def split: if_splits)
  qed
qed

lemma consume_line_refines:
  assumes "st_wf s" and "cl_list b (st_abs s) = (lt, x, l)"
  shows "\<exists>s'. consume_line b app s = Some (lt, map_option (\<lambda>a. a @ x) app, s') \<and> st_abs s' = l \<and> st_wf s'"
proof -
  define buf where "buf = take (until_len (2 + length b) LF (st_abs s)) (st_abs s)"
  define l1 where "l1 = drop (until_len (2 + length b) LF (st_abs s)) (st_abs s)"
  from read_until_spec [OF assms(1), of "2 + length b" LF] obtain s1
    where r: "read_until (2 + length b) LF s = Some (buf, s1)" "st_abs s1 = l1" "st_wf s1"
    by (auto simp: buf_def l1_def)
  note cl = assms(2) [unfolded cl_list_def Let_def, folded buf_def l1_def]
  consider (eof) "buf = []" | (lf) "buf \<noteq> []" "last buf = LF"
    | (part) "buf \<noteq> []" "last buf \<noteq> LF" "l1 = [] \<and> length buf < 2 + length b \<and> buf = take (length buf) (''--'' @ b)"
    | (bound) "buf \<noteq> []" "last buf \<noteq> LF" "buf = ''--'' @ b"
        "\<not> (l1 = [] \<and> length buf < 2 + length b \<and> buf = take (length buf) (''--'' @ b))"
    | (other) "buf \<noteq> []" "last buf \<noteq> LF" "buf \<noteq> ''--'' @ b"
        "\<not> (l1 = [] \<and> length buf < 2 + length b \<and> buf = take (length buf) (''--'' @ b))" by blast
  then show ?thesis
  proof cases
    case eof
    with r cl show ?thesis by (cases app) (simp_all add: consume_line_def)
  next
    case lf
    with r cl show ?thesis by (simp add: consume_line_def)
  next
    case part
    with r cl eof_iff [OF r(3)] show ?thesis by (cases app) (simp_all add: consume_line_def)
  next
    case bound
    obtain r' l' where ab: "ab_list l1 = (r', l')" by fastforce
    with cl bound have "lt = r'" "x = []" "l = l'" by simp_all
    with bound r ab after_boundary_refines [OF r(3), of r' l'] show ?thesis
      by (cases app) (auto simp: consume_line_def)
  next
    case other
    with cl have "lt = OTHER" "x = buf @ line_take l1" "l = line_rest l1" by (simp_all only: if_False if_cancel prod.inject)
    with other r eof_iff [OF r(3)] read_line_refines [OF r(3)] skip_line_refines [OF r(3)] show ?thesis
      by (cases app) (auto simp: consume_line_def)
  qed
qed

section \<open>Bodies as a client renders them\<close>

definition delim :: "bytes \<Rightarrow> bytes" where
  "delim b = ''--'' @ b"

definition starts_with :: "bytes \<Rightarrow> bytes \<Rightarrow> bool" where
  "starts_with p l \<longleftrightarrow> take (length p) l = p"

fun split_lf :: "bytes \<Rightarrow> bytes list" where
  "split_lf [] = [[]]"
| "split_lf (c # cs) = (if c = LF then [] # split_lf cs
     else (case split_lf cs of [] \<Rightarrow> [[c]] | l # ls \<Rightarrow> (c # l) # ls))"

text \<open>No line of the content starts like a boundary.\<close>

definition content_ok :: "bytes \<Rightarrow> bytes \<Rightarrow> bool" where
  "content_ok b c \<longleftrightarrow> list_all (\<lambda>l. \<not> starts_with (delim b) l) (split_lf c)"

definition boundary_ok :: "bytes \<Rightarrow> bool" where
  "boundary_ok b \<longleftrightarrow> no_crlf b"

lemma split_lf_line: "LF \<notin> set x \<Longrightarrow> split_lf (x @ LF # c) = x # split_lf c"
  by (induction x) auto

lemma split_lf_last: "LF \<notin> set x \<Longrightarrow> split_lf x = [x]"
  by (induction x) auto

lemma until_len_line:
  "LF \<notin> set x \<Longrightarrow> until_len n LF (x @ LF # r) = min n (Suc (length x))"
  by (induction x arbitrary: n; case_tac n) auto

lemma until_len_full:
  "LF \<notin> set x \<Longrightarrow> until_len (length x) LF (x @ r) = length x"
  by (induction x) auto

lemma line_take_line: "LF \<notin> set x \<Longrightarrow> line_take (x @ LF # r) = x @ [LF]"
  by (induction x) (auto simp: line_take_def)

lemma line_rest_line: "LF \<notin> set x \<Longrightarrow> line_rest (x @ LF # r) = r"
  by (induction x) (auto simp: line_rest_def)

lemma cl_list_other:
  assumes "LF \<notin> set x" and "\<not> starts_with (delim b) x"
  shows "cl_list b (x @ LF # r) = (OTHER, x @ [LF], r)"
proof (cases "Suc (length x) \<le> 2 + length b")
  case True
  then have "until_len (2 + length b) LF (x @ LF # r) = Suc (length x)"
    using until_len_line [OF assms(1), of "2 + length b" r] by simp
  then show ?thesis by (simp add: cl_list_def Let_def)
next
  case False
  let ?n = "2 + length b"
  have n: "until_len ?n LF (x @ LF # r) = ?n" "?n \<le> length x"
    using False until_len_line [OF assms(1), of ?n r] by auto
  then have t: "take ?n (x @ LF # r) = take ?n x" "drop ?n (x @ LF # r) = drop ?n x @ LF # r" by simp_all
  have ne: "take ?n x \<noteq> []" "take ?n x \<noteq> ''--'' @ b"
    using n(2) assms(2) by (auto simp: starts_with_def delim_def)
  have "last (take ?n x) \<in> set x" using ne(1) by (meson in_set_takeD last_in_set)
  moreover have "LF \<notin> set (drop ?n x)" using assms(1) by (meson in_set_dropD)
  ultimately show ?thesis
    using ne assms(1) t unfolding cl_list_def Let_def n(1)
    by (auto simp: line_take_line line_rest_line)
qed

lemma cl_list_delim:
  assumes "boundary_ok b"
  shows "cl_list b (delim b @ r) = (case ab_list r of (lt, l) \<Rightarrow> (lt, [], l))"
proof -
  have lf: "LF \<notin> set (delim b)" using assms by (auto simp: boundary_ok_def no_crlf_def delim_def)
  then have "until_len (2 + length b) LF (delim b @ r) = 2 + length b"
    using until_len_full [OF lf, of r] by (simp add: delim_def)
  moreover have "last (delim b) \<noteq> LF" using lf by (metis delim_def append_Cons last_in_set list.distinct(1))
  ultimately show ?thesis by (simp add: cl_list_def Let_def delim_def)
qed

text \<open>The content of a rendered part is collected up to the delimiter.\<close>

lemma content_loop_part:
  assumes "boundary_ok b" and "ab_list r = (lt, l)" and "lt \<noteq> OTHER"
  shows "st_wf s \<Longrightarrow> content_ok b c \<Longrightarrow> st_abs s = c @ CRLF @ delim b @ r \<Longrightarrow>
     \<exists>s'. content_loop b acc s = Some (lt, acc @ c @ CRLF, s') \<and> st_abs s' = l \<and> st_wf s'"
proof (induction c arbitrary: s acc rule: measure_induct_rule [where f = length])
  case (less c)
  have fin: "\<exists>s'. content_loop b a t = Some (lt, a, s') \<and> st_abs s' = l \<and> st_wf s'"
    if "st_wf t" "st_abs t = delim b @ r" for a t
  proof -
    have "cl_list b (st_abs t) = (lt, [], l)" using cl_list_delim [OF assms(1)] assms(2) that(2) by simp
    from consume_line_refines [OF that(1) this, of "Some a"] assms(3) show ?thesis
      by (auto simp: content_loop.simps [of b a t])
  qed
  show ?case
  proof (cases "LF \<in> set c")
    case False
    have "\<not> starts_with (delim b) (c @ [CR])"
    proof
      assume s: "starts_with (delim b) (c @ [CR])"
      have "CR \<notin> set (delim b)" using assms(1) by (auto simp: boundary_ok_def no_crlf_def delim_def)
      with s have "length (delim b) \<le> length c"
        by (metis append_Nil2 in_set_conv_decomp length_append_singleton linorder_not_le not_less_eq_eq
            starts_with_def take_all_iff)
      with s less.prems(2) False show False
        by (simp add: content_ok_def split_lf_last starts_with_def)
    qed
    with False have "cl_list b (st_abs s) = (OTHER, c @ CRLF, delim b @ r)"
      using less.prems(3) cl_list_other [of "c @ [CR]" b "delim b @ r"] by simp
    from consume_line_refines [OF less.prems(1) this, of "Some acc"] obtain s1
      where s1: "consume_line b (Some acc) s = Some (OTHER, Some (acc @ c @ CRLF), s1)"
        "st_abs s1 = delim b @ r" "st_wf s1" by auto
    with fin [OF s1(3,2), of "acc @ c @ CRLF"] show ?thesis by (simp add: content_loop.simps [of b acc s])
  next
    case True
    then obtain x c' where c: "c = x @ LF # c'" "LF \<notin> set x" by (meson split_list_first)
    with less.prems have x: "\<not> starts_with (delim b) x" "content_ok b c'"
      by (simp_all add: content_ok_def split_lf_line)
    then have "cl_list b (st_abs s) = (OTHER, x @ [LF], c' @ CRLF @ delim b @ r)"
      using less.prems(3) c cl_list_other [OF c(2) x(1), of "c' @ CRLF @ delim b @ r"] by simp
    from consume_line_refines [OF less.prems(1) this, of "Some acc"] obtain s1
      where s1: "consume_line b (Some acc) s = Some (OTHER, Some (acc @ x @ [LF]), s1)"
        "st_abs s1 = c' @ CRLF @ delim b @ r" "st_wf s1" by auto
    from less.IH [of c' s1 "acc @ x @ [LF]"] s1 x c show ?thesis
      by (simp add: content_loop.simps [of b acc s])
  qed
qed

lemma remove_final_crlf_part: "remove_final_crlf (c @ CRLF) = c"
  by (simp add: remove_final_crlf_def Let_def butlast_append)

section \<open>The collected fields\<close>

definition values_of :: "bytes \<Rightarrow> (bytes \<times> bytes) list \<Rightarrow> bytes list" where
  "values_of k nv = map snd (filter (\<lambda>p. fst p = k) nv)"

text \<open>The data represents the list of the named values seen so far.\<close>

definition represents :: "mdata \<Rightarrow> (bytes \<times> bytes) list \<Rightarrow> bool" where
  "represents d nv \<longleftrightarrow> sorted_wrt (<) (map fst d) \<and> fst ` set d = fst ` set nv
     \<and> (\<forall>(k, b) \<in> set d. mb_vals b = values_of k nv)"

lemma new_slot_vals [simp]: "mb_vals (new_slot v b) = mb_vals b @ [v]"
  by (simp add: new_slot_def Let_def mb_extend_def)

lemma add_value_keys: "fst ` set (add_value k v d) = insert k (fst ` set d)"
  by (induction k v d rule: add_value.induct) auto

lemma add_value_sorted: "sorted_wrt (<) (map fst d) \<Longrightarrow> sorted_wrt (<) (map fst (add_value k v d))"
proof (induction k v d rule: add_value.induct)
  case (2 k v k' b d)
  have "fst ` set (add_value k v d) = insert k (fst ` set d)" by (rule add_value_keys)
  with 2 show ?case by (auto simp flip: set_map)
qed simp

lemma add_value_mem:
  "sorted_wrt (<) (map fst d) \<Longrightarrow> (k', b) \<in> set (add_value k v d) \<Longrightarrow>
     (if k' = k then \<exists>b0. mb_vals b = mb_vals b0 @ [v] \<and> ((k, b0) \<in> set d \<or> (k \<notin> fst ` set d \<and> mb_vals b0 = []))
      else (k', b) \<in> set d)"
proof (induction k v d rule: add_value.induct)
  case (1 k v)
  then show ?case by (auto intro!: exI [of _ "\<lparr>mb_vals = [], mb_cap = 0\<rparr>"])
next
  case (2 k v j c d)
  have gt: "k \<notin> fst ` set ((j, c) # d)" if "k < j"
    using that 2(2) by (auto dest: less_trans)
  show ?case
  proof (cases "k = j \<or> k < j")
    case True
    with 2(2,3) gt show ?thesis
      by (auto intro: exI [of _ "\<lparr>mb_vals = [], mb_cap = 0\<rparr>"] split: if_splits)
  next
    case False
    with 2 show ?thesis by (auto split: if_splits)
  qed
qed

lemma represents_add:
  assumes "represents d nv"
  shows "represents (add_value k v d) (nv @ [(k, v)])"
proof -
  note d = assms [unfolded represents_def]
  have "mb_vals b = values_of k' (nv @ [(k, v)])" if m: "(k', b) \<in> set (add_value k v d)" for k' b
  proof (cases "k' = k")
    case False
    with add_value_mem [OF conjunct1 [OF d] m] d show ?thesis by (auto simp: values_of_def)
  next
    case True
    with add_value_mem [OF conjunct1 [OF d] m] obtain b0
      where b0: "mb_vals b = mb_vals b0 @ [v]" "(k, b0) \<in> set d \<or> (k \<notin> fst ` set d \<and> mb_vals b0 = [])"
      by auto
    have "mb_vals b0 = values_of k nv"
    proof (cases "(k, b0) \<in> set d")
      case True
      with d show ?thesis by auto
    next
      case False
      with b0 d have "k \<notin> fst ` set nv" "mb_vals b0 = []" by auto
      then show ?thesis by (auto simp: values_of_def filter_empty_conv image_iff)
    qed
    with b0 True show ?thesis by (simp add: values_of_def)
  qed
  then show ?thesis
    using d add_value_sorted add_value_keys by (auto simp: represents_def)
qed

lemma represents_fold:
  "represents d nv \<Longrightarrow> represents (fold (\<lambda>(k, v). add_value k v) kvs d) (nv @ kvs)"
proof (induction kvs arbitrary: d nv)
  case (Cons kv kvs)
  then show ?case using Cons.IH [OF represents_add [OF Cons.prems, of "fst kv" "snd kv"]]
    by (simp add: case_prod_beta)
qed simp

definition field_obj :: "bytes list \<Rightarrow> ddwaf_obj" where
  "field_obj vs = (if length vs = 1 then Obj_string (hd vs) else Obj_array (map Obj_string vs))"

lemma represents_obj:
  assumes "represents d nv"
  shows "mdata_obj d = Obj_map (map (\<lambda>k. (k, field_obj (values_of k nv))) (sorted_list_of_set (fst ` set nv)))"
proof -
  note d = assms [unfolded represents_def]
  then have "sorted (map fst d)" "distinct (map fst d)"
    by (auto simp: strict_sorted_iff)
  then have "sorted_list_of_set (fst ` set nv) = map fst d"
    using d by (metis list.set_map sorted_list_of_set.idem_if_sorted_distinct)
  moreover have "(k, if length (mb_vals b) = 1 then Obj_string (hd (mb_vals b)) else Obj_array (map Obj_string (mb_vals b)))
      = (k, field_obj (values_of k nv))" if "(k, b) \<in> set d" for k b
    using that d by (auto simp: field_obj_def)
  ultimately show ?thesis by (auto simp: mdata_obj_def)
qed

section \<open>The round trip\<close>

type_synonym part = "(bytes \<times> bytes list) list \<times> bytes"

fun after_delim :: "bytes \<Rightarrow> part list \<Rightarrow> bytes" where
  "after_delim b [] = ''--'' @ CRLF"
| "after_delim b ((hs, c) # ps) = CRLF @ render_headers hs (c @ CRLF @ delim b @ after_delim b ps)"

definition render_multipart :: "bytes \<Rightarrow> part list \<Rightarrow> bytes" where
  "render_multipart b ps = delim b @ after_delim b ps"

definition part_ok :: "bytes \<Rightarrow> part \<Rightarrow> bool" where
  "part_ok b p \<longleftrightarrow> list_all line_ok (fst p) \<and> content_ok b (snd p)"

definition part_name :: "part \<Rightarrow> bytes" where
  "part_name p = fold (\<lambda>(p, qs). cd_header (concat (p # qs))) (fst p) []"

text \<open>The fields: the parts for which a name was found.\<close>

definition named_fields :: "part list \<Rightarrow> (bytes \<times> bytes) list" where
  "named_fields ps = filter (\<lambda>(n, c). n \<noteq> []) (map (\<lambda>p. (part_name p, snd p)) ps)"

lemma ab_list_after_delim:
  "ab_list (after_delim b ps) =
     (case ps of [] \<Rightarrow> (BOUNDARY_END, [])
      | p # ps' \<Rightarrow> (BOUNDARY, render_headers (fst p) (snd p @ CRLF @ delim b @ after_delim b ps')))"
  by (cases ps) (auto simp: ab_list_def line_rest_def)

lemma for_stream_render:
  assumes "st_wf s" and "st_abs s = render_headers hs body" and "list_all line_ok hs"
  shows "\<exists>s'. for_stream s = Some (let n = part_name (hs, c) in if n = [] then None else Some n, s')
      \<and> st_abs s' = body \<and> st_wf s'"
  using for_stream_loop_refines [of s "[]"] headers_list_render [OF assms(3), of body "[]"] assms(1,2)
  by (auto simp: for_stream_def Let_def part_name_def)

lemma named_fields_Cons: "named_fields (p # ps) = (if part_name p = [] then named_fields ps else (part_name p, snd p) # named_fields ps)"
  by (simp add: named_fields_def)

lemma parts_loop_render:
  assumes "boundary_ok b"
  shows "st_wf s \<Longrightarrow> list_all (part_ok b) ((hs, c) # ps) \<Longrightarrow>
     st_abs s = render_headers hs (c @ CRLF @ delim b @ after_delim b ps) \<Longrightarrow>
     \<exists>s'. parts_loop b d s = Some (fold (\<lambda>(k, v). add_value k v) (named_fields ((hs, c) # ps)) d, s')"
proof (induction ps arbitrary: hs c s d)
  case Nil
  from for_stream_render [OF Nil(1,3), of c] Nil(2) obtain s1
    where s1: "for_stream s = Some (let n = part_name (hs, c) in if n = [] then None else Some n, s1)"
      "st_abs s1 = c @ CRLF @ delim b @ after_delim b []" "st_wf s1" by (auto simp: part_ok_def)
  have ab: "ab_list (after_delim b []) = (BOUNDARY_END, [])" using ab_list_after_delim [of b "[]"] by simp
  from content_loop_part [OF assms ab _ s1(3) _ s1(2), of "[]"] Nil(2)
  obtain s2 where "content_loop b [] s1 = Some (BOUNDARY_END, c @ CRLF, s2)" by (auto simp: part_ok_def)
  with s1 show ?case
    by (auto simp: parts_loop.simps [of b d s] named_fields_def final_content_def remove_final_crlf_part Let_def)
next
  case (Cons p ps)
  obtain hs' c' where p: "p = (hs', c')" by fastforce
  let ?next = "render_headers hs' (c' @ CRLF @ delim b @ after_delim b ps)"
  from for_stream_render [OF Cons.prems(1,3), of c] Cons.prems(2) obtain s1
    where s1: "for_stream s = Some (let n = part_name (hs, c) in if n = [] then None else Some n, s1)"
      "st_abs s1 = c @ CRLF @ delim b @ after_delim b (p # ps)" "st_wf s1" by (auto simp: part_ok_def)
  have ab: "ab_list (after_delim b (p # ps)) = (BOUNDARY, ?next)"
    using ab_list_after_delim [of b "p # ps"] p by simp
  from content_loop_part [OF assms ab _ s1(3) _ s1(2), of "[]"] Cons.prems(2)
  obtain s2 where s2: "content_loop b [] s1 = Some (BOUNDARY, c @ CRLF, s2)" "st_abs s2 = ?next" "st_wf s2"
    by (auto simp: part_ok_def)
  have "\<not> eof s2" using s2 by (simp add: eof_iff render_headers_def)
  with s1 s2 Cons.IH [OF s2(3) _ s2(2)] Cons.prems(2) p show ?case
    by (auto simp: parts_loop.simps [of b d s] named_fields_Cons [of "(hs, c)"] final_content_def
        remove_final_crlf_part Let_def)
qed

lemma first_boundary_render:
  assumes "boundary_ok b" and "st_wf s" and "st_abs s = delim b @ after_delim b (p # ps)"
  shows "\<exists>s'. first_boundary b s = Some (False, s')
     \<and> st_abs s' = render_headers (fst p) (snd p @ CRLF @ delim b @ after_delim b ps) \<and> st_wf s'"
proof -
  have "cl_list b (st_abs s) = (BOUNDARY, [], render_headers (fst p) (snd p @ CRLF @ delim b @ after_delim b ps))"
    using cl_list_delim [OF assms(1)] ab_list_after_delim [of b "p # ps"] assms(3) by simp
  from consume_line_refines [OF assms(2) this, of None] show ?thesis
    using assms eof_iff [OF assms(2)] by (auto simp: first_boundary.simps [of b s] delim_def)
qed

lemma parse_multipart_render:
  assumes "boundary_ok b" and "ps \<noteq> []" and "list_all (part_ok b) ps"
    and "chain \<noteq> []" and "[] \<notin> set (tl chain)" and "concat chain = render_multipart b ps"
  shows "parse_multipart b chain =
     Some (if named_fields ps = [] then None
           else Some (Obj_map (map (\<lambda>k. (k, field_obj (values_of k (named_fields ps))))
             (sorted_list_of_set (fst ` set (named_fields ps))))))"
proof -
  from assms(4,5) obtain s where s: "stream_of chain = Some s" "st_wf s" "st_abs s = concat chain"
    by (cases chain) (auto simp: stream_of_def st_wf_def st_abs_def)
  obtain p ps' where ps: "ps = p # ps'" using assms(2) by (cases ps) auto
  obtain hs c where p: "p = (hs, c)" by fastforce
  from first_boundary_render [OF assms(1) s(2), of p ps'] s(3) assms(6) ps obtain s1
    where s1: "first_boundary b s = Some (False, s1)" "st_wf s1"
      "st_abs s1 = render_headers hs (c @ CRLF @ delim b @ after_delim b ps')"
    by (auto simp: render_multipart_def p)
  have ne: "\<not> eof s1" using s1 by (simp add: eof_iff render_headers_def)
  from parts_loop_render [OF assms(1) s1(2) _ s1(3), of "[]"] assms(3) ps p obtain s2
    where l: "parts_loop b [] s1 = Some (fold (\<lambda>(k, v). add_value k v) (named_fields ps) [], s2)" by auto
  have r: "represents (fold (\<lambda>(k, v). add_value k v) (named_fields ps) []) (named_fields ps)"
    using represents_fold [of "[]" "[]" "named_fields ps"] by (simp add: represents_def)
  then have "fold (\<lambda>(k, v). add_value k v) (named_fields ps) [] = [] \<longleftrightarrow> named_fields ps = []"
    by (auto simp: represents_def)
  with s s1 ne l represents_obj [OF r] show ?thesis by (simp add: parse_multipart_def)
qed

text \<open>
  C10. Multipart round trip: a body rendered with a boundary is parsed, whatever its split into
  (non-empty) buffers, into the map of its named parts: one entry per name in increasing order, the
  part's content for a name that occurs once and the array of the contents in order of appearance
  for a repeated name. Contents are preserved byte for byte; they may have line breaks and
  anything that does not start a line like the boundary.
\<close>

theorem multipart_roundtrip:
  assumes "boundary_ok b" and "ps \<noteq> []" and "list_all (part_ok b) ps"
    and "chain \<noteq> []" and "[] \<notin> set (tl chain)" and "concat chain = render_multipart b ps"
  shows "parse_multipart b chain =
     Some (if named_fields ps = [] then None
           else Some (Obj_map (map (\<lambda>k. (k, field_obj (values_of k (named_fields ps))))
             (sorted_list_of_set (fst ` set (named_fields ps))))))"
  by (rule parse_multipart_render [OF assms])

theorem multipart_roundtrip_witness:
  "parse_multipart ''B'' [''--B'' @ CRLF @ ''Content-Disposition: form-data; name='', ''a'' @ CRLF @ CRLF @ ''x'' @ CRLF @ ''y'' @ CRLF @ ''--B--'' @ CRLF]
     = Some (Some (Obj_map [(''a'', Obj_string (''x'' @ CRLF @ ''y''))]))"
proof -
  let ?p = "([(''Content-Disposition: form-data; name=a'', [])], ''x'' @ CRLF @ ''y'')"
  have n: "part_name ?p = ''a''"
    by (simp add: part_name_def cd_header_def cd_value_def tolower_keep cd_params.simps after_semicolon_def is_ext_ws_def param_content_def)
  then have "named_fields [?p] = [(''a'', ''x'' @ CRLF @ ''y'')]" by (simp add: named_fields_def)
  then show ?thesis
    using multipart_roundtrip [of "''B''" "[?p]" "[''--B'' @ CRLF @ ''Content-Disposition: form-data; name='', ''a'' @ CRLF @ CRLF @ ''x'' @ CRLF @ ''y'' @ CRLF @ ''--B--'' @ CRLF]"]
    by (simp add: boundary_ok_def no_crlf_def part_ok_def line_ok_def piece_ok_def is_ext_ws_def content_ok_def
        starts_with_def delim_def render_multipart_def render_headers_def values_of_def field_obj_def)
qed

end
