(* ===== verification/Body_Parsing.thy ===== *)
theory Body_Parsing
  imports Multipart Body_Json Kv_Collect
begin

text \<open>
  The choice of the body parser, and the parsers for plain text and URL-encoded bodies:
  \<^verbatim>\<open>src/security/body_parse/body_parsing.cpp\<close>. A parser returns what is stored in the slot, if
  anything, and the memory resource; \<open>Inl\<close> is a C++ exception. The order in which
  \<^verbatim>\<open>std::unordered_map\<close> enumerates its keys is a parameter. The allocations of the JSON and multipart
  parsers are not threaded through the memory resource.
\<close>

section \<open>Content types\<close>

definition is_content_type :: "bytes \<Rightarrow> bytes \<Rightarrow> bool" where
  "is_content_type actual tested =
     (let sv = dropWhile (\<lambda>c. c = SP \<or> c = HT) actual
      in if length sv < length tested then False
         else if map tolower (take (length tested) sv) \<noteq> tested then False
         else let sv2 = drop (length tested) sv
              in sv2 = [] \<or> hd sv2 = CHR '';'' \<or> hd sv2 = SP \<or> hd sv2 = HT)"

text \<open>The parts of the request that are read.\<close>

record body_request =
  br_content_type_in :: "bytes option"
  br_content_type_out :: bytes
  br_header_only :: bool

definition is_req_json :: "body_request \<Rightarrow> bool" where
  "is_req_json r = (case br_content_type_in r of None \<Rightarrow> False | Some ct \<Rightarrow> is_content_type ct ''application/json'')"

definition is_req_multipart :: "body_request \<Rightarrow> bool" where
  "is_req_multipart r = (case br_content_type_in r of None \<Rightarrow> False | Some ct \<Rightarrow> is_content_type ct ''multipart/form-data'')"

definition is_req_urlencoded :: "body_request \<Rightarrow> bool" where
  "is_req_urlencoded r = (case br_content_type_in r of None \<Rightarrow> False
     | Some ct \<Rightarrow> is_content_type ct ''application/x-www-form-urlencoded'')"

definition is_req_text_plain :: "body_request \<Rightarrow> bool" where
  "is_req_text_plain r = (case br_content_type_in r of None \<Rightarrow> False | Some ct \<Rightarrow> is_content_type ct ''text/plain'')"

definition is_resp_json :: "body_request \<Rightarrow> bool" where
  "is_resp_json r = is_content_type (br_content_type_out r) ''application/json''"

definition is_resp_text_plain :: "body_request \<Rightarrow> bool" where
  "is_resp_text_plain r = is_content_type (br_content_type_out r) ''text/plain''"

section \<open>Plain text and URL-encoded bodies\<close>

definition linearize_chain :: "chain \<Rightarrow> nat \<Rightarrow> memres \<Rightarrow> exn + (bytes \<times> memres)" where
  "linearize_chain chain sz m =
     (let (_, m1) = allocate_string sz m
      in case stream_of chain of
           None \<Rightarrow> Inl Invalid_argument
         | Some s \<Rightarrow>
             let (buf, _) = read_buf sz s
             in if length buf < sz then Inl Runtime_error else Inr (buf, m1))"

definition parse_plain :: "chain \<Rightarrow> nat \<Rightarrow> memres \<Rightarrow> exn + (ddwaf_obj option \<times> memres)" where
  "parse_plain chain sz m =
     (case linearize_chain chain sz m of Inl e \<Rightarrow> Inl e
      | Inr (buf, m1) \<Rightarrow> Inr (Some (Obj_string buf), m1))"

text \<open>
  The entries of the map with the counted keys, and the second pass, which fills them:
  a string is overwritten, an array gets the value at \<^verbatim>\<open>nbEntries++\<close>. \<open>key_index.at\<close> raises
  \<^verbatim>\<open>out_of_range\<close>; \<^const>\<open>None\<close> is a write outside the array.
\<close>

definition ue_entry :: "nat \<Rightarrow> kv_entry" where
  "ue_entry count = (if count = 1 then E_str [] else E_arr (replicate count Obj_invalid) 0)"

fun ue_store :: "bytes \<Rightarrow> bytes \<Rightarrow> kv_entries \<Rightarrow> (exn + kv_entries) option" where
  "ue_store k v [] = Some (Inl Out_of_range)"
| "ue_store k v ((k', e) # es) =
     (if k = k' then
        (case e of
           E_str _ \<Rightarrow> Some (Inr ((k', E_str v) # es))
         | E_arr cells nb \<Rightarrow>
             if nb < length cells then Some (Inr ((k', E_arr (cells[nb := Obj_string v]) (nb + 1)) # es))
             else None)
      else map_option (\<lambda>r. case r of Inl x \<Rightarrow> Inl x | Inr es' \<Rightarrow> Inr ((k', e) # es')) (ue_store k v es))"

partial_function (option) ue_fill :: "qs_iter \<Rightarrow> memres \<Rightarrow> kv_entries \<Rightarrow> (exn + (kv_entries \<times> memres)) option" where
  "ue_fill it m es =
     (if qs_ended it then Some (Inr (es, m))
      else case qs_deref it m of (kv, it1, m1) \<Rightarrow>
        ue_store (fst kv) (snd kv) es \<bind> (\<lambda>r.
          case r of Inl x \<Rightarrow> Some (Inl x) | Inr es1 \<Rightarrow> ue_fill (qs_next it1) m1 es1))"

fun ue_alloc_arrays :: "nat list \<Rightarrow> memres \<Rightarrow> memres" where
  "ue_alloc_arrays [] m = m"
| "ue_alloc_arrays (c # cs) m = ue_alloc_arrays cs (if c = 1 then m else snd (allocate_objects c m))"

definition parse_urlencoded ::
  "(bytes list \<Rightarrow> bytes list) \<Rightarrow> chain \<Rightarrow> nat \<Rightarrow> memres \<Rightarrow> (exn + (ddwaf_obj option \<times> memres)) option" where
  "parse_urlencoded key_order chain sz m =
     (case linearize_chain chain sz m of
        Inl e \<Rightarrow> Some (Inl e)
      | Inr (buf, m1) \<Rightarrow>
          count_keys qs_ended (\<lambda>it m. Some (qs_cur_key it m)) (\<lambda>it m. Some (qs_next it, m))
              (qs_make buf (CHR ''&'') False) m1 [] \<bind> (\<lambda>(it1, m2, b).
            let (_, m3) = allocate_objects (length b) m2;
                keys = key_order (map fst b);
                es = map (\<lambda>k. (k, ue_entry (bag_get b k))) keys;
                m4 = ue_alloc_arrays (map (bag_get b) keys) m3
            in ue_fill (qs_reset it1) m4 es \<bind> (\<lambda>r.
                 case r of Inl x \<Rightarrow> Some (Inl x)
                 | Inr (es', m5) \<Rightarrow> Some (Inr (Some (Obj_map (map (\<lambda>(k, e). (k, entry_obj e)) es')), m5)))))"

section \<open>Dispatch\<close>

text \<open>
  \<^verbatim>\<open>parse_body_req\<close>. A JSON body that could not be parsed falls through to the tests for the other
  types.
\<close>

definition parse_body_req ::
  "(rstream \<Rightarrow> sax list \<times> bool) \<Rightarrow> (bytes list \<Rightarrow> bytes list) \<Rightarrow> body_request \<Rightarrow> chain \<Rightarrow> nat \<Rightarrow> memres
     \<Rightarrow> (exn + (ddwaf_obj option \<times> memres)) option" where
  "parse_body_req reader key_order req chain sz m =
     (case br_content_type_in req of
        None \<Rightarrow> Some (Inr (None, m))
      | Some ct \<Rightarrow>
          let rest = (if is_req_text_plain req then Some (parse_plain chain sz m)
                      else if is_req_urlencoded req then parse_urlencoded key_order chain sz m
                      else Some (Inr (None, m)))
          in if is_req_json req then
               parse_json reader ([], Obj_invalid) chain sz \<bind> (\<lambda>(success, e).
                 if success then Some (Inr (Some (snd e), m)) else rest)
             else if is_req_multipart req then
               (case for_string ct of
                  None \<Rightarrow> Some (Inr (None, m))
                | Some hct \<Rightarrow> parse_multipart (ct_boundary hct) chain \<bind> (\<lambda>r. Some (Inr (r, m))))
             else rest)"

definition is_body_resp_parseable :: "body_request \<Rightarrow> bool" where
  "is_body_resp_parseable req \<longleftrightarrow> \<not> br_header_only req \<and> (is_resp_json req \<or> is_resp_text_plain req)"

definition parse_body_resp ::
  "(rstream \<Rightarrow> sax list \<times> bool) \<Rightarrow> body_request \<Rightarrow> chain \<Rightarrow> nat \<Rightarrow> memres
     \<Rightarrow> (exn + (ddwaf_obj option \<times> memres)) option" where
  "parse_body_resp reader req chain sz m =
     (if is_resp_json req then
        parse_json reader ([], Obj_invalid) chain sz \<bind> (\<lambda>(success, e).
          Some (Inr (if success then Some (snd e) else None, m)))
      else if is_resp_text_plain req then Some (parse_plain chain sz m)
      else Some (Inr (None, m)))"

section \<open>Properties\<close>

lemma linearize_chain_spec:
  "chain \<noteq> [] \<Longrightarrow> linearize_chain chain sz m =
     (if length (concat chain) < sz then Inl Runtime_error
      else Inr (take sz (concat chain), snd (allocate_string sz m)))"
proof -
  assume "chain \<noteq> []"
  then obtain s where s: "stream_of chain = Some s" "st_abs s = concat chain"
    by (cases chain) (auto simp: stream_of_def st_abs_def)
  obtain buf s' where "read_buf sz s = (buf, s')" by fastforce
  with read_buf_spec [OF this] s show ?thesis
    by (auto simp: linearize_chain_def case_prod_beta Let_def)
qed

text \<open>The entry of a key when the pairs \<open>seen\<close> of all the pairs have been stored.\<close>

definition ue_at :: "(bytes \<times> bytes) list \<Rightarrow> (bytes \<times> bytes) list \<Rightarrow> bytes \<Rightarrow> kv_entry" where
  "ue_at kvs seen k =
     (let n = length (vals_of k kvs); vs = vals_of k seen
      in if n = 1 then E_str (case vs of [] \<Rightarrow> [] | v # _ \<Rightarrow> v)
         else E_arr (map Obj_string vs @ replicate (n - length vs) Obj_invalid) (length vs))"

lemma ue_store_map:
  assumes "k \<in> set keys" and "distinct keys"
    and "case f k of E_str _ \<Rightarrow> e' = E_str v
         | E_arr cells nb \<Rightarrow> nb < length cells \<and> e' = E_arr (cells[nb := Obj_string v]) (nb + 1)"
  shows "ue_store k v (map (\<lambda>j. (j, f j)) keys) = Some (Inr (map (\<lambda>j. (j, if j = k then e' else f j)) keys))"
  using assms
proof (induction keys)
  case (Cons j keys)
  show ?case
  proof (cases "j = k")
    case True
    with Cons.prems have "\<forall>i \<in> set keys. i \<noteq> k" by auto
    with True Cons.prems(3) show ?thesis by (auto split: kv_entry.splits)
  next
    case False
    with Cons show ?thesis by simp
  qed
qed simp

lemma ue_fill_spec:
  "qs_inv it \<Longrightarrow> kvs = seen @ qs_items it \<Longrightarrow> set (map fst kvs) \<subseteq> set keys \<Longrightarrow> distinct keys \<Longrightarrow>
     \<exists>m'. ue_fill it m (map (\<lambda>k. (k, ue_at kvs seen k)) keys) = Some (Inr (map (\<lambda>k. (k, ue_at kvs kvs k)) keys, m'))"
proof (induction "qs_items it" arbitrary: it seen m)
  case Nil
  then show ?case by (simp add: ue_fill.simps [of it] qs_ended_iff)
next
  case (Cons kv rest)
  obtain k v where kv: "kv = (k, v)" by fastforce
  from query_string.deref_law [OF Cons.prems(1), of k v rest m] Cons.hyps(2) kv obtain it1 m1
    where 1: "qs_deref it m = ((k, v), it1, m1)" "qs_items it1 = kv # rest" "qs_inv it1" by auto
  from query_string.nxt_law [OF 1(3,2)] have 2: "qs_items (qs_next it1) = rest" "qs_inv (qs_next it1)" by auto
  from Cons.prems(2) Cons.hyps(2) kv have kvs: "kvs = seen @ (k, v) # rest" by simp
  have vs: "vals_of k kvs = vals_of k seen @ v # vals_of k rest" using kvs by (simp add: vals_of_def)
  have step: "ue_store k v (map (\<lambda>j. (j, ue_at kvs seen j)) keys)
      = Some (Inr (map (\<lambda>j. (j, if j = k then ue_at kvs (seen @ [(k, v)]) k else ue_at kvs seen j)) keys))"
  proof (rule ue_store_map)
    show "k \<in> set keys" using Cons.prems(3) kvs by auto
    show "case ue_at kvs seen k of E_str _ \<Rightarrow> ue_at kvs (seen @ [(k, v)]) k = E_str v
        | E_arr cells nb \<Rightarrow> nb < length cells \<and> ue_at kvs (seen @ [(k, v)]) k = E_arr (cells[nb := Obj_string v]) (nb + 1)"
      using vs by (auto simp: ue_at_def Let_def vals_of_snoc list_update_append Suc_diff_Suc [symmetric] split: list.splits)
  qed (use Cons.prems in simp)
  have "(\<lambda>j. (j, if j = k then ue_at kvs (seen @ [(k, v)]) k else ue_at kvs seen j))
      = (\<lambda>j. (j, ue_at kvs (seen @ [(k, v)]) j))"
    by (auto simp: fun_eq_iff ue_at_def vals_of_snoc)
  with step have "ue_store k v (map (\<lambda>j. (j, ue_at kvs seen j)) keys)
      = Some (Inr (map (\<lambda>j. (j, ue_at kvs (seen @ [(k, v)]) j)) keys))" by simp
  moreover have "\<not> qs_ended it" using Cons.prems(1) Cons.hyps(2) qs_ended_iff by (metis list.distinct(1))
  moreover note Cons.hyps(1) [OF 2(1) [symmetric] 2(2) _ Cons.prems(3,4), of "seen @ [(k, v)]" m1]
  ultimately show ?case using 1 2 kvs by (simp add: ue_fill.simps [of it])
qed

lemma ue_at_complete: "entry_obj (ue_at kvs kvs k) = group_entry (vals_of k kvs)"
  by (cases "vals_of k kvs" rule: remdups_adj.cases) (auto simp: ue_at_def group_entry_def Let_def)

text \<open>
  C32. A URL-encoded body is parsed into one entry per distinct decoded key, the decoded value of a
  unique key as a string and the decoded values of a repeated key as an array in order, for every
  order of the hash table's keys and every split into buffers. No value is written outside the
  array counted for its key, and no key of the second pass is missing.
\<close>

theorem urlencoded_body:
  assumes "chain \<noteq> []" and "sz \<le> length (concat chain)"
    and "\<And>ks. distinct ks \<Longrightarrow> distinct (key_order ks) \<and> set (key_order ks) = set ks"
  shows "\<exists>m'. parse_urlencoded key_order chain sz m =
     (let kvs = map (kv_of False) (pieces (CHR ''&'') (take sz (concat chain)))
      in Some (Inr (Some (Obj_map (map (\<lambda>k. (k, group_entry (vals_of k kvs))) (key_order (nub (map fst kvs))))), m')))"
proof -
  let ?it = "qs_make (take sz (concat chain)) (CHR ''&'') False"
  define kvs where "kvs = map (kv_of False) (pieces (CHR ''&'') (take sz (concat chain)))"
  have it: "qs_inv ?it" "qs_items ?it = kvs" "qs_all ?it = kvs"
    by (simp_all add: qs_inv_def qs_items_def qs_all_def qs_make_def qs_rest_def kvs_def)
  from query_string.count_keys_spec [OF it(1), of "snd (allocate_string sz m)" "[]"] it obtain it1 m1
    where c: "count_keys qs_ended (\<lambda>it m. Some (qs_cur_key it m)) (\<lambda>it m. Some (qs_next it, m)) ?it
        (snd (allocate_string sz m)) [] = Some (it1, m1, bag_of (map fst kvs))" "qs_all it1 = kvs" "qs_inv it1"
    by (auto simp: bag_of_def)
  define keys where "keys = key_order (nub (map fst kvs))"
  have keys: "distinct keys" "set keys = set (map fst kvs)"
    using assms(3) [of "nub (map fst kvs)"] by (simp_all add: keys_def)
  have "ue_at kvs [] k = ue_entry (bag_get (bag_of (map fst kvs)) k)" for k
    by (simp add: ue_at_def ue_entry_def bag_of_get length_vals_of vals_of_def [of k "[]"])
  then have e: "map (\<lambda>k. (k, ue_entry (bag_get (bag_of (map fst kvs)) k))) keys = map (\<lambda>k. (k, ue_at kvs [] k)) keys"
    by simp
  note r = query_string.reset_law [OF c(3)]
  from ue_fill_spec [OF conjunct2 [OF r], of kvs "[]" keys
      "ue_alloc_arrays (map (bag_get (bag_of (map fst kvs))) keys) (snd (allocate_objects (length (bag_of (map fst kvs))) m1))"]
    r c(2) keys obtain m' where f:
    "ue_fill (qs_reset it1) (ue_alloc_arrays (map (bag_get (bag_of (map fst kvs))) keys)
        (snd (allocate_objects (length (bag_of (map fst kvs))) m1))) (map (\<lambda>k. (k, ue_at kvs [] k)) keys)
       = Some (Inr (map (\<lambda>k. (k, ue_at kvs kvs k)) keys, m'))" by auto
  from c(1) linearize_chain_spec [OF assms(1), of sz m] assms(2) f [folded e] show ?thesis
    unfolding parse_urlencoded_def kvs_def [symmetric]
    by (auto simp: case_prod_beta Let_def bag_of_keys keys_def [symmetric] ue_at_complete comp_def)
qed

theorem urlencoded_body_witness:
  "\<exists>m'. parse_urlencoded (\<lambda>ks. ks) [''a=1&'', ''b=x+y&a=%32''] 15 memres_init
     = Some (Inr (Some (Obj_map [(''a'', Obj_array [Obj_string ''1'', Obj_string ''2'']), (''b'', Obj_string ''x y'')]), m'))"
proof -
  have "map (kv_of False) (pieces (CHR ''&'') ''a=1&b=x+y&a=%32'') = [(''a'', ''1''), (''b'', ''x y''), (''a'', ''2'')]"
    by (simp add: pieces.simps kv_of_def decoded_def decode_percent_def decode_plus_def isxdigit_def isdigit_def
        hex_byte_def hex_val_def char_of_def bit_Suc_0_iff)
  then show ?thesis
    using urlencoded_body [of "[''a=1&'', ''b=x+y&a=%32'']" 15 "\<lambda>ks. ks" memres_init]
    by (simp add: vals_of_def group_entry_def Let_def)
qed

lemma is_content_type_prefix:
  assumes "is_content_type ct t" and "is_content_type ct t'"
    and "\<forall>c \<in> set (t @ t'). c \<noteq> CHR '';'' \<and> c \<noteq> SP \<and> c \<noteq> HT"
  shows "t = t'"
proof -
  define sv where "sv = dropWhile (\<lambda>c. c = SP \<or> c = HT) ct"
  have body: "map tolower (take (length u) sv) = u \<and> length u \<le> length sv
      \<and> (drop (length u) sv = [] \<or> hd (drop (length u) sv) \<in> {CHR '';'', SP, HT})"
    if "is_content_type ct u" for u
    using that unfolding is_content_type_def sv_def [symmetric] Let_def
    by (cases "length sv < length u"; cases "map tolower (take (length u) sv) = u") simp_all
  have eq: "t1 = t2" if le: "length t1 \<le> length t2" and 1: "is_content_type ct t1" and 2: "is_content_type ct t2"
      and ok: "\<forall>c \<in> set (t1 @ t2). c \<noteq> CHR '';'' \<and> c \<noteq> SP \<and> c \<noteq> HT" for t1 t2
  proof (cases "length t1 = length t2")
    case True
    with body [OF 1] body [OF 2] show ?thesis by metis
  next
    case False
    from body [OF 1] body [OF 2] have m: "map tolower (take (length t1) sv) = t1" "map tolower (take (length t2) sv) = t2"
        "length t2 \<le> length sv"
        "drop (length t1) sv = [] \<or> hd (drop (length t1) sv) \<in> {CHR '';'', SP, HT}"
      by blast+
    have lt: "length t1 < length t2" using le False by simp
    then have "hd (drop (length t1) sv) = sv ! length t1" "length t1 < length sv"
      using m(3) by (auto simp: hd_drop_conv_nth)
    with m(4) have "sv ! length t1 \<in> {CHR '';'', SP, HT}" by auto
    moreover have "t2 ! length t1 = tolower (sv ! length t1)"
      using lt m(2,3) by (metis nth_map nth_take length_take min.absorb2)
    ultimately have "t2 ! length t1 \<in> {CHR '';'', SP, HT}" by (auto simp: tolower_keep)
    moreover have "t2 ! length t1 \<in> set t2" using lt by simp
    ultimately show ?thesis using ok by auto
  qed
  show ?thesis
    using eq [of t t'] eq [of t' t] assms by (cases "length t \<le> length t'") auto
qed

lemmas content_type_tests = is_req_json_def is_req_multipart_def is_req_urlencoded_def is_req_text_plain_def

text \<open>
  The content-type tests exclude one another, so that a request whose JSON body gives no object
  is reported as not parsed although the code goes on to test for the other types.
\<close>

theorem json_failure_not_parsed:
  assumes "is_req_json req" and "parse_json reader ([], Obj_invalid) chain sz = Some (False, e)"
  shows "parse_body_req reader key_order req chain sz m = Some (Inr (None, m)) \<and>
     \<not> is_req_multipart req \<and> \<not> is_req_urlencoded req \<and> \<not> is_req_text_plain req"
proof -
  from assms(1) obtain ct where ct: "br_content_type_in req = Some ct" "is_content_type ct ''application/json''"
    by (auto simp: is_req_json_def split: option.splits)
  have "\<not> is_content_type ct t" if "t \<in> {''multipart/form-data'', ''application/x-www-form-urlencoded'', ''text/plain''}" for t
    using that is_content_type_prefix [OF ct(2), of t] by auto
  with ct have n: "\<not> is_req_multipart req" "\<not> is_req_urlencoded req" "\<not> is_req_text_plain req"
    by (simp_all add: content_type_tests)
  with ct assms show ?thesis by (simp add: parse_body_req_def Let_def)
qed

theorem json_failure_not_parsed_witness:
  "parse_body_req (\<lambda>is. ([], True)) (\<lambda>ks. ks) \<lparr>br_content_type_in = Some ''Application/JSON; charset=utf-8'', br_content_type_out = [], br_header_only = False\<rparr>
     [''}''] 1 memres_init = Some (Inr (None, memres_init))"
  using json_failure_not_parsed [of "\<lparr>br_content_type_in = Some ''Application/JSON; charset=utf-8'', br_content_type_out = [], br_header_only = False\<rparr>"
      "\<lambda>is. ([], True)" "[''}'']" 1 "([], Obj_invalid)" "\<lambda>ks. ks" memres_init]
  by (simp add: is_req_json_def is_content_type_def tolower_keep parse_json_def rstream_of_def handler_init_def
      finish_def close_all.simps)

text \<open>
  C19. A multipart request end to end: for a request whose Content-Type is rendered with a list of
  parameters, the body rendered with the boundary parameter is parsed into the map of its named
  parts.
\<close>

theorem multipart_request_parsed:
  assumes "br_content_type_in req = Some (''multipart/form-data'' @ render_params params)"
    and "list_all param_ok params"
    and "b = ct_boundary (fold (\<lambda>(n, v). set_param n v) params
       \<lparr>ct_type = ''multipart'', ct_subtype = ''form-data'', ct_encoding = [], ct_boundary = []\<rparr>)"
    and "boundary_ok b" and "ps \<noteq> []" and "list_all (part_ok b) ps"
    and "chain \<noteq> []" and "[] \<notin> set (tl chain)" and "concat chain = render_multipart b ps"
  shows "parse_body_req reader key_order req chain sz m =
     Some (Inr (if named_fields ps = [] then None
           else Some (Obj_map (map (\<lambda>k. (k, field_obj (values_of k (named_fields ps))))
             (sorted_list_of_set (fst ` set (named_fields ps))))), m))"
proof -
  let ?ct = "''multipart/form-data'' @ render_params params"
  have "for_string ?ct = Some (fold (\<lambda>(n, v). set_param n v) params
      \<lparr>ct_type = ''multipart'', ct_subtype = ''form-data'', ct_encoding = [], ct_boundary = []\<rparr>)"
    using for_string_render [of "''multipart''" "''form-data''" params] assms(2)
    by (simp add: is_token_def tchar_def to_lc_def tolower_keep)
  moreover have "is_content_type ?ct ''multipart/form-data''"
    using render_params_hd [of params] by (auto simp: is_content_type_def tolower_keep)
  moreover from this have "\<not> is_content_type ?ct ''application/json''"
    using is_content_type_prefix [of ?ct "''multipart/form-data''" "''application/json''"] by auto
  ultimately show ?thesis
    using assms(1) parse_multipart_render [OF assms(4-9)] assms(3)
    by (simp add: parse_body_req_def content_type_tests)
qed

theorem multipart_request_parsed_witness:
  "parse_body_req (\<lambda>is. ([], True)) (\<lambda>ks. ks) \<lparr>br_content_type_in = Some ''multipart/form-data; boundary=B'', br_content_type_out = [], br_header_only = False\<rparr>
     [''--B'' @ CRLF @ ''Content-Disposition: form-data; name='', ''a'' @ CRLF @ CRLF @ ''x'' @ CRLF @ ''--B--'' @ CRLF] 60 memres_init
     = Some (Inr (Some (Obj_map [(''a'', Obj_string ''x'')]), memres_init))"
proof -
  let ?p = "([(''Content-Disposition: form-data; name=a'', [])], ''x'')"
  have n: "part_name ?p = ''a''"
    by (simp add: part_name_def cd_header_def cd_value_def tolower_keep cd_params.simps after_semicolon_def is_ext_ws_def param_content_def)
  then have "named_fields [?p] = [(''a'', ''x'')]" by (simp add: named_fields_def)
  then show ?thesis
    using multipart_request_parsed [of "\<lparr>br_content_type_in = Some ''multipart/form-data; boundary=B'', br_content_type_out = [], br_header_only = False\<rparr>"
      "[(''boundary'', ''B'')]" "''B''" "[?p]" "[''--B'' @ CRLF @ ''Content-Disposition: form-data; name='', ''a'' @ CRLF @ CRLF @ ''x'' @ CRLF @ ''--B--'' @ CRLF]"
      "\<lambda>is. ([], True)" "\<lambda>ks. ks" 60 memres_init]
    by (simp add: boundary_ok_def no_crlf_def part_ok_def line_ok_def piece_ok_def is_ext_ws_def content_ok_def
        starts_with_def delim_def render_multipart_def render_headers_def values_of_def field_obj_def
        param_ok_def is_token_def tchar_def quotable_def rendered_value_def set_param_def equals_ci_def tolower_keep)
qed

end
