(* ===== verification/Collection.thy ===== *)
theory Collection
  imports Ngx_List Kv_Collect Body_Parsing
begin

text \<open>
  The data handed to the WAF: \<^verbatim>\<open>ReqSerializer\<close> of \<^verbatim>\<open>src/security/collection.cpp\<close>, with the header
  iterator \<^verbatim>\<open>HeaderKeyValueIter\<close>. \<^const>\<open>None\<close> is an access out of bounds.
\<close>

section \<open>HeaderKeyValueIter\<close>

record hk_iter =
  hk_request :: bool
  hk_list :: "header_elt ngx_list"
  hk_exclude :: bytes
  hk_lc_keys :: "(bytes \<times> bytes) list"
  hk_pos :: ngx_pos

definition hk_make :: "bool \<Rightarrow> header_elt ngx_list \<Rightarrow> bytes \<Rightarrow> hk_iter" where
  "hk_make is_request ps exclude = \<lparr>hk_request = is_request, hk_list = ps, hk_exclude = exclude,
     hk_lc_keys = [], hk_pos = ngx_begin\<rparr>"

definition hk_reset :: "hk_iter \<Rightarrow> hk_iter" where
  "hk_reset it = it\<lparr>hk_pos := ngx_begin\<rparr>"

definition hk_ended :: "hk_iter \<Rightarrow> bool" where
  "hk_ended it \<longleftrightarrow> hk_pos it = ngx_end (hk_list it)"

definition safe_lowcase_key :: "header_elt \<Rightarrow> hk_iter \<Rightarrow> memres \<Rightarrow> bytes \<times> hk_iter \<times> memres" where
  "safe_lowcase_key h it m =
     (if hk_request it then (take (length (he_key h)) (he_lowcase_key h), it, m)
      else case map_of (hk_lc_keys it) (he_key h) of
        Some lc \<Rightarrow> (lc, it, m)
      | None \<Rightarrow>
          let (_, m1) = allocate_string (length (he_key h)) m;
              lc_sv = map tolower (he_key h)
          in (lc_sv, it\<lparr>hk_lc_keys := (he_key h, lc_sv) # hk_lc_keys it\<rparr>, m1))"

text \<open>
  \<^verbatim>\<open>operator++\<close>. The key it compares is cached as a side effect.
\<close>

partial_function (option) hk_next :: "hk_iter \<Rightarrow> memres \<Rightarrow> (hk_iter \<times> memres) option" where
  "hk_next it m =
     (let it1 = it\<lparr>hk_pos := ngx_incr (hk_list it) (hk_pos it)\<rparr>
      in if hk_pos it1 = ngx_end (hk_list it1) then Some (it1, m)
         else ngx_deref (hk_list it1) (hk_pos it1) \<bind> (\<lambda>h.
           case safe_lowcase_key h it1 m of (lc_key, it2, m2) \<Rightarrow>
             if lc_key \<noteq> hk_exclude it2 then Some (it2, m2) else hk_next it2 m2))"

definition hk_cur_key :: "hk_iter \<Rightarrow> memres \<Rightarrow> (bytes \<times> hk_iter \<times> memres) option" where
  "hk_cur_key it m = ngx_deref (hk_list it) (hk_pos it) \<bind> (\<lambda>h. Some (safe_lowcase_key h it m))"

definition hk_deref :: "hk_iter \<Rightarrow> memres \<Rightarrow> ((bytes \<times> bytes) \<times> hk_iter \<times> memres) option" where
  "hk_deref it m = ngx_deref (hk_list it) (hk_pos it) \<bind> (\<lambda>h.
     case safe_lowcase_key h it m of (lc, it1, m1) \<Rightarrow> Some ((lc, he_value h), it1, m1))"

definition hk_is_delete :: "hk_iter \<Rightarrow> bool" where
  "hk_is_delete it =
     (if hk_request it then False
      else case ngx_deref (hk_list it) (hk_pos it) of None \<Rightarrow> False | Some h \<Rightarrow> he_hash h = 0)"

section \<open>ReqSerializer\<close>

text \<open>
  The parts of the request that are read. \<open>cr_cookies\<close> is \<^verbatim>\<open>headers_in.cookie\<close> with its \<^verbatim>\<open>next\<close> links,
  \<^const>\<open>None\<close> for the nginx versions without that member.
\<close>

record coll_request =
  cr_args :: bytes
  cr_unparsed_uri :: bytes
  cr_method_name :: bytes
  cr_headers_in :: "header_elt ngx_list"
  cr_cookies :: "bytes list option"
  cr_status :: nat
  cr_headers_out :: "header_elt ngx_list"
  cr_body :: body_request

definition set_request_query :: "coll_request \<Rightarrow> memres \<Rightarrow> (entry \<times> memres) option" where
  "set_request_query r m =
     (if cr_args r = [] then Some ((''server.request.query'', Obj_array []), m)
      else set_value_from_iter qs_ended (\<lambda>it m. Some (qs_cur_key it m)) (\<lambda>it m. Some (qs_deref it m)) (\<lambda>it. False)
             (\<lambda>it m. Some (qs_next it, m)) qs_reset (qs_make (cr_args r) (CHR ''&'') False) m \<bind>
           (\<lambda>(v, m1). Some ((''server.request.query'', v), m1)))"

definition set_request_headers_nocookies :: "coll_request \<Rightarrow> memres \<Rightarrow> (entry \<times> memres) option" where
  "set_request_headers_nocookies r m =
     set_value_from_iter hk_ended hk_cur_key hk_deref hk_is_delete hk_next hk_reset
       (hk_make True (cr_headers_in r) ''cookie'') m \<bind>
     (\<lambda>(v, m1). Some ((''server.request.headers.no_cookies'', v), m1))"

definition cookie_values :: "coll_request \<Rightarrow> bytes list option" where
  "cookie_values r =
     (case cr_cookies r of
        Some vs \<Rightarrow> Some vs
      | None \<Rightarrow> ngx_collect (cr_headers_in r) ngx_begin \<bind> (\<lambda>hs.
          Some (map he_value (filter (\<lambda>h. take (length (he_key h)) (he_lowcase_key h) = ''cookie'') hs))))"

primrec add_cookies :: "bytes list \<Rightarrow> qs_agg \<Rightarrow> qs_agg option" where
  "add_cookies [] a = Some a"
| "add_cookies (v # vs) a = agg_add (qs_make v (CHR '';'') True) a \<bind> add_cookies vs"

definition set_request_cookie :: "coll_request \<Rightarrow> memres \<Rightarrow> (entry \<times> memres) option" where
  "set_request_cookie r m =
     cookie_values r \<bind> (\<lambda>vs. add_cookies vs agg_init \<bind> (\<lambda>iter.
       if agg_ended iter then Some ((''server.request.cookies'', Obj_map []), m)
       else set_value_from_iter agg_ended agg_cur_key agg_deref (\<lambda>a. False)
              (\<lambda>a m. agg_next a \<bind> (\<lambda>a'. Some (a', m))) agg_reset iter m \<bind>
            (\<lambda>(v, m1). Some ((''server.request.cookies'', v), m1))))"

definition set_client_ip :: "bytes option \<Rightarrow> memres \<Rightarrow> entry \<times> memres" where
  "set_client_ip cl_ip m =
     (case cl_ip of
        None \<Rightarrow> ((''http.client_ip'', Obj_null), m)
      | Some ip \<Rightarrow> ((''http.client_ip'', Obj_string ip), snd (allocate_string (length ip) m)))"

definition serialize :: "coll_request \<Rightarrow> bytes option \<Rightarrow> memres \<Rightarrow> (ddwaf_obj \<times> memres) option" where
  "serialize r client_ip m =
     (let m1 = snd (allocate_objects 6 (snd (allocate_objects 1 m)))
      in set_request_query r m1 \<bind> (\<lambda>(query, m2).
           set_request_headers_nocookies r m2 \<bind> (\<lambda>(headers, m3).
             set_request_cookie r m3 \<bind> (\<lambda>(cookies, m4).
               case set_client_ip client_ip m4 of (ip, m5) \<Rightarrow>
                 Some (Obj_map [query, (''server.request.uri.raw'', Obj_string (cr_unparsed_uri r)),
                   (''server.request.method'', Obj_string (cr_method_name r)), headers, cookies, ip], m5)))))"

definition digit :: "nat \<Rightarrow> byte" where
  "digit n = char_of (n + 48)"

definition set_response_status :: "coll_request \<Rightarrow> memres \<Rightarrow> entry \<times> memres" where
  "set_response_status r m =
     (let status = cr_status r
      in if status = 200 then ((''server.response.status'', Obj_string ''200''), m)
         else if status = 404 then ((''server.response.status'', Obj_string ''404''), m)
         else if status = 301 then ((''server.response.status'', Obj_string ''301''), m)
         else if status = 302 then ((''server.response.status'', Obj_string ''302''), m)
         else if status = 303 then ((''server.response.status'', Obj_string ''303''), m)
         else if status = 201 then ((''server.response.status'', Obj_string ''201''), m)
         else if status < 100 \<or> 599 < status then ((''server.response.status'', Obj_string ''0''), m)
         else ((''server.response.status'',
                Obj_string [digit (status div 10 div 10), digit (status div 10 mod 10), digit (status mod 10)]),
               snd (allocate_string 3 m)))"

definition set_response_headers_no_cookies :: "coll_request \<Rightarrow> memres \<Rightarrow> (entry \<times> memres) option" where
  "set_response_headers_no_cookies r m =
     set_value_from_iter hk_ended hk_cur_key hk_deref hk_is_delete hk_next hk_reset
       (hk_make False (cr_headers_out r) ''set-cookie'') m \<bind>
     (\<lambda>(v, m1). Some ((''server.response.headers.no_cookies'', v), m1))"

text \<open>The result of \<^verbatim>\<open>parse_body_resp\<close> is ignored: the slot stays zero-initialised when it fails.\<close>

definition set_response_body ::
  "(rstream \<Rightarrow> sax list \<times> bool) \<Rightarrow> coll_request \<Rightarrow> chain \<Rightarrow> nat \<Rightarrow> memres \<Rightarrow> (exn + (entry \<times> memres)) option" where
  "set_response_body reader r body_chain body_size m =
     parse_body_resp reader (cr_body r) body_chain body_size m \<bind> (\<lambda>res.
       case res of Inl e \<Rightarrow> Some (Inl e)
       | Inr (None, m1) \<Rightarrow> Some (Inr ((''server.response.body'', Obj_invalid), m1))
       | Inr (Some v, m1) \<Rightarrow> Some (Inr ((''server.response.body'', v), m1)))"

definition serialize_end ::
  "(rstream \<Rightarrow> sax list \<times> bool) \<Rightarrow> coll_request \<Rightarrow> chain \<Rightarrow> nat \<Rightarrow> bool \<Rightarrow> memres
     \<Rightarrow> (exn + (ddwaf_obj \<times> memres)) option" where
  "serialize_end reader r body_chain body_size extract_schema m =
     (let has_body = (body_chain \<noteq> [] \<and> 0 < body_size);
          nb_entries = 2 + (if extract_schema then 1 else 0) + (if has_body then 1 else 0);
          m1 = snd (allocate_objects nb_entries (snd (allocate_objects 1 m)));
          (status, m2) = set_response_status r m1;
          schema = (if extract_schema
                    then [(''waf.context.processor'', Obj_map [(''extract-schema'', Obj_bool True)])] else [])
      in set_response_headers_no_cookies r m2 \<bind> (\<lambda>(headers, m3).
           if has_body then
             set_response_body reader r body_chain body_size m3 \<bind> (\<lambda>res.
               case res of Inl e \<Rightarrow> Some (Inl e)
               | Inr (body, m4) \<Rightarrow> Some (Inr (Obj_map ([status, headers, body] @ schema), m4)))
           else Some (Inr (Obj_map ([status, headers] @ schema), m3))))"

section \<open>The request header iterator keeps the interface\<close>

definition lc_of :: "header_elt \<Rightarrow> bytes" where
  "lc_of h = take (length (he_key h)) (he_lowcase_key h)"

definition hk_pairs :: "bytes \<Rightarrow> header_elt list \<Rightarrow> (bytes \<times> bytes) list" where
  "hk_pairs excl hs = (case hs of [] \<Rightarrow> []
     | h # t \<Rightarrow> map (\<lambda>h. (lc_of h, he_value h)) (h # filter (\<lambda>h. lc_of h \<noteq> excl) t))"

definition hk_items :: "hk_iter \<Rightarrow> (bytes \<times> bytes) list" where
  "hk_items it = hk_pairs (hk_exclude it) (ngx_rest (hk_list it) (hk_pos it))"

definition hk_all :: "hk_iter \<Rightarrow> (bytes \<times> bytes) list" where
  "hk_all it = hk_pairs (hk_exclude it) (concat (hk_list it))"

definition hk_inv :: "hk_iter \<Rightarrow> bool" where
  "hk_inv it \<longleftrightarrow> hk_request it \<and> ngx_list_ok (hk_list it) \<and> ngx_norm (hk_list it) (hk_pos it)"

lemma safe_lowcase_request: "hk_request it \<Longrightarrow> safe_lowcase_key h it m = (lc_of h, it, m)"
  by (simp add: safe_lowcase_key_def lc_of_def)

lemma hk_next_rest:
  "hk_request it \<Longrightarrow> ngx_norm (hk_list it) (hk_pos it) \<Longrightarrow> ngx_rest (hk_list it) (hk_pos it) = h # hs \<Longrightarrow>
     \<exists>pos'. hk_next it m = Some (it\<lparr>hk_pos := pos'\<rparr>, m) \<and> ngx_norm (hk_list it) pos'
       \<and> ngx_rest (hk_list it) pos' = dropWhile (\<lambda>h. lc_of h = hk_exclude it) hs"
proof (induction hs arbitrary: it h)
  case Nil
  note c = ngx_rest_Cons [OF Nil(2,3)]
  then have "ngx_incr (hk_list it) (hk_pos it) = ngx_end (hk_list it)" using ngx_end_iff by blast
  with c show ?case
    by (intro exI [of _ "ngx_incr (hk_list it) (hk_pos it)"]) (simp add: hk_next.simps [of it])
next
  case (Cons h' hs)
  let ?pos = "ngx_incr (hk_list it) (hk_pos it)"
  note c = ngx_rest_Cons [OF Cons.prems(2,3)]
  note d = ngx_rest_Cons [OF c(3,2)]
  have ne: "?pos \<noteq> ngx_end (hk_list it)" using ngx_end_iff [OF c(3)] c(2) by auto
  let ?it = "it\<lparr>hk_pos := ?pos\<rparr>"
  show ?case
  proof (cases "lc_of h' = hk_exclude it")
    case True
    with Cons.IH [of ?it h'] Cons.prems(1) c ne d show ?thesis
      by (simp add: hk_next.simps [of it] safe_lowcase_request)
  next
    case False
    with Cons.prems(1) c ne d show ?thesis
      by (intro exI [of _ ?pos]) (simp add: hk_next.simps [of it] safe_lowcase_request)
  qed
qed

lemma hk_pairs_dropWhile:
  "hk_pairs excl (dropWhile (\<lambda>h. lc_of h = excl) hs) = map (\<lambda>h. (lc_of h, he_value h)) (filter (\<lambda>h. lc_of h \<noteq> excl) hs)"
  by (induction hs) (auto simp: hk_pairs_def)

interpretation request_headers: kv_source hk_ended hk_cur_key hk_deref hk_is_delete hk_next hk_reset
  hk_items hk_all hk_inv
proof (unfold_locales, goal_cases)
  case (1 it)
  then show ?case
    by (auto simp: hk_inv_def hk_ended_def hk_items_def hk_pairs_def ngx_end_iff split: list.splits)
next
  case (2 it k v kvs m)
  then obtain h hs where r: "ngx_rest (hk_list it) (hk_pos it) = h # hs" "k = lc_of h"
    by (auto simp: hk_items_def hk_pairs_def split: list.splits)
  with 2 ngx_rest_Cons(1) [of "hk_list it" "hk_pos it"] show ?case
    by (auto simp: hk_cur_key_def hk_inv_def safe_lowcase_request)
next
  case (3 it k v kvs m)
  then obtain h hs where r: "ngx_rest (hk_list it) (hk_pos it) = h # hs" "k = lc_of h" "v = he_value h"
    by (auto simp: hk_items_def hk_pairs_def split: list.splits)
  with 3 ngx_rest_Cons(1) [of "hk_list it" "hk_pos it"] show ?case
    by (auto simp: hk_deref_def hk_inv_def safe_lowcase_request hk_is_delete_def)
next
  case (4 it kv kvs m)
  then obtain h hs where r: "ngx_rest (hk_list it) (hk_pos it) = h # hs"
      "kvs = map (\<lambda>h. (lc_of h, he_value h)) (filter (\<lambda>h. lc_of h \<noteq> hk_exclude it) hs)"
    by (auto simp: hk_items_def hk_pairs_def split: list.splits)
  from hk_next_rest [of it h hs m] 4 r obtain pos'
    where p: "hk_next it m = Some (it\<lparr>hk_pos := pos'\<rparr>, m)" "ngx_norm (hk_list it) pos'"
      "ngx_rest (hk_list it) pos' = dropWhile (\<lambda>h. lc_of h = hk_exclude it) hs" by (auto simp: hk_inv_def)
  with 4 r show ?case
    by (auto simp: hk_items_def hk_all_def hk_inv_def hk_pairs_dropWhile)
next
  case (5 it)
  then show ?case
    using ngx_begin_norm [of "hk_list it"]
    by (auto simp: hk_reset_def hk_items_def hk_all_def hk_inv_def)
qed

section \<open>Properties\<close>

lemma hk_make_inv: "ngx_list_ok ps \<Longrightarrow> hk_inv (hk_make True ps excl) \<and> hk_items (hk_make True ps excl) = hk_all (hk_make True ps excl)"
  using ngx_begin_norm [of ps] by (simp add: hk_make_def hk_inv_def hk_items_def hk_all_def)

text \<open>
  C33. The request headers collected for the WAF: every header but those named \<^verbatim>\<open>cookie\<close>, grouped by
  lower-case name, in order; but the first header of the request is collected even when it is a
  Cookie header, since the exclusion is only tested when the iterator advances.
\<close>

theorem request_headers_collected:
  assumes "ngx_list_ok (cr_headers_in r)"
  shows "\<exists>m'. set_request_headers_nocookies r m =
     Some ((''server.request.headers.no_cookies'',
            group_obj (case concat (cr_headers_in r) of [] \<Rightarrow> []
              | h # hs \<Rightarrow> map (\<lambda>h. (lc_of h, he_value h)) (h # filter (\<lambda>h. lc_of h \<noteq> ''cookie'') hs))), m')"
proof -
  from request_headers.set_value_groups [of "hk_make True (cr_headers_in r) ''cookie''" m] hk_make_inv [OF assms]
  obtain m' where "set_value_from_iter hk_ended hk_cur_key hk_deref hk_is_delete hk_next hk_reset
      (hk_make True (cr_headers_in r) ''cookie'') m = Some (group_obj (hk_all (hk_make True (cr_headers_in r) ''cookie'')), m')"
    by blast
  then show ?thesis
    by (simp add: set_request_headers_nocookies_def hk_all_def hk_make_def hk_pairs_def)
qed

theorem request_headers_collected_witness:
  "\<exists>m'. set_request_headers_nocookies
     \<lparr>cr_args = [], cr_unparsed_uri = ''/'', cr_method_name = ''GET'',
      cr_headers_in = [[\<lparr>he_key = ''Cookie'', he_lowcase_key = ''cookie'', he_value = ''s=1'', he_hash = 1\<rparr>,
                        \<lparr>he_key = ''Host'', he_lowcase_key = ''host'', he_value = ''x'', he_hash = 2\<rparr>]],
      cr_cookies = Some [''s=1''], cr_status = 200, cr_headers_out = [[]],
      cr_body = \<lparr>br_content_type_in = None, br_content_type_out = [], br_header_only = False\<rparr>\<rparr> memres_init
   = Some ((''server.request.headers.no_cookies'', Obj_map [(''cookie'', Obj_string ''s=1''), (''host'', Obj_string ''x'')]), m')"
  using request_headers_collected [of "\<lparr>cr_args = [], cr_unparsed_uri = ''/'', cr_method_name = ''GET'',
      cr_headers_in = [[\<lparr>he_key = ''Cookie'', he_lowcase_key = ''cookie'', he_value = ''s=1'', he_hash = 1\<rparr>,
                        \<lparr>he_key = ''Host'', he_lowcase_key = ''host'', he_value = ''x'', he_hash = 2\<rparr>]],
      cr_cookies = Some [''s=1''], cr_status = 200, cr_headers_out = [[]],
      cr_body = \<lparr>br_content_type_in = None, br_content_type_out = [], br_header_only = False\<rparr>\<rparr>" memres_init]
  by (simp add: ngx_list_ok_def lc_of_def group_obj_def group_entry_def vals_of_def)

lemma add_cookies_spec:
  "agg_cur a = 0 \<Longrightarrow> add_cookies vs a = Some (a\<lparr>agg_iters := agg_iters a @ map (\<lambda>v. qs_make v (CHR '';'') True) vs\<rparr>)"
  by (induction vs arbitrary: a) (simp_all add: agg_add_inv)

definition cookie_pairs :: "bytes list \<Rightarrow> (bytes \<times> bytes) list" where
  "cookie_pairs vs = concat (map (\<lambda>v. map (kv_of True) (pieces (CHR '';'') v)) vs)"

text \<open>
  The cookies collected for the WAF: when the first Cookie header is not empty, the trimmed and
  decoded pairs of all Cookie headers in order, grouped by name; an empty map without any.
\<close>

theorem cookies_collected:
  assumes "cookie_values r = Some vs" and "vs \<noteq> [] \<longrightarrow> hd vs \<noteq> []"
  shows "\<exists>m'. set_request_cookie r m = Some ((''server.request.cookies'', group_obj (cookie_pairs vs)), m')"
proof -
  define a where "a = \<lparr>agg_iters = map (\<lambda>v. qs_make v (CHR '';'') True) vs, agg_cur = 0\<rparr>"
  have add: "add_cookies vs agg_init = Some a"
    using add_cookies_spec [of agg_init vs] by (simp add: agg_init_def a_def)
  have all: "agg_all a = cookie_pairs vs" "agg_items a = agg_all a"
    by (simp_all add: agg_all_def agg_items_def a_def cookie_pairs_def qs_all_def qs_items_def qs_make_def
        qs_rest_def comp_def)
  show ?thesis
  proof (cases "vs = []")
    case True
    with assms(1) add show ?thesis
      by (simp add: set_request_cookie_def a_def agg_ended_def agg_init_def cookie_pairs_def group_obj_def)
  next
    case False
    with assms(2) have "agg_inv a"
      by (cases vs) (auto simp: agg_inv_def agg_settled_def a_def list_all_iff qs_inv_def qs_make_def qs_ended_def)
    from cookies.set_value_groups [OF this all(2), of m] assms(1) add all False show ?thesis
      by (auto simp: set_request_cookie_def agg_ended_def a_def)
  qed
qed

theorem cookies_collected_witness:
  "\<exists>m'. set_request_cookie
     \<lparr>cr_args = [], cr_unparsed_uri = ''/'', cr_method_name = ''GET'', cr_headers_in = [[]],
      cr_cookies = Some [''a=1; b=2''], cr_status = 200, cr_headers_out = [[]],
      cr_body = \<lparr>br_content_type_in = None, br_content_type_out = [], br_header_only = False\<rparr>\<rparr> memres_init
   = Some ((''server.request.cookies'', Obj_map [(''a'', Obj_string ''1''), (''b'', Obj_string ''2'')]), m')"
proof -
  have "cookie_pairs [''a=1; b=2''] = [(''a'', ''1''), (''b'', ''2'')]"
    by (simp add: cookie_pairs_def pieces.simps kv_of_def decoded_def decode_percent_def decode_plus_def
        trim_back_def isspace_def)
  then show ?thesis
    using cookies_collected [of "\<lparr>cr_args = [], cr_unparsed_uri = ''/'', cr_method_name = ''GET'', cr_headers_in = [[]],
      cr_cookies = Some [''a=1; b=2''], cr_status = 200, cr_headers_out = [[]],
      cr_body = \<lparr>br_content_type_in = None, br_content_type_out = [], br_header_only = False\<rparr>\<rparr>" "[''a=1; b=2'']" memres_init]
    by (simp add: cookie_values_def group_obj_def group_entry_def vals_of_def)
qed

section \<open>The response header iterator\<close>

text \<open>
  The iterator over response headers computes the lower-case names itself and caches them. Its pairs are marked with whether
  the header is deleted; the first header is not tested for exclusion.
\<close>

definition lc_key :: "header_elt \<Rightarrow> bytes" where
  "lc_key h = map tolower (he_key h)"

definition hk_marked :: "bytes \<Rightarrow> header_elt list \<Rightarrow> marked list" where
  "hk_marked excl hs = map (\<lambda>h. ((lc_key h, he_value h), he_hash h = 0))
     (case hs of [] \<Rightarrow> [] | h # t \<Rightarrow> h # filter (\<lambda>h. lc_key h \<noteq> excl) t)"

definition hk_resp_items :: "hk_iter \<Rightarrow> marked list" where
  "hk_resp_items it = hk_marked (hk_exclude it) (ngx_rest (hk_list it) (hk_pos it))"

definition hk_resp_all :: "hk_iter \<Rightarrow> marked list" where
  "hk_resp_all it = hk_marked (hk_exclude it) (concat (hk_list it))"

definition hk_resp_inv :: "hk_iter \<Rightarrow> bool" where
  "hk_resp_inv it \<longleftrightarrow> \<not> hk_request it \<and> ngx_list_ok (hk_list it) \<and> ngx_norm (hk_list it) (hk_pos it)
     \<and> (\<forall>k lc. map_of (hk_lc_keys it) k = Some lc \<longrightarrow> lc = map tolower k)"

text \<open>Looking a key up changes nothing but the cache.\<close>

definition hk_same :: "hk_iter \<Rightarrow> hk_iter \<Rightarrow> bool" where
  "hk_same it it' \<longleftrightarrow> hk_list it' = hk_list it \<and> hk_exclude it' = hk_exclude it \<and> hk_pos it' = hk_pos it \<and> hk_resp_inv it'"

lemma hk_same_items: "hk_same it it' \<Longrightarrow> hk_resp_items it' = hk_resp_items it \<and> hk_resp_all it' = hk_resp_all it"
  by (simp add: hk_same_def hk_resp_items_def hk_resp_all_def)

lemma safe_lowcase_response:
  assumes "hk_resp_inv it"
  shows "\<exists>it' m'. safe_lowcase_key h it m = (lc_key h, it', m') \<and> hk_same it it'"
  using assms
  by (cases "map_of (hk_lc_keys it) (he_key h)")
    (auto simp: safe_lowcase_key_def hk_resp_inv_def hk_same_def lc_key_def split_beta Let_def)

lemma hk_next_response:
  "hk_resp_inv it \<Longrightarrow> ngx_rest (hk_list it) (hk_pos it) = h # hs \<Longrightarrow>
     \<exists>it' m'. hk_next it m = Some (it', m') \<and> hk_resp_inv it' \<and> hk_list it' = hk_list it \<and> hk_exclude it' = hk_exclude it
       \<and> ngx_rest (hk_list it) (hk_pos it') = dropWhile (\<lambda>h. lc_key h = hk_exclude it) hs"
proof (induction hs arbitrary: it h m)
  case Nil
  then have norm: "ngx_norm (hk_list it) (hk_pos it)" by (simp add: hk_resp_inv_def)
  note c = ngx_rest_Cons [OF norm Nil(2)]
  then have "ngx_incr (hk_list it) (hk_pos it) = ngx_end (hk_list it)" using ngx_end_iff by blast
  with c Nil(1) show ?case by (simp add: hk_next.simps [of it] hk_resp_inv_def)
next
  case (Cons h' hs)
  let ?pos = "ngx_incr (hk_list it) (hk_pos it)"
  have norm: "ngx_norm (hk_list it) (hk_pos it)" using Cons.prems(1) by (simp add: hk_resp_inv_def)
  note c = ngx_rest_Cons [OF norm Cons.prems(2)]
  note d = ngx_rest_Cons [OF c(3,2)]
  have ne: "?pos \<noteq> ngx_end (hk_list it)" using ngx_end_iff [OF c(3)] c(2) by auto
  let ?it = "it\<lparr>hk_pos := ?pos\<rparr>"
  have inv: "hk_resp_inv ?it" using Cons.prems(1) c(3) by (simp add: hk_resp_inv_def)
  from safe_lowcase_response [OF inv, of h' m] obtain it2 m2
    where s: "safe_lowcase_key h' ?it m = (lc_key h', it2, m2)" "hk_same ?it it2" by blast
  then have it2: "hk_list it2 = hk_list it" "hk_exclude it2 = hk_exclude it" "hk_pos it2 = ?pos" "hk_resp_inv it2"
    by (simp_all add: hk_same_def)
  have e: "hk_next it m = (if lc_key h' \<noteq> hk_exclude it then Some (it2, m2) else hk_next it2 m2)"
    using ne d s it2 by (simp add: hk_next.simps [of it])
  show ?case
  proof (cases "lc_key h' = hk_exclude it")
    case True
    with e Cons.IH [OF it2(4), of h' m2] it2 c show ?thesis by auto
  next
    case False
    with e it2 c show ?thesis by auto
  qed
qed

lemma hk_marked_dropWhile:
  "hk_marked excl (dropWhile (\<lambda>h. lc_key h = excl) hs) = map (\<lambda>h. ((lc_key h, he_value h), he_hash h = 0)) (filter (\<lambda>h. lc_key h \<noteq> excl) hs)"
  by (induction hs) (auto simp: hk_marked_def)

interpretation response_headers: kv_marked hk_ended hk_cur_key hk_deref hk_is_delete hk_next hk_reset
  hk_resp_items hk_resp_all hk_resp_inv
proof (unfold_locales, goal_cases)
  case (1 it)
  then show ?case
    by (auto simp: hk_resp_inv_def hk_ended_def hk_resp_items_def hk_marked_def ngx_end_iff split: list.splits)
next
  case (2 it k v d ts m)
  then obtain h hs where r: "ngx_rest (hk_list it) (hk_pos it) = h # hs" "k = lc_key h"
    by (auto simp: hk_resp_items_def hk_marked_def split: list.splits)
  from 2 have norm: "ngx_norm (hk_list it) (hk_pos it)" by (simp add: hk_resp_inv_def)
  from safe_lowcase_response [OF 2(1), of h m] obtain it' m' where s: "safe_lowcase_key h it m = (lc_key h, it', m')" "hk_same it it'" by blast
  with r ngx_rest_Cons(1) [OF norm r(1)] hk_same_items [OF s(2)] show ?case by (auto simp: hk_cur_key_def hk_same_def)
next
  case (3 it k v d ts m)
  then obtain h hs where r: "ngx_rest (hk_list it) (hk_pos it) = h # hs" "k = lc_key h" "v = he_value h" "d = (he_hash h = 0)"
    by (auto simp: hk_resp_items_def hk_marked_def split: list.splits)
  from 3 have norm: "ngx_norm (hk_list it) (hk_pos it)" by (simp add: hk_resp_inv_def)
  from safe_lowcase_response [OF 3(1), of h m] obtain it' m' where s: "safe_lowcase_key h it m = (lc_key h, it', m')" "hk_same it it'" by blast
  with r ngx_rest_Cons(1) [OF norm r(1)] hk_same_items [OF s(2)] show ?case
    by (auto simp: hk_deref_def hk_same_def hk_is_delete_def hk_resp_inv_def)
next
  case (4 it t ts m)
  then obtain h hs where r: "ngx_rest (hk_list it) (hk_pos it) = h # hs"
      "ts = map (\<lambda>h. ((lc_key h, he_value h), he_hash h = 0)) (filter (\<lambda>h. lc_key h \<noteq> hk_exclude it) hs)"
    by (auto simp: hk_resp_items_def hk_marked_def split: list.splits)
  from hk_next_response [OF 4(1) r(1), of m] r(2) show ?case
    by (auto simp: hk_resp_items_def hk_resp_all_def hk_marked_dropWhile)
next
  case (5 it)
  then show ?case
    using ngx_begin_norm [of "hk_list it"]
    by (auto simp: hk_reset_def hk_resp_items_def hk_resp_all_def hk_resp_inv_def)
qed

text \<open>The response headers that are collected.\<close>

definition response_headers_of :: "coll_request \<Rightarrow> header_elt list" where
  "response_headers_of r =
     (case concat (cr_headers_out r) of [] \<Rightarrow> [] | h # hs \<Rightarrow> h # filter (\<lambda>h. lc_key h \<noteq> ''set-cookie'') hs)"

text \<open>
  C34. The collection of the response headers goes out of bounds exactly when, for some lower-case name, the first
  collected header of that name is marked as deleted (\<^verbatim>\<open>hash\<close> 0) and the second is not: the array made for the deleted header keeps
  \<^verbatim>\<open>nbEntries = num_occurr\<close>, where the next value is written, behind the array. In every other case, whatever is
  deleted, it ends with a result.
\<close>

theorem deleted_header_overflow:
  assumes "ngx_list_ok (cr_headers_out r)"
  shows "set_response_headers_no_cookies r m = None \<longleftrightarrow>
    (\<exists>name. take 2 (map (\<lambda>h. he_hash h = 0) (filter (\<lambda>h. map tolower (he_key h) = name) (response_headers_of r))) = [True, False])"
proof -
  let ?it = "hk_make False (cr_headers_out r) ''set-cookie''"
  have inv: "hk_resp_inv ?it" "hk_resp_items ?it = hk_resp_all ?it"
    using ngx_begin_norm [OF assms] assms by (simp_all add: hk_make_def hk_resp_inv_def hk_resp_items_def hk_resp_all_def)
  have "marks name (hk_resp_all ?it) = map (\<lambda>h. he_hash h = 0) (filter (\<lambda>h. map tolower (he_key h) = name) (response_headers_of r))" for name
    by (simp add: marks_def hk_resp_all_def hk_marked_def hk_make_def response_headers_of_def filter_map comp_def lc_key_def split: list.splits)
  with response_headers.set_value_marked [OF inv, of m] show ?thesis
    by (simp add: set_response_headers_no_cookies_def bind_eq_None_conv split_beta)
qed

text \<open>Witness: a deleted \<^verbatim>\<open>X-A\<close>, another header, then a live \<^verbatim>\<open>x-a\<close>.\<close>

definition overflow_request :: coll_request where
  "overflow_request = \<lparr>cr_args = [], cr_unparsed_uri = ''/'', cr_method_name = ''GET'', cr_headers_in = [[]],
      cr_cookies = None, cr_status = 200,
      cr_headers_out = [[\<lparr>he_key = ''X-A'', he_lowcase_key = ''x-a'', he_value = ''1'', he_hash = 0\<rparr>,
                         \<lparr>he_key = ''Etag'', he_lowcase_key = ''etag'', he_value = ''e'', he_hash = 1\<rparr>,
                         \<lparr>he_key = ''x-a'', he_lowcase_key = ''x-a'', he_value = ''2'', he_hash = 1\<rparr>]],
      cr_body = \<lparr>br_content_type_in = None, br_content_type_out = [], br_header_only = False\<rparr>\<rparr>"

theorem deleted_header_overflow_witness: "set_response_headers_no_cookies overflow_request memres_init = None"
proof -
  have ok: "ngx_list_ok (cr_headers_out overflow_request)" by (simp add: overflow_request_def ngx_list_ok_def)
  have "take 2 (map (\<lambda>h. he_hash h = 0) (filter (\<lambda>h. map tolower (he_key h) = ''x-a'') (response_headers_of overflow_request))) = [True, False]"
    by code_simp
  with deleted_header_overflow [OF ok, of memres_init] show ?thesis by blast
qed

lemma digit_simps:
  "digit 0 = CHR ''0''"
  "digit (Suc 0) = CHR ''1''"
  "digit 2 = CHR ''2''"
  "digit 3 = CHR ''3''"
  "digit 4 = CHR ''4''"
  "digit 5 = CHR ''5''"
  "digit 6 = CHR ''6''"
  "digit 7 = CHR ''7''"
  "digit 8 = CHR ''8''"
  "digit 9 = CHR ''9''"
  by (simp_all add: digit_def char_of_def bit_Suc_0_iff)

text \<open>
  The response status handed to the WAF is the three decimal digits of a status between 100
  and 599, and \<^verbatim>\<open>0\<close> for every other.
\<close>

theorem response_status_digits:
  "snd (fst (set_response_status r m)) =
     Obj_string (if 100 \<le> cr_status r \<and> cr_status r \<le> 599
       then [digit (cr_status r div 100), digit (cr_status r div 10 mod 10), digit (cr_status r mod 10)]
       else ''0'')"
proof -
  have "cr_status r div 10 div 10 = cr_status r div 100" by (simp add: div_mult2_eq [symmetric])
  then show ?thesis by (simp add: set_response_status_def Let_def digit_simps)
qed

end
