(* ===== verification/Client_Ip.thy ===== *)
theory Client_Ip
  imports Ngx_List
begin

text \<open>
  The client address: \<^verbatim>\<open>src/security/client_ip.cpp\<close>. Addresses are kept as the big-endian integers of
  their bytes, so that the byte swaps of the code, applied to both sides of every comparison,
  disappear. \<^verbatim>\<open>inet_pton\<close>, \<^verbatim>\<open>inet_ntop\<close> and nginx's hash step are parameters, collected in a record;
  \<^verbatim>\<open>inet_pton\<close> is applied to the bytes before the first NUL, as the C string is.
\<close>

unbundle bit_operations_syntax

section \<open>Addresses\<close>

datatype ip_addr = V4 "32 word" | V6 "64 word" "64 word"

record ip_env =
  inet_pton4 :: "bytes \<Rightarrow> 32 word option"
  inet_pton6 :: "bytes \<Rightarrow> (64 word \<times> 64 word) option"
  inet_ntop :: "ip_addr \<Rightarrow> bytes option"
  ngx_hash :: "64 word \<Rightarrow> byte \<Rightarrow> 64 word"

datatype af_hint = AF_UNSPEC | AF_INET | AF_INET6

text \<open>An address with the IPv4-mapped prefix becomes an IPv4 address.\<close>

definition from_v6 :: "64 word \<times> 64 word \<Rightarrow> ip_addr" where
  "from_v6 a = (case a of (hi, lo) \<Rightarrow>
     if hi = 0 \<and> drop_bit 32 lo = 0xFFFF then V4 (ucast lo) else V6 hi lo)"

definition from_string :: "ip_env \<Rightarrow> bytes \<Rightarrow> af_hint \<Rightarrow> ip_addr option" where
  "from_string env addr hint =
     (let addr_nult = takeWhile (\<lambda>c. c \<noteq> NUL) addr;
          v6 = map_option from_v6 (inet_pton6 env addr_nult)
      in if hint = AF_INET \<or> hint = AF_UNSPEC then
           (case inet_pton4 env addr_nult of
              Some a \<Rightarrow> Some (V4 a)
            | None \<Rightarrow> if hint = AF_INET then None else v6)
         else v6)"

definition priv_ranges_v4 :: "(32 word \<times> 32 word) list" where
  "priv_ranges_v4 =
     [(0x0A000000, 0xFF000000), (0xAC100000, 0xFFF00000), (0xC0A80000, 0xFFFF0000),
      (0x7F000000, 0xFF000000), (0xA9FE0000, 0xFFFF0000), (0x64400000, 0xFFC00000)]"

definition is_private_v4 :: "32 word \<Rightarrow> bool" where
  "is_private_v4 a \<longleftrightarrow> list_ex (\<lambda>(base, m). a AND m = base) priv_ranges_v4"

definition priv_ranges_v6 :: "((64 word \<times> 64 word) \<times> (64 word \<times> 64 word)) list" where
  "priv_ranges_v6 =
     [((0, 1), (0xFFFFFFFFFFFFFFFF, 0xFFFFFFFFFFFFFFFF)),
      ((0xFE80000000000000, 0), (0xFFC0000000000000, 0)),
      ((0xFEC0000000000000, 0), (0xFFC0000000000000, 0)),
      ((0xFD00000000000000, 0), (0xFF00000000000000, 0)),
      ((0xFC00000000000000, 0), (0xFE00000000000000, 0))]"

definition is_private_v6 :: "64 word \<Rightarrow> 64 word \<Rightarrow> bool" where
  "is_private_v6 hi lo \<longleftrightarrow>
     list_ex (\<lambda>((bh, bl), (mh, ml)). hi AND mh = bh \<and> lo AND ml = bl) priv_ranges_v6"

fun is_private :: "ip_addr \<Rightarrow> bool" where
  "is_private (V4 a) = is_private_v4 a"
| "is_private (V6 hi lo) = is_private_v6 hi lo"

text \<open>\<^verbatim>\<open>ExtractResult\<close> with the address it comes with.\<close>

datatype extract_result = Public ip_addr | Private ip_addr | Failure

definition private_or_failure :: "ip_addr option \<Rightarrow> extract_result" where
  "private_or_failure fp = (case fp of Some a \<Rightarrow> Private a | None \<Rightarrow> Failure)"

section \<open>Header values\<close>

text \<open>
  An address, possibly with a port. The part between brackets is \<^verbatim>\<open>substr(1, pos_close)\<close>, whose
  second argument is a length.
\<close>

definition parse_ip_address_maybe_port_pair :: "ip_env \<Rightarrow> bytes \<Rightarrow> ip_addr option" where
  "parse_ip_address_maybe_port_pair env sv =
     (if sv = [] then None
      else if hd sv = CHR ''['' then
        (case find_char (CHR '']'') sv of
           None \<Rightarrow> None
         | Some pos_close \<Rightarrow>
             if pos_close = 0 then None
             else from_string env (take pos_close (drop 1 sv)) AF_INET6)
      else
        (case find_char (CHR '':'') sv of
           Some first_colon \<Rightarrow>
             if CHR '':'' \<notin> set (drop (Suc first_colon) sv)
             then from_string env (take first_colon sv) AF_INET
             else from_string env sv AF_UNSPEC
         | None \<Rightarrow> from_string env sv AF_UNSPEC))"

text \<open>
  What both value parsers do with one address text: a public address ends the parse, the first
  private one is remembered.
\<close>

definition consider_addr :: "ip_env \<Rightarrow> bytes \<Rightarrow> ip_addr option \<Rightarrow> ip_addr + ip_addr option" where
  "consider_addr env cur_str first_private =
     (case parse_ip_address_maybe_port_pair env cur_str of
        None \<Rightarrow> Inr first_private
      | Some a \<Rightarrow> if \<not> is_private a then Inl a
                  else Inr (if first_private = None then Some a else first_private))"

function maybe_port_loop :: "ip_env \<Rightarrow> ip_addr option \<Rightarrow> bytes \<Rightarrow> extract_result" where
  "maybe_port_loop env first_private v =
     (let v1 = dropWhile (\<lambda>c. c = SP) v;
          cur_str = takeWhile (\<lambda>c. c \<noteq> CHR '','') v1;
          rest = drop 1 (dropWhile (\<lambda>c. c \<noteq> CHR '','') v1)
      in case consider_addr env cur_str first_private of
           Inl a \<Rightarrow> Public a
         | Inr fp \<Rightarrow> if rest \<noteq> [] then maybe_port_loop env fp rest else private_or_failure fp)"
  by pat_completeness auto
termination
proof (relation "measure (\<lambda>(env, fp, v). length v)", goal_cases)
  case (2 env fp v v1 cur rest fp')
  have "length (dropWhile (\<lambda>c. c \<noteq> CHR '','') v1) \<le> length v"
    using 2 length_dropWhile_le [of "\<lambda>c. c \<noteq> CHR '',''" v1] length_dropWhile_le [of "\<lambda>c. c = SP" v]
    by (metis order_trans)
  with 2 show ?case by (cases "dropWhile (\<lambda>c. c \<noteq> CHR '','') v1") auto
qed simp

declare maybe_port_loop.simps [simp del]

definition parse_multiple_maybe_port_sv :: "ip_env \<Rightarrow> bytes \<Rightarrow> extract_result" where
  "parse_multiple_maybe_port_sv env v = maybe_port_loop env None v"

text \<open>
  The state machine of \<^verbatim>\<open>parse_forwarded_sv\<close>. A state with a \<^verbatim>\<open>start\<close> pointer carries the bytes from
  there.
\<close>

datatype fwd_state = BETWEEN | KEY bytes | BEFORE_VALUE | VALUE_TOKEN bytes | VALUE_QUOTED bytes

definition fwd_delim :: "byte \<Rightarrow> bool" where
  "fwd_delim c \<longleftrightarrow> c = SP \<or> c = CHR '';'' \<or> c = CHR '',''"

definition is_for :: "bytes \<Rightarrow> bool" where
  "is_for k \<longleftrightarrow> length k = 3 \<and> k ! 0 \<in> {CHR ''f'', CHR ''F''} \<and> k ! 1 \<in> {CHR ''o'', CHR ''O''} \<and> k ! 2 \<in> {CHR ''r'', CHR ''R''}"

definition consider_if :: "bool \<Rightarrow> ip_env \<Rightarrow> bytes \<Rightarrow> ip_addr option \<Rightarrow> ip_addr + ip_addr option" where
  "consider_if consider_value env cur_str fp = (if consider_value then consider_addr env cur_str fp else Inr fp)"

fun forwarded_loop :: "ip_env \<Rightarrow> fwd_state \<Rightarrow> bool \<Rightarrow> ip_addr option \<Rightarrow> bytes \<Rightarrow> extract_result" where
  "forwarded_loop env st cv fp [] = private_or_failure fp"
| "forwarded_loop env BETWEEN cv fp (c # r) =
     (if fwd_delim c then forwarded_loop env BETWEEN cv fp r
      else forwarded_loop env (KEY [c]) cv fp r)"
| "forwarded_loop env (KEY k) cv fp (c # r) =
     (if c = CHR ''='' then forwarded_loop env BEFORE_VALUE (is_for k) fp r
      else forwarded_loop env (KEY (k @ [c])) cv fp r)"
| "forwarded_loop env BEFORE_VALUE cv fp (c # r) =
     (if c = DQUOTE then forwarded_loop env (VALUE_QUOTED []) cv fp r
      else if fwd_delim c then forwarded_loop env BETWEEN cv fp r
      else forwarded_loop env (VALUE_TOKEN [c]) cv fp r)"
| "forwarded_loop env (VALUE_TOKEN t) cv fp (c # r) =
     (if fwd_delim c then
        (case consider_if cv env t fp of Inl a \<Rightarrow> Public a | Inr fp' \<Rightarrow> forwarded_loop env BETWEEN cv fp' r)
      else if r = [] then
        (case consider_if cv env (t @ [c]) fp of Inl a \<Rightarrow> Public a | Inr fp' \<Rightarrow> forwarded_loop env BETWEEN cv fp' r)
      else forwarded_loop env (VALUE_TOKEN (t @ [c])) cv fp r)"
| "forwarded_loop env (VALUE_QUOTED q) cv fp (c # r) =
     (if c = DQUOTE then
        (case consider_if cv env q fp of Inl a \<Rightarrow> Public a | Inr fp' \<Rightarrow> forwarded_loop env BETWEEN cv fp' r)
      else if c = BACKSLASH then
        (case r of [] \<Rightarrow> private_or_failure fp
         | d # r' \<Rightarrow> forwarded_loop env (VALUE_QUOTED (q @ [c, d])) cv fp r')
      else forwarded_loop env (VALUE_QUOTED (q @ [c])) cv fp r)"

definition parse_forwarded_sv :: "ip_env \<Rightarrow> bytes \<Rightarrow> extract_result" where
  "parse_forwarded_sv env v = forwarded_loop env BETWEEN False None v"

text \<open>\<^verbatim>\<open>parse_multiple\<close>: over the values of all headers of one name.\<close>

fun parse_multiple_loop :: "('v \<Rightarrow> extract_result) \<Rightarrow> ip_addr option \<Rightarrow> 'v list \<Rightarrow> extract_result" where
  "parse_multiple_loop f fp [] = private_or_failure fp"
| "parse_multiple_loop f fp (v # vs) =
     (case f v of
        Public a \<Rightarrow> Public a
      | Private a \<Rightarrow> parse_multiple_loop f (if fp = None then Some a else fp) vs
      | Failure \<Rightarrow> parse_multiple_loop f fp vs)"

definition parse_multiple :: "(bytes \<Rightarrow> extract_result) \<Rightarrow> bytes list \<Rightarrow> extract_result" where
  "parse_multiple f vs = parse_multiple_loop f None vs"

definition parse_multiple_maybe_port :: "ip_env \<Rightarrow> bytes list \<Rightarrow> extract_result" where
  "parse_multiple_maybe_port env = parse_multiple (parse_multiple_maybe_port_sv env)"

definition parse_forwarded :: "ip_env \<Rightarrow> bytes list \<Rightarrow> extract_result" where
  "parse_forwarded env = parse_multiple (parse_forwarded_sv env)"

section \<open>Headers\<close>

definition ngx_hash_ce :: "ip_env \<Rightarrow> bytes \<Rightarrow> 64 word" where
  "ngx_hash_ce env sv = fold (\<lambda>c key. ngx_hash env key c) sv 0"

definition lc_key :: "header_elt \<Rightarrow> bytes" where
  "lc_key h = take (length (he_key h)) (he_lowcase_key h)"

definition kPriorityHeaderArr :: "(bytes \<times> (ip_env \<Rightarrow> bytes list \<Rightarrow> extract_result)) list" where
  "kPriorityHeaderArr =
     [(''x-forwarded-for'', parse_multiple_maybe_port), (''x-real-ip'', parse_multiple_maybe_port),
      (''true-client-ip'', parse_multiple_maybe_port), (''x-client-ip'', parse_multiple_maybe_port),
      (''x-forwarded'', parse_forwarded), (''forwarded'', parse_forwarded),
      (''forwarded-for'', parse_multiple_maybe_port), (''x-cluster-client-ip'', parse_multiple_maybe_port),
      (''fastly-client-ip'', parse_multiple_maybe_port), (''cf-connecting-ip'', parse_multiple_maybe_port),
      (''cf-connecting-ipv6'', parse_multiple_maybe_port)]"

text \<open>\<^verbatim>\<open>std::find_if\<close> over the header list.\<close>

definition get_request_header :: "header_elt ngx_list \<Rightarrow> bytes \<Rightarrow> nat \<Rightarrow> header_elt option option" where
  "get_request_header hdrs name h =
     map_option (List.find (\<lambda>e. he_hash e = h \<and> lc_key e = name)) (ngx_collect hdrs ngx_begin)"

type_synonym header_index = "(bytes \<times> bytes list) list"

fun header_index_insert :: "bytes \<Rightarrow> bytes \<Rightarrow> header_index \<Rightarrow> header_index" where
  "header_index_insert k v [] = [(k, [v])]"
| "header_index_insert k v ((k', vs) # idx) =
     (if k = k' then (k', vs @ [v]) # idx else (k', vs) # header_index_insert k v idx)"

text \<open>One header: the \<^verbatim>\<open>switch\<close> on its hash, whose cases are the hashes of the known names.\<close>

definition index_one :: "ip_env \<Rightarrow> header_elt \<Rightarrow> header_index \<Rightarrow> header_index" where
  "index_one env h idx =
     (if list_ex (\<lambda>(name, _). he_hash h = unat (ngx_hash_ce env name) \<and> lc_key h = name) kPriorityHeaderArr
      then header_index_insert (lc_key h) (he_value h) idx else idx)"

definition index_headers :: "ip_env \<Rightarrow> header_elt ngx_list \<Rightarrow> header_index option" where
  "index_headers env hdrs = map_option (\<lambda>hs. fold (index_one env) hs []) (ngx_collect hdrs ngx_begin)"

section \<open>ClientIp::resolve\<close>

text \<open>The loop over the priority headers: the public address found, or the first private one.\<close>

fun priority_loop ::
  "ip_env \<Rightarrow> header_index \<Rightarrow> ip_addr option \<Rightarrow> (bytes \<times> (ip_env \<Rightarrow> bytes list \<Rightarrow> extract_result)) list
     \<Rightarrow> ip_addr + ip_addr option" where
  "priority_loop env idx cur_private [] = Inr cur_private"
| "priority_loop env idx cur_private ((name, f) # defs) =
     (case map_of idx name of
        None \<Rightarrow> priority_loop env idx cur_private defs
      | Some vs \<Rightarrow>
          (case f env vs of
             Public a \<Rightarrow> Inl a
           | Private a \<Rightarrow> priority_loop env idx (if cur_private = None then Some a else cur_private) defs
           | Failure \<Rightarrow> priority_loop env idx cur_private defs))"

text \<open>\<^const>\<open>None\<close> on the outside is an access outside the header list.\<close>

definition resolve ::
  "ip_env \<Rightarrow> (bytes \<times> nat) option \<Rightarrow> header_elt ngx_list \<Rightarrow> ip_addr option \<Rightarrow> bytes option option" where
  "resolve env configured_header hdrs remote_addr =
     (case configured_header of
        Some (name, h) \<Rightarrow>
          get_request_header hdrs name h \<bind> (\<lambda>maybe_header.
            case maybe_header of
              None \<Rightarrow> Some None
            | Some e \<Rightarrow>
                (case parse_forwarded env [he_value e] of
                   Public a \<Rightarrow> Some (inet_ntop env a)
                 | Private a \<Rightarrow> Some (inet_ntop env a)
                 | Failure \<Rightarrow>
                     (case parse_multiple_maybe_port env [he_value e] of
                        Public a \<Rightarrow> Some (inet_ntop env a)
                      | Private a \<Rightarrow> Some (inet_ntop env a)
                      | Failure \<Rightarrow> Some None)))
      | None \<Rightarrow>
          index_headers env hdrs \<bind> (\<lambda>idx.
            Some (case priority_loop env idx None kPriorityHeaderArr of
                    Inl a \<Rightarrow> inet_ntop env a
                  | Inr cur_private \<Rightarrow>
                      (case remote_addr of
                         Some a \<Rightarrow>
                           if \<not> is_private a then inet_ntop env a
                           else (case cur_private of None \<Rightarrow> inet_ntop env a | Some p \<Rightarrow> inet_ntop env p)
                       | None \<Rightarrow> (case cur_private of None \<Rightarrow> None | Some p \<Rightarrow> inet_ntop env p)))))"

section \<open>Private ranges\<close>

lemma masked_eq:
  fixes a b :: "32 word"
  assumes "base = push_bit n b" and "drop_bit n base = b"
  shows "a AND NOT (mask n) = base \<longleftrightarrow> unat a div 2 ^ n = unat b"
proof -
  have e: "a AND NOT (mask n) = push_bit n (drop_bit n a)"
    by (rule bit_word_eqI) (auto simp: bit_simps)
  have i: "drop_bit n (push_bit n (drop_bit n a)) = drop_bit n a"
    by (rule bit_word_eqI) (auto simp: bit_simps dest: bit_imp_le_length)
  have "a AND NOT (mask n) = base \<longleftrightarrow> drop_bit n a = b"
    using e i assms by metis
  then show ?thesis
    by (metis unat_drop_bit_eq drop_bit_eq_div word_unat_eq_iff)
qed

text \<open>
  The IPv4 addresses that count as private are exactly those of 10/8, 172.16/12, 192.168/16,
  127/8, 169.254/16 and 100.64/10, stated on the address as a number.
\<close>

theorem private_v4_ranges:
  "is_private (V4 a) \<longleftrightarrow>
     unat a div 2 ^ 24 = 10 \<or> unat a div 2 ^ 20 = 172 * 16 + 1 \<or> unat a div 2 ^ 16 = 192 * 256 + 168
     \<or> unat a div 2 ^ 24 = 127 \<or> unat a div 2 ^ 16 = 169 * 256 + 254 \<or> unat a div 2 ^ 22 = 100 * 4 + 1"
proof -
  have m: "0xFF000000 = (NOT (mask 24) :: 32 word)" "0xFFF00000 = (NOT (mask 20) :: 32 word)"
      "0xFFFF0000 = (NOT (mask 16) :: 32 word)" "0xFFC00000 = (NOT (mask 22) :: 32 word)"
    by (simp_all add: mask_numeral)
  note e = masked_eq [where base = "0x0A000000" and n = 24 and b = 10 and a = a]
    masked_eq [where base = "0xAC100000" and n = 20 and b = "172 * 16 + 1" and a = a]
    masked_eq [where base = "0xC0A80000" and n = 16 and b = "192 * 256 + 168" and a = a]
    masked_eq [where base = "0x7F000000" and n = 24 and b = 127 and a = a]
    masked_eq [where base = "0xA9FE0000" and n = 16 and b = "169 * 256 + 254" and a = a]
    masked_eq [where base = "0x64400000" and n = 22 and b = "100 * 4 + 1" and a = a]
  show ?thesis
    unfolding is_private.simps is_private_v4_def priv_ranges_v4_def m using e by simp
qed

section \<open>Addresses with a port\<close>

text \<open>
  A bracketed IPv6 address, with or without a port, is never recognised: the text handed to
  \<^verbatim>\<open>inet_pton\<close> still ends in the closing bracket. The hypothesis on \<^verbatim>\<open>inet_pton\<close> is that it rejects
  texts with a bracket.
\<close>

theorem bracketed_ipv6_rejected:
  assumes "\<And>s. CHR '']'' \<in> set s \<Longrightarrow> inet_pton6 env s = None"
    and "CHR '']'' \<notin> set a" and "NUL \<notin> set a"
  shows "parse_ip_address_maybe_port_pair env (CHR ''['' # a @ CHR '']'' # r) = None"
proof -
  have "find_char CHR '']'' (CHR ''['' # a @ CHR '']'' # r) = Some (Suc (length a))"
    using assms(2) find_pos_append_hit [of a "\<lambda>c. c = CHR '']''" "CHR '']''" r] by auto
  moreover have "takeWhile (\<lambda>c. c \<noteq> NUL) (a @ [CHR '']'']) = a @ [CHR '']'']"
    using assms(3) by (auto simp: takeWhile_eq_all_conv)
  ultimately show ?thesis
    using assms(1) by (simp add: parse_ip_address_maybe_port_pair_def from_string_def)
qed

definition localhost_env :: ip_env where
  "localhost_env = \<lparr>
     inet_pton4 = (\<lambda>s. if s = ''127.0.0.1'' then Some 0x7F000001 else if s = ''8.8.8.8'' then Some 0x08080808 else None),
     inet_pton6 = (\<lambda>s. if s = ''::1'' then Some (0, 1) else None),
     inet_ntop = (\<lambda>a. if a = V4 0x7F000001 then Some ''127.0.0.1'' else if a = V4 0x08080808 then Some ''8.8.8.8''
                      else if a = V6 0 1 then Some ''::1'' else None),
     ngx_hash = (\<lambda>k c. k * 31 + of_nat (ord c))\<rparr>"

theorem bracketed_ipv6_rejected_witness:
  "parse_ip_address_maybe_port_pair localhost_env ''[::1]:80'' = None
   \<and> parse_ip_address_maybe_port_pair localhost_env ''::1'' = Some (V6 0 1)"
  using bracketed_ipv6_rejected [of localhost_env "''::1''" "'':80''"]
  by (simp add: localhost_env_def parse_ip_address_maybe_port_pair_def from_string_def from_v6_def)

section \<open>Lists of addresses\<close>

text \<open>The specification of a list of addresses: the first public one, else the first.\<close>

definition pick :: "ip_addr list \<Rightarrow> extract_result" where
  "pick as = (case filter (\<lambda>a. \<not> is_private a) as of
     a # _ \<Rightarrow> Public a | [] \<Rightarrow> (case as of a # _ \<Rightarrow> Private a | [] \<Rightarrow> Failure))"

definition pick_from :: "ip_addr option \<Rightarrow> ip_addr list \<Rightarrow> extract_result" where
  "pick_from fp as = (case filter (\<lambda>a. \<not> is_private a) as of
     a # _ \<Rightarrow> Public a
   | [] \<Rightarrow> private_or_failure (case fp of Some a \<Rightarrow> Some a | None \<Rightarrow> (case as of a # _ \<Rightarrow> Some a | [] \<Rightarrow> None)))"

lemma pick_from_None: "pick_from None as = pick as"
  by (auto simp: pick_from_def pick_def private_or_failure_def split: list.splits)

definition addr_texts :: "ip_env \<Rightarrow> bytes list \<Rightarrow> ip_addr list" where
  "addr_texts env ts = List.map_filter (parse_ip_address_maybe_port_pair env) ts"

lemma addr_texts_simps [simp]:
  "addr_texts env [] = []"
  "addr_texts env (t # ts) = (case parse_ip_address_maybe_port_pair env t of
     None \<Rightarrow> addr_texts env ts | Some a \<Rightarrow> a # addr_texts env ts)"
  "addr_texts env (ts @ us) = addr_texts env ts @ addr_texts env us"
  by (auto simp: addr_texts_def List.map_filter_def split: option.splits)

lemma parse_empty [simp]: "parse_ip_address_maybe_port_pair env [] = None"
  by (simp add: parse_ip_address_maybe_port_pair_def)

lemma pick_from_consider:
  "pick_from fp (addr_texts env (t # ts)) =
     (case consider_addr env t fp of Inl a \<Rightarrow> Public a | Inr fp' \<Rightarrow> pick_from fp' (addr_texts env ts))"
  by (auto simp: consider_addr_def pick_from_def private_or_failure_def split: option.splits list.splits)

lemma strip_commute:
  "takeWhile (\<lambda>c. c \<noteq> CHR '','') (dropWhile (\<lambda>c. c = SP) v) = dropWhile (\<lambda>c. c = SP) (takeWhile (\<lambda>c. c \<noteq> CHR '','') v)"
  "dropWhile (\<lambda>c. c \<noteq> CHR '','') (dropWhile (\<lambda>c. c = SP) v) = dropWhile (\<lambda>c. c \<noteq> CHR '','') v"
  by (induction v) auto

definition list_texts :: "bytes \<Rightarrow> bytes list" where
  "list_texts v = map (dropWhile (\<lambda>c. c = SP)) (split_on CHR '','' v)"

lemma maybe_port_loop_pick: "maybe_port_loop env fp v = pick_from fp (addr_texts env (list_texts v))"
proof (induction v arbitrary: fp rule: measure_induct_rule [of length])
  case (less v)
  define cur where "cur = dropWhile (\<lambda>c. c = SP) (takeWhile (\<lambda>c. c \<noteq> CHR '','') v)"
  define rest where "rest = drop 1 (dropWhile (\<lambda>c. c \<noteq> CHR '','') v)"
  have lt: "list_texts v = cur # (if CHR '','' \<in> set v then list_texts rest else [])"
    unfolding list_texts_def cur_def rest_def by (subst split_on_unfold) simp
  have short: "rest \<noteq> [] \<Longrightarrow> length rest < length v"
    using length_dropWhile_le [of "\<lambda>c. c \<noteq> CHR '',''" v] unfolding rest_def
    by (cases "dropWhile (\<lambda>c. c \<noteq> CHR '','') v") auto
  have tail: "addr_texts env (list_texts v) = addr_texts env (cur # (if rest \<noteq> [] then list_texts rest else []))"
  proof (cases "rest = []")
    case True
    then have "addr_texts env (list_texts rest) = []" by (simp add: list_texts_def)
    with True lt show ?thesis by (auto split: option.splits)
  next
    case False
    have "CHR '','' \<in> set v"
    proof (rule ccontr)
      assume "\<not> ?thesis"
      then have "dropWhile (\<lambda>c. c \<noteq> CHR '','') v = []" by auto
      with False show False unfolding rest_def by simp
    qed
    with False lt show ?thesis by simp
  qed
  have IH: "rest \<noteq> [] \<Longrightarrow> maybe_port_loop env fp' rest = pick_from fp' (addr_texts env (list_texts rest))" for fp'
    using less short by blast
  have fin: "private_or_failure fp' = pick_from fp' (addr_texts env [])" for fp'
    by (auto simp: pick_from_def split: option.splits)
  have "maybe_port_loop env fp v = (case consider_addr env cur fp of Inl a \<Rightarrow> Public a
      | Inr fp' \<Rightarrow> if rest \<noteq> [] then maybe_port_loop env fp' rest else private_or_failure fp')"
    by (simp only: maybe_port_loop.simps [of env fp v] Let_def strip_commute cur_def rest_def)
  also have "\<dots> = pick_from fp (addr_texts env (cur # (if rest \<noteq> [] then list_texts rest else [])))"
    unfolding pick_from_consider by (cases "consider_addr env cur fp") (simp_all add: IH fin)
  finally show ?case by (simp only: tail)
qed

lemma pick_from_append:
  "pick_from fp (as @ bs) = (case pick as of
     Public a \<Rightarrow> Public a
   | Private a \<Rightarrow> pick_from (if fp = None then Some a else fp) bs
   | Failure \<Rightarrow> pick_from fp bs)"
proof (cases "filter (\<lambda>a. \<not> is_private a) as")
  case Nil
  then show ?thesis
    by (cases as; cases fp; cases "filter (\<lambda>a. \<not> is_private a) bs") (auto simp: pick_from_def pick_def split: if_splits)
next
  case (Cons x xs)
  then show ?thesis by (simp add: pick_from_def pick_def)
qed

lemma parse_multiple_pick:
  assumes "list_all (\<lambda>v. f v = pick (g v)) vs"
  shows "parse_multiple_loop f fp vs = pick_from fp (concat (map g vs))"
  using assms
proof (induction vs arbitrary: fp)
  case Nil
  then show ?case by (simp add: pick_from_def split: option.splits)
next
  case (Cons v vs)
  then show ?case by (simp add: pick_from_append split: extract_result.splits)
qed

lemma parse_multiple_loop_map: "parse_multiple_loop f fp (map h xs) = parse_multiple_loop (f \<circ> h) fp xs"
  by (induction xs arbitrary: fp) (auto split: extract_result.splits)

lemma addr_texts_concat: "addr_texts env (concat tss) = concat (map (addr_texts env) tss)"
  by (induction tss) auto

text \<open>
  C22. The value parsers of lists of addresses return the first public address of all the headers
  of a name, else the first address, else fail; an element that is not an address is skipped,
  and so are blanks before an element.
\<close>

theorem address_list_extraction:
  "parse_multiple_maybe_port env vs = pick (addr_texts env (concat (map list_texts vs)))"
  using parse_multiple_pick [of "parse_multiple_maybe_port_sv env" "\<lambda>v. addr_texts env (list_texts v)" vs None]
  by (simp add: parse_multiple_maybe_port_def parse_multiple_def parse_multiple_maybe_port_sv_def
      maybe_port_loop_pick pick_from_None addr_texts_concat list_all_iff comp_def)

section \<open>The Forwarded header\<close>

text \<open>A rendering of \<^verbatim>\<open>Forwarded\<close> values: pairs with a token or a quoted value, each followed by delimiters.\<close>

datatype fwd_value = Token bytes | Quoted bytes

fun fwd_text :: "fwd_value \<Rightarrow> bytes" where
  "fwd_text (Token t) = t"
| "fwd_text (Quoted q) = q"

fun fwd_show :: "fwd_value \<Rightarrow> bytes" where
  "fwd_show (Token t) = t"
| "fwd_show (Quoted q) = DQUOTE # q @ [DQUOTE]"

fun fwd_render :: "(bytes \<times> fwd_value \<times> bytes) list \<Rightarrow> bytes" where
  "fwd_render [] = []"
| "fwd_render ((k, v, sep) # ps) = k @ CHR ''='' # fwd_show v @ sep @ fwd_render ps"

fun fwd_value_ok :: "fwd_value \<Rightarrow> bool" where
  "fwd_value_ok (Token t) \<longleftrightarrow> 2 \<le> length t \<and> hd t \<noteq> DQUOTE \<and> list_all (\<lambda>c. \<not> fwd_delim c) t"
| "fwd_value_ok (Quoted q) \<longleftrightarrow> list_all (\<lambda>c. c \<noteq> DQUOTE \<and> c \<noteq> BACKSLASH) q"

fun fwd_ok :: "(bytes \<times> fwd_value \<times> bytes) list \<Rightarrow> bool" where
  "fwd_ok [] \<longleftrightarrow> True"
| "fwd_ok ((k, v, sep) # ps) \<longleftrightarrow> k \<noteq> [] \<and> \<not> fwd_delim (hd k) \<and> CHR ''='' \<notin> set (tl k) \<and> fwd_value_ok v
     \<and> list_all fwd_delim sep \<and> (sep = [] \<longrightarrow> ps = []) \<and> fwd_ok ps"

definition for_texts :: "(bytes \<times> fwd_value \<times> bytes) list \<Rightarrow> bytes list" where
  "for_texts ps = map (\<lambda>(k, v, sep). fwd_text v) (filter (\<lambda>(k, v, sep). is_for k) ps)"

lemma fwd_key: "CHR ''='' \<notin> set k1 \<Longrightarrow>
  forwarded_loop env (KEY k0) cv fp (k1 @ CHR ''='' # r) = forwarded_loop env BEFORE_VALUE (is_for (k0 @ k1)) fp r"
  by (induction k1 arbitrary: k0) auto

lemma fwd_quoted: "list_all (\<lambda>c. c \<noteq> DQUOTE \<and> c \<noteq> BACKSLASH) q1 \<Longrightarrow>
  forwarded_loop env (VALUE_QUOTED q0) cv fp (q1 @ DQUOTE # r) =
    (case consider_if cv env (q0 @ q1) fp of Inl a \<Rightarrow> Public a | Inr fp' \<Rightarrow> forwarded_loop env BETWEEN cv fp' r)"
  by (induction q1 arbitrary: q0) auto

lemma fwd_token_sep: "list_all (\<lambda>c. \<not> fwd_delim c) t1 \<Longrightarrow> fwd_delim d \<Longrightarrow>
  forwarded_loop env (VALUE_TOKEN t0) cv fp (t1 @ d # r) =
    (case consider_if cv env (t0 @ t1) fp of Inl a \<Rightarrow> Public a | Inr fp' \<Rightarrow> forwarded_loop env BETWEEN cv fp' r)"
  by (induction t1 arbitrary: t0) auto

lemma fwd_token_end: "list_all (\<lambda>c. \<not> fwd_delim c) t1 \<Longrightarrow> t1 \<noteq> [] \<Longrightarrow>
  forwarded_loop env (VALUE_TOKEN t0) cv fp t1 =
    (case consider_if cv env (t0 @ t1) fp of Inl a \<Rightarrow> Public a | Inr fp' \<Rightarrow> forwarded_loop env BETWEEN cv fp' [])"
  by (induction t1 arbitrary: t0) auto

lemma fwd_skip: "list_all fwd_delim sep \<Longrightarrow>
  forwarded_loop env BETWEEN cv fp (sep @ r) = forwarded_loop env BETWEEN cv fp r"
  by (induction sep) auto

lemma fwd_pair:
  assumes "fwd_ok ((k, v, sep) # ps)"
  shows "forwarded_loop env BETWEEN cv fp (fwd_render ((k, v, sep) # ps)) =
    (case consider_if (is_for k) env (fwd_text v) fp of
       Inl a \<Rightarrow> Public a | Inr fp' \<Rightarrow> forwarded_loop env BETWEEN (is_for k) fp' (fwd_render ps))"
proof -
  from assms obtain k0 k1 where k: "k = k0 # k1" "\<not> fwd_delim k0" "CHR ''='' \<notin> set k1" by (cases k) auto
  then have "forwarded_loop env BETWEEN cv fp (fwd_render ((k, v, sep) # ps))
      = forwarded_loop env BEFORE_VALUE (is_for k) fp (fwd_show v @ sep @ fwd_render ps)"
    by (simp add: fwd_key)
  also have "\<dots> = (case consider_if (is_for k) env (fwd_text v) fp of
       Inl a \<Rightarrow> Public a | Inr fp' \<Rightarrow> forwarded_loop env BETWEEN (is_for k) fp' (sep @ fwd_render ps))"
  proof (cases v)
    case (Quoted q)
    with assms show ?thesis by (simp add: fwd_quoted)
  next
    case (Token t)
    with assms obtain t0 t1 where t: "t = t0 # t1" "t1 \<noteq> []" "list_all (\<lambda>c. \<not> fwd_delim c) (t0 # t1)" "t0 \<noteq> DQUOTE"
      by (cases t; cases "tl t") auto
    show ?thesis
    proof (cases sep)
      case Nil
      with assms Token t show ?thesis by (auto simp: fwd_token_end split: sum.splits)
    next
      case (Cons d ds)
      with assms Token t show ?thesis by (auto simp: fwd_token_sep split: sum.splits)
    qed
  qed
  finally show ?thesis using assms by (auto simp: fwd_skip split: sum.splits)
qed

lemma forwarded_loop_pick:
  "fwd_ok ps \<Longrightarrow> forwarded_loop env BETWEEN cv fp (fwd_render ps) = pick_from fp (addr_texts env (for_texts ps))"
proof (induction ps arbitrary: cv fp)
  case Nil
  then show ?case by (auto simp: for_texts_def pick_from_def split: option.splits)
next
  case (Cons p ps)
  obtain k v sep where p: "p = (k, v, sep)" by (cases p)
  have "for_texts (p # ps) = (if is_for k then [fwd_text v] else []) @ for_texts ps"
    by (simp add: for_texts_def p)
  with Cons show ?case
    unfolding p fwd_pair [OF Cons.prems [unfolded p]]
    by (cases "is_for k") (auto simp: consider_if_def pick_from_consider [simplified] split: sum.splits)
qed

text \<open>
  C21. From \<^verbatim>\<open>Forwarded\<close> values made of pairs with token or quoted values, the addresses of the
  \<^verbatim>\<open>for\<close> parameters (in any case) are extracted, across all the headers of the name: the first public
  one, else the first one, else the extraction fails.
\<close>

theorem forwarded_extraction:
  assumes "list_all fwd_ok pss"
  shows "parse_forwarded env (map fwd_render pss) = pick (addr_texts env (concat (map for_texts pss)))"
  using parse_multiple_pick [of "parse_forwarded_sv env \<circ> fwd_render" "\<lambda>ps. addr_texts env (for_texts ps)" pss None] assms
  by (simp add: parse_forwarded_def parse_multiple_def parse_forwarded_sv_def parse_multiple_loop_map
      forwarded_loop_pick pick_from_None addr_texts_concat list_all_iff comp_def)

theorem forwarded_extraction_witness:
  "parse_forwarded localhost_env [''by=me;For=127.0.0.1, for='' @ [DQUOTE] @ ''8.8.8.8:99'' @ [DQUOTE]] = Public (V4 0x08080808)"
  using forwarded_extraction [of "[[(''by'', Token ''me'', '';''), (''For'', Token ''127.0.0.1'', '', ''),
      (''for'', Quoted ''8.8.8.8:99'', [])]]" localhost_env]
  by (simp add: fwd_delim_def for_texts_def is_for_def localhost_env_def parse_ip_address_maybe_port_pair_def
      from_string_def pick_def is_private_v4_def priv_ranges_v4_def)

section \<open>Which header decides\<close>

text \<open>
  The values of the headers of a name, the result of each priority header, and the order of
  preference: public addresses of the headers by priority, a public peer address, private
  addresses of the headers, the peer address.
\<close>

definition values_of :: "bytes \<Rightarrow> header_elt list \<Rightarrow> bytes list" where
  "values_of name hs = map he_value (filter (\<lambda>h. lc_key h = name) hs)"

definition header_results :: "ip_env \<Rightarrow> header_elt list \<Rightarrow> extract_result list" where
  "header_results env hs = map (\<lambda>(name, f). f env (values_of name hs)) kPriorityHeaderArr"

definition publics :: "extract_result list \<Rightarrow> ip_addr list" where
  "publics rs = List.map_filter (\<lambda>r. case r of Public a \<Rightarrow> Some a | _ \<Rightarrow> None) rs"

definition privates :: "extract_result list \<Rightarrow> ip_addr list" where
  "privates rs = List.map_filter (\<lambda>r. case r of Private a \<Rightarrow> Some a | _ \<Rightarrow> None) rs"

lemma results_simps [simp]:
  "publics [] = []" "publics (Public a # rs) = a # publics rs"
  "publics (Private a # rs) = publics rs" "publics (Failure # rs) = publics rs"
  "privates [] = []" "privates (Public a # rs) = privates rs"
  "privates (Private a # rs) = a # privates rs" "privates (Failure # rs) = privates rs"
  by (simp_all add: publics_def privates_def List.map_filter_def)

definition preferred :: "extract_result list \<Rightarrow> ip_addr option \<Rightarrow> ip_addr option" where
  "preferred rs remote =
     (let peer = (case remote of Some r \<Rightarrow> [r] | None \<Rightarrow> [])
      in case publics rs @ filter (\<lambda>a. \<not> is_private a) peer @ privates rs @ peer of [] \<Rightarrow> None | a # _ \<Rightarrow> Some a)"

definition hashes_ok :: "ip_env \<Rightarrow> header_elt list \<Rightarrow> bool" where
  "hashes_ok env hs \<longleftrightarrow> list_all (\<lambda>h. he_hash h = unat (ngx_hash_ce env (lc_key h))) hs"

lemma map_of_insert:
  "map_of (header_index_insert k v idx) name = (if name = k then Some (case map_of idx k of None \<Rightarrow> [v] | Some vs \<Rightarrow> vs @ [v])
     else map_of idx name)"
  by (induction idx) auto

lemma index_one_known:
  assumes "he_hash h = unat (ngx_hash_ce env (lc_key h))"
  shows "index_one env h idx = (if lc_key h \<in> set (map fst kPriorityHeaderArr)
     then header_index_insert (lc_key h) (he_value h) idx else idx)"
  using assms by (force simp: index_one_def list_ex_iff)

lemma index_fold:
  assumes "hashes_ok env hs" and "name \<in> set (map fst kPriorityHeaderArr)"
  shows "map_of (fold (index_one env) hs idx) name =
    (let old = map_of idx name; new = values_of name hs
     in if new = [] then old else Some (case old of None \<Rightarrow> new | Some vs \<Rightarrow> vs @ new))"
  using assms
proof (induction hs arbitrary: idx)
  case Nil
  then show ?case by (simp add: values_of_def)
next
  case (Cons h hs)
  then have h: "he_hash h = unat (ngx_hash_ce env (lc_key h))" and ok: "hashes_ok env hs"
    by (auto simp: hashes_ok_def)
  show ?case
    using Cons.IH [OF ok Cons.prems(2)] Cons.prems(2)
    by (auto simp: index_one_known [OF h] map_of_insert values_of_def Let_def split: option.splits if_splits)
qed

lemma priority_loop_spec:
  assumes "list_all (\<lambda>(name, f). f env [] = Failure \<and>
      map_of idx name = (if values_of name hs = [] then None else Some (values_of name hs))) defs"
  shows "priority_loop env idx fp defs =
    (let rs = map (\<lambda>(name, f). f env (values_of name hs)) defs
     in case publics rs of a # _ \<Rightarrow> Inl a
      | [] \<Rightarrow> Inr (case fp of Some a \<Rightarrow> Some a | None \<Rightarrow> (case privates rs of a # _ \<Rightarrow> Some a | [] \<Rightarrow> None)))"
  using assms
proof (induction defs arbitrary: fp)
  case Nil
  then show ?case by (simp split: option.splits)
next
  case (Cons d defs)
  obtain name f where d: "d = (name, f)" by (cases d)
  show ?case
  proof (cases "f env (values_of name hs)")
    case (Private a)
    with Cons d show ?thesis
      by (cases fp) (auto simp: Let_def split: list.splits)
  qed (use Cons d in \<open>auto simp: Let_def split: list.splits\<close>)
qed

text \<open>
  C20. Without a configured header, the client address is the first public address that the
  priority headers give, in their order of priority; else the peer's address when it is public; else
  the first private address of the priority headers; else the peer's address. Repeated headers
  count together, wherever they stand. The hypothesis is that the hash nginx stores in a header is
  the hash of its lowercase name.
\<close>

theorem resolve_order:
  assumes "ngx_list_ok hdrs" and "hashes_ok env (concat hdrs)"
  shows "resolve env None hdrs remote =
    Some (preferred (header_results env (concat hdrs)) remote \<bind> inet_ntop env)"
proof -
  let ?hs = "concat hdrs" and ?idx = "fold (index_one env) (concat hdrs) []"
  have idx: "index_headers env hdrs = Some ?idx"
    using ngx_begin_norm [OF assms(1)] by (simp add: index_headers_def ngx_collect_rest)
  have "list_all (\<lambda>(name, f). f env [] = Failure \<and>
      map_of ?idx name = (if values_of name ?hs = [] then None else Some (values_of name ?hs))) kPriorityHeaderArr"
  proof -
    have "list_all (\<lambda>(name, f). f env [] = Failure) kPriorityHeaderArr"
      by (simp add: kPriorityHeaderArr_def parse_multiple_maybe_port_def parse_forwarded_def parse_multiple_def private_or_failure_def)
    then show ?thesis
      using index_fold [OF assms(2), of _ "[]"] by (force simp: list_all_iff Let_def)
  qed
  from priority_loop_spec [OF this, of None, folded header_results_def]
  show ?thesis
    by (auto simp: resolve_def idx preferred_def Let_def split: list.splits option.splits)
qed

definition sample_header :: "bytes \<Rightarrow> bytes \<Rightarrow> header_elt" where
  "sample_header k v = \<lparr>he_key = k, he_lowcase_key = k, he_value = v, he_hash = unat (ngx_hash_ce localhost_env k)\<rparr>"

theorem resolve_order_witness:
  "resolve localhost_env None [[sample_header ''x-real-ip'' ''8.8.8.8''], [sample_header ''x-forwarded-for'' ''127.0.0.1'']] None
     = Some (Some ''8.8.8.8'')"
proof -
  let ?h = "[[sample_header ''x-real-ip'' ''8.8.8.8''], [sample_header ''x-forwarded-for'' ''127.0.0.1'']]"
  have "resolve localhost_env None ?h None
      = Some (preferred (header_results localhost_env (concat ?h)) None \<bind> inet_ntop localhost_env)"
    by (rule resolve_order) (simp_all add: ngx_list_ok_def hashes_ok_def sample_header_def lc_key_def)
  then show ?thesis
    by (simp add: header_results_def kPriorityHeaderArr_def values_of_def sample_header_def lc_key_def preferred_def
        parse_multiple_maybe_port_def parse_multiple_maybe_port_sv_def maybe_port_loop_pick pick_from_def
        parse_forwarded_def parse_multiple_def private_or_failure_def list_texts_def
        parse_ip_address_maybe_port_pair_def from_string_def localhost_env_def is_private_v4_def priv_ranges_v4_def)
qed

end
