(* ===== verification/Waf_Context.thy ===== *)
theory Waf_Context
  imports Filter_Buf Blocking Collection Client_Ip
begin

text \<open>
  The WAF context of a request and its tasks: \<^verbatim>\<open>src/security/context.h\<close> and
  \<^verbatim>\<open>src/security/context.cpp\<close>. A handler is a function on the state of one request: the parts of
  \<^verbatim>\<open>ngx_http_request_t\<close> it touches, the context, the task counters, the tasks in flight, the pool, and
  the calls made to nginx, in order. What nginx answers to the calls of one handler is its first
  argument. Log messages and the test-only delays and terminations are left out.
\<close>

section \<open>Stages\<close>

datatype stage =
    DISABLED | START | ENTERED_ON_START | AFTER_BEGIN_WAF | AFTER_BEGIN_WAF_BLOCK
  | COLLECTING_ON_REQ_DATA_PREREAD | COLLECTING_ON_REQ_DATA | SUSPENDED_ON_REQ_WAF
  | AFTER_ON_REQ_WAF | AFTER_ON_REQ_WAF_BLOCK | COLLECTING_ON_RESP_DATA | PENDING_WAF_END
  | WAF_END_BLOCK_COMMIT | AFTER_RUN_WAF_END

fun stage_name :: "stage \<Rightarrow> bytes" where
  "stage_name DISABLED = ''DISABLED''"
| "stage_name START = ''START''"
| "stage_name ENTERED_ON_START = ''ENTERED_ON_START''"
| "stage_name AFTER_BEGIN_WAF = ''AFTER_BEGIN_WAF''"
| "stage_name AFTER_BEGIN_WAF_BLOCK = ''AFTER_BEGIN_WAF_BLOCK''"
| "stage_name COLLECTING_ON_REQ_DATA_PREREAD = ''COLLECTING_ON_REQ_DATA_PREREAD''"
| "stage_name COLLECTING_ON_REQ_DATA = ''COLLECTING_ON_REQ_DATA''"
| "stage_name SUSPENDED_ON_REQ_WAF = ''SUSPENDED_ON_REQ_WAF''"
| "stage_name AFTER_ON_REQ_WAF = ''AFTER_ON_REQ_WAF''"
| "stage_name AFTER_ON_REQ_WAF_BLOCK = ''AFTER_ON_REQ_WAF_BLOCK''"
| "stage_name COLLECTING_ON_RESP_DATA = ''COLLECTING_ON_RESP_DATA''"
| "stage_name PENDING_WAF_END = ''PENDING_WAF_END''"
| "stage_name WAF_END_BLOCK_COMMIT = ''WAF_END_BLOCK_COMMIT''"
| "stage_name AFTER_RUN_WAF_END = ''AFTER_RUN_WAF_END''"

section \<open>State\<close>

text \<open>Event handlers: nginx's own are numbered.\<close>

datatype req_handler = Req_handler nat | Block_reading | Empty_write_handler | Drain_buffered_data
datatype conn_handler = Conn_handler nat | Empty_handler_read | Empty_handler_write | Empty_upstream_handler_read

record request =
  rq_count :: int
  rq_blocked :: int
  rq_read_event_handler :: req_handler
  rq_write_event_handler :: req_handler
  rq_conn_read_handler :: conn_handler
  rq_conn_write_handler :: conn_handler
  rq_upstream :: "(bool \<times> conn_handler) option"
  rq_header_only :: bool
  rq_header_sent :: bool
  rq_buffered :: bool
  rq_need_buffering :: bool
  rq_terminated :: bool
  rq_conn_error :: bool
  rq_phase_handler :: nat
  rq_stream :: bool
  rq_coll :: coll_request
  rq_peer :: "ip_addr option"

text \<open>
  The fields of \<^verbatim>\<open>Context\<close>. The history of the stages it went through is kept with it, to state what
  the transitions are; the code does not read it.
\<close>

record wcontext =
  cx_stage :: stage
  cx_history :: "stage list"
  cx_waf :: "waf_ctx option"
  cx_memres :: memres
  cx_client_ip :: "bytes option"
  cx_waf_send_resp_body :: bool
  cx_max_saved_output_data :: nat
  cx_apm_tracing_enabled :: bool
  cx_filter :: filter_ctx
  cx_header_filter :: filter_ctx
  cx_out_filter :: filter_ctx
  cx_header_only :: bool
  cx_prev_req_write :: req_handler

record stats =
  s_created :: nat
  s_submitted :: nat
  s_submission_failed :: nat
  s_completed :: nat
  s_destructed :: nat

datatype task_kind = Pol1st | PolReqBody | PolFinal

text \<open>A task is posted, then started by the pool with the stage it loads, then finished.\<close>

datatype task_phase = Posted | Started stage | Finished

record task =
  tk_kind :: task_kind
  tk_prev_read :: req_handler
  tk_prev_write :: req_handler
  tk_orig_conn_read :: conn_handler
  tk_orig_conn_write :: conn_handler
  tk_orig_upstream :: "conn_handler option"
  tk_phase :: task_phase
  tk_block_spec :: "block_spec option"
  tk_ran :: bool

datatype tag_value = Tag bytes | Metric f64

datatype call =
    Next_request_body bufs
  | Next_header
  | Next_output_body bufs
  | Write_filter bufs
  | Send_chain bufs
  | Output_filter_null
  | Finalize int
  | Post_write
  | Post_read
  | Post_upstream_read
  | Run_write_handler
  | Block_call block_spec
  | Add_write_timer
  | Set_tag bytes tag_value
  | Set_header_tags bool
  | Override_sampling_priority int
  | Set_source_appsec

record wstate =
  ws_rq :: request
  ws_cx :: wcontext
  ws_st :: stats
  ws_tasks :: "task list"
  ws_pool :: allocs
  ws_calls :: "call list"

record nenv =
  ne_buf_size :: "ngx_buf \<Rightarrow> nat"
  ne_waf_pool :: bool
  ne_task_alloc :: bool
  ne_task_post :: bool
  ne_next_request_body :: "bufs \<Rightarrow> int"
  ne_next_output_body :: "bufs \<Rightarrow> int"
  ne_write_filter :: "bufs \<Rightarrow> int"
  ne_h2_send_chain :: "bufs \<Rightarrow> bufs option"
  ne_next_header :: "bool \<Rightarrow> int"
  ne_header_chains :: "bufs list"
  ne_header_left :: bufs
  ne_read_event_ok :: bool
  ne_write_event_ok :: bool
  ne_block :: "block_spec \<Rightarrow> int option"
  ne_timedout :: bool
  ne_delayed :: bool
  ne_output_null :: int
  ne_more_buffered :: bool

definition on_rq :: "(request \<Rightarrow> request) \<Rightarrow> wstate \<Rightarrow> wstate" where
  "on_rq f s = s\<lparr>ws_rq := f (ws_rq s)\<rparr>"

definition on_cx :: "(wcontext \<Rightarrow> wcontext) \<Rightarrow> wstate \<Rightarrow> wstate" where
  "on_cx f s = s\<lparr>ws_cx := f (ws_cx s)\<rparr>"

definition on_st :: "(stats \<Rightarrow> stats) \<Rightarrow> wstate \<Rightarrow> wstate" where
  "on_st f s = s\<lparr>ws_st := f (ws_st s)\<rparr>"

definition emit :: "call \<Rightarrow> wstate \<Rightarrow> wstate" where
  "emit c s = s\<lparr>ws_calls := ws_calls s @ [c]\<rparr>"

abbreviation NGX_HTTP_INTERNAL_SERVER_ERROR :: int where "NGX_HTTP_INTERNAL_SERVER_ERROR \<equiv> 500"
abbreviation NGX_HTTP_REQUEST_TIME_OUT :: int where "NGX_HTTP_REQUEST_TIME_OUT \<equiv> 408"

definition kMaxFilterData :: nat where "kMaxFilterData = 40 * 1024"
definition kDefaultMaxSavedOutputData :: nat where "kDefaultMaxSavedOutputData = 256 * 1024"

abbreviation stage_of :: "wstate \<Rightarrow> stage" where
  "stage_of s \<equiv> cx_stage (ws_cx s)"

definition transition_to_stage :: "stage \<Rightarrow> wstate \<Rightarrow> wstate" where
  "transition_to_stage st s = on_cx (\<lambda>cx. cx\<lparr>cx_stage := st, cx_history := cx_history cx @ [st]\<rparr>) s"

definition checked_transition_to_stage :: "stage \<Rightarrow> stage \<Rightarrow> wstate \<Rightarrow> bool \<times> wstate" where
  "checked_transition_to_stage from_st to_st s =
     (if stage_of s = from_st then (True, transition_to_stage to_st s) else (False, s))"

text \<open>\<^verbatim>\<open>maybe_create\<close> and the constructor: there is a context only when there is a WAF handle.\<close>

definition maybe_create :: "bool \<Rightarrow> nat option \<Rightarrow> bool \<Rightarrow> wcontext option" where
  "maybe_create have_handle max_saved_output_data apm_tracing_enabled =
     (if \<not> have_handle then None
      else Some \<lparr>cx_stage = START, cx_history = [START], cx_waf = Some waf_ctx_new, cx_memres = memres_init, cx_client_ip = None,
        cx_waf_send_resp_body = True,
        cx_max_saved_output_data = (case max_saved_output_data of Some n \<Rightarrow> n | None \<Rightarrow> kDefaultMaxSavedOutputData),
        cx_apm_tracing_enabled = apm_tracing_enabled, cx_filter = fc_new, cx_header_filter = fc_new,
        cx_out_filter = fc_new, cx_header_only = False, cx_prev_req_write = Req_handler 0\<rparr>)"

section \<open>Tasks\<close>

text \<open>\<^verbatim>\<open>PolTaskCtx::create\<close>; \<^const>\<open>None\<close> is the exception thrown when the task cannot be allocated.\<close>

definition create_task :: "nenv \<Rightarrow> task_kind \<Rightarrow> wstate \<Rightarrow> (task \<times> wstate) option" where
  "create_task env k s =
     (if \<not> ne_task_alloc env then None
      else Some (\<lparr>tk_kind = k, tk_prev_read = rq_read_event_handler (ws_rq s), tk_prev_write = rq_write_event_handler (ws_rq s),
               tk_orig_conn_read = Conn_handler 0, tk_orig_conn_write = Conn_handler 0, tk_orig_upstream = None,
               tk_phase = Posted, tk_block_spec = None, tk_ran = False\<rparr>,
             on_st (\<lambda>t. t\<lparr>s_created := s_created t + 1\<rparr>) s))"

definition replace_handlers :: "task \<Rightarrow> request \<Rightarrow> task \<times> request" where
  "replace_handlers t r =
     (case tk_kind t of
        PolFinal \<Rightarrow>
          (let up = rq_upstream r
           in (t\<lparr>tk_orig_conn_read := rq_conn_read_handler r, tk_orig_conn_write := rq_conn_write_handler r,
                 tk_orig_upstream := (case up of Some (True, h) \<Rightarrow> Some h | _ \<Rightarrow> None)\<rparr>,
               r\<lparr>rq_conn_read_handler := Empty_handler_read, rq_conn_write_handler := Empty_handler_write,
                 rq_upstream := (case up of Some (True, h) \<Rightarrow> Some (True, Empty_upstream_handler_read) | _ \<Rightarrow> up)\<rparr>))
      | _ \<Rightarrow> (t, r\<lparr>rq_read_event_handler := Block_reading, rq_write_event_handler := Empty_write_handler\<rparr>))"

definition restore_handlers :: "task \<Rightarrow> request \<Rightarrow> request" where
  "restore_handlers t r =
     (case tk_kind t of
        PolFinal \<Rightarrow>
          (let r1 = r\<lparr>rq_conn_write_handler := tk_orig_conn_write t, rq_conn_read_handler := tk_orig_conn_read t\<rparr>
           in case tk_orig_upstream t of
                None \<Rightarrow> r1
              | Some h \<Rightarrow> r1\<lparr>rq_upstream := map_option (\<lambda>(up, _). (up, h)) (rq_upstream r1)\<rparr>)
      | _ \<Rightarrow>
          (let r1 = (if rq_read_event_handler r = Block_reading then r\<lparr>rq_read_event_handler := tk_prev_read t\<rparr> else r)
           in if rq_write_event_handler r1 = Empty_write_handler then r1\<lparr>rq_write_event_handler := tk_prev_write t\<rparr> else r1))"

text \<open>\<^verbatim>\<open>PolTaskCtx::submit\<close>.\<close>

definition submit_task :: "nenv \<Rightarrow> task \<Rightarrow> wstate \<Rightarrow> bool \<times> wstate" where
  "submit_task env t s =
     (let (t1, r1) = replace_handlers t (ws_rq s);
          r2 = r1\<lparr>rq_count := rq_count r1 + 1, rq_blocked := rq_blocked r1 + 1\<rparr>
      in if \<not> ne_task_post env then
           let r3 = restore_handlers t1 (r2\<lparr>rq_count := rq_count r2 - 1, rq_blocked := rq_blocked r2 - 1\<rparr>)
           in (False, on_st (\<lambda>st. st\<lparr>s_submission_failed := s_submission_failed st + 1, s_destructed := s_destructed st + 1\<rparr>)
                        (s\<lparr>ws_rq := r3\<rparr>))
         else (True, on_st (\<lambda>st. st\<lparr>s_submitted := s_submitted st + 1\<rparr>) (s\<lparr>ws_rq := r2, ws_tasks := ws_tasks s @ [t1]\<rparr>)))"

definition waf_req_post_done :: "bool \<Rightarrow> wstate \<Rightarrow> wstate" where
  "waf_req_post_done blocked s =
     snd (checked_transition_to_stage SUSPENDED_ON_REQ_WAF
            (if blocked then AFTER_ON_REQ_WAF_BLOCK else AFTER_ON_REQ_WAF) s)"

definition waf_final_done :: "bool \<Rightarrow> wstate \<Rightarrow> wstate" where
  "waf_final_done blocked s =
     snd (checked_transition_to_stage PENDING_WAF_END
            (if blocked then WAF_END_BLOCK_COMMIT else AFTER_RUN_WAF_END) s)"

fun set_flush_last :: "bufs \<Rightarrow> bufs" where
  "set_flush_last [] = []"
| "set_flush_last [b] = [b\<lparr>b_flush := True\<rparr>]"
| "set_flush_last (b # bs) = b # set_flush_last bs"

definition prepare_drain_buffered_header :: "wstate \<Rightarrow> wstate" where
  "prepare_drain_buffered_header s =
     (let hf = cx_header_filter (ws_cx s)
      in if fc_out hf = [] then s
         else
           let s1 = on_cx (\<lambda>cx. cx\<lparr>cx_prev_req_write := rq_write_event_handler (ws_rq s)\<rparr>) s;
               s2 = on_rq (\<lambda>r. r\<lparr>rq_write_event_handler := Drain_buffered_data\<rparr>) s1
           in if fc_found_last hf then s2
              else on_cx (\<lambda>cx. cx\<lparr>cx_header_filter := hf\<lparr>fc_out := set_flush_last (fc_out hf)\<rparr>\<rparr>) s2)"

text \<open>\<^verbatim>\<open>PolFinalWafCtx::submit\<close>.\<close>

definition submit_final :: "nenv \<Rightarrow> task \<Rightarrow> bool \<Rightarrow> wstate \<Rightarrow> bool \<times> wstate" where
  "submit_final env t from_header_filter s =
     (let s1 = (if from_header_filter \<and> rq_header_only (ws_rq s) then on_rq (\<lambda>r. r\<lparr>rq_header_only := False\<rparr>) s else s);
          s2 = on_rq (\<lambda>r. r\<lparr>rq_header_sent := True\<rparr>) s1;
          (submitted, s3) = submit_task env t s2
      in if submitted then (True, s3)
         else let s4 = emit Post_write (waf_final_done False s3)
              in (False, if rq_upstream (ws_rq s4) \<noteq> None then prepare_drain_buffered_header s4 else s4))"

text \<open>The blocking response and the return code that is then handed to \<^verbatim>\<open>ngx_http_finalize_request\<close>.\<close>

definition do_block :: "nenv \<Rightarrow> block_spec \<Rightarrow> wstate \<Rightarrow> wstate" where
  "do_block env spec s =
     emit (Finalize (case ne_block env spec of Some rc \<Rightarrow> rc | None \<Rightarrow> NGX_ERROR)) (emit (Block_call spec) s)"

abbreviation set_blocked_tag :: "wstate \<Rightarrow> wstate" where
  "set_blocked_tag s \<equiv> emit (Set_tag ''appsec.blocked'' (Tag ''true'')) s"

definition trigger_upstream_read :: "task \<Rightarrow> wstate \<Rightarrow> wstate" where
  "trigger_upstream_read t s = (if tk_orig_upstream t \<noteq> None then emit Post_upstream_read s else s)"

text \<open>The \<^verbatim>\<open>complete\<close> functions of the three kinds of tasks.\<close>

definition complete_first :: "nenv \<Rightarrow> task \<Rightarrow> wstate \<Rightarrow> wstate" where
  "complete_first env t s =
     (case (tk_ran t, tk_block_spec t) of
        (True, Some spec) \<Rightarrow> do_block env spec (set_blocked_tag s)
      | _ \<Rightarrow> emit Post_write (on_rq (\<lambda>r. r\<lparr>rq_phase_handler := rq_phase_handler r + 1\<rparr>) s))"

definition complete_req_body :: "nenv \<Rightarrow> task \<Rightarrow> wstate \<Rightarrow> wstate" where
  "complete_req_body env t s =
     (case (tk_ran t, tk_block_spec t) of
        (True, Some spec) \<Rightarrow> do_block env spec (waf_req_post_done True (set_blocked_tag s))
      | _ \<Rightarrow> emit Post_read (waf_req_post_done False s))"

definition complete_final :: "nenv \<Rightarrow> task \<Rightarrow> wstate \<Rightarrow> wstate" where
  "complete_final env t s =
     (case (tk_ran t, tk_block_spec t) of
        (True, Some spec) \<Rightarrow>
          (let s1 = do_block env spec (waf_final_done True (set_blocked_tag s))
           in if 1 < rq_count (ws_rq s) then trigger_upstream_read t (emit Post_write s1) else s1)
      | _ \<Rightarrow>
          (let s1 = emit Post_write (waf_final_done False s);
               s2 = (if rq_upstream (ws_rq s1) \<noteq> None then prepare_drain_buffered_header s1 else s1)
           in trigger_upstream_read t s2))"

definition complete_task :: "nenv \<Rightarrow> task \<Rightarrow> wstate \<Rightarrow> wstate" where
  "complete_task env t s =
     (case tk_kind t of
        Pol1st \<Rightarrow> complete_first env t s
      | PolReqBody \<Rightarrow> complete_req_body env t s
      | PolFinal \<Rightarrow> complete_final env t s)"

text \<open>\<^verbatim>\<open>completion_handler\<close>, on the main thread; the task leaves the list of tasks in flight.\<close>

definition completion_handler :: "nenv \<Rightarrow> nat \<Rightarrow> wstate \<Rightarrow> wstate" where
  "completion_handler env i s =
     (let t = ws_tasks s ! i;
          s1 = on_st (\<lambda>st. st\<lparr>s_completed := s_completed st + 1\<rparr>) (s\<lparr>ws_tasks := take i (ws_tasks s) @ drop (Suc i) (ws_tasks s)\<rparr>);
          s2 = on_rq (\<lambda>r. restore_handlers t (r\<lparr>rq_blocked := rq_blocked r - 1\<rparr>)) s1;
          s3 = (if rq_terminated (ws_rq s2) then
                  emit Run_write_handler (on_rq (\<lambda>r. r\<lparr>rq_count := rq_count r - 1\<rparr>) s2)
                else if 1 < rq_count (ws_rq s2) then
                  (if \<not> ne_read_event_ok env then emit (Finalize NGX_HTTP_INTERNAL_SERVER_ERROR) s2
                   else complete_task env t (on_rq (\<lambda>r. r\<lparr>rq_count := rq_count r - 1\<rparr>) s2))
                else emit (Finalize NGX_DONE) s2)
      in on_st (\<lambda>st. st\<lparr>s_destructed := s_destructed st + 1\<rparr>) s3)"

section \<open>The first WAF run\<close>

definition do_on_request_start :: "nenv \<Rightarrow> wstate \<Rightarrow> bool \<times> wstate" where
  "do_on_request_start env s =
     (if cx_waf (ws_cx s) = None then (False, s)
      else if stage_of s \<noteq> START then (False, s)
      else if \<not> ne_waf_pool env then (False, transition_to_stage DISABLED s)
      else
        let s1 = transition_to_stage ENTERED_ON_START s
        in case create_task env Pol1st s1 of
             None \<Rightarrow> (False, s1)
           | Some (t, s2) \<Rightarrow> submit_task env t s2)"

text \<open>What the thread needs of libddwaf and of the libraries the collection and the parsers use.\<close>

record tenv =
  te_waf :: waf_env
  te_ip :: ip_env
  te_custom_ip_header :: "(bytes \<times> nat) option"
  te_reader :: "rstream \<Rightarrow> sax list \<times> bool"
  te_key_order :: "bytes list \<Rightarrow> bytes list"
  te_ddwaf_run :: "ddwaf_obj \<Rightarrow> ret_code \<times> (bytes \<times> ddwaf_obj) list"
  te_sample_schema :: bool

text \<open>
  The result of a thread function: the context, the tags it sets, and a blocking specification or an
  exception. \<^const>\<open>None\<close> and \<^const>\<open>Num_undefined\<close> are undefined behaviour.
\<close>

type_synonym thread_result = "wcontext \<times> (bytes \<times> tag_value) list \<times> block_spec option num_result"

definition run_ddwaf :: "tenv \<Rightarrow> ddwaf_obj \<Rightarrow> wcontext \<Rightarrow> wcontext \<times> block_spec option num_result" where
  "run_ddwaf env data cx =
     (case cx_waf cx of
        None \<Rightarrow> (cx, Num_undefined)
      | Some w \<Rightarrow>
          (case te_ddwaf_run env data of (code, result) \<Rightarrow>
             (case waf_run (te_waf env) code result w of (w', res) \<Rightarrow> (cx\<lparr>cx_waf := Some w'\<rparr>, res))))"

definition run_waf_start :: "tenv \<Rightarrow> bytes \<Rightarrow> request \<Rightarrow> stage \<Rightarrow> wcontext \<Rightarrow> thread_result option" where
  "run_waf_start env version r st cx =
     (if st \<noteq> ENTERED_ON_START then Some (cx, [], Num_ok None)
      else
        resolve (te_ip env) (te_custom_ip_header env) (cr_headers_in (rq_coll r)) (rq_peer r) \<bind> (\<lambda>client_ip.
        serialize (rq_coll r) client_ip (cx_memres cx) \<bind> (\<lambda>(data, m1).
          case run_ddwaf env data (cx\<lparr>cx_memres := m1, cx_client_ip := client_ip\<rparr>) of
            (cx2, res) \<Rightarrow>
              Some (cx2, [(''_dd.appsec.enabled'', Metric (Fin 1)), (''_dd.runtime_family'', Tag ''cpp''),
                          (''_dd.appsec.waf.version'', Tag version)], res))))"

text \<open>The bytes of a chain, as the body parsers read them from the buffers in memory.\<close>

definition chain_bytes :: "bufs \<Rightarrow> bytes list" where
  "chain_bytes bs = map b_mem bs"

definition run_waf_req_post :: "tenv \<Rightarrow> request \<Rightarrow> wcontext \<Rightarrow> thread_result option" where
  "run_waf_req_post env r cx =
     (if fc_out (cx_filter cx) = [] then None
      else
        parse_body_req (te_reader env) (te_key_order env) (cr_body (rq_coll r)) (chain_bytes (fc_out (cx_filter cx)))
          (fc_out_total (cx_filter cx)) (snd (allocate_objects 1 (cx_memres cx))) \<bind> (\<lambda>parsed.
        case parsed of
          Inl e \<Rightarrow> Some (cx, [], Num_exn e)
        | Inr (None, m1) \<Rightarrow> Some (cx\<lparr>cx_memres := m1\<rparr>, [], Num_ok None)
        | Inr (Some body, m1) \<Rightarrow>
            (case run_ddwaf env (Obj_map [(''server.request.body'', body)]) (cx\<lparr>cx_memres := m1\<rparr>) of
               (cx2, res) \<Rightarrow> Some (cx2, [], res))))"

definition run_waf_end :: "tenv \<Rightarrow> request \<Rightarrow> stage \<Rightarrow> wcontext \<Rightarrow> thread_result option" where
  "run_waf_end env r st cx =
     (if st \<noteq> PENDING_WAF_END then Some (cx, [], Num_ok None)
      else
        let (body_chain, body_size) =
              (if cx_waf_send_resp_body cx
               then (chain_bytes (fc_out (cx_out_filter cx)), min (fc_out_total (cx_out_filter cx)) kMaxFilterData)
               else ([], 0))
        in serialize_end (te_reader env) (rq_coll r) body_chain body_size (te_sample_schema env) (cx_memres cx) \<bind> (\<lambda>ser.
             case ser of
               Inl e \<Rightarrow> Some (cx, [], Num_exn e)
             | Inr (data, m1) \<Rightarrow>
                 (case run_ddwaf env data (cx\<lparr>cx_memres := m1\<rparr>) of (cx2, res) \<Rightarrow> Some (cx2, [], res))))"

text \<open>
  \<^verbatim>\<open>PolTaskCtx::handle\<close>, which runs on the thread pool, in two steps: the load of the stage and, with
  the result of the task's function, the rest. An exception leaves the task without a result, and
  the first task then leaves the stage alone.
\<close>

definition do_handle :: "tenv \<Rightarrow> bytes \<Rightarrow> task \<Rightarrow> stage \<Rightarrow> request \<Rightarrow> wcontext \<Rightarrow> thread_result option" where
  "do_handle env version t st r cx =
     (case tk_kind t of
        Pol1st \<Rightarrow> run_waf_start env version r st cx
      | PolReqBody \<Rightarrow> run_waf_req_post env r cx
      | PolFinal \<Rightarrow> run_waf_end env r st cx)"

definition handle_begin :: "nat \<Rightarrow> wstate \<Rightarrow> wstate" where
  "handle_begin i s = s\<lparr>ws_tasks := (ws_tasks s)[i := (ws_tasks s ! i)\<lparr>tk_phase := Started (stage_of s)\<rparr>]\<rparr>"

definition finish_task :: "nat \<Rightarrow> task \<Rightarrow> block_spec option num_result \<Rightarrow> wstate \<Rightarrow> wstate" where
  "finish_task i t res s =
     s\<lparr>ws_tasks := (ws_tasks s)[i :=
         (case res of
            Num_ok spec \<Rightarrow> t\<lparr>tk_phase := Finished, tk_block_spec := spec, tk_ran := True\<rparr>
          | _ \<Rightarrow> t\<lparr>tk_phase := Finished\<rparr>)]\<rparr>"

definition store_first_stage :: "task \<Rightarrow> stage \<Rightarrow> block_spec option num_result \<Rightarrow> wstate \<Rightarrow> wstate" where
  "store_first_stage t st res s =
     (if tk_kind t = Pol1st \<and> st = ENTERED_ON_START then
        (case res of
           Num_ok (Some spec) \<Rightarrow> transition_to_stage AFTER_BEGIN_WAF_BLOCK s
         | Num_ok None \<Rightarrow> transition_to_stage AFTER_BEGIN_WAF s
         | _ \<Rightarrow> s)
      else s)"

fun emit_tags :: "(bytes \<times> tag_value) list \<Rightarrow> wstate \<Rightarrow> wstate" where
  "emit_tags [] s = s"
| "emit_tags ((k, v) # ts) s = emit_tags ts (emit (Set_tag k v) s)"

definition handle_end :: "tenv \<Rightarrow> bytes \<Rightarrow> nat \<Rightarrow> wstate \<Rightarrow> wstate option" where
  "handle_end env version i s =
     (case tk_phase (ws_tasks s ! i) of
        Started st \<Rightarrow>
          do_handle env version (ws_tasks s ! i) st (ws_rq s) (ws_cx s) \<bind> (\<lambda>(cx, tags, res).
            if res = Num_undefined then None
            else Some (finish_task i (ws_tasks s ! i) res
                         (store_first_stage (ws_tasks s ! i) st res (emit_tags tags (s\<lparr>ws_cx := cx\<rparr>)))))
      | _ \<Rightarrow> None)"

section \<open>The request body filter\<close>

definition next_request_body :: "nenv \<Rightarrow> bufs \<Rightarrow> wstate \<Rightarrow> int \<times> wstate" where
  "next_request_body env ch s = (ne_next_request_body env ch, emit (Next_request_body ch) s)"

definition save_request_body :: "nenv \<Rightarrow> bufs \<Rightarrow> bool \<Rightarrow> wstate \<Rightarrow> bool \<times> wstate" where
  "save_request_body env chain_in consume s =
     (case buffer_chain (ne_buf_size env) (cx_filter (ws_cx s)) (ws_pool s) chain_in consume of
        (ok, fc, _, p) \<Rightarrow> (ok, on_cx (\<lambda>cx. cx\<lparr>cx_filter := fc\<rparr>) (s\<lparr>ws_pool := p\<rparr>)))"

text \<open>The code at the label \<^verbatim>\<open>pass_downstream\<close>.\<close>

definition pass_downstream :: "nenv \<Rightarrow> wstate \<Rightarrow> int \<times> wstate" where
  "pass_downstream env s =
     (case next_request_body env (fc_out (cx_filter (ws_cx s))) s of
        (rc, s1) \<Rightarrow> (rc, on_cx (\<lambda>cx. cx\<lparr>cx_filter := fc_clear (cx_filter cx)\<rparr>) s1))"

text \<open>
  The branch for \<^verbatim>\<open>COLLECTING_ON_REQ_DATA\<close>. The exception of a failed task allocation is turned into
  \<^verbatim>\<open>NGX_ERROR\<close> by \<^verbatim>\<open>catch_exceptions\<close>.
\<close>

definition collect_request_body :: "nenv \<Rightarrow> bufs \<Rightarrow> wstate \<Rightarrow> int \<times> wstate" where
  "collect_request_body env chain_in s =
     (let fc = cx_filter (ws_cx s);
          new_size = fc_out_total fc + mem_size chain_in;
          is_last = (fc_found_last fc \<or> has_last chain_in);
          run_waf = (is_last \<or> kMaxFilterData \<le> new_size)
      in if run_waf then
           (case save_request_body env chain_in False s of
              (False, s1) \<Rightarrow> (NGX_HTTP_INTERNAL_SERVER_ERROR, s1)
            | (True, s1) \<Rightarrow>
                if fc_out_total (cx_filter (ws_cx s1)) = 0 then
                  pass_downstream env (transition_to_stage AFTER_ON_REQ_WAF s1)
                else
                  (case create_task env PolReqBody s1 of
                     None \<Rightarrow> (NGX_ERROR, s1)
                   | Some (t, s2) \<Rightarrow>
                       (case submit_task env t (transition_to_stage SUSPENDED_ON_REQ_WAF s2) of
                          (True, s3) \<Rightarrow> next_request_body env [] s3
                        | (False, s3) \<Rightarrow> pass_downstream env (transition_to_stage AFTER_ON_REQ_WAF s3))))
         else
           (case save_request_body env chain_in True s of
              (False, s1) \<Rightarrow> (NGX_HTTP_INTERNAL_SERVER_ERROR, s1)
            | (True, s1) \<Rightarrow> next_request_body env [] s1))"

text \<open>The whole filter; \<open>preread\<close> is the test that the chain is what was read along with the header.\<close>

definition do_request_body_filter :: "nenv \<Rightarrow> bufs \<Rightarrow> bool \<Rightarrow> wstate \<Rightarrow> int \<times> wstate" where
  "do_request_body_filter env chain_in preread s =
     (let s0 = (if stage_of s = AFTER_BEGIN_WAF then
                  transition_to_stage
                    (if chain_in \<noteq> [] \<and> preread then COLLECTING_ON_REQ_DATA_PREREAD else COLLECTING_ON_REQ_DATA)
                    (on_rq (\<lambda>r. r\<lparr>rq_need_buffering := True\<rparr>) s)
                else s)
      in case stage_of s0 of
           COLLECTING_ON_REQ_DATA_PREREAD \<Rightarrow>
             (case save_request_body env chain_in True s0 of
                (False, s1) \<Rightarrow> (NGX_HTTP_INTERNAL_SERVER_ERROR, s1)
              | (True, s1) \<Rightarrow> next_request_body env [] (transition_to_stage COLLECTING_ON_REQ_DATA s1))
         | COLLECTING_ON_REQ_DATA \<Rightarrow>
             collect_request_body env chain_in s0
         | SUSPENDED_ON_REQ_WAF \<Rightarrow>
             if chain_in \<noteq> [] then
               (case save_request_body env chain_in False s0 of
                  (False, s1) \<Rightarrow> (NGX_HTTP_INTERNAL_SERVER_ERROR, s1)
                | (True, s1) \<Rightarrow> next_request_body env [] s1)
             else next_request_body env [] s0
         | st \<Rightarrow>
             if st = AFTER_ON_REQ_WAF \<or> st = AFTER_ON_REQ_WAF_BLOCK then
               if fc_out (cx_filter (ws_cx s0)) \<noteq> [] then
                 (case save_request_body env chain_in False s0 of
                    (False, s1) \<Rightarrow> (NGX_HTTP_INTERNAL_SERVER_ERROR, s1)
                  | (True, s1) \<Rightarrow> pass_downstream env s1)
               else next_request_body env chain_in s0
             else next_request_body env chain_in s0)"

section \<open>The header filter\<close>

definition buffer_header_output :: "nenv \<Rightarrow> bufs \<Rightarrow> wstate \<Rightarrow> bool \<times> wstate" where
  "buffer_header_output env ch s =
     (case buffer_chain (ne_buf_size env) (cx_header_filter (ws_cx s)) (ws_pool s) ch True of
        (ok, fc, _, p) \<Rightarrow> (ok, on_cx (\<lambda>cx. cx\<lparr>cx_header_filter := fc\<rparr>) (s\<lparr>ws_pool := p\<rparr>)))"

text \<open>
  The downstream header filters with \<^verbatim>\<open>send_chain\<close> replaced: every chain they send is saved, up to a
  failure; then what \<^verbatim>\<open>ngx_http_write_filter\<close> left in \<^verbatim>\<open>request.out\<close> is saved too.
\<close>

fun save_header_chains :: "nenv \<Rightarrow> bufs list \<Rightarrow> wstate \<Rightarrow> bool \<times> wstate" where
  "save_header_chains env [] s = (True, s)"
| "save_header_chains env (ch # chs) s =
     (case buffer_header_output env ch s of
        (False, s1) \<Rightarrow> (False, s1)
      | (True, s1) \<Rightarrow> save_header_chains env chs s1)"

definition next_header_saving :: "nenv \<Rightarrow> wstate \<Rightarrow> int \<times> wstate" where
  "next_header_saving env s =
     (case save_header_chains env (ne_header_chains env) (emit Next_header s) of
        (ok, s1) \<Rightarrow>
          (ne_next_header env ok,
           if ne_header_left env \<noteq> [] then snd (buffer_header_output env (ne_header_left env) s1) else s1))"

definition body_request_of :: "request \<Rightarrow> body_request" where
  "body_request_of r = (cr_body (rq_coll r))\<lparr>br_header_only := rq_header_only r\<rparr>"

definition do_header_filter :: "nenv \<Rightarrow> wstate \<Rightarrow> int \<times> wstate" where
  "do_header_filter env s =
     (if stage_of s \<noteq> AFTER_BEGIN_WAF \<and> stage_of s \<noteq> AFTER_ON_REQ_WAF
      then (ne_next_header env True, emit Next_header s)
      else
        let s0 = (if rq_header_only (ws_rq s) then on_cx (\<lambda>cx. cx\<lparr>cx_header_only := True\<rparr>) s else s)
        in case next_header_saving env s0 of
             (rc, s1) \<Rightarrow>
               if rc \<noteq> NGX_OK then (rc, transition_to_stage AFTER_RUN_WAF_END s1)
               else
                 let send = (cx_waf_send_resp_body (ws_cx s1) \<and> is_body_resp_parseable (body_request_of (ws_rq s1)));
                     s2 = on_cx (\<lambda>cx. cx\<lparr>cx_waf_send_resp_body := send\<rparr>) s1
                 in if send then (NGX_OK, transition_to_stage COLLECTING_ON_RESP_DATA s2)
                    else case create_task env PolFinal s2 of
                           None \<Rightarrow> (NGX_ERROR, s2)
                         | Some (t, s3) \<Rightarrow> (NGX_OK, snd (submit_final env t True (transition_to_stage PENDING_WAF_END s3))))"

section \<open>The output body filter\<close>

definition send_buffered_header :: "nenv \<Rightarrow> wstate \<Rightarrow> int \<times> wstate" where
  "send_buffered_header env s =
     (let out = fc_out (cx_header_filter (ws_cx s))
      in if \<not> rq_stream (ws_rq s) then
           let rc = ne_write_filter env out;
               s1 = emit (Write_filter out) s;
               s2 = (if rc = NGX_ERROR then on_rq (\<lambda>r. r\<lparr>rq_conn_error := True\<rparr>) s1 else s1)
           in (rc, on_cx (\<lambda>cx. cx\<lparr>cx_header_filter := fc_clear (cx_header_filter cx)\<rparr>) s2)
         else
           let s1 = emit (Send_chain out) s
           in case ne_h2_send_chain env out of
                None \<Rightarrow> (NGX_ERROR, s1)
              | Some rem_chain \<Rightarrow>
                  (if rem_chain = [] then NGX_OK else NGX_AGAIN,
                   on_cx (\<lambda>cx. cx\<lparr>cx_header_filter := fc_replace_out (ne_buf_size env) rem_chain (cx_header_filter cx)\<rparr>) s1))"

definition next_output_body :: "nenv \<Rightarrow> bufs \<Rightarrow> wstate \<Rightarrow> int \<times> wstate" where
  "next_output_body env ch s = (ne_next_output_body env ch, emit (Next_output_body ch) s)"

definition save_output :: "nenv \<Rightarrow> bufs \<Rightarrow> bool \<Rightarrow> wstate \<Rightarrow> bool \<times> wstate" where
  "save_output env chain_in consume s =
     (case buffer_chain (ne_buf_size env) (cx_out_filter (ws_cx s)) (ws_pool s) chain_in consume of
        (ok, fc, _, p) \<Rightarrow> (ok, on_cx (\<lambda>cx. cx\<lparr>cx_out_filter := fc\<rparr>) (s\<lparr>ws_pool := p\<rparr>)))"

text \<open>The part for the stages in which the response is held back.\<close>

definition buffer_output :: "nenv \<Rightarrow> bufs \<Rightarrow> wstate \<Rightarrow> int \<times> wstate" where
  "buffer_output env chain_in s =
     (let st = stage_of s;
          s0 = on_rq (\<lambda>r. r\<lparr>rq_buffered := True\<rparr>) s;
          consume = (fc_copied_total (cx_out_filter (ws_cx s)) < cx_max_saved_output_data (ws_cx s));
          rc = (if consume then NGX_OK else NGX_AGAIN)
      in case save_output env chain_in consume s0 of
           (False, s1) \<Rightarrow> (NGX_HTTP_INTERNAL_SERVER_ERROR, s1)
         | (True, s1) \<Rightarrow>
             let total = fc_out_total (cx_out_filter (ws_cx s1));
                 start_waf = (st = COLLECTING_ON_RESP_DATA \<and> (kMaxFilterData \<le> total \<or> has_last chain_in))
             in if \<not> start_waf then (rc, s1)
                else
                  let s2 = (if total = 0 then on_cx (\<lambda>cx. cx\<lparr>cx_waf_send_resp_body := False\<rparr>) s1 else s1)
                  in case create_task env PolFinal s2 of
                       None \<Rightarrow> (NGX_ERROR, s2)
                     | Some (t, s3) \<Rightarrow> (rc, snd (submit_final env t False (transition_to_stage PENDING_WAF_END s3))))"

text \<open>The part that sends what was held back, and the new data after it.\<close>

definition flush_output :: "nenv \<Rightarrow> bufs \<Rightarrow> wstate \<Rightarrow> int \<times> wstate" where
  "flush_output env chain_in s =
     (if fc_out (cx_out_filter (ws_cx s)) \<noteq> [] then
        (case save_output env chain_in False s of
           (False, s1) \<Rightarrow> (NGX_HTTP_INTERNAL_SERVER_ERROR, s1)
         | (True, s1) \<Rightarrow>
             (case next_output_body env (fc_out (cx_out_filter (ws_cx s1))) s1 of
                (rc, s2) \<Rightarrow> (rc, on_cx (\<lambda>cx. cx\<lparr>cx_out_filter := fc_clear (cx_out_filter cx)\<rparr>) s2)))
      else next_output_body env chain_in s)"

definition do_output_body_filter :: "nenv \<Rightarrow> bufs \<Rightarrow> wstate \<Rightarrow> int \<times> wstate" where
  "do_output_body_filter env chain_in s =
     (let st = stage_of s;
          s0 = (if cx_header_only (ws_cx s) \<and> \<not> rq_header_only (ws_rq s)
                then on_rq (\<lambda>r. r\<lparr>rq_header_only := True\<rparr>) s else s)
      in if st = PENDING_WAF_END \<or> st = COLLECTING_ON_RESP_DATA then buffer_output env chain_in s0
         else
           let s1 = on_rq (\<lambda>r. r\<lparr>rq_buffered := False\<rparr>) s0
           in if st = WAF_END_BLOCK_COMMIT then
                next_output_body env chain_in
                  (transition_to_stage AFTER_RUN_WAF_END
                    (on_cx (\<lambda>cx. cx\<lparr>cx_header_filter := fc_clear (cx_header_filter cx),
                                   cx_out_filter := fc_clear (cx_out_filter cx)\<rparr>) s1))
              else if fc_out (cx_header_filter (ws_cx s1)) \<noteq> [] then
                (case send_buffered_header env s1 of
                   (rc, s2) \<Rightarrow>
                     if rc = NGX_AGAIN then (NGX_AGAIN, on_rq (\<lambda>r. r\<lparr>rq_buffered := True\<rparr>) s2)
                     else if rc \<noteq> NGX_OK then (rc, s2)
                     else flush_output env chain_in s2)
              else flush_output env chain_in s1)"

text \<open>\<^verbatim>\<open>drain_buffered_data_write_handler\<close>; \<^verbatim>\<open>ngx_http_output_filter\<close> with no data reaches the filter above.\<close>

definition wait_writable :: "nenv \<Rightarrow> wstate \<Rightarrow> wstate" where
  "wait_writable env s =
     (let s1 = (if ne_delayed env then s else emit Add_write_timer s)
      in if ne_write_event_ok env then s1 else emit (Finalize NGX_HTTP_INTERNAL_SERVER_ERROR) s1)"

definition drain_buffered_data_write_handler :: "nenv \<Rightarrow> bool \<Rightarrow> wstate \<Rightarrow> wstate" where
  "drain_buffered_data_write_handler env aio s =
     (if ne_timedout env then emit (Finalize NGX_HTTP_REQUEST_TIME_OUT) (on_rq (\<lambda>r. r\<lparr>rq_conn_error := True\<rparr>) s)
      else if ne_delayed env \<or> aio then wait_writable env s
      else
        let s1 = emit Output_filter_null s;
            rc = ne_output_null env
        in if rc = NGX_ERROR then emit (Finalize NGX_HTTP_INTERNAL_SERVER_ERROR) s1
           else if rc = NGX_AGAIN \<or> rq_buffered (ws_rq s1) \<or> ne_more_buffered env then wait_writable env s1
           else emit Post_write (on_rq (\<lambda>r. r\<lparr>rq_write_event_handler := cx_prev_req_write (ws_cx s1)\<rparr>) s1))"

section \<open>The end of the request\<close>

definition keep_span :: "wcontext \<Rightarrow> bool" where
  "keep_span cx \<longleftrightarrow> (case cx_waf cx of None \<Rightarrow> False | Some w \<Rightarrow> wc_keep w)"

definition report_client_ip :: "wstate \<Rightarrow> wstate" where
  "report_client_ip s =
     (case cx_client_ip (ws_cx s) of None \<Rightarrow> s | Some ip \<Rightarrow> emit (Set_tag ''http.client_ip'' (Tag ip)) s)"

definition report_matches_ctx :: "waf_env \<Rightarrow> waf_ctx \<Rightarrow> wstate \<Rightarrow> wstate num_result" where
  "report_matches_ctx env w s =
     nbind (report_matches env w) (\<lambda>(w', reported).
       let s1 = on_cx (\<lambda>cx. cx\<lparr>cx_waf := Some w'\<rparr>) s;
           s2 = (case reported of
                   None \<Rightarrow> s1
                 | Some json \<Rightarrow> emit (Set_tag ''appsec.event'' (Tag ''true'')) (emit (Set_tag ''_dd.appsec.json'' (Tag json)) s1));
           s3 = (if wc_keep w' then
                   let s4 = emit (Override_sampling_priority 2) s2
                   in if cx_apm_tracing_enabled (ws_cx s4) then s4 else emit Set_source_appsec s4
                 else s2)
       in Num_ok s3)"

text \<open>\<^verbatim>\<open>on_main_log_request\<close>: an exception ends it, and what was set before stays.\<close>

definition on_main_log_request :: "waf_env \<Rightarrow> wstate \<Rightarrow> wstate option" where
  "on_main_log_request env s =
     (if stage_of s \<noteq> AFTER_RUN_WAF_END \<and> stage_of s \<noteq> AFTER_BEGIN_WAF_BLOCK \<and> stage_of s \<noteq> AFTER_ON_REQ_WAF_BLOCK
      then Some s
      else case cx_waf (ws_cx s) of
             None \<Rightarrow> None
           | Some w \<Rightarrow>
               (case has_matches w of
                  Num_undefined \<Rightarrow> None
                | Num_exn e \<Rightarrow> Some s
                | Num_ok b \<Rightarrow>
                    let s1 = emit_tags (map (\<lambda>(k, v). (k, Tag v)) (wc_tags w)) (emit (Set_header_tags b) s);
                        s2 = emit_tags (map (\<lambda>(k, d). (k, Metric d)) (wc_metrics w)) s1
                    in case report_matches_ctx env w s2 of
                         Num_undefined \<Rightarrow> None
                       | Num_exn e \<Rightarrow> Some s2
                       | Num_ok s3 \<Rightarrow> Some (report_client_ip s3)))"

end
