(* ===== verification/Waf_System.thy ===== *)
theory Waf_System
  imports Waf_Context
begin

text \<open>
  The WAF context as a system: the handlers that nginx's main thread calls and the steps of the tasks
  on the thread pool, in any order, as a step relation labelled with the events. A handler is one
  step; the thread's work is two, so that other handlers can run while a task is active.
\<close>

section \<open>How the handlers move the state\<close>

named_theorems ws_simps \<open>projections of updated states\<close>

lemma on_simps [simp]:
  "ws_rq (on_rq f s) = f (ws_rq s)" "ws_cx (on_rq f s) = ws_cx s" "ws_st (on_rq f s) = ws_st s"
  "ws_tasks (on_rq f s) = ws_tasks s" "ws_pool (on_rq f s) = ws_pool s" "ws_calls (on_rq f s) = ws_calls s"
  "ws_rq (on_cx g s) = ws_rq s" "ws_cx (on_cx g s) = g (ws_cx s)" "ws_st (on_cx g s) = ws_st s"
  "ws_tasks (on_cx g s) = ws_tasks s" "ws_pool (on_cx g s) = ws_pool s" "ws_calls (on_cx g s) = ws_calls s"
  "ws_rq (on_st h s) = ws_rq s" "ws_cx (on_st h s) = ws_cx s" "ws_st (on_st h s) = h (ws_st s)"
  "ws_tasks (on_st h s) = ws_tasks s" "ws_pool (on_st h s) = ws_pool s" "ws_calls (on_st h s) = ws_calls s"
  "ws_rq (emit c s) = ws_rq s" "ws_cx (emit c s) = ws_cx s" "ws_st (emit c s) = ws_st s"
  "ws_tasks (emit c s) = ws_tasks s" "ws_pool (emit c s) = ws_pool s" "ws_calls (emit c s) = ws_calls s @ [c]"
  by (simp_all add: on_rq_def on_cx_def on_st_def emit_def)

lemma transition_simps [simp]:
  "ws_rq (transition_to_stage st s) = ws_rq s" "ws_st (transition_to_stage st s) = ws_st s"
  "ws_tasks (transition_to_stage st s) = ws_tasks s" "ws_pool (transition_to_stage st s) = ws_pool s"
  "ws_calls (transition_to_stage st s) = ws_calls s"
  "ws_cx (transition_to_stage st s) = (ws_cx s)\<lparr>cx_stage := st, cx_history := cx_history (ws_cx s) @ [st]\<rparr>"
  by (simp_all add: transition_to_stage_def)

lemma submit_task_simps [simp]:
  "ws_cx (snd (submit_task env t s)) = ws_cx s" "ws_pool (snd (submit_task env t s)) = ws_pool s"
  "ws_calls (snd (submit_task env t s)) = ws_calls s"
  by (simp_all add: submit_task_def Let_def split: prod.splits)

lemma submit_task_fst: "fst (submit_task env t s) = ne_task_post env"
  by (simp add: submit_task_def Let_def split: prod.splits)

lemma create_task_SomeD:
  assumes "create_task env k s = Some (t, s')"
  shows "tk_kind t = k" "tk_phase t = Posted" "s' = on_st (\<lambda>t. t\<lparr>s_created := s_created t + 1\<rparr>) s" "\<not> tk_ran t"
  using assms by (auto simp: create_task_def split: if_splits)

section \<open>Chains passed downstream\<close>

definition req_down :: "call list \<Rightarrow> piece list" where
  "req_down cs = concat (map (\<lambda>c. case c of Next_request_body ch \<Rightarrow> chain_pieces ch | _ \<Rightarrow> []) cs)"

definition body_down :: "call list \<Rightarrow> piece list" where
  "body_down cs = concat (map (\<lambda>c. case c of Next_output_body ch \<Rightarrow> chain_pieces ch | _ \<Rightarrow> []) cs)"

lemma req_down_simps [simp]:
  "req_down [] = []" "req_down (cs @ ds) = req_down cs @ req_down ds"
  "req_down (c # cs) = (case c of Next_request_body ch \<Rightarrow> chain_pieces ch | _ \<Rightarrow> []) @ req_down cs"
  by (simp_all add: req_down_def)

lemma body_down_simps [simp]:
  "body_down [] = []" "body_down (cs @ ds) = body_down cs @ body_down ds"
  "body_down (c # cs) = (case c of Next_output_body ch \<Rightarrow> chain_pieces ch | _ \<Rightarrow> []) @ body_down cs"
  by (simp_all add: body_down_def)

text \<open>What the request body filter holds and has passed on.\<close>

abbreviation req_saved :: "wstate \<Rightarrow> piece list" where
  "req_saved s \<equiv> chain_pieces (fc_out (cx_filter (ws_cx s)))"

definition req_seen :: "wstate \<Rightarrow> piece list" where
  "req_seen s = req_down (ws_calls s) @ req_saved s"

lemma buffer_link_no_failure: "fst (buffer_link sz consume b fc []) \<and> snd (snd (snd (buffer_link sz consume b fc []))) = []"
  by (auto simp: buffer_link_def copy_buf_def copy_file_def copy_memory_def Let_def split: option.splits if_splits)

lemma buffer_links_no_failure:
  "fst (buffer_links sz consume bs fc []) \<and> snd (snd (snd (buffer_links sz consume bs fc []))) = []"
proof (induction bs arbitrary: fc)
  case (Cons b bs)
  obtain ok fc1 b1 p1 where l: "buffer_link sz consume b fc [] = (ok, fc1, b1, p1)" by (metis prod_cases4)
  with buffer_link_no_failure [of sz consume b fc] have "ok" "p1 = []" by auto
  with l Cons.IH [of fc1] show ?case by (auto split: prod.splits)
qed simp

lemma buffer_chain_no_failure:
  assumes "bs = [] \<or> \<not> fc_found_last fc"
  shows "\<exists>fc' bs'. buffer_chain sz fc [] bs consume = (True, fc', bs', [])"
  using assms buffer_links_no_failure [of sz consume bs fc]
  by (cases "buffer_links sz consume bs fc []") (auto simp: buffer_chain_def)

lemma save_request_body_ok:
  assumes "ws_pool s = []" and "chain_in = [] \<or> \<not> fc_found_last (cx_filter (ws_cx s))"
  shows "\<exists>s' fc. save_request_body env chain_in consume s = (True, s') \<and> ws_pool s' = [] \<and> ws_calls s' = ws_calls s
    \<and> ws_cx s' = (ws_cx s)\<lparr>cx_filter := fc\<rparr> \<and> chain_pieces (fc_out fc) = req_saved s @ chain_pieces chain_in
    \<and> (fc_found_last fc \<longleftrightarrow> fc_found_last (cx_filter (ws_cx s)) \<or> has_last chain_in)
    \<and> ws_tasks s' = ws_tasks s \<and> ws_rq s' = ws_rq s \<and> ws_st s' = ws_st s"
proof -
  obtain fc' bs' where b: "buffer_chain (ne_buf_size env) (cx_filter (ws_cx s)) [] chain_in consume = (True, fc', bs', [])"
    using buffer_chain_no_failure [OF assms(2)] by blast
  moreover have "chain_pieces (fc_out fc') = req_saved s @ chain_pieces chain_in
      \<and> (fc_found_last fc' \<longleftrightarrow> fc_found_last (cx_filter (ws_cx s)) \<or> has_last chain_in)"
    using b buffer_links_ok by (force simp: buffer_chain_def split: if_splits)
  ultimately show ?thesis
    using assms(1) by (auto simp: save_request_body_def)
qed

text \<open>The stages in which the request body filter looks at what it saved.\<close>

definition req_stage :: "stage \<Rightarrow> bool" where
  "req_stage st \<longleftrightarrow> st \<in> {AFTER_BEGIN_WAF, COLLECTING_ON_REQ_DATA_PREREAD, COLLECTING_ON_REQ_DATA, SUSPENDED_ON_REQ_WAF,
     AFTER_ON_REQ_WAF, AFTER_ON_REQ_WAF_BLOCK}"

text \<open>What every call of the filter does when allocations succeed and no data follows the end of the body.\<close>

definition req_step_ok :: "wstate \<Rightarrow> bufs \<Rightarrow> wstate \<Rightarrow> bool" where
  "req_step_ok s chain_in s' \<longleftrightarrow> req_seen s' = req_seen s @ chain_pieces chain_in \<and> ws_pool s' = []
     \<and> (fc_found_last (cx_filter (ws_cx s')) \<longrightarrow> fc_found_last (cx_filter (ws_cx s)) \<or> has_last chain_in)
     \<and> req_stage (stage_of s')
     \<and> (stage_of s' \<in> {AFTER_ON_REQ_WAF, AFTER_ON_REQ_WAF_BLOCK} \<longrightarrow> req_saved s' = [])"

lemma collect_ok:
  assumes "ws_pool s = []" and "chain_in = [] \<or> \<not> fc_found_last (cx_filter (ws_cx s))"
    and "stage_of s = COLLECTING_ON_REQ_DATA"
  shows "req_step_ok s chain_in (snd (collect_request_body env chain_in s))"
proof -
  note w = save_request_body_ok [OF assms(1,2)]
  obtain s1 fc where f: "save_request_body env chain_in False s = (True, s1)" "ws_pool s1 = []" "ws_calls s1 = ws_calls s"
     "ws_cx s1 = (ws_cx s)\<lparr>cx_filter := fc\<rparr>" "chain_pieces (fc_out fc) = req_saved s @ chain_pieces chain_in"
     "fc_found_last fc \<longleftrightarrow> fc_found_last (cx_filter (ws_cx s)) \<or> has_last chain_in"
    using w [of env False] by blast
  obtain s2 fd where t: "save_request_body env chain_in True s = (True, s2)" "ws_pool s2 = []" "ws_calls s2 = ws_calls s"
     "ws_cx s2 = (ws_cx s)\<lparr>cx_filter := fd\<rparr>" "chain_pieces (fc_out fd) = req_saved s @ chain_pieces chain_in"
     "fc_found_last fd \<longleftrightarrow> fc_found_last (cx_filter (ws_cx s)) \<or> has_last chain_in"
    using w [of env True] by blast
  show ?thesis
  proof (cases "fc_found_last (cx_filter (ws_cx s)) \<or> has_last chain_in
      \<or> kMaxFilterData \<le> fc_out_total (cx_filter (ws_cx s)) + mem_size chain_in")
    case False
    with t assms(3) show ?thesis
      by (simp add: collect_request_body_def next_request_body_def req_step_ok_def req_seen_def req_stage_def)
  next
    case True
    show ?thesis
    proof (cases "fc_out_total fc = 0")
      case T: True
      with True f show ?thesis
        by (simp add: collect_request_body_def pass_downstream_def next_request_body_def req_step_ok_def req_seen_def
            req_stage_def fc_clear_def)
    next
      case F: False
      show ?thesis
      proof (cases "create_task env PolReqBody s1")
        case None
        with True F f assms(3) show ?thesis
          by (simp add: collect_request_body_def req_step_ok_def req_seen_def req_stage_def)
      next
        case (Some p)
        obtain tk s3 where p: "p = (tk, s3)" by fastforce
        note c = create_task_SomeD [OF Some [unfolded p]]
        obtain ok s4 where sub: "submit_task env tk (transition_to_stage SUSPENDED_ON_REQ_WAF s3) = (ok, s4)" by fastforce
        then have s4: "ws_cx s4 = ws_cx (transition_to_stage SUSPENDED_ON_REQ_WAF s3)" "ws_calls s4 = ws_calls s3" "ws_pool s4 = ws_pool s3"
          using submit_task_simps [of env tk "transition_to_stage SUSPENDED_ON_REQ_WAF s3"] by simp_all
        from c(3) have s3: "ws_cx s3 = ws_cx s1" "ws_calls s3 = ws_calls s1" "ws_pool s3 = ws_pool s1" by simp_all
        show ?thesis
          using True F f Some p sub s4 s3
          by (cases ok)
            (simp_all add: collect_request_body_def pass_downstream_def next_request_body_def req_step_ok_def req_seen_def
              req_stage_def fc_clear_def)
      qed
    qed
  qed
qed

lemma request_body_filter_ok:
  assumes "ws_pool s = []" and "chain_in = [] \<or> \<not> fc_found_last (cx_filter (ws_cx s))" and "req_stage (stage_of s)"
  shows "req_step_ok s chain_in (snd (do_request_body_filter env chain_in preread s))"
proof -
  have save: "\<exists>s1 fc. save_request_body env chain_in consume s0 = (True, s1) \<and> ws_pool s1 = [] \<and> ws_calls s1 = ws_calls s
    \<and> ws_cx s1 = (ws_cx s0)\<lparr>cx_filter := fc\<rparr> \<and> chain_pieces (fc_out fc) = req_saved s @ chain_pieces chain_in
    \<and> (fc_found_last fc \<longleftrightarrow> fc_found_last (cx_filter (ws_cx s)) \<or> has_last chain_in)"
    if "ws_pool s0 = ws_pool s" "cx_filter (ws_cx s0) = cx_filter (ws_cx s)" "ws_calls s0 = ws_calls s" for s0 consume
    using save_request_body_ok [of s0 chain_in env consume] that assms(1,2) by auto
  let ?b = "on_rq (\<lambda>r. r\<lparr>rq_need_buffering := True\<rparr>) s"
  consider "stage_of s = AFTER_BEGIN_WAF" "chain_in \<noteq> [] \<and> preread" | "stage_of s = AFTER_BEGIN_WAF" "\<not> (chain_in \<noteq> [] \<and> preread)"
    | "stage_of s = COLLECTING_ON_REQ_DATA_PREREAD" | "stage_of s = COLLECTING_ON_REQ_DATA" | "stage_of s = SUSPENDED_ON_REQ_WAF"
    | "stage_of s = AFTER_ON_REQ_WAF \<or> stage_of s = AFTER_ON_REQ_WAF_BLOCK"
    using assms(3) by (auto simp: req_stage_def)
  then show ?thesis
  proof cases
    case 1
    with save [of "transition_to_stage COLLECTING_ON_REQ_DATA_PREREAD ?b" True] show ?thesis
      by (auto simp: do_request_body_filter_def next_request_body_def req_step_ok_def req_seen_def req_stage_def)
  next
    case 2
    let ?c = "transition_to_stage COLLECTING_ON_REQ_DATA ?b"
    have "req_step_ok ?c chain_in (snd (collect_request_body env chain_in ?c))"
      using assms by (intro collect_ok) simp_all
    moreover have "do_request_body_filter env chain_in preread s = collect_request_body env chain_in ?c"
      using 2 by (auto simp: do_request_body_filter_def)
    ultimately show ?thesis by (simp add: req_step_ok_def req_seen_def)
  next
    case 3
    with save [of s True] show ?thesis
      by (auto simp: do_request_body_filter_def next_request_body_def req_step_ok_def req_seen_def req_stage_def)
  next
    case 4
    then show ?thesis
      using collect_ok [OF assms(1,2)] by (simp add: do_request_body_filter_def)
  next
    case 5
    obtain s1 fc where sv: "save_request_body env chain_in False s = (True, s1)" "ws_pool s1 = []" "ws_calls s1 = ws_calls s"
      "ws_cx s1 = (ws_cx s)\<lparr>cx_filter := fc\<rparr>" "chain_pieces (fc_out fc) = req_saved s @ chain_pieces chain_in"
      "fc_found_last fc \<longleftrightarrow> fc_found_last (cx_filter (ws_cx s)) \<or> has_last chain_in"
      using save [of s False] by blast
    show ?thesis
    proof (cases "chain_in = []")
      case True
      with 5 assms(1) show ?thesis
        by (simp add: do_request_body_filter_def next_request_body_def req_step_ok_def req_seen_def req_stage_def)
    next
      case False
      with 5 sv show ?thesis
        by (simp add: do_request_body_filter_def next_request_body_def req_step_ok_def req_seen_def req_stage_def)
    qed
  next
    case 6
    obtain s1 fc where sv: "save_request_body env chain_in False s = (True, s1)" "ws_pool s1 = []" "ws_calls s1 = ws_calls s"
      "ws_cx s1 = (ws_cx s)\<lparr>cx_filter := fc\<rparr>" "chain_pieces (fc_out fc) = req_saved s @ chain_pieces chain_in"
      "fc_found_last fc \<longleftrightarrow> fc_found_last (cx_filter (ws_cx s)) \<or> has_last chain_in"
      using save [of s False] by blast
    have st: "req_stage (stage_of s)" "stage_of s \<noteq> AFTER_BEGIN_WAF" using 6 by (auto simp: req_stage_def)
    show ?thesis
    proof (cases "fc_out (cx_filter (ws_cx s)) = []")
      case True
      with 6 have "snd (do_request_body_filter env chain_in preread s) = emit (Next_request_body chain_in) s"
        by (elim disjE) (simp_all add: do_request_body_filter_def next_request_body_def)
      with True st assms(1) show ?thesis by (simp add: req_step_ok_def req_seen_def)
    next
      case False
      with 6 sv(1) have "snd (do_request_body_filter env chain_in preread s) = snd (pass_downstream env s1)"
        by (elim disjE) (simp_all add: do_request_body_filter_def)
      with sv st show ?thesis
        by (simp add: pass_downstream_def next_request_body_def req_step_ok_def req_seen_def fc_clear_def)
    qed
  qed
qed

section \<open>Steps\<close>

datatype event =
    E_start | E_body bufs | E_header | E_output bufs | E_drain | E_begin | E_end | E_complete | E_log | E_nginx

inductive ctx_step :: "wstate \<Rightarrow> event \<Rightarrow> wstate \<Rightarrow> bool" where
  step_start: "ctx_step s E_start (snd (do_on_request_start env s))"
| step_body: "ctx_step s (E_body ch) (snd (do_request_body_filter env ch preread s))"
| step_header: "ctx_step s E_header (snd (do_header_filter env s))"
| step_output_body: "ctx_step s (E_output ch) (snd (do_output_body_filter env ch s))"
| step_drain: "ctx_step s E_drain (drain_buffered_data_write_handler env aio s)"
| step_thread_begin: "i < length (ws_tasks s) \<Longrightarrow> tk_phase (ws_tasks s ! i) = Posted \<Longrightarrow> ctx_step s E_begin (handle_begin i s)"
| step_thread_end: "i < length (ws_tasks s) \<Longrightarrow> handle_end tenv version i s = Some s' \<Longrightarrow> ctx_step s E_end s'"
| step_complete: "i < length (ws_tasks s) \<Longrightarrow> tk_phase (ws_tasks s ! i) = Finished \<Longrightarrow> ctx_step s E_complete (completion_handler env i s)"
| step_log: "on_main_log_request wenv s = Some s' \<Longrightarrow> ctx_step s E_log s'"
| step_nginx: "rq_blocked r = rq_blocked (ws_rq s) \<Longrightarrow> ctx_step s E_nginx (s\<lparr>ws_rq := r\<rparr>)"

inductive_cases ctx_step_cases: "ctx_step s e s'"

inductive ctx_run :: "wstate \<Rightarrow> event list \<Rightarrow> wstate \<Rightarrow> bool" where
  run_refl: "ctx_run s [] s"
| run_step: "ctx_run s es s' \<Longrightarrow> ctx_step s' e s'' \<Longrightarrow> ctx_run s (es @ [e]) s''"

text \<open>The state of a request when its context is created.\<close>

definition initial :: "wstate \<Rightarrow> bool" where
  "initial s \<longleftrightarrow> (\<exists>n apm. Some (ws_cx s) = maybe_create True n apm) \<and> ws_tasks s = [] \<and> ws_calls s = []
     \<and> ws_st s = \<lparr>s_created = 0, s_submitted = 0, s_submission_failed = 0, s_completed = 0, s_destructed = 0\<rparr>"

section \<open>Stage transitions\<close>

text \<open>The transitions that \<^verbatim>\<open>context.h\<close> documents.\<close>

definition documented :: "stage \<Rightarrow> stage \<Rightarrow> bool" where
  "documented a b \<longleftrightarrow> (a, b) \<in> {
     (START, DISABLED), (START, ENTERED_ON_START),
     (ENTERED_ON_START, AFTER_BEGIN_WAF), (ENTERED_ON_START, AFTER_BEGIN_WAF_BLOCK),
     (AFTER_BEGIN_WAF, COLLECTING_ON_REQ_DATA_PREREAD), (AFTER_BEGIN_WAF, COLLECTING_ON_REQ_DATA),
     (COLLECTING_ON_REQ_DATA_PREREAD, COLLECTING_ON_REQ_DATA),
     (COLLECTING_ON_REQ_DATA, SUSPENDED_ON_REQ_WAF), (COLLECTING_ON_REQ_DATA, AFTER_ON_REQ_WAF),
     (SUSPENDED_ON_REQ_WAF, AFTER_ON_REQ_WAF), (SUSPENDED_ON_REQ_WAF, AFTER_ON_REQ_WAF_BLOCK),
     (AFTER_BEGIN_WAF, COLLECTING_ON_RESP_DATA), (AFTER_ON_REQ_WAF, COLLECTING_ON_RESP_DATA),
     (AFTER_BEGIN_WAF, PENDING_WAF_END), (AFTER_ON_REQ_WAF, PENDING_WAF_END), (COLLECTING_ON_RESP_DATA, PENDING_WAF_END),
     (PENDING_WAF_END, WAF_END_BLOCK_COMMIT), (PENDING_WAF_END, AFTER_RUN_WAF_END),
     (WAF_END_BLOCK_COMMIT, AFTER_RUN_WAF_END), (AFTER_BEGIN_WAF, AFTER_RUN_WAF_END), (AFTER_ON_REQ_WAF, AFTER_RUN_WAF_END)}"

definition hist_ok :: "wcontext \<Rightarrow> bool" where
  "hist_ok cx \<longleftrightarrow> cx_history cx \<noteq> [] \<and> hd (cx_history cx) = START \<and> last (cx_history cx) = cx_stage cx
     \<and> successively documented (cx_history cx)"

lemma hist_ok_transition:
  "hist_ok cx \<Longrightarrow> documented (cx_stage cx) st \<Longrightarrow> hist_ok (cx\<lparr>cx_stage := st, cx_history := cx_history cx @ [st]\<rparr>)"
  by (auto simp: hist_ok_def successively_append_iff)

text \<open>What a task in flight says about the stage.\<close>

definition task_ok :: "stage \<Rightarrow> bool \<Rightarrow> task \<Rightarrow> bool" where
  "task_ok st body t \<longleftrightarrow>
     (tk_kind t = Pol1st \<longrightarrow> st \<noteq> START \<and> (tk_phase t \<noteq> Finished \<longrightarrow> st = ENTERED_ON_START))
     \<and> (tk_kind t = PolReqBody \<longrightarrow> st = SUSPENDED_ON_REQ_WAF \<and> body)
     \<and> (tk_kind t = PolFinal \<longrightarrow> st = PENDING_WAF_END)"

definition tasks_ok :: "stage \<Rightarrow> bool \<Rightarrow> task list \<Rightarrow> bool" where
  "tasks_ok st body ts \<longleftrightarrow> distinct (map tk_kind ts) \<and> list_all (task_ok st body) ts"

text \<open>The accounts: every task in flight holds one reference that blocks the request's termination.\<close>

definition counts_ok :: "int \<Rightarrow> nat \<Rightarrow> wstate \<Rightarrow> bool" where
  "counts_ok base pending s \<longleftrightarrow>
     rq_blocked (ws_rq s) = base + int (length (ws_tasks s))
     \<and> s_created (ws_st s) = s_destructed (ws_st s) + length (ws_tasks s) + pending
     \<and> s_submitted (ws_st s) = s_completed (ws_st s) + length (ws_tasks s)
     \<and> s_created (ws_st s) = s_submitted (ws_st s) + s_submission_failed (ws_st s) + pending"

text \<open>The total of an empty filter context is zero.\<close>

definition totals_ok :: "filter_ctx \<Rightarrow> bool" where
  "totals_ok fc \<longleftrightarrow> (fc_out fc = [] \<longrightarrow> fc_out_total fc = 0)"

definition ctx_inv :: "int \<Rightarrow> nat \<Rightarrow> wstate \<Rightarrow> bool" where
  "ctx_inv base pending s \<longleftrightarrow> hist_ok (ws_cx s) \<and> tasks_ok (stage_of s) (fc_out (cx_filter (ws_cx s)) \<noteq> []) (ws_tasks s)
     \<and> counts_ok base pending s \<and> totals_ok (cx_filter (ws_cx s))"

section \<open>The invariant is kept\<close>

lemma ctx_inv_emit [simp]: "ctx_inv b k (emit c s) = ctx_inv b k s"
  by (simp add: ctx_inv_def counts_ok_def)

lemma ctx_inv_rq: "rq_blocked (f (ws_rq s)) = rq_blocked (ws_rq s) \<Longrightarrow> ctx_inv b k (on_rq f s) = ctx_inv b k s"
  by (simp add: ctx_inv_def counts_ok_def)

lemma ctx_inv_filter:
  assumes "cx_stage (g (ws_cx s)) = stage_of s" and "cx_history (g (ws_cx s)) = cx_history (ws_cx s)"
    and "fc_out (cx_filter (ws_cx s)) \<noteq> [] \<Longrightarrow> fc_out (cx_filter (g (ws_cx s))) \<noteq> []"
    and "totals_ok (cx_filter (g (ws_cx s)))" and "ctx_inv b k s"
  shows "ctx_inv b k (on_cx g s)"
  using assms by (auto simp: ctx_inv_def counts_ok_def hist_ok_def tasks_ok_def list_all_iff task_ok_def)

lemma ctx_inv_cx:
  assumes "cx_stage (g (ws_cx s)) = stage_of s" and "cx_history (g (ws_cx s)) = cx_history (ws_cx s)"
    and "cx_filter (g (ws_cx s)) = cx_filter (ws_cx s)"
  shows "ctx_inv b k (on_cx g s) = ctx_inv b k s"
  using assms by (simp add: ctx_inv_def counts_ok_def hist_ok_def)

text \<open>Tasks that no longer constrain the stage: the first one, once it has finished.\<close>

definition idle :: "task list \<Rightarrow> bool" where
  "idle ts \<longleftrightarrow> distinct (map tk_kind ts) \<and> list_all (\<lambda>t. tk_kind t = Pol1st \<and> tk_phase t = Finished) ts"

lemma idle_tasks_ok: "idle ts \<Longrightarrow> st \<noteq> START \<Longrightarrow> tasks_ok st body ts"
  by (auto simp: idle_def tasks_ok_def task_ok_def list_all_iff)

lemma tasks_ok_idle:
  "tasks_ok st body ts \<Longrightarrow> st \<notin> {ENTERED_ON_START, SUSPENDED_ON_REQ_WAF, PENDING_WAF_END} \<Longrightarrow> idle ts"
  unfolding idle_def tasks_ok_def task_ok_def list_all_iff by (metis insertCI task_kind.exhaust)

lemma ctx_inv_idle:
  "ctx_inv b k s \<Longrightarrow> stage_of s \<notin> {ENTERED_ON_START, SUSPENDED_ON_REQ_WAF, PENDING_WAF_END} \<Longrightarrow> idle (ws_tasks s)"
  by (auto simp: ctx_inv_def intro: tasks_ok_idle)

lemma ctx_inv_transition:
  "ctx_inv b k s \<Longrightarrow> documented (stage_of s) st \<Longrightarrow> tasks_ok st (fc_out (cx_filter (ws_cx s)) \<noteq> []) (ws_tasks s) \<Longrightarrow>
     ctx_inv b k (transition_to_stage st s)"
  by (simp add: ctx_inv_def counts_ok_def hist_ok_transition)

lemma ctx_inv_move:
  "ctx_inv b k s \<Longrightarrow> documented (stage_of s) st \<Longrightarrow> idle (ws_tasks s) \<Longrightarrow> ctx_inv b k (transition_to_stage st s)"
  by (rule ctx_inv_transition) (auto intro: idle_tasks_ok simp: documented_def)

lemma ctx_inv_START: "ctx_inv b k s \<Longrightarrow> stage_of s = START \<Longrightarrow> ws_tasks s = []"
  by (cases "ws_tasks s"; cases "tk_kind (hd (ws_tasks s))") (auto simp: ctx_inv_def tasks_ok_def task_ok_def)

lemma replace_handlers_keeps:
  "tk_kind (fst (replace_handlers t r)) = tk_kind t" "tk_phase (fst (replace_handlers t r)) = tk_phase t"
  "rq_blocked (snd (replace_handlers t r)) = rq_blocked r" "rq_count (snd (replace_handlers t r)) = rq_count r"
  by (auto simp: replace_handlers_def Let_def split: task_kind.splits)

lemma restore_handlers_keeps:
  "rq_blocked (restore_handlers t r) = rq_blocked r" "rq_count (restore_handlers t r) = rq_count r"
  by (auto simp: restore_handlers_def Let_def split: task_kind.splits option.splits)

lemma create_inv: "ctx_inv b 0 s \<Longrightarrow> create_task env k s = Some (t, s') \<Longrightarrow> ctx_inv b 1 s'"
  by (auto simp: create_task_def ctx_inv_def counts_ok_def split: if_splits)

text \<open>The task as it is put into the list, and the list after a submission.\<close>

lemma submit_tasks:
  "ws_tasks (snd (submit_task env t s)) = ws_tasks s \<or>
   (\<exists>t1. ws_tasks (snd (submit_task env t s)) = ws_tasks s @ [t1] \<and> tk_kind t1 = tk_kind t \<and> tk_phase t1 = tk_phase t)"
  using replace_handlers_keeps [of t "ws_rq s"]
  by (auto simp: submit_task_def Let_def split: prod.splits)

lemma submit_inv:
  assumes "ctx_inv b 1 s" and "idle (ws_tasks s)" and "tk_kind t \<noteq> Pol1st \<or> ws_tasks s = []"
    and "task_ok (stage_of s) (fc_out (cx_filter (ws_cx s)) \<noteq> []) t"
  shows "ctx_inv b 0 (snd (submit_task env t s))"
proof -
  obtain t1 r1 where h: "replace_handlers t (ws_rq s) = (t1, r1)" by fastforce
  note k = replace_handlers_keeps [of t "ws_rq s", unfolded h]
  have "task_ok (stage_of s) (fc_out (cx_filter (ws_cx s)) \<noteq> []) t1" using assms(4) k by (simp add: task_ok_def)
  moreover have "tk_kind t1 \<notin> tk_kind ` set (ws_tasks s)" using assms(2,3) k by (auto simp: idle_def list_all_iff)
  ultimately show ?thesis
    using assms(1) k restore_handlers_keeps
    by (auto simp: submit_task_def h Let_def ctx_inv_def counts_ok_def tasks_ok_def)
qed

lemma prepare_drain_inv: "ctx_inv b k s \<Longrightarrow> ctx_inv b k (prepare_drain_buffered_header s)"
  by (auto simp: prepare_drain_buffered_header_def Let_def ctx_inv_rq ctx_inv_cx)

lemma waf_final_done_inv: "ctx_inv b k s \<Longrightarrow> idle (ws_tasks s) \<Longrightarrow> ctx_inv b k (waf_final_done blocked s)"
  by (auto simp: waf_final_done_def checked_transition_to_stage_def documented_def intro!: ctx_inv_move)

lemma waf_req_post_done_inv: "ctx_inv b k s \<Longrightarrow> idle (ws_tasks s) \<Longrightarrow> ctx_inv b k (waf_req_post_done blocked s)"
  by (auto simp: waf_req_post_done_def checked_transition_to_stage_def documented_def intro!: ctx_inv_move)

lemma submit_final_inv:
  assumes "ctx_inv b 1 s" and "idle (ws_tasks s)" and "tk_kind t = PolFinal" and "stage_of s = PENDING_WAF_END"
  shows "ctx_inv b 0 (snd (submit_final env t from_header s))"
proof -
  define s2 where "s2 = on_rq (\<lambda>r. r\<lparr>rq_header_sent := True\<rparr>)
     (if from_header \<and> rq_header_only (ws_rq s) then on_rq (\<lambda>r. r\<lparr>rq_header_only := False\<rparr>) s else s)"
  obtain ok s3 where sub: "submit_task env t s2 = (ok, s3)" by fastforce
  have s2: "ctx_inv b 1 s2" "ws_tasks s2 = ws_tasks s" "stage_of s2 = stage_of s" "ws_cx s2 = ws_cx s"
    using assms(1) by (simp_all add: s2_def ctx_inv_rq)
  have s3: "ctx_inv b 0 s3"
    using submit_inv [OF s2(1), of t env] assms s2 sub by (simp add: task_ok_def)
  show ?thesis
  proof (cases ok)
    case True
    with sub s3 show ?thesis by (simp add: submit_final_def Let_def s2_def)
  next
    case False
    with sub have "ws_tasks s3 = ws_tasks s2"
      by (auto simp: submit_task_def Let_def split: prod.splits if_splits)
    with s2 assms(2) have "ctx_inv b 0 (waf_final_done False s3)" by (intro waf_final_done_inv [OF s3]) simp
    with False sub show ?thesis by (simp add: submit_final_def Let_def s2_def prepare_drain_inv)
  qed
qed

lemma start_inv: "ctx_inv b 0 s \<Longrightarrow> ctx_inv b 0 (snd (do_on_request_start env s))"
proof -
  assume i: "ctx_inv b 0 s"
  show ?thesis
  proof (cases "cx_waf (ws_cx s) = None \<or> stage_of s \<noteq> START")
    case True
    with i show ?thesis by (auto simp: do_on_request_start_def)
  next
    case False
    note t = ctx_inv_START [OF i]
    let ?s1 = "transition_to_stage ENTERED_ON_START s"
    have i1: "ctx_inv b 0 ?s1" using i False t by (intro ctx_inv_move) (auto simp: documented_def idle_def)
    have d: "ctx_inv b 0 (transition_to_stage DISABLED s)" using i False t by (intro ctx_inv_move) (auto simp: documented_def idle_def)
    show ?thesis
    proof (cases "create_task env Pol1st ?s1")
      case None
      with False i1 d show ?thesis by (auto simp: do_on_request_start_def Let_def)
    next
      case (Some p)
      obtain tk s2 where p: "p = (tk, s2)" by fastforce
      note c = create_task_SomeD [OF Some [unfolded p]]
      have "ctx_inv b 0 (snd (submit_task env tk s2))"
        using create_inv [OF i1 Some [unfolded p]] c False t
        by (intro submit_inv) (auto simp: task_ok_def idle_def)
      with False Some p d show ?thesis by (auto simp: do_on_request_start_def Let_def)
    qed
  qed
qed

text \<open>Saving never takes anything out of a chain.\<close>

lemma buffer_links_grows: "\<exists>xs. fc_out (fst (snd (buffer_links sz consume bs fc p))) = fc_out fc @ xs"
proof (induction bs arbitrary: fc p)
  case (Cons b bs)
  obtain ok fc1 b1 p1 where l: "buffer_link sz consume b fc p = (ok, fc1, b1, p1)" by (metis prod_cases4)
  then have "\<exists>xs. fc_out fc1 = fc_out fc @ xs"
    by (auto simp: buffer_link_def Let_def split: prod.splits if_splits option.splits)
  then show ?case
    using l Cons.IH [of fc1 p1] by (cases ok) (auto split: prod.splits)
qed simp

lemma buffer_chain_grows: "\<exists>xs. fc_out (fst (snd (buffer_chain sz fc p bs consume))) = fc_out fc @ xs"
  using buffer_links_grows by (simp add: buffer_chain_def)

lemma buffer_links_total:
  "fc_out (fst (snd (buffer_links sz consume bs fc p))) = [] \<Longrightarrow>
     fc_out_total (fst (snd (buffer_links sz consume bs fc p))) = fc_out_total fc"
proof (induction bs arbitrary: fc p)
  case (Cons b bs)
  obtain ok fc1 b1 p1 where l: "buffer_link sz consume b fc p = (ok, fc1, b1, p1)" by (metis prod_cases4)
  show ?case
  proof (cases ok)
    case True
    then have "fc_out fc1 \<noteq> []" using buffer_link_ok(2) [of sz consume b fc p fc1 b1 p1] l by simp
    then show ?thesis
      using Cons.prems l True buffer_links_grows [of sz consume bs fc1 p1] by (auto split: prod.splits)
  next
    case False
    with l have "fc_out_total fc1 = fc_out_total fc"
      by (auto simp: buffer_link_def Let_def split: prod.splits if_splits option.splits)
    with l False show ?thesis by simp
  qed
qed simp

lemma buffer_chain_totals: "totals_ok fc \<Longrightarrow> totals_ok (fst (snd (buffer_chain sz fc p bs consume)))"
  using buffer_links_total [of sz consume bs fc p] buffer_links_grows [of sz consume bs fc p]
  by (auto simp: totals_ok_def buffer_chain_def)

lemma save_request_body_inv:
  assumes "save_request_body env ch consume s = (ok, s1)"
  shows "ctx_inv b k s \<Longrightarrow> ctx_inv b k s1" "stage_of s1 = stage_of s" "ws_tasks s1 = ws_tasks s"
    "\<exists>xs. fc_out (cx_filter (ws_cx s1)) = fc_out (cx_filter (ws_cx s)) @ xs"
proof -
  obtain o1 fc bs p where b: "buffer_chain (ne_buf_size env) (cx_filter (ws_cx s)) (ws_pool s) ch consume = (o1, fc, bs, p)"
    by (metis prod_cases4)
  with assms have s1: "s1 = on_cx (\<lambda>cx. cx\<lparr>cx_filter := fc\<rparr>) (s\<lparr>ws_pool := p\<rparr>)" "ok = o1"
    by (auto simp: save_request_body_def)
  obtain xs where g: "fc_out fc = fc_out (cx_filter (ws_cx s)) @ xs"
    using buffer_chain_grows [of "ne_buf_size env" "cx_filter (ws_cx s)" "ws_pool s" ch consume] b by auto
  then show "\<exists>xs. fc_out (cx_filter (ws_cx s1)) = fc_out (cx_filter (ws_cx s)) @ xs" using s1 by simp
  show "stage_of s1 = stage_of s" "ws_tasks s1 = ws_tasks s" using s1 by simp_all
  show "ctx_inv b k s1" if "ctx_inv b k s"
    unfolding s1 using that g buffer_chain_totals [of "cx_filter (ws_cx s)" "ne_buf_size env" "ws_pool s" ch consume] b
    by (intro ctx_inv_filter) (auto simp: ctx_inv_def counts_ok_def)
qed

lemma pass_downstream_inv: "ctx_inv b k s \<Longrightarrow> idle (ws_tasks s) \<Longrightarrow> stage_of s \<noteq> START \<Longrightarrow> ctx_inv b k (snd (pass_downstream env s))"
  by (auto simp: pass_downstream_def next_request_body_def ctx_inv_def counts_ok_def hist_ok_def totals_ok_def fc_clear_def intro: idle_tasks_ok)

lemma collect_inv:
  assumes "ctx_inv b 0 s" and "stage_of s = COLLECTING_ON_REQ_DATA"
  shows "ctx_inv b 0 (snd (collect_request_body env ch s))"
proof -
  have idle: "idle (ws_tasks s)" using ctx_inv_idle [OF assms(1)] assms(2) by simp
  obtain ok s1 where f: "save_request_body env ch False s = (ok, s1)" by fastforce
  note i1 = save_request_body_inv [OF f]
  obtain ok2 s2 where t: "save_request_body env ch True s = (ok2, s2)" by fastforce
  note i2 = save_request_body_inv [OF t]
  have inv1: "ctx_inv b 0 s1" and inv2: "ctx_inv b 0 s2" using i1(1) i2(1) assms(1) by blast+
  have early: "ctx_inv b 0 (snd (pass_downstream env (transition_to_stage AFTER_ON_REQ_WAF s1)))"
    using inv1 i1(2,3) idle assms(2) by (intro pass_downstream_inv ctx_inv_move) (auto simp: documented_def)
  have task: "ctx_inv b 0 (snd (submit_task env tk (transition_to_stage SUSPENDED_ON_REQ_WAF s3)))
      \<and> (\<not> ne_task_post env \<longrightarrow> ctx_inv b 0 (snd (pass_downstream env
            (transition_to_stage AFTER_ON_REQ_WAF (snd (submit_task env tk (transition_to_stage SUSPENDED_ON_REQ_WAF s3)))))))"
    if c: "create_task env PolReqBody s1 = Some (tk, s3)" and ok "fc_out_total (cx_filter (ws_cx s1)) \<noteq> 0" for tk s3
  proof -
    note d = create_task_SomeD [OF c]
    have body: "fc_out (cx_filter (ws_cx s1)) \<noteq> []"
      using inv1 that by (auto simp: ctx_inv_def totals_ok_def)
    let ?s4 = "transition_to_stage SUSPENDED_ON_REQ_WAF s3"
    have i4: "ctx_inv b 1 ?s4"
      using create_inv [OF inv1 c] d(3) i1(2,3) idle assms(2) by (intro ctx_inv_move) (auto simp: documented_def)
    have i5: "ctx_inv b 0 (snd (submit_task env tk ?s4))"
      using i4 d i1(3) idle body by (intro submit_inv) (auto simp: task_ok_def)
    have "ctx_inv b 0 (snd (pass_downstream env (transition_to_stage AFTER_ON_REQ_WAF (snd (submit_task env tk ?s4)))))"
      if "\<not> ne_task_post env"
    proof -
      have "ws_tasks (snd (submit_task env tk ?s4)) = ws_tasks s"
        using that d(3) i1(3) by (simp add: submit_task_def Let_def split: prod.splits)
      with i5 idle show ?thesis by (intro pass_downstream_inv ctx_inv_move) (auto simp: documented_def)
    qed
    with i5 show ?thesis by blast
  qed
  show ?thesis
  proof (cases "create_task env PolReqBody s1")
    case None
    with f t inv1 inv2 early show ?thesis
      by (cases ok; cases ok2) (auto simp: collect_request_body_def next_request_body_def Let_def)
  next
    case (Some p)
    obtain tk s3 where p: "p = (tk, s3)" by fastforce
    obtain posted s5 where sub: "submit_task env tk (transition_to_stage SUSPENDED_ON_REQ_WAF s3) = (posted, s5)" by fastforce
    with submit_task_fst [of env tk "transition_to_stage SUSPENDED_ON_REQ_WAF s3"] have "posted = ne_task_post env" by simp
    with task [OF Some [unfolded p]] sub Some p f t inv1 inv2 early show ?thesis
      by (cases ok; cases ok2; cases posted) (auto simp: collect_request_body_def next_request_body_def Let_def)
  qed
qed

lemma body_inv:
  assumes "ctx_inv b 0 s"
  shows "ctx_inv b 0 (snd (do_request_body_filter env ch preread s))"
proof -
  let ?b = "on_rq (\<lambda>r. r\<lparr>rq_need_buffering := True\<rparr>) s"
  have save: "ctx_inv b 0 s1 \<and> stage_of s1 = stage_of s0 \<and> ws_tasks s1 = ws_tasks s0"
    if "save_request_body env ch consume s0 = (ok, s1)" "ctx_inv b 0 s0" for consume s0 ok s1
    using save_request_body_inv [OF that(1)] that(2) by blast
  have pre: "ctx_inv b 0 (transition_to_stage st ?b)" if "stage_of s = AFTER_BEGIN_WAF" "documented AFTER_BEGIN_WAF st" for st
    using that assms ctx_inv_idle [OF assms] by (intro ctx_inv_move) (auto simp: ctx_inv_rq)
  have preread: "ctx_inv b 0 (snd (case save_request_body env ch True s0 of
      (False, s1) \<Rightarrow> (NGX_HTTP_INTERNAL_SERVER_ERROR, s1)
    | (True, s1) \<Rightarrow> next_request_body env [] (transition_to_stage COLLECTING_ON_REQ_DATA s1)))"
    if "ctx_inv b 0 s0" "stage_of s0 = COLLECTING_ON_REQ_DATA_PREREAD" for s0
  proof -
    obtain ok s1 where sv: "save_request_body env ch True s0 = (ok, s1)" by fastforce
    note i = save [OF sv that(1)]
    have "ctx_inv b 0 (transition_to_stage COLLECTING_ON_REQ_DATA s1)"
      using i that ctx_inv_idle [OF that(1)] by (intro ctx_inv_move) (auto simp: documented_def)
    with sv i show ?thesis by (cases ok) (auto simp: next_request_body_def)
  qed
  consider "stage_of s = AFTER_BEGIN_WAF" | "stage_of s = COLLECTING_ON_REQ_DATA_PREREAD" | "stage_of s = COLLECTING_ON_REQ_DATA"
    | "stage_of s = SUSPENDED_ON_REQ_WAF" | "stage_of s = AFTER_ON_REQ_WAF \<or> stage_of s = AFTER_ON_REQ_WAF_BLOCK"
    | "stage_of s \<in> {DISABLED, START, ENTERED_ON_START, AFTER_BEGIN_WAF_BLOCK, COLLECTING_ON_RESP_DATA, PENDING_WAF_END,
        WAF_END_BLOCK_COMMIT, AFTER_RUN_WAF_END}"
    by (cases "stage_of s") auto
  then show ?thesis
  proof cases
    case 1
    show ?thesis
    proof (cases "ch \<noteq> [] \<and> preread")
      case True
      with 1 preread [OF pre [OF 1, of COLLECTING_ON_REQ_DATA_PREREAD]] show ?thesis
        by (simp add: do_request_body_filter_def documented_def)
    next
      case False
      have "ctx_inv b 0 (snd (collect_request_body env ch (transition_to_stage COLLECTING_ON_REQ_DATA ?b)))"
        using pre [OF 1] by (intro collect_inv) (auto simp: documented_def)
      with 1 False show ?thesis by (auto simp: do_request_body_filter_def)
    qed
  next
    case 2
    with preread [OF assms] show ?thesis by (simp add: do_request_body_filter_def)
  next
    case 3
    with collect_inv [OF assms] show ?thesis by (simp add: do_request_body_filter_def)
  next
    case 4
    obtain ok s1 where sv: "save_request_body env ch False s = (ok, s1)" by fastforce
    with 4 save [OF sv assms] assms show ?thesis
      by (cases ok) (auto simp: do_request_body_filter_def next_request_body_def)
  next
    case 5
    obtain ok s1 where sv: "save_request_body env ch False s = (ok, s1)" by fastforce
    note i = save [OF sv assms]
    have "ctx_inv b 0 (snd (pass_downstream env s1))"
      using i 5 ctx_inv_idle [OF assms] by (intro pass_downstream_inv) auto
    with 5 sv i assms show ?thesis
      by (cases ok) (auto simp: do_request_body_filter_def next_request_body_def)
  next
    case 6
    with assms show ?thesis
      by (auto simp: do_request_body_filter_def next_request_body_def)
  qed
qed

lemma buffer_header_inv: "buffer_header_output env ch s = (ok, s1) \<Longrightarrow>
  (ctx_inv b k s1 = ctx_inv b k s) \<and> stage_of s1 = stage_of s \<and> ws_tasks s1 = ws_tasks s"
  by (auto simp: buffer_header_output_def ctx_inv_cx ctx_inv_def counts_ok_def hist_ok_def split: prod.splits)

lemma save_header_chains_inv: "save_header_chains env chs s = (ok, s1) \<Longrightarrow>
  (ctx_inv b k s1 = ctx_inv b k s) \<and> stage_of s1 = stage_of s \<and> ws_tasks s1 = ws_tasks s"
proof (induction chs arbitrary: s)
  case (Cons ch chs)
  obtain o2 s2 where h: "buffer_header_output env ch s = (o2, s2)" by fastforce
  from Cons.prems h have "(if o2 then save_header_chains env chs s2 else (False, s2)) = (ok, s1)" by (simp split: bool.splits)
  with Cons.IH [of s2] buffer_header_inv [OF h, of b k] show ?case by (auto split: if_splits)
qed simp

lemma next_header_saving_inv: "next_header_saving env s = (rc, s1) \<Longrightarrow>
  (ctx_inv b k s1 = ctx_inv b k s) \<and> stage_of s1 = stage_of s \<and> ws_tasks s1 = ws_tasks s"
proof -
  assume a: "next_header_saving env s = (rc, s1)"
  obtain ok s2 where sv: "save_header_chains env (ne_header_chains env) (emit Next_header s) = (ok, s2)" by fastforce
  obtain o3 s3 where l: "buffer_header_output env (ne_header_left env) s2 = (o3, s3)" by fastforce
  from a sv l save_header_chains_inv [OF sv, of b k] buffer_header_inv [OF l, of b k] show ?thesis
    by (auto simp: next_header_saving_def split: if_splits)
qed

text \<open>The submission of the final task, from either filter.\<close>

lemma final_task_inv:
  assumes "ctx_inv b 0 s" and "idle (ws_tasks s)" and "documented (stage_of s) PENDING_WAF_END"
    and "create_task env PolFinal s = Some (t, s3)"
  shows "ctx_inv b 0 (snd (submit_final env t from_header (transition_to_stage PENDING_WAF_END s3)))"
proof -
  note c = create_task_SomeD [OF assms(4)]
  have "ctx_inv b 1 (transition_to_stage PENDING_WAF_END s3)"
    using create_inv [OF assms(1,4)] c assms(2,3) by (intro ctx_inv_move) auto
  with c assms(2) show ?thesis by (intro submit_final_inv) auto
qed

lemma header_inv:
  assumes "ctx_inv b 0 s"
  shows "ctx_inv b 0 (snd (do_header_filter env s))"
proof (cases "stage_of s \<noteq> AFTER_BEGIN_WAF \<and> stage_of s \<noteq> AFTER_ON_REQ_WAF")
  case True
  with assms show ?thesis by (simp add: do_header_filter_def)
next
  case False
  then have idle: "idle (ws_tasks s)" using ctx_inv_idle [OF assms] by auto
  define s0 where "s0 = (if rq_header_only (ws_rq s) then on_cx (\<lambda>cx. cx\<lparr>cx_header_only := True\<rparr>) s else s)"
  have s0: "ctx_inv b 0 s0" "stage_of s0 = stage_of s" "ws_tasks s0 = ws_tasks s"
    using assms by (simp_all add: s0_def ctx_inv_cx)
  obtain rc s1 where n: "next_header_saving env s0 = (rc, s1)" by fastforce
  note i = next_header_saving_inv [OF n, of b 0]
  define send where "send = (cx_waf_send_resp_body (ws_cx s1) \<and> is_body_resp_parseable (body_request_of (ws_rq s1)))"
  define s2 where "s2 = on_cx (\<lambda>cx. cx\<lparr>cx_waf_send_resp_body := send\<rparr>) s1"
  have s2: "ctx_inv b 0 s2" "stage_of s2 = stage_of s" "ws_tasks s2 = ws_tasks s"
    using i s0 by (simp_all add: s2_def ctx_inv_cx)
  have e: "snd (do_header_filter env s) =
     (if rc \<noteq> NGX_OK then transition_to_stage AFTER_RUN_WAF_END s1
      else if send then transition_to_stage COLLECTING_ON_RESP_DATA s2
      else case create_task env PolFinal s2 of
             None \<Rightarrow> s2
           | Some (t, s3) \<Rightarrow> snd (submit_final env t True (transition_to_stage PENDING_WAF_END s3)))"
    using False unfolding do_header_filter_def Let_def s0_def [symmetric] s2_def send_def
    by (auto simp: n split: option.splits)
  have "ctx_inv b 0 (transition_to_stage AFTER_RUN_WAF_END s1)"
    using i s0 idle False by (intro ctx_inv_move) (auto simp: documented_def)
  moreover have "ctx_inv b 0 (transition_to_stage COLLECTING_ON_RESP_DATA s2)"
    using s2 idle False by (intro ctx_inv_move) (auto simp: documented_def)
  moreover have "create_task env PolFinal s2 = Some (t, s3) \<Longrightarrow>
      ctx_inv b 0 (snd (submit_final env t True (transition_to_stage PENDING_WAF_END s3)))" for t s3
    using s2 idle False by (intro final_task_inv [of b s2]) (auto simp: documented_def)
  ultimately show ?thesis using s2(1) by (simp add: e split: option.splits)
qed

lemma save_output_inv: "save_output env ch consume s = (ok, s1) \<Longrightarrow>
  (ctx_inv b k s1 = ctx_inv b k s) \<and> stage_of s1 = stage_of s \<and> ws_tasks s1 = ws_tasks s \<and> ws_calls s1 = ws_calls s"
  by (auto simp: save_output_def ctx_inv_def counts_ok_def hist_ok_def split: prod.splits)

lemma flush_output_inv: "ctx_inv b k s \<Longrightarrow> ctx_inv b k (snd (flush_output env ch s))"
proof -
  assume i: "ctx_inv b k s"
  obtain ok s1 where sv: "save_output env ch False s = (ok, s1)" by fastforce
  with save_output_inv [OF sv, of b k] i show ?thesis
    by (cases ok) (auto simp: flush_output_def next_output_body_def ctx_inv_cx)
qed

lemma send_buffered_header_inv:
  "ctx_inv b k s \<Longrightarrow> ctx_inv b k (snd (send_buffered_header env s)) \<and> stage_of (snd (send_buffered_header env s)) = stage_of s"
  by (auto simp: send_buffered_header_def Let_def ctx_inv_cx ctx_inv_rq split: option.splits)

lemma buffer_output_inv:
  assumes "ctx_inv b 0 s"
  shows "ctx_inv b 0 (snd (buffer_output env ch s))"
proof -
  let ?s0 = "on_rq (\<lambda>r. r\<lparr>rq_buffered := True\<rparr>) s"
  define consume where "consume = (fc_copied_total (cx_out_filter (ws_cx s)) < cx_max_saved_output_data (ws_cx s))"
  obtain ok s1 where sv: "save_output env ch consume ?s0 = (ok, s1)" by fastforce
  note i1 = save_output_inv [OF sv, of b 0]
  define total where "total = fc_out_total (cx_out_filter (ws_cx s1))"
  define s2 where "s2 = (if total = 0 then on_cx (\<lambda>cx. cx\<lparr>cx_waf_send_resp_body := False\<rparr>) s1 else s1)"
  have s1: "ctx_inv b 0 s1" using i1 assms by (simp add: ctx_inv_rq)
  have s2: "ctx_inv b 0 s2" "stage_of s2 = stage_of s" "ws_tasks s2 = ws_tasks s"
    using i1 s1 by (simp_all add: s2_def ctx_inv_cx)
  have f: "ctx_inv b 0 (snd (submit_final env t False (transition_to_stage PENDING_WAF_END s3)))"
    if "create_task env PolFinal s2 = Some (t, s3)" "stage_of s = COLLECTING_ON_RESP_DATA" for t s3
    using that s2 ctx_inv_idle [OF assms] by (intro final_task_inv [of b s2]) (auto simp: documented_def)
  have "snd (buffer_output env ch s) = s1 \<or> snd (buffer_output env ch s) = s2 \<or>
     (stage_of s = COLLECTING_ON_RESP_DATA \<and> (\<exists>t s3. create_task env PolFinal s2 = Some (t, s3)
        \<and> snd (buffer_output env ch s) = snd (submit_final env t False (transition_to_stage PENDING_WAF_END s3))))"
    unfolding buffer_output_def Let_def consume_def [symmetric]
    by (cases ok) (auto simp: sv total_def s2_def split: option.splits)
  with s1 s2(1) f show ?thesis by auto
qed

lemma output_inv:
  assumes "ctx_inv b 0 s"
  shows "ctx_inv b 0 (snd (do_output_body_filter env ch s))"
proof -
  define s0 where "s0 = (if cx_header_only (ws_cx s) \<and> \<not> rq_header_only (ws_rq s)
                then on_rq (\<lambda>r. r\<lparr>rq_header_only := True\<rparr>) s else s)"
  have s0: "ctx_inv b 0 s0" "stage_of s0 = stage_of s" "ws_tasks s0 = ws_tasks s"
    using assms by (simp_all add: s0_def ctx_inv_rq)
  define s1 where "s1 = on_rq (\<lambda>r. r\<lparr>rq_buffered := False\<rparr>) s0"
  have s1: "ctx_inv b 0 s1" "stage_of s1 = stage_of s" "ws_tasks s1 = ws_tasks s"
    using s0 by (simp_all add: s1_def ctx_inv_rq)
  define g where "g = (\<lambda>cx. cx\<lparr>cx_header_filter := fc_clear (cx_header_filter cx), cx_out_filter := fc_clear (cx_out_filter cx)\<rparr> :: wcontext)"
  have c: "ctx_inv b 0 (transition_to_stage AFTER_RUN_WAF_END (on_cx g s1))" if "stage_of s = WAF_END_BLOCK_COMMIT"
    using that s1 ctx_inv_idle [OF assms] by (intro ctx_inv_move) (auto simp: ctx_inv_cx g_def documented_def)
  obtain rc s2 where h: "send_buffered_header env s1 = (rc, s2)" by fastforce
  have s2: "ctx_inv b 0 s2" using send_buffered_header_inv [OF s1(1), of env] h by simp
  show ?thesis
    unfolding do_output_body_filter_def Let_def s0_def [symmetric] s1_def [symmetric] g_def [symmetric]
    using buffer_output_inv [OF s0(1)] c flush_output_inv [OF s1(1)] flush_output_inv [OF s2] s2
    by (auto simp: h next_output_body_def ctx_inv_rq)
qed

lemma drain_inv: "ctx_inv b k s \<Longrightarrow> ctx_inv b k (drain_buffered_data_write_handler env aio s)"
  by (auto simp: drain_buffered_data_write_handler_def wait_writable_def Let_def ctx_inv_rq)

text \<open>The thread's functions touch neither the stage nor the filters.\<close>

lemma run_ddwaf_frame: "run_ddwaf env data cx = (cx', res) \<Longrightarrow>
  cx_stage cx' = cx_stage cx \<and> cx_history cx' = cx_history cx \<and> cx_filter cx' = cx_filter cx \<and> cx_out_filter cx' = cx_out_filter cx
  \<and> cx_header_filter cx' = cx_header_filter cx \<and> cx_max_saved_output_data cx' = cx_max_saved_output_data cx"
  by (auto simp: run_ddwaf_def split: option.splits prod.splits)

lemma do_handle_frame: "do_handle env version t st r cx = Some (cx', tags, res) \<Longrightarrow>
  cx_stage cx' = cx_stage cx \<and> cx_history cx' = cx_history cx \<and> cx_filter cx' = cx_filter cx \<and> cx_out_filter cx' = cx_out_filter cx
  \<and> cx_header_filter cx' = cx_header_filter cx \<and> cx_max_saved_output_data cx' = cx_max_saved_output_data cx"
  by (auto simp: do_handle_def run_waf_start_def run_waf_req_post_def run_waf_end_def Let_def
      split: task_kind.splits if_splits bind_splits prod.splits sum.splits option.splits dest!: run_ddwaf_frame)

lemma emit_tags_frame [simp]:
  "ws_cx (emit_tags ts s) = ws_cx s" "ws_tasks (emit_tags ts s) = ws_tasks s" "ws_rq (emit_tags ts s) = ws_rq s"
  "ws_st (emit_tags ts s) = ws_st s" "ws_pool (emit_tags ts s) = ws_pool s"
  by (induction ts s rule: emit_tags.induct) simp_all

lemma distinct_kinds_update: "i < length ts \<Longrightarrow> tk_kind t = tk_kind (ts ! i) \<Longrightarrow> map tk_kind (ts[i := t]) = map tk_kind ts"
  by (simp add: map_update list_update_same_conv)

lemma begin_inv:
  assumes "ctx_inv b k s" and "i < length (ws_tasks s)" and "tk_phase (ws_tasks s ! i) = Posted"
  shows "ctx_inv b k (handle_begin i s)"
proof -
  let ?t = "(ws_tasks s ! i)\<lparr>tk_phase := Started (stage_of s)\<rparr>"
  from assms have ok: "task_ok (stage_of s) (fc_out (cx_filter (ws_cx s)) \<noteq> []) (ws_tasks s ! i)"
    by (auto simp: ctx_inv_def tasks_ok_def list_all_length)
  then have "task_ok (stage_of s) (fc_out (cx_filter (ws_cx s)) \<noteq> []) ?t"
    using assms(3) by (auto simp: task_ok_def)
  with assms(1,2) show ?thesis
    by (auto simp: handle_begin_def ctx_inv_def counts_ok_def tasks_ok_def distinct_kinds_update list_all_iff
        dest!: set_update_subset_insert [THEN subsetD])
qed

lemma end_inv:
  assumes "ctx_inv b k s" and "i < length (ws_tasks s)" and "handle_end env version i s = Some s'"
  shows "ctx_inv b k s'"
proof -
  let ?t = "ws_tasks s ! i"
  from assms(3) obtain st cx tags res where ph: "tk_phase ?t = Started st"
    and h: "do_handle env version ?t st (ws_rq s) (ws_cx s) = Some (cx, tags, res)"
    and s': "s' = finish_task i ?t res (store_first_stage ?t st res (emit_tags tags (s\<lparr>ws_cx := cx\<rparr>)))"
    by (auto simp: handle_end_def split: task_phase.splits bind_splits if_splits)
  note f = do_handle_frame [OF h]
  define t' where "t' = (case res of Num_ok spec \<Rightarrow> ?t\<lparr>tk_phase := Finished, tk_block_spec := spec, tk_ran := True\<rparr>
          | _ \<Rightarrow> ?t\<lparr>tk_phase := Finished\<rparr>)"
  have t': "tk_kind t' = tk_kind ?t" "tk_phase t' = Finished" by (simp_all add: t'_def split: num_result.splits)
  have tok: "tasks_ok (stage_of s) (fc_out (cx_filter (ws_cx s)) \<noteq> []) (ws_tasks s)" using assms(1) by (simp add: ctx_inv_def)
  then have ok: "task_ok (stage_of s) (fc_out (cx_filter (ws_cx s)) \<noteq> []) ?t"
    using assms(2) by (auto simp: tasks_ok_def list_all_length)
  have upd: "tasks_ok (stage_of s) (fc_out (cx_filter (ws_cx s)) \<noteq> []) ((ws_tasks s)[i := t'])"
    using tok ok t' assms(2)
    by (auto simp: tasks_ok_def distinct_kinds_update list_all_iff task_ok_def dest!: set_update_subset_insert [THEN subsetD])
  show ?thesis
  proof (cases "tk_kind ?t = Pol1st \<and> st = ENTERED_ON_START")
    case False
    with s' f upd assms(1) show ?thesis
      by (simp add: store_first_stage_def finish_task_def ctx_inv_def counts_ok_def hist_ok_def t'_def [symmetric])
  next
    case True
    then have e: "stage_of s = ENTERED_ON_START" using ok ph by (simp add: task_ok_def)
    have idle: "idle ((ws_tasks s)[i := t'])"
      unfolding idle_def list_all_length
    proof (intro conjI allI impI)
      show "distinct (map tk_kind ((ws_tasks s)[i := t']))" using upd by (simp add: tasks_ok_def)
      fix j assume j: "j < length ((ws_tasks s)[i := t'])"
      from upd j e have o: "task_ok ENTERED_ON_START (fc_out (cx_filter (ws_cx s)) \<noteq> []) ((ws_tasks s)[i := t'] ! j)"
        by (simp add: tasks_ok_def list_all_length)
      then show k: "tk_kind ((ws_tasks s)[i := t'] ! j) = Pol1st" by (metis task_ok_def stage.distinct task_kind.exhaust)
      have "j = i"
      proof (rule ccontr)
        assume "j \<noteq> i"
        moreover have "distinct (map tk_kind ((ws_tasks s)[i := t']))" using upd by (simp add: tasks_ok_def)
        ultimately have "map tk_kind ((ws_tasks s)[i := t']) ! j \<noteq> map tk_kind ((ws_tasks s)[i := t']) ! i"
          using j assms(2) by (simp add: nth_eq_iff_index_eq del: nth_map)
        with j k True t' assms(2) show False by simp
      qed
      then show "tk_phase ((ws_tasks s)[i := t'] ! j) = Finished" using t' assms(2) by simp
    qed
    have w: "ctx_inv b k (s\<lparr>ws_cx := cx, ws_tasks := (ws_tasks s)[i := t']\<rparr>)"
      using assms(1) f upd by (simp add: ctx_inv_def counts_ok_def hist_ok_def)
    have m: "ctx_inv b k (transition_to_stage st' (s\<lparr>ws_cx := cx, ws_tasks := (ws_tasks s)[i := t']\<rparr>))"
      if "documented ENTERED_ON_START st'" for st'
      using w that e f idle by (intro ctx_inv_move) simp_all
    have "ctx_inv b k s' = ctx_inv b k (store_first_stage ?t st res (s\<lparr>ws_cx := cx, ws_tasks := (ws_tasks s)[i := t']\<rparr>))"
      unfolding s' store_first_stage_def finish_task_def t'_def [symmetric]
      by (auto simp: ctx_inv_def counts_ok_def split: num_result.splits option.splits)
    then show ?thesis
      using True w m by (auto simp: store_first_stage_def documented_def split: num_result.splits option.splits)
  qed
qed

lemma do_block_inv [simp]: "ctx_inv b k (do_block env spec s) = ctx_inv b k s"
  by (simp add: do_block_def)

lemma trigger_inv [simp]: "ctx_inv b k (trigger_upstream_read t s) = ctx_inv b k s"
  by (simp add: trigger_upstream_read_def)

lemma complete_task_inv:
  assumes "ctx_inv b k s" and "tk_kind t \<noteq> Pol1st \<Longrightarrow> idle (ws_tasks s)"
  shows "ctx_inv b k (complete_task env t s)"
proof (cases "tk_kind t")
  case Pol1st
  with assms(1) show ?thesis
    by (auto simp: complete_task_def complete_first_def ctx_inv_rq split: bool.splits option.splits)
next
  case PolReqBody
  with assms have "idle (ws_tasks s)" by simp
  with assms(1) PolReqBody show ?thesis
    by (auto simp: complete_task_def complete_req_body_def waf_req_post_done_inv split: bool.splits option.splits)
next
  case PolFinal
  with assms have "idle (ws_tasks s)" by simp
  with assms(1) PolFinal show ?thesis
    by (auto simp: complete_task_def complete_final_def Let_def waf_final_done_inv prepare_drain_inv split: bool.splits option.splits)
qed

lemma on_st_commutes:
  "emit c (on_st h s) = on_st h (emit c s)" "on_rq f (on_st h s) = on_st h (on_rq f s)"
  "transition_to_stage st (on_st h s) = on_st h (transition_to_stage st s)"
  "waf_req_post_done blocked (on_st h s) = on_st h (waf_req_post_done blocked s)"
  "waf_final_done blocked (on_st h s) = on_st h (waf_final_done blocked s)"
  "prepare_drain_buffered_header (on_st h s) = on_st h (prepare_drain_buffered_header s)"
  "trigger_upstream_read t (on_st h s) = on_st h (trigger_upstream_read t s)"
  "do_block env spec (on_st h s) = on_st h (do_block env spec s)"
  by (simp_all add: emit_def on_st_def on_rq_def on_cx_def transition_to_stage_def waf_req_post_done_def waf_final_done_def
      checked_transition_to_stage_def prepare_drain_buffered_header_def trigger_upstream_read_def do_block_def Let_def)

lemma complete_task_on_st: "complete_task env t (on_st h s) = on_st h (complete_task env t s)"
  by (auto simp: complete_task_def complete_first_def complete_req_body_def complete_final_def on_st_commutes Let_def
      split: task_kind.splits bool.splits option.splits)

lemma completion_inv:
  assumes "ctx_inv b 0 s" and "i < length (ws_tasks s)" and "tk_phase (ws_tasks s ! i) = Finished"
  shows "ctx_inv b 0 (completion_handler env i s)"
proof -
  let ?t = "ws_tasks s ! i" and ?rest = "take i (ws_tasks s) @ drop (Suc i) (ws_tasks s)"
  have split: "ws_tasks s = take i (ws_tasks s) @ ?t # drop (Suc i) (ws_tasks s)" using assms(2) by (rule id_take_nth_drop)
  have tok: "tasks_ok (stage_of s) (fc_out (cx_filter (ws_cx s)) \<noteq> []) (take i (ws_tasks s) @ ?t # drop (Suc i) (ws_tasks s))"
    using assms(1) split by (simp add: ctx_inv_def)
  then have rest: "tasks_ok (stage_of s) (fc_out (cx_filter (ws_cx s)) \<noteq> []) ?rest"
    and kind: "tk_kind ?t \<notin> tk_kind ` set ?rest" and t: "task_ok (stage_of s) (fc_out (cx_filter (ws_cx s)) \<noteq> []) ?t"
    by (auto simp: tasks_ok_def)
  have idle: "idle ?rest" if "tk_kind ?t \<noteq> Pol1st"
  proof -
    have st: "stage_of s = SUSPENDED_ON_REQ_WAF \<and> tk_kind ?t = PolReqBody \<or> stage_of s = PENDING_WAF_END \<and> tk_kind ?t = PolFinal"
      using that t by (cases "tk_kind ?t") (auto simp: task_ok_def)
    have "tk_kind u = Pol1st \<and> tk_phase u = Finished" if u: "u \<in> set ?rest" for u
    proof -
      have "task_ok (stage_of s) (fc_out (cx_filter (ws_cx s)) \<noteq> []) u" using rest u by (auto simp: tasks_ok_def list_all_iff)
      moreover have "tk_kind u \<noteq> tk_kind ?t" using kind u by (metis image_eqI)
      ultimately show ?thesis using st by (cases "tk_kind u") (auto simp: task_ok_def)
    qed
    with rest show ?thesis unfolding idle_def tasks_ok_def list_all_iff by blast
  qed
  define h where "h = (\<lambda>st. st\<lparr>s_destructed := s_destructed st + 1\<rparr> :: stats)"
  define rest where "rest = ?rest"
  define s2 where "s2 = on_rq (\<lambda>r. restore_handlers ?t (r\<lparr>rq_blocked := rq_blocked r - 1\<rparr>))
     (on_st (\<lambda>st. st\<lparr>s_completed := s_completed st + 1\<rparr>) (s\<lparr>ws_tasks := rest\<rparr>))"
  have len: "length (ws_tasks s) = Suc (length rest)" using assms(2) by (simp add: rest_def)
  have s2: "ws_cx (on_st h s2) = ws_cx s" "ws_tasks (on_st h s2) = rest" "rq_blocked (ws_rq (on_st h s2)) = rq_blocked (ws_rq s) - 1"
    "ws_st (on_st h s2) = (ws_st s)\<lparr>s_completed := s_completed (ws_st s) + 1, s_destructed := s_destructed (ws_st s) + 1\<rparr>"
    by (simp_all add: s2_def h_def restore_handlers_keeps)
  have "counts_ok b 0 (on_st h s2)"
    using assms(1) len unfolding ctx_inv_def counts_ok_def s2 by simp
  then have inv2: "ctx_inv b 0 (on_st h s2)"
    using assms(1) rest unfolding ctx_inv_def s2 rest_def [symmetric] by simp
  have tasks2: "ws_tasks (on_st h s2) = ?rest" by (simp only: s2 rest_def)
  have "completion_handler env i s = on_st h (if rq_terminated (ws_rq s2) then
                  emit Run_write_handler (on_rq (\<lambda>r. r\<lparr>rq_count := rq_count r - 1\<rparr>) s2)
                else if 1 < rq_count (ws_rq s2) then
                  (if \<not> ne_read_event_ok env then emit (Finalize NGX_HTTP_INTERNAL_SERVER_ERROR) s2
                   else complete_task env ?t (on_rq (\<lambda>r. r\<lparr>rq_count := rq_count r - 1\<rparr>) s2))
                else emit (Finalize NGX_DONE) s2)"
    unfolding completion_handler_def Let_def s2_def h_def rest_def by (rule refl)
  also have "\<dots> = (if rq_terminated (ws_rq s2) then
                  emit Run_write_handler (on_rq (\<lambda>r. r\<lparr>rq_count := rq_count r - 1\<rparr>) (on_st h s2))
                else if 1 < rq_count (ws_rq s2) then
                  (if \<not> ne_read_event_ok env then emit (Finalize NGX_HTTP_INTERNAL_SERVER_ERROR) (on_st h s2)
                   else complete_task env ?t (on_rq (\<lambda>r. r\<lparr>rq_count := rq_count r - 1\<rparr>) (on_st h s2)))
                else emit (Finalize NGX_DONE) (on_st h s2))"
    by (simp add: on_st_commutes complete_task_on_st)
  also have "ctx_inv b 0 \<dots>"
  proof -
    let ?c = "on_rq (\<lambda>r. r\<lparr>rq_count := rq_count r - 1\<rparr>) (on_st h s2)"
    have c: "ctx_inv b 0 ?c" using inv2 by (subst ctx_inv_rq) simp_all
    have "ctx_inv b 0 (complete_task env ?t ?c)"
      by (rule complete_task_inv [OF c]) (use idle tasks2 in simp)
    with c inv2 show ?thesis by simp
  qed
  finally show ?thesis .
qed

lemma report_frame:
  "report_matches_ctx env w s = Num_ok s' \<Longrightarrow> ws_tasks s' = ws_tasks s \<and> ws_rq s' = ws_rq s \<and> ws_st s' = ws_st s
     \<and> ws_pool s' = ws_pool s \<and> stage_of s' = stage_of s
     \<and> cx_history (ws_cx s') = cx_history (ws_cx s) \<and> cx_filter (ws_cx s') = cx_filter (ws_cx s)"
  by (auto simp: report_matches_ctx_def nbind_ok_iff Let_def split: prod.splits option.splits if_splits)

lemma log_frame:
  "on_main_log_request env s = Some s' \<Longrightarrow> ws_tasks s' = ws_tasks s \<and> ws_rq s' = ws_rq s \<and> ws_st s' = ws_st s
     \<and> ws_pool s' = ws_pool s \<and> stage_of s' = stage_of s
     \<and> cx_history (ws_cx s') = cx_history (ws_cx s) \<and> cx_filter (ws_cx s') = cx_filter (ws_cx s)"
  by (auto simp: on_main_log_request_def report_client_ip_def Let_def
      split: if_splits option.splits num_result.splits dest!: report_frame)

lemma log_inv: "on_main_log_request env s = Some s' \<Longrightarrow> ctx_inv b k s \<Longrightarrow> ctx_inv b k s'"
  by (auto simp: ctx_inv_def counts_ok_def hist_ok_def dest!: log_frame)

lemma nginx_inv: "rq_blocked r = rq_blocked (ws_rq s) \<Longrightarrow> ctx_inv b k s \<Longrightarrow> ctx_inv b k (s\<lparr>ws_rq := r\<rparr>)"
  by (simp add: ctx_inv_def counts_ok_def)

lemma ctx_step_inv: "ctx_step s e s' \<Longrightarrow> ctx_inv b 0 s \<Longrightarrow> ctx_inv b 0 s'"
  by (induction rule: ctx_step.induct)
    (blast intro: start_inv body_inv header_inv output_inv drain_inv begin_inv end_inv completion_inv log_inv nginx_inv)+

lemma initial_inv: "initial s \<Longrightarrow> ctx_inv (rq_blocked (ws_rq s)) 0 s"
  by (auto simp: initial_def maybe_create_def ctx_inv_def hist_ok_def tasks_ok_def counts_ok_def totals_ok_def fc_new_def)

lemma ctx_run_inv: "ctx_run s es s' \<Longrightarrow> ctx_inv b 0 s \<Longrightarrow> ctx_inv b 0 s'"
  by (induction rule: ctx_run.induct) (auto intro: ctx_step_inv)

section \<open>The stage machine\<close>

definition stage_rank :: "stage \<Rightarrow> nat" where
  "stage_rank st =
     (case st of START \<Rightarrow> 0 | DISABLED \<Rightarrow> 1 | ENTERED_ON_START \<Rightarrow> 1 | AFTER_BEGIN_WAF \<Rightarrow> 2 | AFTER_BEGIN_WAF_BLOCK \<Rightarrow> 3
      | COLLECTING_ON_REQ_DATA_PREREAD \<Rightarrow> 3 | COLLECTING_ON_REQ_DATA \<Rightarrow> 4 | SUSPENDED_ON_REQ_WAF \<Rightarrow> 5 | AFTER_ON_REQ_WAF \<Rightarrow> 6
      | AFTER_ON_REQ_WAF_BLOCK \<Rightarrow> 7 | COLLECTING_ON_RESP_DATA \<Rightarrow> 7 | PENDING_WAF_END \<Rightarrow> 8 | WAF_END_BLOCK_COMMIT \<Rightarrow> 9
      | AFTER_RUN_WAF_END \<Rightarrow> 10)"

lemma documented_rank: "documented a b \<Longrightarrow> stage_rank a < stage_rank b"
  by (auto simp: documented_def stage_rank_def)

lemma successively_rank: "xs \<noteq> [] \<Longrightarrow> successively documented xs \<Longrightarrow> length xs \<le> Suc (stage_rank (last xs)) - stage_rank (hd xs)
    \<and> stage_rank (hd xs) \<le> stage_rank (last xs)"
proof (induction xs rule: rev_nonempty_induct)
  case (snoc x xs)
  then have "successively documented xs" "documented (last xs) x" by (auto simp: successively_append_iff)
  with snoc documented_rank [of "last xs" x] show ?case by auto
qed simp

lemma stage_rank_bound: "stage_rank st \<le> 10"
  by (cases st) (simp_all add: stage_rank_def)

text \<open>
  C1. The stage machine of a request, over every order of handler calls, task steps on the thread
  pool and task completions: the stages it goes through start at \<^verbatim>\<open>START\<close> and move only along the
  transitions that the header file documents; the machine makes at most ten transitions.
\<close>

theorem stage_machine:
  assumes "initial s" and "ctx_run s es s'"
  shows "hd (cx_history (ws_cx s')) = START \<and> last (cx_history (ws_cx s')) = stage_of s'
    \<and> successively documented (cx_history (ws_cx s')) \<and> length (cx_history (ws_cx s')) \<le> 11"
proof -
  have h: "hist_ok (ws_cx s')"
    using ctx_run_inv [OF assms(2) initial_inv [OF assms(1)]] by (simp add: ctx_inv_def)
  moreover have "length (cx_history (ws_cx s')) \<le> 11"
    using h successively_rank [of "cx_history (ws_cx s')"] stage_rank_bound [of "stage_of s'"]
    by (auto simp: hist_ok_def stage_rank_def [of START])
  ultimately show ?thesis by (simp add: hist_ok_def)
qed

text \<open>A request on which the witnesses run.\<close>

definition demo_request :: request where
  "demo_request = \<lparr>rq_count = 1, rq_blocked = 0, rq_read_event_handler = Req_handler 1, rq_write_event_handler = Req_handler 2,
     rq_conn_read_handler = Conn_handler 1, rq_conn_write_handler = Conn_handler 2, rq_upstream = None, rq_header_only = False,
     rq_header_sent = False, rq_buffered = False, rq_need_buffering = False, rq_terminated = False, rq_conn_error = False,
     rq_phase_handler = 0, rq_stream = False,
     rq_coll = \<lparr>cr_args = [], cr_unparsed_uri = ''/'', cr_method_name = ''GET'', cr_headers_in = [[]], cr_cookies = Some [],
       cr_status = 200, cr_headers_out = [[]],
       cr_body = \<lparr>br_content_type_in = None, br_content_type_out = [], br_header_only = False\<rparr>\<rparr>,
     rq_peer = None\<rparr>"

definition demo_state :: wstate where
  "demo_state = \<lparr>ws_rq = demo_request, ws_cx = the (maybe_create True None True),
     ws_st = \<lparr>s_created = 0, s_submitted = 0, s_submission_failed = 0, s_completed = 0, s_destructed = 0\<rparr>,
     ws_tasks = [], ws_pool = [], ws_calls = []\<rparr>"

definition demo_env :: nenv where
  "demo_env = \<lparr>ne_buf_size = (\<lambda>b. length (b_mem b)), ne_waf_pool = True, ne_task_alloc = True, ne_task_post = True,
     ne_next_request_body = (\<lambda>_. NGX_OK), ne_next_output_body = (\<lambda>_. NGX_OK), ne_write_filter = (\<lambda>_. NGX_OK),
     ne_h2_send_chain = (\<lambda>_. Some []), ne_next_header = (\<lambda>_. NGX_OK), ne_header_chains = [], ne_header_left = [],
     ne_read_event_ok = True, ne_write_event_ok = True, ne_block = (\<lambda>_. Some NGX_OK), ne_timedout = False,
     ne_delayed = False, ne_output_null = NGX_OK, ne_more_buffered = False\<rparr>"

lemma demo_initial: "initial demo_state"
  unfolding initial_def by (intro conjI exI [of _ None] exI [of _ True]) (simp_all add: demo_state_def maybe_create_def)

definition demo_started :: wstate where
  "demo_started = snd (do_on_request_start demo_env demo_state)"

lemma demo_run: "ctx_run demo_state [E_start] demo_started"
  using run_step [OF run_refl step_start] by (simp add: demo_started_def)

lemma demo_started_simps:
  "stage_of demo_started = ENTERED_ON_START" "cx_history (ws_cx demo_started) = [START, ENTERED_ON_START]"
  "length (ws_tasks demo_started) = 1" "map tk_kind (ws_tasks demo_started) = [Pol1st]" "rq_blocked (ws_rq demo_started) = 1"
  by (simp_all add: demo_started_def do_on_request_start_def demo_state_def demo_env_def maybe_create_def create_task_def
      submit_task_def replace_handlers_def demo_request_def Let_def)

theorem stage_machine_witness:
  "successively documented (cx_history (ws_cx demo_started)) \<and> stage_of demo_started = ENTERED_ON_START"
  using stage_machine [OF demo_initial demo_run] demo_started_simps by simp

text \<open>
  C7. Invariant of the tasks of a request, over every order of steps: no two tasks of a kind are in
  flight; each holds exactly one of the references that block the termination of the request; the
  counters account for every task. While the task on the request body is in flight the stage is
  \<^verbatim>\<open>SUSPENDED_ON_REQ_WAF\<close> and there is a saved chain for it to read, while the final task is in flight
  the stage is \<^verbatim>\<open>PENDING_WAF_END\<close>, and the first task finds the stage it waits for until it has
  finished.
\<close>

theorem task_accounting:
  assumes "initial s" and "ctx_run s es s'"
  shows "distinct (map tk_kind (ws_tasks s'))
    \<and> rq_blocked (ws_rq s') = rq_blocked (ws_rq s) + int (length (ws_tasks s'))
    \<and> s_created (ws_st s') = s_destructed (ws_st s') + length (ws_tasks s')
    \<and> s_created (ws_st s') = s_completed (ws_st s') + s_submission_failed (ws_st s') + length (ws_tasks s')
    \<and> list_all (\<lambda>t. case tk_kind t of
          Pol1st \<Rightarrow> tk_phase t = Finished \<or> stage_of s' = ENTERED_ON_START
        | PolReqBody \<Rightarrow> stage_of s' = SUSPENDED_ON_REQ_WAF \<and> fc_out (cx_filter (ws_cx s')) \<noteq> []
        | PolFinal \<Rightarrow> stage_of s' = PENDING_WAF_END) (ws_tasks s')"
proof -
  have i: "ctx_inv (rq_blocked (ws_rq s)) 0 s'" by (rule ctx_run_inv [OF assms(2) initial_inv [OF assms(1)]])
  then have t: "tasks_ok (stage_of s') (fc_out (cx_filter (ws_cx s')) \<noteq> []) (ws_tasks s')"
    and c: "counts_ok (rq_blocked (ws_rq s)) 0 s'" by (simp_all add: ctx_inv_def)
  from t have "list_all (\<lambda>t. case tk_kind t of
          Pol1st \<Rightarrow> tk_phase t = Finished \<or> stage_of s' = ENTERED_ON_START
        | PolReqBody \<Rightarrow> stage_of s' = SUSPENDED_ON_REQ_WAF \<and> fc_out (cx_filter (ws_cx s')) \<noteq> []
        | PolFinal \<Rightarrow> stage_of s' = PENDING_WAF_END) (ws_tasks s')"
    unfolding tasks_ok_def list_all_iff task_ok_def by (auto split: task_kind.splits)
  with t c show ?thesis by (simp add: tasks_ok_def counts_ok_def)
qed

theorem task_accounting_witness:
  "rq_blocked (ws_rq demo_started) = 1 \<and> length (ws_tasks demo_started) = 1 \<and> s_created (ws_st demo_started) = s_destructed (ws_st demo_started) + 1"
  using task_accounting [OF demo_initial demo_run] demo_started_simps
  by (simp add: demo_state_def demo_request_def)

end
