(* ===== verification/Waf_Request.thy ===== *)
theory Waf_Request
  imports Waf_System
begin

text \<open>
  The request body on its way through the WAF context: the filter of \<^verbatim>\<open>src/security/context.cpp\<close>
  saves it, suspends the request while the WAF looks at it, and passes it on.
\<close>

section \<open>The request body passes unchanged\<close>

definition inputs :: "event list \<Rightarrow> bufs list" where
  "inputs es = concat (map (\<lambda>e. case e of E_body ch \<Rightarrow> [ch] | _ \<Rightarrow> []) es)"

text \<open>No data follows the end of the body.\<close>

fun ends_once :: "bufs list \<Rightarrow> bool" where
  "ends_once [] \<longleftrightarrow> True"
| "ends_once (ch # chs) \<longleftrightarrow> (if has_last ch then list_all (\<lambda>c. c = []) chs else ends_once chs)"

lemma inputs_snoc [simp]: "inputs (es @ [e]) = inputs es @ (case e of E_body ch \<Rightarrow> [ch] | _ \<Rightarrow> [])"
  by (simp add: inputs_def)

lemma ends_once_snocD: "ends_once (chs @ [ch]) \<Longrightarrow> ends_once chs \<and> (list_ex has_last chs \<longrightarrow> ch = [])"
  by (induction chs) (auto split: if_splits simp: list_ex_iff)

definition early :: "stage \<Rightarrow> bool" where
  "early st \<longleftrightarrow> st \<in> {DISABLED, START, ENTERED_ON_START, AFTER_BEGIN_WAF_BLOCK}"

text \<open>What the run keeps as long as no response header has been sent.\<close>

definition req_inv :: "event list \<Rightarrow> wstate \<Rightarrow> bool" where
  "req_inv es s \<longleftrightarrow> ws_pool s = [] \<and> req_seen s = concat (map chain_pieces (inputs es))
     \<and> (fc_found_last (cx_filter (ws_cx s)) \<longrightarrow> list_ex has_last (inputs es))
     \<and> (req_stage (stage_of s) \<or> early (stage_of s) \<and> fc_out (cx_filter (ws_cx s)) = [])"

text \<open>A step that leaves the request body alone.\<close>

definition body_frame :: "wstate \<Rightarrow> wstate \<Rightarrow> bool" where
  "body_frame s s' \<longleftrightarrow> cx_filter (ws_cx s') = cx_filter (ws_cx s) \<and> req_down (ws_calls s') = req_down (ws_calls s)
     \<and> (ws_pool s = [] \<longrightarrow> ws_pool s' = [])"

lemma body_frame_refl [simp]: "body_frame s s"
  by (simp add: body_frame_def)

lemma body_frame_trans: "body_frame a b \<Longrightarrow> body_frame b c \<Longrightarrow> body_frame a c"
  by (auto simp: body_frame_def)

definition body_call :: "call \<Rightarrow> bool" where
  "body_call c = (case c of Next_request_body _ \<Rightarrow> True | _ \<Rightarrow> False)"

lemma frame_emit: "\<not> body_call c \<Longrightarrow> body_frame s (emit c s)"
  by (auto simp: body_frame_def req_down_def body_call_def split: call.splits)

lemma frame_rq: "body_frame s (on_rq f s)"
  by (simp add: body_frame_def)

lemma frame_st: "body_frame s (on_st h s)"
  by (simp add: body_frame_def)

lemma frame_transition: "body_frame s (transition_to_stage st s)"
  by (simp add: body_frame_def)

lemma frame_cx: "cx_filter (g (ws_cx s)) = cx_filter (ws_cx s) \<Longrightarrow> body_frame s (on_cx g s)"
  by (simp add: body_frame_def)

lemma frame_submit: "body_frame s (snd (submit_task env t s))"
  by (simp add: body_frame_def)

lemma body_call_simps [simp]:
  "\<not> body_call Post_write" "\<not> body_call Post_read" "\<not> body_call Post_upstream_read" "\<not> body_call Run_write_handler"
  "\<not> body_call (Finalize rc)" "\<not> body_call (Block_call spec)" "\<not> body_call Add_write_timer" "\<not> body_call (Set_tag k v)"
  "\<not> body_call (Set_header_tags b)" "\<not> body_call (Override_sampling_priority n)" "\<not> body_call Set_source_appsec"
  "\<not> body_call Next_header" "\<not> body_call (Next_output_body ch)" "\<not> body_call (Write_filter ch)" "\<not> body_call (Send_chain ch)"
  "\<not> body_call Output_filter_null"
  by (simp_all add: body_call_def)

lemmas frame_intros = frame_emit frame_rq frame_st frame_transition frame_cx frame_submit body_frame_refl

lemma frame_start: "body_frame s (snd (do_on_request_start env s))"
proof -
  have "create_task env Pol1st s1 = Some (t, s2) \<Longrightarrow> body_frame s1 (snd (submit_task env t s2))" for s1 t s2
    using create_task_SomeD(3) [of env Pol1st s1 t s2] by (auto intro: body_frame_trans [OF frame_st frame_submit])
  then show ?thesis
    by (auto simp: do_on_request_start_def Let_def split: option.splits
        intro: frame_intros body_frame_trans [OF frame_transition])
qed

lemma frame_prepare_drain: "body_frame s (prepare_drain_buffered_header s)"
  by (auto simp: prepare_drain_buffered_header_def Let_def body_frame_def)

lemma frame_final_done: "body_frame s (waf_final_done blocked s)"
  by (auto simp: waf_final_done_def checked_transition_to_stage_def body_frame_def)

lemma frame_complete_task: "body_frame s (complete_task env t s)"
proof -
  have "cx_filter (ws_cx (complete_task env t s)) = cx_filter (ws_cx s) \<and> ws_pool (complete_task env t s) = ws_pool s"
    by (auto simp: complete_task_def complete_first_def complete_req_body_def complete_final_def do_block_def Let_def
        trigger_upstream_read_def waf_req_post_done_def waf_final_done_def checked_transition_to_stage_def
        prepare_drain_buffered_header_def split: task_kind.splits option.splits bool.splits)
  moreover have "req_down (ws_calls (complete_task env t s)) = req_down (ws_calls s)"
    by (auto simp: complete_task_def complete_first_def complete_req_body_def complete_final_def do_block_def Let_def
        trigger_upstream_read_def waf_req_post_done_def waf_final_done_def checked_transition_to_stage_def
        prepare_drain_buffered_header_def split: task_kind.splits option.splits bool.splits)
  ultimately show ?thesis by (simp add: body_frame_def)
qed

lemma frame_completion: "body_frame s (completion_handler env i s)"
proof -
  have c: "body_frame s (complete_task env t s0)" if "body_frame s s0" for t s0
    using that frame_complete_task by (rule body_frame_trans)
  show ?thesis
    unfolding completion_handler_def Let_def
    by (intro body_frame_trans [OF _ frame_st])
      (auto simp: body_frame_def intro!: c [unfolded body_frame_def])
qed

lemma frame_drain: "body_frame s (drain_buffered_data_write_handler env aio s)"
  by (auto simp: drain_buffered_data_write_handler_def wait_writable_def Let_def body_frame_def)

lemma req_down_tags: "req_down (ws_calls (emit_tags ts s)) = req_down (ws_calls s)"
  by (induction ts s rule: emit_tags.induct) simp_all

lemma frame_log: "on_main_log_request env s = Some s' \<Longrightarrow> body_frame s s'"
proof -
  assume l: "on_main_log_request env s = Some s'"
  have r: "req_down (ws_calls s2) = req_down (ws_calls s1)" if "report_matches_ctx env w s1 = Num_ok s2" for w s1 s2
    using that by (auto simp: report_matches_ctx_def nbind_ok_iff Let_def split: prod.splits option.splits if_splits)
  have "req_down (ws_calls s') = req_down (ws_calls s)"
    using l by (auto simp: on_main_log_request_def report_client_ip_def Let_def req_down_tags
        split: if_splits option.splits num_result.splits dest!: r)
  with log_frame [OF l] show ?thesis by (simp add: body_frame_def)
qed

lemma frame_end: "handle_end env version i s = Some s' \<Longrightarrow> body_frame s s'"
  by (auto simp: handle_end_def body_frame_def finish_task_def store_first_stage_def req_down_tags
      split: task_phase.splits bind_splits if_splits num_result.splits option.splits dest!: do_handle_frame)

lemma save_output_frame:
  assumes "save_output env ch consume s = (ok, s1)"
  shows "ws_calls s1 = ws_calls s" "cx_filter (ws_cx s1) = cx_filter (ws_cx s)" "ws_pool s = [] \<Longrightarrow> ws_pool s1 = []"
proof -
  have "snd (snd (snd (buffer_chain sz fc [] bs c))) = []" for sz fc bs c
    using buffer_links_no_failure [of sz c bs fc] by (simp add: buffer_chain_def)
  then have "buffer_chain sz fc [] bs c = (o1, f1, b1, p1) \<Longrightarrow> p1 = []" for sz fc bs c o1 f1 b1 p1
    by (metis snd_conv)
  then show "ws_calls s1 = ws_calls s" "cx_filter (ws_cx s1) = cx_filter (ws_cx s)" "ws_pool s = [] \<Longrightarrow> ws_pool s1 = []"
    using assms by (auto simp: save_output_def split: prod.splits)
qed

lemma frame_save_output: "body_frame s (snd (save_output env ch consume s))"
  using save_output_frame [of env ch consume s] by (cases "save_output env ch consume s") (simp add: body_frame_def)

lemma frame_submit_final: "body_frame s (snd (submit_final env t from_header s))"
proof -
  define s2 where "s2 = on_rq (\<lambda>r. r\<lparr>rq_header_sent := True\<rparr>)
     (if from_header \<and> rq_header_only (ws_rq s) then on_rq (\<lambda>r. r\<lparr>rq_header_only := False\<rparr>) s else s)"
  have s2: "body_frame s s2" by (simp add: s2_def body_frame_def)
  obtain ok s3 where sub: "submit_task env t s2 = (ok, s3)" by fastforce
  have s3: "body_frame s s3" using body_frame_trans [OF s2 frame_submit [of s2 env t]] sub by simp
  have s4: "body_frame s (emit Post_write (waf_final_done False s3))"
    using body_frame_trans [OF body_frame_trans [OF s3 frame_final_done] frame_emit] by simp
  show ?thesis
    using s3 s4 body_frame_trans [OF s4 frame_prepare_drain]
    by (simp add: submit_final_def Let_def s2_def [symmetric] sub)
qed

lemma frame_buffer_output: "body_frame s (snd (buffer_output env ch s))"
proof -
  let ?s0 = "on_rq (\<lambda>r. r\<lparr>rq_buffered := True\<rparr>) s"
  define consume where "consume = (fc_copied_total (cx_out_filter (ws_cx s)) < cx_max_saved_output_data (ws_cx s))"
  obtain ok s1 where sv: "save_output env ch consume ?s0 = (ok, s1)" by fastforce
  have s1: "body_frame s s1"
    using body_frame_trans [OF frame_rq frame_save_output [of ?s0 env ch consume]] sv by simp
  define s2 where "s2 = (if fc_out_total (cx_out_filter (ws_cx s1)) = 0 then on_cx (\<lambda>cx. cx\<lparr>cx_waf_send_resp_body := False\<rparr>) s1 else s1)"
  have s2: "body_frame s s2" using body_frame_trans [OF s1 frame_cx] s1 by (simp add: s2_def)
  have f: "body_frame s (snd (submit_final env t False (transition_to_stage PENDING_WAF_END s3)))"
    if "create_task env PolFinal s2 = Some (t, s3)" for t s3
  proof -
    have "body_frame s s3" using body_frame_trans [OF s2 frame_st] create_task_SomeD(3) [OF that] by simp
    then show ?thesis using body_frame_trans [OF body_frame_trans [OF _ frame_transition] frame_submit_final] by blast
  qed
  have "snd (buffer_output env ch s) = s1 \<or> snd (buffer_output env ch s) = s2 \<or>
     (\<exists>t s3. create_task env PolFinal s2 = Some (t, s3)
        \<and> snd (buffer_output env ch s) = snd (submit_final env t False (transition_to_stage PENDING_WAF_END s3)))"
    unfolding buffer_output_def Let_def consume_def [symmetric]
    by (cases ok) (auto simp: sv s2_def split: option.splits)
  with s1 s2 f show ?thesis by auto
qed

lemma frame_output: "body_frame s (snd (do_output_body_filter env ch s))"
proof -
  define s0 where "s0 = (if cx_header_only (ws_cx s) \<and> \<not> rq_header_only (ws_rq s)
                then on_rq (\<lambda>r. r\<lparr>rq_header_only := True\<rparr>) s else s)"
  have s0: "body_frame s s0" by (simp add: s0_def frame_rq)
  define s1 where "s1 = on_rq (\<lambda>r. r\<lparr>rq_buffered := False\<rparr>) s0"
  have s1: "body_frame s s1" using s0 by (simp add: s1_def body_frame_def)
  obtain rc s2 where h: "send_buffered_header env s1 = (rc, s2)" by fastforce
  then have s2: "body_frame s s2"
    using s1 by (auto simp: send_buffered_header_def Let_def body_frame_def split: if_splits option.splits)
  have flush: "body_frame s (snd (flush_output env ch s'))" if "body_frame s s'" for s'
  proof -
    obtain ok s3 where sv: "save_output env ch False s' = (ok, s3)" by fastforce
    then have "body_frame s s3" using body_frame_trans [OF that frame_save_output [of s' env ch False]] by simp
    with sv that show ?thesis
      by (cases ok) (auto simp: flush_output_def next_output_body_def body_frame_def)
  qed
  define g where "g = (\<lambda>cx. cx\<lparr>cx_header_filter := fc_clear (cx_header_filter cx), cx_out_filter := fc_clear (cx_out_filter cx)\<rparr> :: wcontext)"
  have c: "body_frame s (emit (Next_output_body ch) (transition_to_stage AFTER_RUN_WAF_END (on_cx g s1)))"
    using s1 by (simp add: body_frame_def g_def)
  show ?thesis
    unfolding do_output_body_filter_def Let_def s0_def [symmetric] s1_def [symmetric] g_def [symmetric]
    using body_frame_trans [OF s0 frame_buffer_output] flush [OF s1] flush [OF s2] s2 c
      body_frame_trans [OF s2 frame_rq]
    by (auto simp: h next_output_body_def)
qed

section \<open>Stages of the request phase\<close>

lemma start_stage: "stage_of (snd (do_on_request_start env s)) = stage_of s \<or>
  stage_of s = START \<and> stage_of (snd (do_on_request_start env s)) \<in> {DISABLED, ENTERED_ON_START}"
  by (auto simp: do_on_request_start_def Let_def split: option.splits dest!: create_task_SomeD(3))

lemma send_header_stage: "stage_of (snd (send_buffered_header env s)) = stage_of s"
  by (auto simp: send_buffered_header_def Let_def split: option.splits)

lemma flush_stage: "stage_of (snd (flush_output env ch s)) = stage_of s"
proof -
  obtain ok s1 where sv: "save_output env ch False s = (ok, s1)" by fastforce
  then have "stage_of s1 = stage_of s" using save_output_inv [OF sv] by blast
  with sv show ?thesis by (cases ok) (auto simp: flush_output_def next_output_body_def)
qed

lemma output_stage:
  assumes "stage_of s \<notin> {PENDING_WAF_END, COLLECTING_ON_RESP_DATA, WAF_END_BLOCK_COMMIT}"
  shows "stage_of (snd (do_output_body_filter env ch s)) = stage_of s"
proof -
  define s1 where "s1 = on_rq (\<lambda>r. r\<lparr>rq_buffered := False\<rparr>)
     (if cx_header_only (ws_cx s) \<and> \<not> rq_header_only (ws_rq s) then on_rq (\<lambda>r. r\<lparr>rq_header_only := True\<rparr>) s else s)"
  have s1: "stage_of s1 = stage_of s" by (simp add: s1_def)
  obtain rc s2 where h: "send_buffered_header env s1 = (rc, s2)" by fastforce
  then have s2: "stage_of s2 = stage_of s" using send_header_stage [of env s1] s1 by simp
  show ?thesis
    unfolding do_output_body_filter_def Let_def s1_def [symmetric]
    using assms flush_stage [of env ch s1] flush_stage [of env ch s2] s1 s2 by (simp add: h)
qed

lemma completion_stage: "stage_of (completion_handler env i s) = stage_of s
  \<or> stage_of s = SUSPENDED_ON_REQ_WAF \<and> stage_of (completion_handler env i s) \<in> {AFTER_ON_REQ_WAF, AFTER_ON_REQ_WAF_BLOCK}
  \<or> stage_of s = PENDING_WAF_END \<and> stage_of (completion_handler env i s) \<in> {WAF_END_BLOCK_COMMIT, AFTER_RUN_WAF_END}"
proof -
  have drain: "stage_of (prepare_drain_buffered_header s0) = stage_of s0" for s0
    by (simp add: prepare_drain_buffered_header_def Let_def)
  have trig: "stage_of (trigger_upstream_read t s0) = stage_of s0" for t s0
    by (simp add: trigger_upstream_read_def)
  have c: "stage_of (complete_task env t s0) = stage_of s0
    \<or> stage_of s0 = SUSPENDED_ON_REQ_WAF \<and> stage_of (complete_task env t s0) \<in> {AFTER_ON_REQ_WAF, AFTER_ON_REQ_WAF_BLOCK}
    \<or> stage_of s0 = PENDING_WAF_END \<and> stage_of (complete_task env t s0) \<in> {WAF_END_BLOCK_COMMIT, AFTER_RUN_WAF_END}" for t s0
    by (cases "tk_kind t"; cases "tk_ran t"; cases "tk_block_spec t")
      (simp_all add: complete_task_def complete_first_def complete_req_body_def complete_final_def do_block_def Let_def
        trig drain waf_req_post_done_def waf_final_done_def checked_transition_to_stage_def)
  show ?thesis
    unfolding completion_handler_def Let_def
    using c [of "ws_tasks s ! i" "on_rq (\<lambda>r. r\<lparr>rq_count := rq_count r - 1\<rparr>)
       (on_rq (\<lambda>r. restore_handlers (ws_tasks s ! i) (r\<lparr>rq_blocked := rq_blocked r - 1\<rparr>))
        (on_st (\<lambda>st. st\<lparr>s_completed := s_completed st + 1\<rparr>) (s\<lparr>ws_tasks := take i (ws_tasks s) @ drop (Suc i) (ws_tasks s)\<rparr>)))"]
    by simp
qed

lemma end_stage:
  assumes "handle_end env version i s = Some s'" and "ctx_inv b k s" and "i < length (ws_tasks s)"
  shows "stage_of s' = stage_of s \<or> stage_of s = ENTERED_ON_START \<and> stage_of s' \<in> {AFTER_BEGIN_WAF, AFTER_BEGIN_WAF_BLOCK}"
proof -
  let ?t = "ws_tasks s ! i"
  from assms(1) obtain st cx tags res where ph: "tk_phase ?t = Started st"
    and h: "do_handle env version ?t st (ws_rq s) (ws_cx s) = Some (cx, tags, res)"
    and s': "s' = finish_task i ?t res (store_first_stage ?t st res (emit_tags tags (s\<lparr>ws_cx := cx\<rparr>)))"
    by (auto simp: handle_end_def split: task_phase.splits bind_splits if_splits)
  have "task_ok (stage_of s) (fc_out (cx_filter (ws_cx s)) \<noteq> []) ?t"
    using assms(2,3) by (auto simp: ctx_inv_def tasks_ok_def list_all_length)
  then have e: "tk_kind ?t = Pol1st \<Longrightarrow> stage_of s = ENTERED_ON_START" using ph by (simp add: task_ok_def)
  show ?thesis
    using do_handle_frame [OF h] e unfolding s'
    by (auto simp: finish_task_def store_first_stage_def split: num_result.splits option.splits)
qed

lemma early_body:
  "early (stage_of s) \<Longrightarrow> do_request_body_filter env ch preread s = (ne_next_request_body env ch, emit (Next_request_body ch) s)"
  by (auto simp: early_def do_request_body_filter_def next_request_body_def)

text \<open>A step that keeps the frame and stays in the request phase keeps the invariant.\<close>

lemma req_inv_frame:
  assumes "req_inv es s" and "body_frame s s'" and "inputs (es @ [e]) = inputs es"
    and "stage_of s' = stage_of s \<or> req_stage (stage_of s') \<or> (early (stage_of s') \<and> \<not> req_stage (stage_of s))"
  shows "req_inv (es @ [e]) s'"
  using assms by (auto simp: req_inv_def body_frame_def req_seen_def)

lemma req_inv_step:
  assumes "req_inv es s" and "ctx_step s e s'" and "ctx_inv b 0 s" and "e \<noteq> E_header" and "ends_once (inputs (es @ [e]))"
  shows "req_inv (es @ [e]) s' \<and> ((\<exists>ch. e = E_body ch) \<and> stage_of s' \<in> {AFTER_ON_REQ_WAF, AFTER_ON_REQ_WAF_BLOCK} \<longrightarrow> req_saved s' = [])"
proof -
  have st: "req_stage (stage_of s) \<or> early (stage_of s)" using assms(1) by (auto simp: req_inv_def)
  note fr = req_inv_frame [OF assms(1)]
  from assms(2) show ?thesis
  proof cases
    case (step_start env)
    then show ?thesis
      using fr [OF frame_start [of s env], of e] start_stage [of env s]
      by (auto simp: early_def req_stage_def)
  next
    case (step_body ch env preread)
    have in_ok: "ch = [] \<or> \<not> fc_found_last (cx_filter (ws_cx s))"
      using assms(1,5) step_body ends_once_snocD [of "inputs es" ch] by (auto simp: req_inv_def)
    show ?thesis
    proof (cases "req_stage (stage_of s)")
      case True
      have "req_step_ok s ch s'"
        using request_body_filter_ok [OF _ in_ok True, of env preread] assms(1) step_body by (simp add: req_inv_def)
      then show ?thesis
        using assms(1) step_body by (auto simp: req_step_ok_def req_inv_def)
    next
      case False
      with st have "early (stage_of s)" by simp
      with early_body [OF this, of env ch preread] assms(1) step_body False show ?thesis
        by (auto simp: req_inv_def req_seen_def early_def)
    qed
  next
    case (step_output_body ch env)
    then show ?thesis
      using fr [OF frame_output [of s env ch], of e] output_stage [of s env ch] st
      by (auto simp: early_def req_stage_def)
  next
    case (step_drain env aio)
    then show ?thesis
      using fr [OF frame_drain [of s env aio], of e]
      by (auto simp: drain_buffered_data_write_handler_def wait_writable_def Let_def)
  next
    case (step_thread_begin i)
    then show ?thesis
      using fr [of "handle_begin i s" e] by (auto simp: handle_begin_def body_frame_def)
  next
    case (step_thread_end i env version)
    then show ?thesis
      using fr [OF frame_end, of env version i s' e] end_stage [OF _ assms(3), of env version i s']
      by (auto simp: early_def req_stage_def)
  next
    case (step_complete i env)
    then show ?thesis
      using fr [OF frame_completion [of s env i], of e] completion_stage [of env i s] st
      by (auto simp: early_def req_stage_def)
  next
    case (step_log wenv)
    then show ?thesis
      using fr [OF frame_log [of wenv s s'], of e] log_frame [of wenv s s'] by auto
  next
    case (step_nginx r)
    then show ?thesis
      using fr [of "s\<lparr>ws_rq := r\<rparr>" e] by (auto simp: body_frame_def)
  qed (use assms(4) in simp)
qed

lemma req_inv_run:
  assumes "ctx_run s es s'" and "req_inv [] s" and "ctx_inv b 0 s" and "E_header \<notin> set es" and "ends_once (inputs es)"
  shows "req_inv es s' \<and> (es \<noteq> [] \<and> (\<exists>ch. last es = E_body ch) \<and> stage_of s' \<in> {AFTER_ON_REQ_WAF, AFTER_ON_REQ_WAF_BLOCK}
           \<longrightarrow> req_saved s' = [])"
  using assms
proof (induction rule: ctx_run.induct)
  case (run_step s es s' e s'')
  have "ends_once (inputs es)"
    using run_step.prems(4) by (cases e) (auto dest: ends_once_snocD)
  with run_step have "req_inv es s'" by simp
  moreover have "ctx_inv b 0 s'" by (rule ctx_run_inv [OF run_step.hyps(1) run_step.prems(2)])
  ultimately show ?case
    using req_inv_step [OF _ run_step.hyps(2)] run_step.prems by auto
qed simp

text \<open>
  C3. The request body filter is a lossless delay. Over every order of filter calls, task steps and
  completions in which the header filter has not run yet, every pool allocation succeeds and no data
  follows the last buffer: what was passed downstream followed by what is saved is exactly what came
  in, in order, file ranges included; and after a call made once the WAF has seen the body, nothing
  is left behind. The first condition is needed: once the header filter has moved the stage on, new
  data goes straight down and the saved data stays behind (\<open>early_response_strands_body\<close>).
\<close>

theorem request_body_lossless:
  assumes "initial s" and "ws_pool s = []" and "ctx_run s es s'" and "E_header \<notin> set es" and "ends_once (inputs es)"
  shows "req_down (ws_calls s') @ req_saved s' = concat (map chain_pieces (inputs es))
    \<and> (es \<noteq> [] \<and> last es = E_body ch \<and> stage_of s' = AFTER_ON_REQ_WAF
         \<longrightarrow> req_down (ws_calls s') = concat (map chain_pieces (inputs es)))"
proof -
  have "req_inv [] s"
    using assms(1,2) by (auto simp: initial_def maybe_create_def req_inv_def req_seen_def inputs_def fc_new_def early_def)
  from req_inv_run [OF assms(3) this initial_inv [OF assms(1)] assms(4,5)]
  show ?thesis by (auto simp: req_inv_def req_seen_def)
qed

definition demo_body :: bufs where
  "demo_body = [zero_buf\<lparr>b_mem := ''a=b'', b_temporary := True, b_last_buf := True\<rparr>]"

definition demo_passed :: wstate where
  "demo_passed = snd (do_request_body_filter demo_env demo_body False demo_started)"

lemma demo_run2: "ctx_run demo_state ([E_start] @ [E_body demo_body]) demo_passed"
  unfolding demo_passed_def by (rule run_step [OF demo_run step_body])

theorem request_body_lossless_witness:
  "req_down (ws_calls demo_passed) @ req_saved demo_passed = map Mem ''a=b''"
proof -
  have "ws_pool demo_state = []" by (simp add: demo_state_def)
  from request_body_lossless [OF demo_initial this demo_run2] show ?thesis
    by (simp add: inputs_def demo_body_def buf_pieces_def zero_buf_def)
qed

end
