(* ===== verification/Waf_Response.thy ===== *)
theory Waf_Response
  imports Waf_Request
begin

text \<open>
  The response on its way through the WAF context: the header and output body filters of
  \<^verbatim>\<open>src/security/context.cpp\<close> hold it back until the final WAF run, then send or discard it; and what
  happens to a request whose WAF run fails.
\<close>

section \<open>The header filter\<close>

lemma buffer_header_frame: "buffer_header_output env ch s = (ok, s1) \<Longrightarrow>
  cx_filter (ws_cx s1) = cx_filter (ws_cx s) \<and> cx_out_filter (ws_cx s1) = cx_out_filter (ws_cx s)"
  by (auto simp: buffer_header_output_def split: prod.splits)

lemma save_header_chains_frame: "save_header_chains env chs s = (ok, s1) \<Longrightarrow>
  cx_filter (ws_cx s1) = cx_filter (ws_cx s) \<and> cx_out_filter (ws_cx s1) = cx_out_filter (ws_cx s)"
proof (induction chs arbitrary: s)
  case (Cons ch chs)
  obtain o2 s2 where h: "buffer_header_output env ch s = (o2, s2)" by fastforce
  from Cons.prems h have "(if o2 then save_header_chains env chs s2 else (False, s2)) = (ok, s1)" by (simp split: bool.splits)
  with Cons.IH [of s2] buffer_header_frame [OF h] show ?case by (auto split: if_splits)
qed simp

lemma next_header_saving_frame: "next_header_saving env s = (rc, s1) \<Longrightarrow>
  cx_filter (ws_cx s1) = cx_filter (ws_cx s) \<and> cx_out_filter (ws_cx s1) = cx_out_filter (ws_cx s)"
proof -
  assume a: "next_header_saving env s = (rc, s1)"
  obtain ok s2 where sv: "save_header_chains env (ne_header_chains env) (emit Next_header s) = (ok, s2)" by fastforce
  obtain o3 s3 where l: "buffer_header_output env (ne_header_left env) s2 = (o3, s3)" by fastforce
  from a sv l save_header_chains_frame [OF sv] buffer_header_frame [OF l] show ?thesis
    by (auto simp: next_header_saving_def split: if_splits)
qed

lemma submit_final_frame:
  "cx_filter (ws_cx (snd (submit_final env t from_header s))) = cx_filter (ws_cx s)"
  "cx_out_filter (ws_cx (snd (submit_final env t from_header s))) = cx_out_filter (ws_cx s)"
  "ws_pool (snd (submit_final env t from_header s)) = ws_pool s"
  "ws_calls (snd (submit_final env t from_header s)) = ws_calls s \<or> ws_calls (snd (submit_final env t from_header s)) = ws_calls s @ [Post_write]"
  "stage_of s = PENDING_WAF_END \<Longrightarrow> stage_of (snd (submit_final env t from_header s)) \<in> {PENDING_WAF_END, AFTER_RUN_WAF_END}"
  "cx_max_saved_output_data (ws_cx (snd (submit_final env t from_header s))) = cx_max_saved_output_data (ws_cx s)"
proof -
  define s2 where "s2 = on_rq (\<lambda>r. r\<lparr>rq_header_sent := True\<rparr>)
     (if from_header \<and> rq_header_only (ws_rq s) then on_rq (\<lambda>r. r\<lparr>rq_header_only := False\<rparr>) s else s)"
  have s2: "ws_cx s2 = ws_cx s" "ws_pool s2 = ws_pool s" "ws_calls s2 = ws_calls s" by (simp_all add: s2_def)
  obtain ok s3 where sub: "submit_task env t s2 = (ok, s3)" by fastforce
  then have s3: "ws_cx s3 = ws_cx s" "ws_pool s3 = ws_pool s" "ws_calls s3 = ws_calls s"
    using submit_task_simps [of env t s2] s2 by simp_all
  have e: "snd (submit_final env t from_header s) = (if ok then s3 else
      (let s4 = emit Post_write (waf_final_done False s3) in if rq_upstream (ws_rq s4) \<noteq> None then prepare_drain_buffered_header s4 else s4))"
    by (simp add: submit_final_def Let_def s2_def [symmetric] sub)
  note d = waf_final_done_def checked_transition_to_stage_def prepare_drain_buffered_header_def Let_def
  show "cx_filter (ws_cx (snd (submit_final env t from_header s))) = cx_filter (ws_cx s)"
    "cx_out_filter (ws_cx (snd (submit_final env t from_header s))) = cx_out_filter (ws_cx s)"
    "ws_pool (snd (submit_final env t from_header s)) = ws_pool s"
    "ws_calls (snd (submit_final env t from_header s)) = ws_calls s \<or> ws_calls (snd (submit_final env t from_header s)) = ws_calls s @ [Post_write]"
    "stage_of s = PENDING_WAF_END \<Longrightarrow> stage_of (snd (submit_final env t from_header s)) \<in> {PENDING_WAF_END, AFTER_RUN_WAF_END}"
    "cx_max_saved_output_data (ws_cx (snd (submit_final env t from_header s))) = cx_max_saved_output_data (ws_cx s)"
    unfolding e by (simp_all add: d s3)
qed

lemma header_filter_ok:
  assumes "stage_of s = AFTER_BEGIN_WAF \<or> stage_of s = AFTER_ON_REQ_WAF" and "do_header_filter env s = (NGX_OK, s1)"
  shows "stage_of s1 \<in> {COLLECTING_ON_RESP_DATA, PENDING_WAF_END, AFTER_RUN_WAF_END} \<and> cx_filter (ws_cx s1) = cx_filter (ws_cx s)"
proof -
  define s0 where "s0 = (if rq_header_only (ws_rq s) then on_cx (\<lambda>cx. cx\<lparr>cx_header_only := True\<rparr>) s else s)"
  have s0: "cx_filter (ws_cx s0) = cx_filter (ws_cx s)" by (simp add: s0_def)
  obtain rc s2 where n: "next_header_saving env s0 = (rc, s2)" by fastforce
  note f = next_header_saving_frame [OF n]
  define send where "send = (cx_waf_send_resp_body (ws_cx s2) \<and> is_body_resp_parseable (body_request_of (ws_rq s2)))"
  define s3 where "s3 = on_cx (\<lambda>cx. cx\<lparr>cx_waf_send_resp_body := send\<rparr>) s2"
  have s3: "cx_filter (ws_cx s3) = cx_filter (ws_cx s)" using f s0 by (simp add: s3_def)
  have e: "do_header_filter env s =
     (if rc \<noteq> NGX_OK then (rc, transition_to_stage AFTER_RUN_WAF_END s2)
      else if send then (NGX_OK, transition_to_stage COLLECTING_ON_RESP_DATA s3)
      else case create_task env PolFinal s3 of
             None \<Rightarrow> (NGX_ERROR, s3)
           | Some (t, s4) \<Rightarrow> (NGX_OK, snd (submit_final env t True (transition_to_stage PENDING_WAF_END s4))))"
    using assms(1) unfolding do_header_filter_def Let_def s0_def [symmetric] s3_def send_def
    by (auto simp: n)
  show ?thesis
  proof (cases "rc \<noteq> NGX_OK \<or> send")
    case True
    with assms(2) s3 f s0 show ?thesis by (auto simp: e split: if_splits)
  next
    case False
    with assms(2) obtain t s4 where c: "create_task env PolFinal s3 = Some (t, s4)"
      and s1: "s1 = snd (submit_final env t True (transition_to_stage PENDING_WAF_END s4))"
      by (auto simp: e split: option.splits)
    have "ws_cx s4 = ws_cx s3" using create_task_SomeD(3) [OF c] by simp
    with s3 s1 submit_final_frame(1,5) [where env = env and t = t and from_header = True
        and s = "transition_to_stage PENDING_WAF_END s4"] show ?thesis by simp
  qed
qed

text \<open>
  A response that starts while the saved body still waits for the filter strands it: once the
  header filter has moved the stage on, the body filter passes new data straight down and the saved
  data stays where it is.
\<close>

theorem early_response_strands_body:
  assumes "stage_of s = AFTER_ON_REQ_WAF" and "do_header_filter env s = (NGX_OK, s1)"
  shows "do_request_body_filter env2 ch preread s1 = (ne_next_request_body env2 ch, emit (Next_request_body ch) s1)
    \<and> cx_filter (ws_cx s1) = cx_filter (ws_cx s)"
  using header_filter_ok [OF disjI2 [OF assms(1)] assms(2)]
  by (auto simp: do_request_body_filter_def next_request_body_def)

section \<open>The output body filter\<close>

abbreviation out_saved :: "wstate \<Rightarrow> piece list" where
  "out_saved s \<equiv> chain_pieces (fc_out (cx_out_filter (ws_cx s)))"

definition held :: "stage \<Rightarrow> bool" where
  "held st \<longleftrightarrow> st = PENDING_WAF_END \<or> st = COLLECTING_ON_RESP_DATA"

text \<open>The calls that send data towards the client.\<close>

definition sends :: "call \<Rightarrow> bool" where
  "sends c = (case c of Next_output_body _ \<Rightarrow> True | Write_filter _ \<Rightarrow> True | Send_chain _ \<Rightarrow> True | _ \<Rightarrow> False)"

lemma sends_simps [simp]:
  "sends (Next_output_body ch)" "sends (Write_filter ch)" "sends (Send_chain ch)" "\<not> sends Post_write" "\<not> sends (Finalize rc)"
  "\<not> sends (Block_call spec)" "\<not> sends (Set_tag k v)" "\<not> sends Post_upstream_read"
  by (simp_all add: sends_def)

lemma save_output_ok:
  assumes "ws_pool s = []" and "ch = [] \<or> \<not> fc_found_last (cx_out_filter (ws_cx s))"
  shows "\<exists>s' fc. save_output env ch consume s = (True, s') \<and> ws_pool s' = [] \<and> ws_calls s' = ws_calls s
    \<and> ws_cx s' = (ws_cx s)\<lparr>cx_out_filter := fc\<rparr> \<and> chain_pieces (fc_out fc) = out_saved s @ chain_pieces ch
    \<and> (fc_out fc = [] \<longleftrightarrow> fc_out (cx_out_filter (ws_cx s)) = [] \<and> ch = [])
    \<and> (fc_found_last fc \<longleftrightarrow> fc_found_last (cx_out_filter (ws_cx s)) \<or> has_last ch)
    \<and> fc_copied_total fc \<le> fc_copied_total (cx_out_filter (ws_cx s)) + (if consume then mem_size ch else 0)"
proof -
  obtain fc' bs' where b: "buffer_chain (ne_buf_size env) (cx_out_filter (ws_cx s)) [] ch consume = (True, fc', bs', [])"
    using buffer_chain_no_failure [OF assms(2)] by blast
  then have "buffer_links (ne_buf_size env) consume ch (cx_out_filter (ws_cx s)) [] = (True, fc', bs', [])"
    by (simp add: buffer_chain_def split: if_splits)
  note ok = buffer_links_ok [OF this]
  let ?s' = "on_cx (\<lambda>cx. cx\<lparr>cx_out_filter := fc'\<rparr>) (s\<lparr>ws_pool := []\<rparr>)"
  have "save_output env ch consume s = (True, ?s')" using b assms(1) by (simp add: save_output_def)
  moreover have "ws_cx ?s' = (ws_cx s)\<lparr>cx_out_filter := fc'\<rparr>" "ws_pool ?s' = []" "ws_calls ?s' = ws_calls s" by simp_all
  ultimately show ?thesis using ok by blast
qed

text \<open>What a call of the filter does in the stages in which the response is held back.\<close>

definition saves_output :: "wstate \<Rightarrow> bufs \<Rightarrow> wstate \<Rightarrow> bool" where
  "saves_output s ch s' \<longleftrightarrow> ws_pool s' = [] \<and> filter sends (ws_calls s') = filter sends (ws_calls s)
     \<and> out_saved s' = out_saved s @ chain_pieces ch
     \<and> (fc_found_last (cx_out_filter (ws_cx s')) \<longleftrightarrow> fc_found_last (cx_out_filter (ws_cx s)) \<or> has_last ch)
     \<and> cx_max_saved_output_data (ws_cx s') = cx_max_saved_output_data (ws_cx s)
     \<and> fc_copied_total (cx_out_filter (ws_cx s')) \<le> fc_copied_total (cx_out_filter (ws_cx s))
         + (if fc_copied_total (cx_out_filter (ws_cx s)) < cx_max_saved_output_data (ws_cx s) then mem_size ch else 0)"

lemma buffer_output_ok:
  assumes "ws_pool s = []" and "ch = [] \<or> \<not> fc_found_last (cx_out_filter (ws_cx s))"
    and s'_def: "s' = snd (buffer_output env ch s)"
  shows "saves_output s ch s'"
proof -
  let ?s0 = "on_rq (\<lambda>r. r\<lparr>rq_buffered := True\<rparr>) s"
  define consume where "consume = (fc_copied_total (cx_out_filter (ws_cx s)) < cx_max_saved_output_data (ws_cx s))"
  obtain s1 fc where sv: "save_output env ch consume ?s0 = (True, s1)" "ws_pool s1 = []" "ws_calls s1 = ws_calls s"
    "ws_cx s1 = (ws_cx s)\<lparr>cx_out_filter := fc\<rparr>" "chain_pieces (fc_out fc) = out_saved s @ chain_pieces ch"
    "fc_found_last fc \<longleftrightarrow> fc_found_last (cx_out_filter (ws_cx s)) \<or> has_last ch"
    "fc_copied_total fc \<le> fc_copied_total (cx_out_filter (ws_cx s)) + (if consume then mem_size ch else 0)"
    using save_output_ok [of ?s0 ch env consume] assms(1,2) by auto
  define s2 where "s2 = (if fc_out_total (cx_out_filter (ws_cx s1)) = 0 then on_cx (\<lambda>cx. cx\<lparr>cx_waf_send_resp_body := False\<rparr>) s1 else s1)"
  have s2: "ws_calls s2 = ws_calls s" "cx_out_filter (ws_cx s2) = fc" "ws_pool s2 = []"
    "cx_max_saved_output_data (ws_cx s2) = cx_max_saved_output_data (ws_cx s)" using sv by (simp_all add: s2_def)
  have "s' = s1 \<or> s' = s2 \<or> (\<exists>t s3. create_task env PolFinal s2 = Some (t, s3)
        \<and> s' = snd (submit_final env t False (transition_to_stage PENDING_WAF_END s3)))"
    unfolding s'_def buffer_output_def Let_def consume_def [symmetric]
    by (auto simp: sv(1) s2_def split: option.splits)
  then have "cx_out_filter (ws_cx s') = fc \<and> filter sends (ws_calls s') = filter sends (ws_calls s) \<and> ws_pool s' = []
      \<and> cx_max_saved_output_data (ws_cx s') = cx_max_saved_output_data (ws_cx s)"
  proof (elim disjE exE conjE)
    fix t s3 assume c: "create_task env PolFinal s2 = Some (t, s3)"
      and s': "s' = snd (submit_final env t False (transition_to_stage PENDING_WAF_END s3))"
    have "ws_cx s3 = ws_cx s2" "ws_calls s3 = ws_calls s2" "ws_pool s3 = ws_pool s2" using create_task_SomeD(3) [OF c] by simp_all
    with s2 s' submit_final_frame(2,3,4,6) [of env t False "transition_to_stage PENDING_WAF_END s3"] show ?thesis by auto
  qed (use sv s2 in simp_all)
  with sv(5-7) show ?thesis by (simp add: saves_output_def consume_def)
qed

lemma held_output:
  assumes "held (stage_of s)" and "ws_pool s = []" and "ch = [] \<or> \<not> fc_found_last (cx_out_filter (ws_cx s))"
  shows "saves_output s ch (snd (do_output_body_filter env ch s))"
proof -
  define s0 where "s0 = (if cx_header_only (ws_cx s) \<and> \<not> rq_header_only (ws_rq s)
                then on_rq (\<lambda>r. r\<lparr>rq_header_only := True\<rparr>) s else s)"
  have s0: "ws_cx s0 = ws_cx s" "ws_pool s0 = []" "ws_calls s0 = ws_calls s" using assms(2) by (simp_all add: s0_def)
  have "snd (do_output_body_filter env ch s) = snd (buffer_output env ch s0)"
    using assms(1) by (auto simp: do_output_body_filter_def held_def s0_def)
  with buffer_output_ok [OF s0(2) _ refl, of ch env] assms(3) s0 show ?thesis by (simp add: saves_output_def)
qed

subsection \<open>The other steps\<close>

definition out_frame :: "wstate \<Rightarrow> wstate \<Rightarrow> bool" where
  "out_frame s s' \<longleftrightarrow> cx_out_filter (ws_cx s') = cx_out_filter (ws_cx s) \<and> filter sends (ws_calls s') = filter sends (ws_calls s)
     \<and> cx_max_saved_output_data (ws_cx s') = cx_max_saved_output_data (ws_cx s) \<and> ws_pool s' = ws_pool s"

lemma sends_more_simps [simp]:
  "\<not> sends Next_header" "\<not> sends (Next_request_body ch)" "\<not> sends Output_filter_null" "\<not> sends Post_read" "\<not> sends Run_write_handler"
  "\<not> sends Add_write_timer" "\<not> sends (Set_header_tags b)" "\<not> sends (Override_sampling_priority n)" "\<not> sends Set_source_appsec"
  by (simp_all add: sends_def)

lemma out_frame_complete_task: "out_frame s (complete_task env t s)"
proof -
  have "cx_out_filter (ws_cx (complete_task env t s)) = cx_out_filter (ws_cx s) \<and> ws_pool (complete_task env t s) = ws_pool s
      \<and> cx_max_saved_output_data (ws_cx (complete_task env t s)) = cx_max_saved_output_data (ws_cx s)"
    by (auto simp: complete_task_def complete_first_def complete_req_body_def complete_final_def do_block_def Let_def
        trigger_upstream_read_def waf_req_post_done_def waf_final_done_def checked_transition_to_stage_def
        prepare_drain_buffered_header_def split: task_kind.splits option.splits bool.splits)
  moreover have "filter sends (ws_calls (complete_task env t s)) = filter sends (ws_calls s)"
    by (auto simp: complete_task_def complete_first_def complete_req_body_def complete_final_def do_block_def Let_def
        trigger_upstream_read_def waf_req_post_done_def waf_final_done_def checked_transition_to_stage_def
        prepare_drain_buffered_header_def split: task_kind.splits option.splits bool.splits)
  ultimately show ?thesis by (simp add: out_frame_def)
qed

lemma out_frame_completion: "out_frame s (completion_handler env i s)"
proof -
  have c: "out_frame s (complete_task env t s0)" if "out_frame s s0" for t s0
    using that out_frame_complete_task [of s0 env t] by (simp add: out_frame_def)
  have "out_frame a (on_st f b) = out_frame a b" for a b f by (simp add: out_frame_def)
  then show ?thesis
    unfolding completion_handler_def Let_def
    by (auto simp: out_frame_def intro!: c [unfolded out_frame_def])
qed

lemma sends_tags [simp]: "filter sends (ws_calls (emit_tags ts s)) = filter sends (ws_calls s)"
  by (induction ts s rule: emit_tags.induct) simp_all

lemma out_frame_log: "on_main_log_request env s = Some s' \<Longrightarrow> out_frame s s'"
proof -
  assume l: "on_main_log_request env s = Some s'"
  have r: "out_frame s1 s2" if "report_matches_ctx env w s1 = Num_ok s2" for w s1 s2
    using that by (auto simp: out_frame_def report_matches_ctx_def nbind_ok_iff Let_def split: prod.splits option.splits if_splits)
  show ?thesis
    using l by (auto simp: out_frame_def on_main_log_request_def report_client_ip_def Let_def
        split: if_splits option.splits num_result.splits dest!: r [unfolded out_frame_def])
qed

lemma out_frame_end: "handle_end env version i s = Some s' \<Longrightarrow> out_frame s s'"
  by (auto simp: handle_end_def out_frame_def finish_task_def store_first_stage_def
      split: task_phase.splits bind_splits if_splits num_result.splits option.splits dest!: do_handle_frame)

text \<open>While the response is held back, only calls of the output body filter touch it.\<close>

lemma held_other_step:
  assumes "ctx_step s e s'" and "held (stage_of s)" and "\<And>ch. e \<noteq> E_output ch"
  shows "out_frame s s'"
  using assms(1)
proof cases
  case (step_body ch env preread)
  have "snd (do_request_body_filter env ch preread s) = emit (Next_request_body ch) s"
    using assms(2) unfolding held_def by (elim disjE) (simp_all add: do_request_body_filter_def next_request_body_def)
  with step_body show ?thesis by (simp add: out_frame_def)
next
  case (step_drain env aio)
  then show ?thesis by (auto simp: out_frame_def drain_buffered_data_write_handler_def wait_writable_def Let_def)
qed (use assms(2,3) in \<open>auto simp: out_frame_def held_def do_on_request_start_def do_header_filter_def handle_begin_def
    dest!: out_frame_end [unfolded out_frame_def] out_frame_log [unfolded out_frame_def]
    intro: out_frame_completion [unfolded out_frame_def, THEN conjunct1]
      out_frame_completion [unfolded out_frame_def, THEN conjunct2, THEN conjunct1]
      out_frame_completion [unfolded out_frame_def, THEN conjunct2, THEN conjunct2, THEN conjunct1]
      out_frame_completion [unfolded out_frame_def, THEN conjunct2, THEN conjunct2, THEN conjunct2]\<close>)

subsection \<open>The response is held back\<close>

text \<open>A run of the request in which every step starts in a stage that holds the response back.\<close>

inductive held_run :: "wstate \<Rightarrow> event list \<Rightarrow> wstate \<Rightarrow> bool" where
  held_refl: "held_run s [] s"
| held_step: "held_run s es s' \<Longrightarrow> held (stage_of s') \<Longrightarrow> ctx_step s' e s'' \<Longrightarrow> held_run s (es @ [e]) s''"

definition outputs :: "event list \<Rightarrow> bufs list" where
  "outputs es = concat (map (\<lambda>e. case e of E_output ch \<Rightarrow> [ch] | _ \<Rightarrow> []) es)"

lemma outputs_snoc [simp]: "outputs (es @ [e]) = outputs es @ (case e of E_output ch \<Rightarrow> [ch] | _ \<Rightarrow> [])"
  by (simp add: outputs_def)

definition held_inv :: "wstate \<Rightarrow> nat \<Rightarrow> event list \<Rightarrow> wstate \<Rightarrow> bool" where
  "held_inv s M es s' \<longleftrightarrow> ws_pool s' = [] \<and> filter sends (ws_calls s') = filter sends (ws_calls s)
     \<and> out_saved s' = out_saved s @ concat (map chain_pieces (outputs es))
     \<and> (fc_found_last (cx_out_filter (ws_cx s')) \<longrightarrow> list_ex has_last (outputs es))
     \<and> cx_max_saved_output_data (ws_cx s') = cx_max_saved_output_data (ws_cx s)
     \<and> fc_copied_total (cx_out_filter (ws_cx s')) \<le> cx_max_saved_output_data (ws_cx s) + M"

lemma held_run_inv:
  assumes "held_run s es s'" and "ws_pool s = []" and "\<not> fc_found_last (cx_out_filter (ws_cx s))" and "ends_once (outputs es)"
    and "fc_copied_total (cx_out_filter (ws_cx s)) \<le> cx_max_saved_output_data (ws_cx s) + M"
    and "list_all (\<lambda>ch. mem_size ch \<le> M) (outputs es)"
  shows "held_inv s M es s'"
  using assms
proof (induction rule: held_run.induct)
  case (held_refl s)
  then show ?case by (simp add: held_inv_def outputs_def)
next
  case (held_step s es s' e s'')
  have once: "ends_once (outputs es)" using held_step.prems(3) by (cases e) (auto dest: ends_once_snocD)
  have IH: "held_inv s M es s'" using held_step.IH held_step.prems once by simp
  show ?case
  proof (cases "\<exists>ch. e = E_output ch")
    case True
    then obtain ch where e: "e = E_output ch" ..
    then obtain env where s'': "s'' = snd (do_output_body_filter env ch s')"
      using held_step.hyps(3) by (auto elim: ctx_step.cases)
    have "ch = [] \<or> \<not> fc_found_last (cx_out_filter (ws_cx s'))"
      using IH held_step.prems(3) e ends_once_snocD [of "outputs es" ch] by (auto simp: held_inv_def)
    from held_output [OF held_step.hyps(2) _ this, of env] IH s'' e held_step.prems(5) show ?thesis
      by (auto simp: held_inv_def saves_output_def split: if_splits)
  next
    case False
    then have "out_frame s' s''" "outputs (es @ [e]) = outputs es"
      using held_other_step [OF held_step.hyps(3,2)] by (auto split: event.splits)
    with IH show ?thesis by (simp add: held_inv_def out_frame_def)
  qed
qed

text \<open>
  C4. The response is held back until the final WAF run is over: throughout any run whose steps start in the stages in
  which the response is collected or the final run is pending, whatever the handlers, the tasks and nginx do, no data is sent
  towards the client, and the saved chain grows by exactly the data that the output body filter was given, in order,
  file ranges included. The data copied into memory stays below the configured limit plus the largest amount of data of one
  call: the limit is looked at before a call is saved, so that a single call may exceed it. The pool allocations
  succeed, and no data follows the last buffer of the response.
\<close>

theorem response_held_back:
  assumes "held_run s es s'" and "ws_pool s = []" and "\<not> fc_found_last (cx_out_filter (ws_cx s))" and "ends_once (outputs es)"
    and "fc_copied_total (cx_out_filter (ws_cx s)) \<le> cx_max_saved_output_data (ws_cx s) + M"
    and "list_all (\<lambda>ch. mem_size ch \<le> M) (outputs es)"
  shows "filter sends (ws_calls s') = filter sends (ws_calls s)
    \<and> out_saved s' = out_saved s @ concat (map chain_pieces (outputs es))
    \<and> fc_copied_total (cx_out_filter (ws_cx s')) \<le> cx_max_saved_output_data (ws_cx s) + M"
  using held_run_inv [OF assms] by (simp add: held_inv_def)

definition demo_collecting :: wstate where
  "demo_collecting = transition_to_stage COLLECTING_ON_RESP_DATA demo_started"

text \<open>Witness: nginx changes something of the request, then the response comes in one call.\<close>

theorem response_held_back_witness:
  "\<exists>s'. held_run demo_collecting [E_nginx, E_output demo_body] s'
     \<and> filter sends (ws_calls s') = [] \<and> out_saved s' = map Mem ''a=b''
     \<and> fc_copied_total (cx_out_filter (ws_cx s')) \<le> kDefaultMaxSavedOutputData + 3"
proof -
  let ?s1 = "demo_collecting\<lparr>ws_rq := (ws_rq demo_collecting)\<lparr>rq_header_sent := True\<rparr>\<rparr>"
  let ?s2 = "snd (do_output_body_filter demo_env demo_body ?s1)"
  have d: "held (stage_of demo_collecting)" "ws_pool demo_collecting = []" "ws_calls demo_collecting = []"
    "cx_out_filter (ws_cx demo_collecting) = fc_new" "cx_max_saved_output_data (ws_cx demo_collecting) = kDefaultMaxSavedOutputData"
    by (simp_all add: demo_collecting_def held_def demo_started_def do_on_request_start_def demo_state_def demo_env_def
        maybe_create_def create_task_def submit_task_def replace_handlers_def demo_request_def Let_def)
  have "held_run demo_collecting [E_nginx] ?s1"
    using held_step [OF held_refl d(1) step_nginx] by simp
  from held_step [OF this _ step_output_body [of _ demo_body demo_env]] d(1)
  have run: "held_run demo_collecting [E_nginx, E_output demo_body] ?s2" by simp
  have b: "chain_pieces demo_body = map Mem ''a=b''" "mem_size demo_body = 3"
    by (simp_all add: demo_body_def buf_pieces_def zero_buf_def mem_size_def)
  have "filter sends (ws_calls ?s2) = filter sends (ws_calls demo_collecting)
    \<and> out_saved ?s2 = out_saved demo_collecting @ concat (map chain_pieces (outputs [E_nginx, E_output demo_body]))
    \<and> fc_copied_total (cx_out_filter (ws_cx ?s2)) \<le> cx_max_saved_output_data (ws_cx demo_collecting) + 3"
    by (rule response_held_back [OF run d(2)]) (simp_all add: d(4) fc_new_def outputs_def b)
  with run d b show ?thesis by (intro exI [of _ ?s2]) (simp add: outputs_def fc_new_def)
qed

theorem early_response_strands_body_witness:
  "let s = (transition_to_stage AFTER_ON_REQ_WAF demo_started);
       s1 = snd (do_header_filter demo_env s)
   in do_request_body_filter demo_env demo_body False s1 = (NGX_OK, emit (Next_request_body demo_body) s1)"
proof -
  let ?s = "transition_to_stage AFTER_ON_REQ_WAF demo_started"
  have "fst (do_header_filter demo_env ?s) = NGX_OK"
    by (simp add: do_header_filter_def next_header_saving_def demo_started_def do_on_request_start_def demo_state_def demo_env_def
        maybe_create_def create_task_def submit_task_def replace_handlers_def demo_request_def Let_def)
  then have "do_header_filter demo_env ?s = (NGX_OK, snd (do_header_filter demo_env ?s))" by (metis prod.collapse)
  from early_response_strands_body [OF _ this, of demo_env demo_body False] show ?thesis
    by (simp add: Let_def demo_env_def)
qed


section \<open>Release\<close>

abbreviation header_saved :: "wstate \<Rightarrow> bufs" where
  "header_saved s \<equiv> fc_out (cx_header_filter (ws_cx s))"

definition header_write :: "wstate \<Rightarrow> call" where
  "header_write s = (if rq_stream (ws_rq s) then Send_chain (header_saved s) else Write_filter (header_saved s))"

text \<open>What nginx says when it has taken the whole header.\<close>

definition header_accepted :: "nenv \<Rightarrow> wstate \<Rightarrow> bool" where
  "header_accepted env s \<longleftrightarrow>
     (if rq_stream (ws_rq s) then ne_h2_send_chain env (header_saved s) = Some [] else ne_write_filter env (header_saved s) = NGX_OK)"

lemma sends_header_write [simp]: "sends (header_write s)"
  by (simp add: header_write_def)

lemma send_header_ok:
  assumes "header_accepted env s"
  shows "\<exists>s'. send_buffered_header env s = (NGX_OK, s') \<and> ws_calls s' = ws_calls s @ [header_write s] \<and> header_saved s' = []
    \<and> ws_pool s' = ws_pool s \<and> cx_out_filter (ws_cx s') = cx_out_filter (ws_cx s) \<and> stage_of s' = stage_of s"
  using assms
  by (cases "rq_stream (ws_rq s)")
    (simp_all add: header_accepted_def send_buffered_header_def header_write_def fc_clear_def fc_replace_out_def Let_def)

lemma flush_ok:
  assumes "ws_pool s = []" and "ch = [] \<or> \<not> fc_found_last (cx_out_filter (ws_cx s))" and "header_saved s = []"
  shows "\<exists>x. ws_calls (snd (flush_output env ch s)) = ws_calls s @ [Next_output_body x] \<and> chain_pieces x = out_saved s @ chain_pieces ch
    \<and> fc_out (cx_out_filter (ws_cx (snd (flush_output env ch s)))) = [] \<and> header_saved (snd (flush_output env ch s)) = []"
proof (cases "fc_out (cx_out_filter (ws_cx s)) = []")
  case True
  with assms show ?thesis by (simp add: flush_output_def next_output_body_def)
next
  case False
  obtain s1 fc where "save_output env ch False s = (True, s1)" "ws_calls s1 = ws_calls s"
    "ws_cx s1 = (ws_cx s)\<lparr>cx_out_filter := fc\<rparr>" "chain_pieces (fc_out fc) = out_saved s @ chain_pieces ch"
    using save_output_ok [OF assms(1,2), of env False] by blast
  with False assms(3) show ?thesis
    by (simp add: flush_output_def next_output_body_def fc_clear_def)
qed

lemma send_header_failed:
  assumes "\<not> header_accepted env s" and "send_buffered_header env s = (rc, s')"
  shows "rc \<noteq> NGX_OK \<and> ws_calls s' = ws_calls s @ [header_write s] \<and> cx_out_filter (ws_cx s') = cx_out_filter (ws_cx s)
    \<and> rq_buffered (ws_rq s') = rq_buffered (ws_rq s)"
  using assms
  by (cases "rq_stream (ws_rq s)")
    (auto simp: header_accepted_def send_buffered_header_def header_write_def Let_def split: option.splits if_splits)

text \<open>
  C6. Once the final run is over and did not block: one call of the output body filter writes the saved header
  first. When nginx takes all of it, or none was saved, the call sends the saved body followed by the new data in a
  single call, in order and file ranges included, and keeps nothing, over HTTP/1 and HTTP/2 alike. When nginx does not
  take all of it, as with \<^verbatim>\<open>NGX_AGAIN\<close> for a slow client, the call sends nothing else and returns what nginx said; the saved body
  is kept, but the new data of the call is neither saved nor passed on. The pool allocations succeed, and no data
  follows the last buffer of the response.
\<close>

theorem response_released:
  assumes "\<not> held (stage_of s)" and "stage_of s \<noteq> WAF_END_BLOCK_COMMIT" and "ws_pool s = []"
    and "ch = [] \<or> \<not> fc_found_last (cx_out_filter (ws_cx s))"
  shows "let (rc, s') = do_output_body_filter env ch s in
    if header_saved s = [] \<or> header_accepted env s
    then \<exists>x. ws_calls s' = ws_calls s @ (if header_saved s = [] then [] else [header_write s]) @ [Next_output_body x]
      \<and> chain_pieces x = out_saved s @ chain_pieces ch \<and> header_saved s' = [] \<and> fc_out (cx_out_filter (ws_cx s')) = []
    else rc \<noteq> NGX_OK \<and> ws_calls s' = ws_calls s @ [header_write s] \<and> out_saved s' = out_saved s
      \<and> (rq_buffered (ws_rq s') \<longleftrightarrow> rc = NGX_AGAIN)"
proof -
  define s1 where "s1 = on_rq (\<lambda>r. r\<lparr>rq_buffered := False\<rparr>)
     (if cx_header_only (ws_cx s) \<and> \<not> rq_header_only (ws_rq s) then on_rq (\<lambda>r. r\<lparr>rq_header_only := True\<rparr>) s else s)"
  have s1: "ws_cx s1 = ws_cx s" "ws_pool s1 = []" "ws_calls s1 = ws_calls s" "header_accepted env s1 = header_accepted env s"
    "header_write s1 = header_write s" "\<not> rq_buffered (ws_rq s1)"
    using assms(3) by (simp_all add: s1_def header_accepted_def header_write_def)
  have e: "do_output_body_filter env ch s =
     (if header_saved s = [] then flush_output env ch s1
      else case send_buffered_header env s1 of (rc, s2) \<Rightarrow>
        if rc = NGX_AGAIN then (NGX_AGAIN, on_rq (\<lambda>r. r\<lparr>rq_buffered := True\<rparr>) s2) else if rc \<noteq> NGX_OK then (rc, s2)
        else flush_output env ch s2)"
    using assms(1,2) s1(1) unfolding do_output_body_filter_def Let_def s1_def [symmetric]
    by (simp add: held_def split: prod.splits)
  consider (none) "header_saved s = []" | (ok) "header_saved s \<noteq> []" "header_accepted env s"
    | (failed) "header_saved s \<noteq> []" "\<not> header_accepted env s" by blast
  then show ?thesis
  proof cases
    case none
    with flush_ok [of s1 ch env] s1 assms(4) show ?thesis by (auto simp: e split_beta)
  next
    case ok
    with s1(4) obtain s2 where h: "send_buffered_header env s1 = (NGX_OK, s2)" "ws_calls s2 = ws_calls s1 @ [header_write s1]"
      "header_saved s2 = []" "ws_pool s2 = ws_pool s1" "cx_out_filter (ws_cx s2) = cx_out_filter (ws_cx s1)"
      using send_header_ok [of env s1] by auto
    with ok flush_ok [of s2 ch env] s1 assms(4) show ?thesis by (auto simp: e split_beta)
  next
    case failed
    obtain rc s2 where h: "send_buffered_header env s1 = (rc, s2)" by fastforce
    from failed send_header_failed [OF _ h] s1 show ?thesis by (simp add: e h)
  qed
qed

text \<open>
  When the connection takes only a part of the saved header, the filter asks to be called again; the
  data it was given is then neither saved nor passed on.
\<close>

lemma again_drops_input:
  assumes "\<not> held (stage_of s)" and "stage_of s \<noteq> WAF_END_BLOCK_COMMIT" and "header_saved s \<noteq> []"
    and "\<not> rq_stream (ws_rq s)" and "ne_write_filter env (header_saved s) = NGX_AGAIN"
  shows "\<exists>s'. do_output_body_filter env ch s = (NGX_AGAIN, s') \<and> ws_calls s' = ws_calls s @ [Write_filter (header_saved s)]
    \<and> cx_out_filter (ws_cx s') = cx_out_filter (ws_cx s) \<and> header_saved s' = []"
  using assms by (auto simp: do_output_body_filter_def send_buffered_header_def held_def fc_clear_def Let_def)

definition demo_ended :: wstate where
  "demo_ended = on_cx (\<lambda>cx. cx\<lparr>cx_header_filter := fc_new\<lparr>fc_out := demo_body\<rparr>, cx_out_filter := fc_new\<lparr>fc_out := [demo_body ! 0]\<rparr>\<rparr>)
     (transition_to_stage AFTER_RUN_WAF_END demo_started)"

text \<open>Witness: the header is taken; and, below, a slow client, for which \<^verbatim>\<open>ngx_http_write_filter\<close> says \<^verbatim>\<open>NGX_AGAIN\<close>.\<close>

theorem response_released_witness:
  "(\<exists>x. ws_calls (snd (do_output_body_filter demo_env demo_body demo_ended)) = [Write_filter demo_body, Next_output_body x]
     \<and> chain_pieces x = map Mem ''a=ba=b'')
   \<and> ws_calls (snd (do_output_body_filter (demo_env\<lparr>ne_write_filter := (\<lambda>_. NGX_AGAIN)\<rparr>) demo_body demo_ended)) = [Write_filter demo_body]
   \<and> out_saved (snd (do_output_body_filter (demo_env\<lparr>ne_write_filter := (\<lambda>_. NGX_AGAIN)\<rparr>) demo_body demo_ended)) = map Mem ''a=b''"
proof -
  have d: "\<not> held (stage_of demo_ended)" "stage_of demo_ended \<noteq> WAF_END_BLOCK_COMMIT" "ws_pool demo_ended = []"
    "demo_body = [] \<or> \<not> fc_found_last (cx_out_filter (ws_cx demo_ended))"
    "header_accepted demo_env demo_ended" "ws_calls demo_ended = []"
    "header_saved demo_ended = demo_body" "\<not> rq_stream (ws_rq demo_ended)" "fc_out (cx_out_filter (ws_cx demo_ended)) = demo_body"
    by (simp_all add: demo_ended_def held_def header_accepted_def demo_started_def do_on_request_start_def demo_state_def demo_env_def
        maybe_create_def create_task_def submit_task_def replace_handlers_def demo_request_def fc_new_def demo_body_def Let_def)
  have p: "chain_pieces demo_body = map Mem ''a=b''" "demo_body \<noteq> []" by (simp_all add: demo_body_def buf_pieces_def zero_buf_def)
  have w: "header_write demo_ended = Write_filter demo_body" by (simp add: header_write_def d)
  have "\<not> header_accepted (demo_env\<lparr>ne_write_filter := (\<lambda>_. NGX_AGAIN)\<rparr>) demo_ended" using d(8) by (simp add: header_accepted_def)
  with response_released [OF d(1-4), of demo_env] response_released [OF d(1-4), of "demo_env\<lparr>ne_write_filter := (\<lambda>_. NGX_AGAIN)\<rparr>"]
  show ?thesis using p d w by (auto simp: split_beta)
qed


section \<open>Verdicts\<close>

lemma restore_handlers_frame [simp]:
  "rq_count (restore_handlers t r) = rq_count r" "rq_terminated (restore_handlers t r) = rq_terminated r"
  "rq_phase_handler (restore_handlers t r) = rq_phase_handler r"
  by (cases "tk_kind t"; simp add: restore_handlers_def Let_def split: option.splits)+

text \<open>The completion of a task while the request is alive: the state its \<^verbatim>\<open>complete\<close> function sees.\<close>

lemma completion_alive:
  assumes "\<not> rq_terminated (ws_rq s)" and "1 < rq_count (ws_rq s)" and "ne_read_event_ok env"
  obtains s0 where "completion_handler env i s = on_st (\<lambda>st. st\<lparr>s_destructed := s_destructed st + 1\<rparr>) (complete_task env (ws_tasks s ! i) s0)"
    and "ws_cx s0 = ws_cx s" and "ws_calls s0 = ws_calls s" and "rq_phase_handler (ws_rq s0) = rq_phase_handler (ws_rq s)"
    and "rq_count (ws_rq s0) = rq_count (ws_rq s) - 1"
proof
  let ?s0 = "on_rq (\<lambda>r. r\<lparr>rq_count := rq_count r - 1\<rparr>) (on_rq (\<lambda>r. restore_handlers (ws_tasks s ! i) (r\<lparr>rq_blocked := rq_blocked r - 1\<rparr>))
     (on_st (\<lambda>st. st\<lparr>s_completed := s_completed st + 1\<rparr>) (s\<lparr>ws_tasks := take i (ws_tasks s) @ drop (Suc i) (ws_tasks s)\<rparr>)))"
  show "completion_handler env i s = on_st (\<lambda>st. st\<lparr>s_destructed := s_destructed st + 1\<rparr>) (complete_task env (ws_tasks s ! i) ?s0)"
    using assms by (simp add: completion_handler_def Let_def)
qed simp_all

text \<open>
  C5. When the final run blocks, nothing of the held response reaches the client: the completion of
  the task moves the stage to \<^verbatim>\<open>WAF_END_BLOCK_COMMIT\<close>, hands the specification to the blocking service
  and sends nothing itself; the header of the blocking response goes straight to the next filter, and
  its body is the only thing the output body filter sends, while the saved header and body are
  dropped.
\<close>

theorem final_block_discards:
  assumes "stage_of s = PENDING_WAF_END" and "tk_kind (ws_tasks s ! i) = PolFinal"
    and "tk_ran (ws_tasks s ! i)" and "tk_block_spec (ws_tasks s ! i) = Some spec"
    and "\<not> rq_terminated (ws_rq s)" and "1 < rq_count (ws_rq s)" and "ne_read_event_ok env"
  shows "let s1 = completion_handler env i s; s2 = snd (do_header_filter env2 s1); s3 = snd (do_output_body_filter env3 ch s2) in
    Block_call spec \<in> set (ws_calls s1) \<and> filter sends (ws_calls s1) = filter sends (ws_calls s)
    \<and> stage_of s1 = WAF_END_BLOCK_COMMIT \<and> ws_calls s2 = ws_calls s1 @ [Next_header]
    \<and> ws_calls s3 = ws_calls s2 @ [Next_output_body ch] \<and> stage_of s3 = AFTER_RUN_WAF_END
    \<and> header_saved s3 = [] \<and> out_saved s3 = []"
proof -
  let ?t = "ws_tasks s ! i"
  obtain s0 where c: "completion_handler env i s = on_st (\<lambda>st. st\<lparr>s_destructed := s_destructed st + 1\<rparr>) (complete_task env ?t s0)"
    and s0: "ws_cx s0 = ws_cx s" "ws_calls s0 = ws_calls s"
    using completion_alive [OF assms(5-7)] by blast
  define s1 where "s1 = completion_handler env i s"
  have ct: "complete_task env ?t s0 =
     (let s1 = do_block env spec (waf_final_done True (set_blocked_tag s0))
      in if 1 < rq_count (ws_rq s0) then trigger_upstream_read ?t (emit Post_write s1) else s1)"
    using assms(2-4) by (simp add: complete_task_def complete_final_def)
  have fin: "waf_final_done True (set_blocked_tag s0) = transition_to_stage WAF_END_BLOCK_COMMIT (set_blocked_tag s0)"
    using assms(1) s0 by (simp add: waf_final_done_def checked_transition_to_stage_def)
  have 1: "stage_of s1 = WAF_END_BLOCK_COMMIT" "Block_call spec \<in> set (ws_calls s1)" "filter sends (ws_calls s1) = filter sends (ws_calls s)"
    unfolding s1_def c ct fin using s0 by (simp_all add: do_block_def trigger_upstream_read_def Let_def)
  have 2: "snd (do_header_filter env2 s1) = emit Next_header s1" using 1 by (simp add: do_header_filter_def)
  have "ws_calls (snd (do_output_body_filter env3 ch (emit Next_header s1))) = ws_calls s1 @ [Next_header, Next_output_body ch]
     \<and> stage_of (snd (do_output_body_filter env3 ch (emit Next_header s1))) = AFTER_RUN_WAF_END
     \<and> header_saved (snd (do_output_body_filter env3 ch (emit Next_header s1))) = []
     \<and> out_saved (snd (do_output_body_filter env3 ch (emit Next_header s1))) = []"
    using 1 by (simp add: do_output_body_filter_def next_output_body_def fc_clear_def Let_def)
  with 1 show ?thesis by (simp add: Let_def s1_def [symmetric] 2)
qed

definition is_verdict :: "call \<Rightarrow> bool" where
  "is_verdict c = (case c of Block_call _ \<Rightarrow> True | Finalize _ \<Rightarrow> True | _ \<Rightarrow> False)"

lemma is_verdict_simps [simp]:
  "\<not> is_verdict (Set_tag k v)" "\<not> is_verdict Post_write" "\<not> is_verdict Post_read" "\<not> is_verdict Post_upstream_read"
  by (simp_all add: is_verdict_def)

lemma complete_failed:
  assumes "\<not> tk_ran t"
  shows "filter is_verdict (ws_calls (complete_task env t s)) = filter is_verdict (ws_calls s)"
    "stage_of (complete_task env t s) =
          (if tk_kind t = PolReqBody \<and> stage_of s = SUSPENDED_ON_REQ_WAF then AFTER_ON_REQ_WAF
           else if tk_kind t = PolFinal \<and> stage_of s = PENDING_WAF_END then AFTER_RUN_WAF_END else stage_of s)"
    "rq_phase_handler (ws_rq (complete_task env t s)) = (if tk_kind t = Pol1st then rq_phase_handler (ws_rq s) + 1 else rq_phase_handler (ws_rq s))"
  using assms
  by (cases "tk_kind t"; simp add: complete_task_def complete_first_def complete_req_body_def complete_final_def waf_req_post_done_def
      waf_final_done_def checked_transition_to_stage_def trigger_upstream_read_def prepare_drain_buffered_header_def Let_def)+

text \<open>
  C8. A run that ends in an exception fails open, whichever task it is: the task that the thread
  finishes has no result, and its completion neither blocks nor ends the request. After the first
  task the request goes on with the next phase and its stage stays at \<^verbatim>\<open>ENTERED_ON_START\<close>, so that
  every filter passes its data through; a suspended request body is released, and so is a held
  response.
\<close>

theorem exception_fails_open:
  assumes "i < length (ws_tasks s)" and "tk_phase (ws_tasks s ! i) = Started st" and "\<not> tk_ran (ws_tasks s ! i)"
    and "do_handle tenv version (ws_tasks s ! i) st (ws_rq s) (ws_cx s) = Some (cx, tags, Num_exn e)"
    and "\<not> rq_terminated (ws_rq s)" and "1 < rq_count (ws_rq s)" and "ne_read_event_ok env"
  shows "\<exists>s1. handle_end tenv version i s = Some s1 \<and>
    (let s2 = completion_handler env i s1; k = tk_kind (ws_tasks s ! i)
     in filter is_verdict (ws_calls s2) = filter is_verdict (ws_calls s)
       \<and> stage_of s2 =
          (if k = PolReqBody \<and> stage_of s = SUSPENDED_ON_REQ_WAF then AFTER_ON_REQ_WAF
           else if k = PolFinal \<and> stage_of s = PENDING_WAF_END then AFTER_RUN_WAF_END else stage_of s)
       \<and> rq_phase_handler (ws_rq s2) = (if k = Pol1st then rq_phase_handler (ws_rq s) + 1 else rq_phase_handler (ws_rq s)))"
proof -
  let ?t = "ws_tasks s ! i"
  define s1 where "s1 = finish_task i ?t (Num_exn e) (emit_tags tags (s\<lparr>ws_cx := cx\<rparr>))"
  have h: "handle_end tenv version i s = Some s1"
    using assms(2,4) by (simp add: handle_end_def s1_def store_first_stage_def)
  have cx: "cx_stage cx = stage_of s" using do_handle_frame [OF assms(4)] by simp
  have calls: "ws_calls (emit_tags tags s') = ws_calls s' @ map (\<lambda>(k, v). Set_tag k v) tags" for s'
    by (induction tags s' rule: emit_tags.induct) simp_all
  have s1: "ws_tasks s1 ! i = ?t\<lparr>tk_phase := Finished\<rparr>" "ws_cx s1 = cx" "ws_rq s1 = ws_rq s"
    "ws_calls s1 = ws_calls s @ map (\<lambda>(k, v). Set_tag k v) tags"
    using assms(1) by (simp_all add: s1_def finish_task_def calls)
  obtain s0 where c: "completion_handler env i s1 = on_st (\<lambda>st. st\<lparr>s_destructed := s_destructed st + 1\<rparr>) (complete_task env (ws_tasks s1 ! i) s0)"
    and s0: "ws_cx s0 = cx" "ws_calls s0 = ws_calls s1" "rq_phase_handler (ws_rq s0) = rq_phase_handler (ws_rq s)"
    by (rule completion_alive [of s1 env i]) (use assms(5-7) s1 in auto)
  have tags: "filter is_verdict (map (\<lambda>(k, v). Set_tag k v) tags) = []"
    by (induction tags) auto
  have nr: "\<not> tk_ran (ws_tasks s1 ! i)" "tk_kind (ws_tasks s1 ! i) = tk_kind ?t" using assms(3) s1 by simp_all
  note f = complete_failed [OF nr(1), of env s0, unfolded nr(2) s0 cx]
  have "filter is_verdict (ws_calls s1) = filter is_verdict (ws_calls s)" using s1(4) tags by simp
  with f show ?thesis by (simp add: h c Let_def)
qed


text \<open>A suspended request with a task on its body, and a final task that decided to block.\<close>

definition demo_task :: "task_kind \<Rightarrow> task" where
  "demo_task k = \<lparr>tk_kind = k, tk_prev_read = Req_handler 1, tk_prev_write = Req_handler 2, tk_orig_conn_read = Conn_handler 0,
     tk_orig_conn_write = Conn_handler 0, tk_orig_upstream = None, tk_phase = Posted, tk_block_spec = None, tk_ran = False\<rparr>"

definition demo_in_flight :: "stage \<Rightarrow> task \<Rightarrow> wstate" where
  "demo_in_flight st t = on_cx (\<lambda>cx. cx\<lparr>cx_stage := st, cx_filter := fc_new\<lparr>fc_out := demo_body, fc_out_total := 3\<rparr>\<rparr>)
     (demo_state\<lparr>ws_tasks := [t], ws_rq := demo_request\<lparr>rq_count := 2, rq_blocked := 1,
        rq_coll := (rq_coll demo_request)\<lparr>cr_body := \<lparr>br_content_type_in = Some ''text/plain'', br_content_type_out = [], br_header_only = False\<rparr>\<rparr>\<rparr>\<rparr>)"

lemma demo_in_flight_simps [simp]:
  "stage_of (demo_in_flight st t) = st" "ws_tasks (demo_in_flight st t) = [t]" "ws_calls (demo_in_flight st t) = []"
  "\<not> rq_terminated (ws_rq (demo_in_flight st t))" "rq_count (ws_rq (demo_in_flight st t)) = 2"
  by (simp_all add: demo_in_flight_def demo_state_def demo_request_def)

definition demo_spec :: block_spec where
  "demo_spec = \<lparr>bs_status = 403, bs_ct = CT_AUTO, bs_location = []\<rparr>"

theorem final_block_discards_witness:
  "let s1 = completion_handler demo_env 0
              (demo_in_flight PENDING_WAF_END (demo_task PolFinal\<lparr>tk_phase := Finished, tk_ran := True, tk_block_spec := Some demo_spec\<rparr>))
   in stage_of s1 = WAF_END_BLOCK_COMMIT \<and> Block_call demo_spec \<in> set (ws_calls s1) \<and> filter sends (ws_calls s1) = []"
  using final_block_discards
    [of "demo_in_flight PENDING_WAF_END (demo_task PolFinal\<lparr>tk_phase := Finished, tk_ran := True, tk_block_spec := Some demo_spec\<rparr>)"
        0 demo_spec demo_env demo_env demo_env demo_body]
  by (simp add: Let_def demo_task_def demo_env_def)

definition demo_tenv :: tenv where
  "demo_tenv = \<lparr>te_waf = plain_env,
     te_ip = \<lparr>inet_pton4 = (\<lambda>_. None), inet_pton6 = (\<lambda>_. None), inet_ntop = (\<lambda>_. None), ngx_hash = (\<lambda>h b. h)\<rparr>,
     te_custom_ip_header = None, te_reader = (\<lambda>is. ([], True)), te_key_order = (\<lambda>ks. ks),
     te_ddwaf_run = (\<lambda>_. (DDWAF_MATCH, blocking_result)), te_sample_schema = False\<rparr>"

lemma demo_run_throws:
  "\<exists>cx tags e. do_handle demo_tenv version (demo_task PolReqBody\<lparr>tk_phase := Started SUSPENDED_ON_REQ_WAF\<rparr>) SUSPENDED_ON_REQ_WAF
     (ws_rq (demo_in_flight SUSPENDED_ON_REQ_WAF t)) (ws_cx (demo_in_flight SUSPENDED_ON_REQ_WAF t)) = Some (cx, tags, Num_exn e)"
proof -
  let ?cx = "ws_cx (demo_in_flight SUSPENDED_ON_REQ_WAF t)"
  have throws: "\<exists>cx' e. run_ddwaf demo_tenv data (?cx\<lparr>cx_memres := m\<rparr>) = (cx', Num_exn e)" for data m
  proof -
    obtain c e where "attributes_loop plain_env [(''_dd.appsec.score'', Obj_signed 0)]
        (waf_ctx_new\<lparr>wc_results := [blocking_result], wc_keep := new_keep DDWAF_MATCH blocking_result False\<rparr>) = (c, Num_exn e)"
      using attributes_loop_throws [of "''_dd.appsec.score''" "Obj_signed 0" "[(''_dd.appsec.score'', Obj_signed 0)]"]
      by (auto simp: is_schema_key_def nonpositive_def) (metis prod.collapse)
    moreover have "get_opt blocking_result ''attributes'' = Some (Obj_map [(''_dd.appsec.score'', Obj_signed 0)])"
      by (simp add: blocking_result_def)
    moreover have "cx_waf ?cx = Some waf_ctx_new" "wc_results waf_ctx_new = []" "wc_keep waf_ctx_new = False"
      by (simp_all add: demo_in_flight_def demo_state_def maybe_create_def waf_ctx_new_def)
    ultimately show ?thesis
      by (simp add: run_ddwaf_def demo_tenv_def waf_run_def run_attributes_def Let_def del: attributes_loop.simps)
  qed
  have body: "parse_body_req (te_reader demo_tenv) (te_key_order demo_tenv) (cr_body (rq_coll (ws_rq (demo_in_flight SUSPENDED_ON_REQ_WAF t))))
      ch n m = Some (parse_plain ch n m)" for ch n m
    by (simp add: parse_body_req_def demo_in_flight_def content_type_tests is_content_type_def tolower_keep)
  have out: "fc_out (cx_filter ?cx) \<noteq> []" by (simp add: demo_in_flight_def demo_body_def)
  show ?thesis
  proof (cases "parse_plain (chain_bytes (fc_out (cx_filter ?cx))) (fc_out_total (cx_filter ?cx)) (snd (allocate_objects 1 (cx_memres ?cx)))")
    case (Inl e)
    with out body show ?thesis by (simp add: do_handle_def demo_task_def run_waf_req_post_def)
  next
    case (Inr p)
    then obtain buf m1 where "p = (Some (Obj_string buf), m1)" by (auto simp: parse_plain_def split: sum.splits)
    moreover obtain cx' e where "run_ddwaf demo_tenv (Obj_map [(''server.request.body'', Obj_string buf)]) (?cx\<lparr>cx_memres := m1\<rparr>) = (cx', Num_exn e)"
      using throws by blast
    ultimately show ?thesis using Inr out body by (simp add: do_handle_def demo_task_def run_waf_req_post_def)
  qed
qed

theorem exception_fails_open_witness:
  "\<exists>s1. handle_end demo_tenv ''1.0'' 0 (demo_in_flight SUSPENDED_ON_REQ_WAF (demo_task PolReqBody\<lparr>tk_phase := Started SUSPENDED_ON_REQ_WAF\<rparr>)) = Some s1
     \<and> stage_of (completion_handler demo_env 0 s1) = AFTER_ON_REQ_WAF \<and> filter is_verdict (ws_calls (completion_handler demo_env 0 s1)) = []"
proof -
  let ?t = "demo_task PolReqBody\<lparr>tk_phase := Started SUSPENDED_ON_REQ_WAF\<rparr>"
  let ?s = "demo_in_flight SUSPENDED_ON_REQ_WAF ?t"
  obtain cx tags e where "do_handle demo_tenv ''1.0'' ?t SUSPENDED_ON_REQ_WAF (ws_rq ?s) (ws_cx ?s) = Some (cx, tags, Num_exn e)"
    using demo_run_throws by blast
  note h = this
  have t: "tk_kind ?t = PolReqBody" "\<not> tk_ran ?t" "ne_read_event_ok demo_env" by (simp_all add: demo_task_def demo_env_def)
  from exception_fails_open [of 0 ?s SUSPENDED_ON_REQ_WAF demo_tenv "''1.0''" cx tags e demo_env] h t show ?thesis
    by (auto simp: Let_def)
qed

end
