(* ===== verification/Waf_Verdict.thy ===== *)
theory Waf_Verdict
  imports Waf_Response
begin

text \<open>
  Blocking over a whole request: however the handlers, the tasks on the thread pool and their
  completions interleave, the blocking service is called at most once.
\<close>

section \<open>Steps that decide nothing\<close>

definition is_block :: "call \<Rightarrow> bool" where
  "is_block c = (case c of Block_call _ \<Rightarrow> True | _ \<Rightarrow> False)"

definition nblocks :: "wstate \<Rightarrow> nat" where
  "nblocks s = length (filter is_block (ws_calls s))"

lemma nblocks_simps [simp]:
  "nblocks (on_rq f s) = nblocks s" "nblocks (on_cx g s) = nblocks s" "nblocks (on_st h s) = nblocks s"
  "nblocks (transition_to_stage st s) = nblocks s" "nblocks (emit c s) = nblocks s + (if is_block c then 1 else 0)"
  "nblocks (s\<lparr>ws_rq := r\<rparr>) = nblocks s" "nblocks (s\<lparr>ws_cx := cx\<rparr>) = nblocks s" "nblocks (s\<lparr>ws_tasks := ts\<rparr>) = nblocks s"
  by (simp_all add: nblocks_def)

lemma is_block_simps [simp]:
  "\<not> is_block (Next_request_body ch)" "\<not> is_block Next_header" "\<not> is_block (Next_output_body ch)" "\<not> is_block (Write_filter ch)"
  "\<not> is_block (Send_chain ch)" "\<not> is_block Output_filter_null" "\<not> is_block (Finalize rc)" "\<not> is_block Post_write"
  "\<not> is_block Post_read" "\<not> is_block Post_upstream_read" "\<not> is_block Run_write_handler" "is_block (Block_call spec)"
  "\<not> is_block Add_write_timer" "\<not> is_block (Set_tag k v)" "\<not> is_block (Set_header_tags hb)"
  "\<not> is_block (Override_sampling_priority p)" "\<not> is_block Set_source_appsec"
  by (simp_all add: is_block_def)

text \<open>No call of the blocking service, and every new task is one that has not run.\<close>

definition undecided :: "wstate \<Rightarrow> wstate \<Rightarrow> bool" where
  "undecided s s' \<longleftrightarrow> nblocks s' = nblocks s \<and> (\<forall>t \<in> set (ws_tasks s'). t \<in> set (ws_tasks s) \<or> \<not> tk_ran t)"

lemma undecided_refl [simp]: "undecided s s"
  by (simp add: undecided_def)

lemma undecided_simps [simp]:
  "undecided s (on_rq f s') = undecided s s'" "undecided s (on_cx g s') = undecided s s'" "undecided s (on_st h s') = undecided s s'"
  "undecided s (transition_to_stage st s') = undecided s s'" "\<not> is_block c \<Longrightarrow> undecided s (emit c s') = undecided s s'"
  "undecided s (s'\<lparr>ws_rq := r\<rparr>) = undecided s s'"
  by (simp_all add: undecided_def)

lemma undecided_trans: "undecided a b \<Longrightarrow> undecided b c \<Longrightarrow> undecided a c"
  by (auto simp: undecided_def)

lemma undecided_same: "ws_calls s' = ws_calls s \<Longrightarrow> ws_tasks s' = ws_tasks s \<Longrightarrow> undecided a s \<Longrightarrow> undecided a s'"
  by (simp add: undecided_def nblocks_def)

lemma undecided_submit:
  assumes "undecided a s" and "\<not> tk_ran t"
  shows "undecided a (snd (submit_task env t s))"
proof -
  obtain t1 r1 where r: "replace_handlers t (ws_rq s) = (t1, r1)" by fastforce
  then have "\<not> tk_ran t1" using assms(2) by (auto simp: replace_handlers_def Let_def split: task_kind.splits)
  with r assms(1) show ?thesis by (auto simp: submit_task_def undecided_def Let_def nblocks_def)
qed

lemma undecided_create_submit:
  assumes "undecided a s" and "create_task env k s = Some (t, s1)"
  shows "undecided a (snd (submit_task env t (transition_to_stage st s1)))" "undecided a (snd (submit_task env t s1))"
  using assms create_task_SomeD(3,4) [OF assms(2)] by (auto intro: undecided_submit)

lemma save_frames:
  "ws_calls (snd (save_request_body env ch consume s)) = ws_calls s" "ws_tasks (snd (save_request_body env ch consume s)) = ws_tasks s"
  "ws_calls (snd (save_output env ch consume s)) = ws_calls s" "ws_tasks (snd (save_output env ch consume s)) = ws_tasks s"
  "ws_calls (snd (buffer_header_output env ch s)) = ws_calls s" "ws_tasks (snd (buffer_header_output env ch s)) = ws_tasks s"
  by (simp_all add: save_request_body_def save_output_def buffer_header_output_def split: prod.splits)

lemma undecided_saves:
  "save_request_body env ch consume s = (ok, s1) \<Longrightarrow> undecided a s \<Longrightarrow> undecided a s1"
  "save_output env ch consume s = (ok, s1) \<Longrightarrow> undecided a s \<Longrightarrow> undecided a s1"
  "buffer_header_output env ch s = (ok, s1) \<Longrightarrow> undecided a s \<Longrightarrow> undecided a s1"
  using save_frames(1,2) [of env ch consume s] save_frames(3,4) [of env ch consume s] save_frames(5,6) [of env ch s]
  by (auto intro: undecided_same [of s1 s])

lemma undecided_start: "undecided s (snd (do_on_request_start env s))"
proof -
  have "undecided s (snd (submit_task env t s2))" if "create_task env Pol1st (transition_to_stage ENTERED_ON_START s) = Some (t, s2)" for t s2
    using undecided_create_submit(2) [OF _ that, of s] by simp
  then show ?thesis by (auto simp: do_on_request_start_def Let_def split: option.splits)
qed

lemma undecided_pass: "undecided a s \<Longrightarrow> undecided a (snd (pass_downstream env s))"
  by (simp add: pass_downstream_def next_request_body_def)

lemma undecided_collect:
  assumes "undecided a s"
  shows "undecided a (snd (collect_request_body env ch s))"
proof -
  obtain o1 s1 where f: "save_request_body env ch False s = (o1, s1)" by fastforce
  obtain o2 s2 where t: "save_request_body env ch True s = (o2, s2)" by fastforce
  note u = undecided_saves(1) [OF f assms] undecided_saves(1) [OF t assms]
  have sub: "undecided a s4" if "create_task env PolReqBody s1 = Some (tk, s3)"
    and "submit_task env tk (transition_to_stage SUSPENDED_ON_REQ_WAF s3) = (ok, s4)" for tk s3 ok s4
    using undecided_create_submit(1) [OF u(1) that(1), of SUSPENDED_ON_REQ_WAF] that(2) by simp
  show ?thesis
    using u sub by (auto simp: collect_request_body_def next_request_body_def f t Let_def
        intro!: undecided_pass split: bool.splits option.splits prod.splits)
qed

lemma undecided_body: "undecided s (snd (do_request_body_filter env ch preread s))"
proof -
  define s0 where "s0 = (if stage_of s = AFTER_BEGIN_WAF then
                  transition_to_stage
                    (if ch \<noteq> [] \<and> preread then COLLECTING_ON_REQ_DATA_PREREAD else COLLECTING_ON_REQ_DATA)
                    (on_rq (\<lambda>r. r\<lparr>rq_need_buffering := True\<rparr>) s)
                else s)"
  have s0: "undecided s s0" by (simp add: s0_def)
  obtain o1 s1 where f: "save_request_body env ch False s0 = (o1, s1)" by fastforce
  obtain o2 s2 where t: "save_request_body env ch True s0 = (o2, s2)" by fastforce
  note u = undecided_saves(1) [OF f s0] undecided_saves(1) [OF t s0]
  show ?thesis
    unfolding do_request_body_filter_def Let_def s0_def [symmetric]
    using u s0 undecided_collect [OF s0, of env ch] undecided_pass [OF u(1), of env]
    by (cases "stage_of s0"; cases o1; cases o2) (simp_all add: f t next_request_body_def)
qed

lemma undecided_prepare_drain: "undecided a s \<Longrightarrow> undecided a (prepare_drain_buffered_header s)"
  by (simp add: prepare_drain_buffered_header_def Let_def)

lemma undecided_final_done: "undecided a s \<Longrightarrow> undecided a (waf_final_done blocked s)"
  by (simp add: waf_final_done_def checked_transition_to_stage_def)

lemma undecided_submit_final:
  assumes "undecided a s" and "\<not> tk_ran t"
  shows "undecided a (snd (submit_final env t from_header s))"
proof -
  define s2 where "s2 = on_rq (\<lambda>r. r\<lparr>rq_header_sent := True\<rparr>)
     (if from_header \<and> rq_header_only (ws_rq s) then on_rq (\<lambda>r. r\<lparr>rq_header_only := False\<rparr>) s else s)"
  obtain ok s3 where sub: "submit_task env t s2 = (ok, s3)" by fastforce
  then have s3: "undecided a s3" using undecided_submit [OF _ assms(2), of a s2 env] assms(1) by (simp add: s2_def)
  then show ?thesis
    by (auto simp: submit_final_def Let_def s2_def [symmetric] sub intro!: undecided_prepare_drain undecided_final_done)
qed

lemma undecided_final_task:
  "undecided a s \<Longrightarrow> create_task env PolFinal s = Some (t, s1) \<Longrightarrow>
   undecided a (snd (submit_final env t from_header (transition_to_stage PENDING_WAF_END s1)))"
  using create_task_SomeD(3,4) [of env PolFinal s t s1] by (auto intro: undecided_submit_final)

lemma undecided_header_chains:
  "undecided a s \<Longrightarrow> save_header_chains env chs s = (ok, s1) \<Longrightarrow> undecided a s1"
proof (induction chs arbitrary: s)
  case (Cons ch chs)
  obtain o2 s2 where h: "buffer_header_output env ch s = (o2, s2)" by fastforce
  with Cons undecided_saves(3) [OF h Cons.prems(1)] show ?case by (auto split: bool.splits)
qed simp

lemma undecided_next_header: "undecided a s \<Longrightarrow> next_header_saving env s = (rc, s1) \<Longrightarrow> undecided a s1"
proof -
  assume u: "undecided a s" and n: "next_header_saving env s = (rc, s1)"
  obtain ok s2 where sv: "save_header_chains env (ne_header_chains env) (emit Next_header s) = (ok, s2)" by fastforce
  then have s2: "undecided a s2" using undecided_header_chains [OF _ sv] u by simp
  obtain o3 s3 where l: "buffer_header_output env (ne_header_left env) s2 = (o3, s3)" by fastforce
  from n sv l s2 undecided_saves(3) [OF l s2] show ?thesis by (auto simp: next_header_saving_def split: if_splits)
qed

lemma undecided_header: "undecided s (snd (do_header_filter env s))"
proof -
  define s0 where "s0 = (if rq_header_only (ws_rq s) then on_cx (\<lambda>cx. cx\<lparr>cx_header_only := True\<rparr>) s else s)"
  have s0: "undecided s s0" by (simp add: s0_def)
  obtain rc s1 where n: "next_header_saving env s0 = (rc, s1)" by fastforce
  note s1 = undecided_next_header [OF s0 n]
  have fin: "undecided s (snd (submit_final env t True (transition_to_stage PENDING_WAF_END s3)))"
    if "create_task env PolFinal (on_cx g s1) = Some (t, s3)" for g t s3
    using undecided_final_task [OF _ that, of s True] s1 by simp
  show ?thesis
    unfolding do_header_filter_def Let_def s0_def [symmetric]
    using s1 fin by (auto simp: n split: option.splits)
qed

lemma undecided_buffer_output:
  assumes "undecided a s"
  shows "undecided a (snd (buffer_output env ch s))"
proof -
  let ?s0 = "on_rq (\<lambda>r. r\<lparr>rq_buffered := True\<rparr>) s"
  define consume where "consume = (fc_copied_total (cx_out_filter (ws_cx s)) < cx_max_saved_output_data (ws_cx s))"
  obtain ok s1 where sv: "save_output env ch consume ?s0 = (ok, s1)" by fastforce
  have s1: "undecided a s1" using undecided_saves(2) [OF sv, of a] assms by simp
  define s2 where "s2 = (if fc_out_total (cx_out_filter (ws_cx s1)) = 0 then on_cx (\<lambda>cx. cx\<lparr>cx_waf_send_resp_body := False\<rparr>) s1 else s1)"
  have s2: "undecided a s2" using s1 by (simp add: s2_def)
  have "snd (buffer_output env ch s) = s1 \<or> snd (buffer_output env ch s) = s2 \<or>
     (\<exists>t s3. create_task env PolFinal s2 = Some (t, s3)
        \<and> snd (buffer_output env ch s) = snd (submit_final env t False (transition_to_stage PENDING_WAF_END s3)))"
    unfolding buffer_output_def Let_def consume_def [symmetric]
    by (cases ok) (auto simp: sv s2_def split: option.splits)
  with s1 s2 undecided_final_task [OF s2] show ?thesis by auto
qed

lemma undecided_output: "undecided s (snd (do_output_body_filter env ch s))"
proof -
  define s0 where "s0 = (if cx_header_only (ws_cx s) \<and> \<not> rq_header_only (ws_rq s)
                then on_rq (\<lambda>r. r\<lparr>rq_header_only := True\<rparr>) s else s)"
  define s1 where "s1 = on_rq (\<lambda>r. r\<lparr>rq_buffered := False\<rparr>) s0"
  have s0: "undecided s s0" and s1: "undecided s s1" by (simp_all add: s0_def s1_def)
  obtain rc s2 where h: "send_buffered_header env s1 = (rc, s2)" by fastforce
  then have s2: "undecided s s2"
    using s1 by (auto simp: send_buffered_header_def Let_def split: if_splits option.splits)
  have flush: "undecided s (snd (flush_output env ch s'))" if "undecided s s'" for s'
  proof -
    obtain ok s3 where sv: "save_output env ch False s' = (ok, s3)" by fastforce
    with undecided_saves(2) [OF sv that] that show ?thesis
      by (cases ok) (auto simp: flush_output_def next_output_body_def)
  qed
  show ?thesis
    unfolding do_output_body_filter_def Let_def s0_def [symmetric] s1_def [symmetric]
    using undecided_buffer_output [OF s0, of env ch] flush [OF s1] flush [OF s2] s1 s2
    by (auto simp: h next_output_body_def)
qed

lemma undecided_drain: "undecided s (drain_buffered_data_write_handler env aio s)"
  by (simp add: drain_buffered_data_write_handler_def wait_writable_def Let_def)

lemma nblocks_emit_tags [simp]: "nblocks (emit_tags ts s) = nblocks s"
  by (induction ts s rule: emit_tags.induct) simp_all

lemma undecided_log: "on_main_log_request env s = Some s' \<Longrightarrow> undecided s s'"
proof -
  assume l: "on_main_log_request env s = Some s'"
  have r: "nblocks s2 = nblocks s1" if "report_matches_ctx env w s1 = Num_ok s2" for w s1 s2
    using that by (auto simp: report_matches_ctx_def nbind_ok_iff Let_def split: prod.splits option.splits if_splits)
  have "nblocks s' = nblocks s"
    using l by (auto simp: on_main_log_request_def report_client_ip_def Let_def
        split: if_splits option.splits num_result.splits dest!: r)
  with log_frame [OF l] show ?thesis by (simp add: undecided_def)
qed


section \<open>The invariant\<close>

definition blocking_task :: "task \<Rightarrow> bool" where
  "blocking_task t \<longleftrightarrow> tk_ran t \<and> tk_block_spec t \<noteq> None"

definition quiet :: "task \<Rightarrow> bool" where
  "quiet t \<longleftrightarrow> tk_kind t = Pol1st \<and> tk_phase t = Finished \<and> \<not> blocking_task t"

text \<open>The stages in which no task is started any more.\<close>

definition blocked_stage :: "stage \<Rightarrow> bool" where
  "blocked_stage st \<longleftrightarrow> st \<in> {AFTER_BEGIN_WAF_BLOCK, AFTER_ON_REQ_WAF_BLOCK, WAF_END_BLOCK_COMMIT, AFTER_RUN_WAF_END}"

definition verdict_inv :: "wstate \<Rightarrow> bool" where
  "verdict_inv s \<longleftrightarrow>
     (\<forall>t \<in> set (ws_tasks s). (tk_ran t \<longrightarrow> tk_phase t = Finished)
        \<and> (tk_kind t = Pol1st \<and> blocking_task t \<longrightarrow> stage_of s = AFTER_BEGIN_WAF_BLOCK))
     \<and> (nblocks s = 0 \<or> nblocks s = 1 \<and> blocked_stage (stage_of s) \<and> (\<forall>t \<in> set (ws_tasks s). quiet t))"

text \<open>A step that decides nothing and, in those stages, starts nothing.\<close>

definition settled :: "wstate \<Rightarrow> wstate \<Rightarrow> bool" where
  "settled s s' \<longleftrightarrow> (blocked_stage (stage_of s) \<longrightarrow> ws_tasks s' = ws_tasks s \<and> blocked_stage (stage_of s')
     \<and> (stage_of s = AFTER_BEGIN_WAF_BLOCK \<longrightarrow> stage_of s' = AFTER_BEGIN_WAF_BLOCK))"

lemma verdict_inv_step:
  assumes "verdict_inv s" and "undecided s s'" and "settled s s'"
  shows "verdict_inv s'"
proof -
  have ran: "t \<in> set (ws_tasks s) \<or> \<not> tk_ran t" if "t \<in> set (ws_tasks s')" for t
    using assms(2) that by (auto simp: undecided_def)
  have fin: "tk_phase t = Finished" if "t \<in> set (ws_tasks s')" "tk_ran t" for t
    using assms(1) ran [OF that(1)] that(2) by (simp add: verdict_inv_def)
  have first: "stage_of s' = AFTER_BEGIN_WAF_BLOCK" if "t \<in> set (ws_tasks s')" "tk_kind t = Pol1st" "blocking_task t" for t
  proof -
    have "stage_of s = AFTER_BEGIN_WAF_BLOCK"
      using assms(1) ran [OF that(1)] that(2,3) by (simp add: verdict_inv_def blocking_task_def)
    with assms(3) show ?thesis by (simp add: settled_def blocked_stage_def)
  qed
  have n: "nblocks s' = nblocks s" using assms(2) by (simp add: undecided_def)
  have "nblocks s' = 0 \<or> nblocks s' = 1 \<and> blocked_stage (stage_of s') \<and> (\<forall>t \<in> set (ws_tasks s'). quiet t)"
  proof (cases "nblocks s = 0")
    case False
    with assms(1) have "nblocks s = 1" "blocked_stage (stage_of s)" "\<forall>t \<in> set (ws_tasks s). quiet t"
      by (simp_all add: verdict_inv_def)
    with assms(3) n show ?thesis by (simp add: settled_def)
  qed (simp add: n)
  with fin first show ?thesis unfolding verdict_inv_def by blast
qed

lemma settled_start: "settled s (snd (do_on_request_start env s))"
  by (auto simp: settled_def blocked_stage_def do_on_request_start_def)

lemma settled_body: "settled s (snd (do_request_body_filter env ch preread s))"
proof (cases "blocked_stage (stage_of s)")
  case True
  then have "stage_of s \<noteq> AFTER_BEGIN_WAF" by (auto simp: blocked_stage_def)
  then have s0: "(if stage_of s = AFTER_BEGIN_WAF then s' else s) = s" for s' by simp
  obtain ok s1 where sv: "save_request_body env ch False s = (ok, s1)" by fastforce
  then have s1: "ws_tasks s1 = ws_tasks s" "stage_of s1 = stage_of s"
    by (auto simp: save_request_body_def split: prod.splits)
  then have p: "ws_tasks (snd (pass_downstream env s1)) = ws_tasks s" "stage_of (snd (pass_downstream env s1)) = stage_of s"
    by (simp_all add: pass_downstream_def next_request_body_def)
  have "ws_tasks (snd (do_request_body_filter env ch preread s)) = ws_tasks s \<and> stage_of (snd (do_request_body_filter env ch preread s)) = stage_of s"
    using True s1 p unfolding do_request_body_filter_def Let_def s0 blocked_stage_def
    by (cases "stage_of s"; cases ok) (simp_all add: sv next_request_body_def)
  with True show ?thesis by (simp add: settled_def)
qed (simp add: settled_def)

lemma settled_header: "settled s (snd (do_header_filter env s))"
  by (auto simp: settled_def blocked_stage_def do_header_filter_def)

lemma settled_output: "settled s (snd (do_output_body_filter env ch s))"
proof (cases "blocked_stage (stage_of s)")
  case True
  define s1 where "s1 = on_rq (\<lambda>r. r\<lparr>rq_buffered := False\<rparr>)
     (if cx_header_only (ws_cx s) \<and> \<not> rq_header_only (ws_rq s) then on_rq (\<lambda>r. r\<lparr>rq_header_only := True\<rparr>) s else s)"
  have s1: "ws_tasks s1 = ws_tasks s" "stage_of s1 = stage_of s" by (simp_all add: s1_def)
  obtain rc s2 where h: "send_buffered_header env s1 = (rc, s2)" by fastforce
  have s2: "ws_tasks s2 = ws_tasks s" "stage_of s2 = stage_of s"
    using h s1 by (auto simp: send_buffered_header_def Let_def split: if_splits option.splits)
  have flush: "ws_tasks (snd (flush_output env ch s')) = ws_tasks s'" for s'
  proof -
    obtain ok s3 where sv: "save_output env ch False s' = (ok, s3)" by fastforce
    with save_frames(4) [of env ch False s'] show ?thesis by (cases ok) (auto simp: flush_output_def next_output_body_def)
  qed
  show ?thesis
    unfolding settled_def do_output_body_filter_def Let_def s1_def [symmetric]
    using True s1 s2 by (auto simp: h flush flush_stage next_output_body_def blocked_stage_def)
qed (simp add: settled_def)

lemma settled_drain: "settled s (drain_buffered_data_write_handler env aio s)"
  by (simp add: settled_def drain_buffered_data_write_handler_def wait_writable_def Let_def)

lemma verdict_begin:
  assumes "verdict_inv s" and "i < length (ws_tasks s)" and "tk_phase (ws_tasks s ! i) = Posted"
  shows "verdict_inv (handle_begin i s)"
proof -
  let ?t = "(ws_tasks s ! i)\<lparr>tk_phase := Started (stage_of s)\<rparr>"
  have i: "ws_tasks s ! i \<in> set (ws_tasks s)" using assms(2) by simp
  have nr: "\<not> tk_ran (ws_tasks s ! i)" using assms(1,3) i by (auto simp: verdict_inv_def)
  have n0: "nblocks s = 0" using assms(1,3) i by (auto simp: verdict_inv_def quiet_def)
  have "t \<in> set (ws_tasks s) \<or> t = ?t" if "t \<in> set (ws_tasks (handle_begin i s))" for t
    using that set_update_subset_insert by (fastforce simp: handle_begin_def)
  with assms(1) nr n0 show ?thesis
    by (fastforce simp: verdict_inv_def blocking_task_def handle_begin_def)
qed

lemma verdict_end:
  assumes "verdict_inv s" and "ctx_inv b k s" and "i < length (ws_tasks s)" and "handle_end env version i s = Some s'"
  shows "verdict_inv s'"
proof -
  let ?t = "ws_tasks s ! i"
  from assms(4) obtain st cx tags res where ph: "tk_phase ?t = Started st"
    and h: "do_handle env version ?t st (ws_rq s) (ws_cx s) = Some (cx, tags, res)"
    and s': "s' = finish_task i ?t res (store_first_stage ?t st res (emit_tags tags (s\<lparr>ws_cx := cx\<rparr>)))"
    by (auto simp: handle_end_def split: task_phase.splits bind_splits if_splits)
  have i: "?t \<in> set (ws_tasks s)" using assms(3) by simp
  have tok: "task_ok (stage_of s) (fc_out (cx_filter (ws_cx s)) \<noteq> []) ?t"
    using assms(2,3) by (auto simp: ctx_inv_def tasks_ok_def list_all_length)
  have nr: "\<not> tk_ran ?t" and n0: "nblocks s = 0" using assms(1) i ph by (auto simp: verdict_inv_def quiet_def)
  have cx: "cx_stage cx = stage_of s" using do_handle_frame [OF h] by simp
  define t' where "t' = (case res of Num_ok spec \<Rightarrow> ?t\<lparr>tk_phase := Finished, tk_block_spec := spec, tk_ran := True\<rparr> | _ \<Rightarrow> ?t\<lparr>tk_phase := Finished\<rparr>)"
  have t': "tk_phase t' = Finished" "tk_kind t' = tk_kind ?t" by (auto simp: t'_def split: num_result.splits)
  have tasks: "ws_tasks s' = (ws_tasks s)[i := t']"
    by (simp add: s' finish_task_def t'_def store_first_stage_def split: num_result.splits option.splits)
  have stage: "stage_of s' = stage_of (store_first_stage ?t st res (s\<lparr>ws_cx := cx\<rparr>))"
    by (auto simp: s' finish_task_def store_first_stage_def split: num_result.splits option.splits)
  have nb: "nblocks s' = 0" using n0 by (auto simp: s' finish_task_def store_first_stage_def split: num_result.splits option.splits)
  have first: "stage_of s' = AFTER_BEGIN_WAF_BLOCK" if "tk_kind ?t = Pol1st" "blocking_task t'"
  proof -
    from that(2) nr obtain spec where res: "res = Num_ok (Some spec)"
      by (auto simp: blocking_task_def t'_def split: num_result.splits)
    have "st = ENTERED_ON_START" using h that(1) res by (auto simp: do_handle_def run_waf_start_def split: if_splits)
    with that(1) res show ?thesis by (simp add: stage store_first_stage_def)
  qed
  have others: "stage_of s' = AFTER_BEGIN_WAF_BLOCK" if "t \<in> set (ws_tasks s)" "tk_kind t = Pol1st" "blocking_task t" for t
  proof -
    have st: "stage_of s = AFTER_BEGIN_WAF_BLOCK" using assms(1) that by (auto simp: verdict_inv_def)
    then have "tk_kind ?t \<noteq> Pol1st" using tok ph by (auto simp: task_ok_def)
    with st cx show ?thesis by (simp add: stage store_first_stage_def)
  qed
  have "t \<in> set (ws_tasks s) \<or> t = t'" if "t \<in> set (ws_tasks s')" for t
    using that set_update_subset_insert unfolding tasks by fastforce
  with assms(1) nb t' first others show ?thesis by (fastforce simp: verdict_inv_def)
qed


lemma complete_task_nblocks:
  "nblocks (complete_task env t s) = nblocks s + (if blocking_task t then 1 else 0)"
  by (cases "tk_kind t"; cases "tk_ran t"; cases "tk_block_spec t")
    (simp_all add: complete_task_def complete_first_def complete_req_body_def complete_final_def do_block_def blocking_task_def Let_def
      trigger_upstream_read_def prepare_drain_buffered_header_def waf_req_post_done_def waf_final_done_def checked_transition_to_stage_def)

lemma complete_task_tasks: "ws_tasks (complete_task env t s) = ws_tasks s"
  by (cases "tk_kind t"; cases "tk_ran t"; cases "tk_block_spec t")
    (simp_all add: complete_task_def complete_first_def complete_req_body_def complete_final_def do_block_def Let_def
      trigger_upstream_read_def prepare_drain_buffered_header_def waf_req_post_done_def waf_final_done_def checked_transition_to_stage_def)

text \<open>The stage in which a task that decided to block leaves the request.\<close>

lemma complete_task_blocked:
  assumes "blocking_task t" and "task_ok (stage_of s) body t" and "tk_kind t = Pol1st \<Longrightarrow> stage_of s = AFTER_BEGIN_WAF_BLOCK"
  shows "blocked_stage (stage_of (complete_task env t s))"
  using assms
  by (cases "tk_kind t")
    (auto simp: complete_task_def complete_first_def complete_req_body_def complete_final_def do_block_def blocking_task_def Let_def
      trigger_upstream_read_def waf_req_post_done_def waf_final_done_def checked_transition_to_stage_def blocked_stage_def task_ok_def
      split: option.splits)

lemma completion_nblocks:
  "nblocks (completion_handler env i s) = nblocks s
   \<or> nblocks (completion_handler env i s) = nblocks s + 1 \<and> blocking_task (ws_tasks s ! i)
      \<and> stage_of (completion_handler env i s) = stage_of (complete_task env (ws_tasks s ! i)
           (on_rq (\<lambda>r. r\<lparr>rq_count := rq_count r - 1\<rparr>) (on_rq (\<lambda>r. restore_handlers (ws_tasks s ! i) (r\<lparr>rq_blocked := rq_blocked r - 1\<rparr>))
             (on_st (\<lambda>st. st\<lparr>s_completed := s_completed st + 1\<rparr>) (s\<lparr>ws_tasks := take i (ws_tasks s) @ drop (Suc i) (ws_tasks s)\<rparr>)))))"
  by (auto simp: completion_handler_def Let_def complete_task_nblocks)

lemma completion_tasks: "ws_tasks (completion_handler env i s) = take i (ws_tasks s) @ drop (Suc i) (ws_tasks s)"
  by (simp add: completion_handler_def Let_def complete_task_tasks)

lemma verdict_complete:
  assumes "verdict_inv s" and "ctx_inv b k s" and "i < length (ws_tasks s)" and "tk_phase (ws_tasks s ! i) = Finished"
  shows "verdict_inv (completion_handler env i s)"
proof -
  let ?t = "ws_tasks s ! i" and ?s' = "completion_handler env i s"
  have i: "?t \<in> set (ws_tasks s)" using assms(3) by simp
  have tok: "task_ok (stage_of s) (fc_out (cx_filter (ws_cx s)) \<noteq> []) t" if "t \<in> set (ws_tasks s)" for t
    using assms(2) that by (auto simp: ctx_inv_def tasks_ok_def list_all_iff)
  have sub: "t \<in> set (ws_tasks s)" if "t \<in> set (ws_tasks ?s')" for t
    using that by (auto simp: completion_tasks dest: in_set_takeD in_set_dropD)
  have fin: "tk_phase t = Finished" if "t \<in> set (ws_tasks ?s')" "tk_ran t" for t
    using assms(1) sub [OF that(1)] that(2) by (auto simp: verdict_inv_def)
  have first: "stage_of ?s' = AFTER_BEGIN_WAF_BLOCK" if "t \<in> set (ws_tasks ?s')" "tk_kind t = Pol1st" "blocking_task t" for t
  proof -
    have "stage_of s = AFTER_BEGIN_WAF_BLOCK" using assms(1) sub [OF that(1)] that(2,3) by (auto simp: verdict_inv_def)
    with completion_stage [of env i s] show ?thesis by auto
  qed
  have distinct: "tk_kind t \<noteq> tk_kind ?t" if "t \<in> set (ws_tasks ?s')" for t
  proof -
    have "distinct (map tk_kind (take i (ws_tasks s) @ ?t # drop (Suc i) (ws_tasks s)))"
      using assms(2,3) by (simp only: id_take_nth_drop [symmetric]) (simp add: ctx_inv_def tasks_ok_def)
    with that show ?thesis by (auto simp: completion_tasks image_iff)
  qed
  have "nblocks ?s' = 0 \<or> nblocks ?s' = 1 \<and> blocked_stage (stage_of ?s') \<and> (\<forall>t \<in> set (ws_tasks ?s'). quiet t)"
  proof (cases "nblocks ?s' = nblocks s")
    case True
    show ?thesis
    proof (cases "nblocks s = 0")
      case False
      with assms(1) have q: "nblocks s = 1" "blocked_stage (stage_of s)" "\<forall>t \<in> set (ws_tasks s). quiet t"
        by (auto simp: verdict_inv_def)
      have "stage_of ?s' = stage_of s" using completion_stage [of env i s] q(2) by (auto simp: blocked_stage_def)
      with q True sub show ?thesis by auto
    qed (use True in simp)
  next
    case False
    with completion_nblocks [of env i s] have n: "nblocks ?s' = nblocks s + 1" and bt: "blocking_task ?t"
      and st: "stage_of ?s' = stage_of (complete_task env ?t (on_rq (\<lambda>r. r\<lparr>rq_count := rq_count r - 1\<rparr>)
         (on_rq (\<lambda>r. restore_handlers ?t (r\<lparr>rq_blocked := rq_blocked r - 1\<rparr>))
           (on_st (\<lambda>st. st\<lparr>s_completed := s_completed st + 1\<rparr>) (s\<lparr>ws_tasks := take i (ws_tasks s) @ drop (Suc i) (ws_tasks s)\<rparr>)))))"
      by simp_all
    have "nblocks s = 0" using assms(1) i bt by (auto simp: verdict_inv_def quiet_def)
    moreover have f: "tk_kind ?t = Pol1st \<Longrightarrow> stage_of s = AFTER_BEGIN_WAF_BLOCK" using assms(1) i bt by (simp add: verdict_inv_def)
    have "blocked_stage (stage_of ?s')"
      unfolding st using f tok [OF i] by (intro complete_task_blocked [OF bt]) simp_all
    moreover have "quiet t" if t: "t \<in> set (ws_tasks ?s')" for t
    proof -
      note d = distinct [OF t] and ok = tok [OF sub [OF t]]
      show ?thesis
      proof (cases "tk_kind ?t = Pol1st")
        case True
        with d ok f show ?thesis by (cases "tk_kind t") (auto simp: task_ok_def)
      next
        case False
        then have s: "stage_of s \<in> {SUSPENDED_ON_REQ_WAF, PENDING_WAF_END}" "tk_kind ?t = PolReqBody \<longleftrightarrow> stage_of s = SUSPENDED_ON_REQ_WAF"
          using tok [OF i] by (cases "tk_kind ?t"; auto simp: task_ok_def)+
        with d ok False have k: "tk_kind t = Pol1st" by (cases "tk_kind t"; cases "tk_kind ?t") (auto simp: task_ok_def)
        have "\<not> blocking_task t" using assms(1) sub [OF t] k s by (auto simp: verdict_inv_def)
        with k ok s show ?thesis by (auto simp: quiet_def task_ok_def)
      qed
    qed
    ultimately show ?thesis using n by simp
  qed
  with fin first show ?thesis unfolding verdict_inv_def by blast
qed

lemma settled_same: "ws_tasks s' = ws_tasks s \<Longrightarrow> stage_of s' = stage_of s \<Longrightarrow> settled s s'"
  by (simp add: settled_def)

lemma verdict_step:
  assumes "ctx_step s e s'" and "verdict_inv s" and "ctx_inv b 0 s"
  shows "verdict_inv s'"
  using assms
proof cases
  case (step_log wenv)
  then show ?thesis
    using verdict_inv_step [OF assms(2) undecided_log] log_frame [of wenv s s'] settled_same by blast
next
  case (step_nginx r)
  then show ?thesis using assms(2) by (simp add: verdict_inv_def)
qed (auto intro: verdict_inv_step [OF assms(2)] undecided_start settled_start undecided_body settled_body undecided_header settled_header
    undecided_output settled_output undecided_drain settled_drain verdict_begin verdict_end verdict_complete assms)

lemma verdict_run: "ctx_run s es s' \<Longrightarrow> verdict_inv s \<Longrightarrow> ctx_inv b 0 s \<Longrightarrow> verdict_inv s'"
  by (induction rule: ctx_run.induct) (blast intro: verdict_step ctx_run_inv)+

text \<open>
  C2. A request is blocked at most once, over every order of handler calls, task steps on the thread
  pool and completions; once it is, the stage is one in which no WAF run is started, and no task is
  left whose completion would block.
\<close>

theorem blocked_at_most_once:
  assumes "initial s" and "ctx_run s es s'"
  shows "nblocks s' \<le> 1 \<and> (nblocks s' = 1 \<longrightarrow> blocked_stage (stage_of s') \<and> list_all (\<lambda>t. \<not> blocking_task t) (ws_tasks s'))"
proof -
  have "verdict_inv s" using assms(1) by (simp add: initial_def verdict_inv_def nblocks_def)
  from verdict_run [OF assms(2) this initial_inv [OF assms(1)]] show ?thesis
    by (auto simp: verdict_inv_def list_all_iff quiet_def)
qed

theorem blocked_at_most_once_witness: "nblocks demo_passed \<le> 1"
  using blocked_at_most_once [OF demo_initial demo_run2] by simp

end
