(* ===== verification/Shared_Limiter.thy ===== *)
theory Shared_Limiter
  imports Prelude
begin

text \<open>
  The rate limiter shared between worker processes: \<^verbatim>\<open>src/security/shared_limiter.h\<close>, with the
  template argument 50 of its only instance (\<^verbatim>\<open>kShLimRefreshesPerMin\<close>, \<^verbatim>\<open>src/security/library.h\<close>).
  All counters are 32-bit words. \<^verbatim>\<open>allow\<close> is given twice: as a function, for a worker that is not
  disturbed, and as the steps of workers that share the atomic \<^verbatim>\<open>tokens_and_refresh\<close> and lose and
  retry compare-and-exchange operations, the spurious failures of \<^verbatim>\<open>compare_exchange_weak\<close> included.
  The clock is a parameter: the tick a worker reads.
\<close>

section \<open>State\<close>

type_synonym u32 = "32 word"

record tokens_and_refresh =
  tokens :: u32
  last_refresh :: u32

record limiter_state =
  tokens_and_refresh :: tokens_and_refresh
  max_per_min :: u32
  refresh_amounts :: "u32 list"

definition RefreshesPerMin :: u32 where
  "RefreshesPerMin = 50"

definition limiter_zero :: limiter_state where
  "limiter_zero = \<lparr>tokens_and_refresh = \<lparr>tokens = 0, last_refresh = 0\<rparr>, max_per_min = 0,
     refresh_amounts = replicate 50 0\<rparr>"

text \<open>The loop over the remainder; an index outside the array leaves the list unchanged in HOL.\<close>

fun add_remainder :: "nat \<Rightarrow> nat \<Rightarrow> u32 \<Rightarrow> u32 list \<Rightarrow> u32 list" where
  "add_remainder 0 i remainder am = am"
| "add_remainder (Suc k) i remainder am =
     (let index = unat ((of_nat i * RefreshesPerMin) div remainder)
      in add_remainder k (Suc i) remainder (am[index := am ! index + 1]))"

definition distribute_refresh_amounts :: "u32 \<Rightarrow> limiter_state \<Rightarrow> limiter_state" where
  "distribute_refresh_amounts mx st =
     (let base = mx div RefreshesPerMin; remainder = mx mod RefreshesPerMin
      in st\<lparr>refresh_amounts := add_remainder (unat remainder) 0 remainder (replicate 50 base)\<rparr>)"

definition initialize_shared_state :: "u32 \<Rightarrow> u32 \<Rightarrow> limiter_state \<Rightarrow> limiter_state" where
  "initialize_shared_state now_tick mx st =
     distribute_refresh_amounts mx
       (st\<lparr>tokens_and_refresh := \<lparr>tokens = mx, last_refresh = now_tick\<rparr>, max_per_min := mx\<rparr>)"

section \<open>Refreshing and taking tokens\<close>

text \<open>The loop over the periods that passed: \<open>k\<close> of them are left, the next one is number \<open>i\<close>.\<close>

fun extra_loop :: "u32 list \<Rightarrow> u32 \<Rightarrow> u32 \<Rightarrow> u32 \<Rightarrow> nat \<Rightarrow> u32 \<Rightarrow> u32" where
  "extra_loop am mx lr i 0 extra = extra"
| "extra_loop am mx lr i (Suc k) extra =
     (if extra < mx
      then extra_loop am mx lr (i + 1) k (extra + am ! unat ((lr + i) mod RefreshesPerMin))
      else extra)"

definition refreshed :: "limiter_state \<Rightarrow> u32 \<Rightarrow> tokens_and_refresh \<Rightarrow> tokens_and_refresh" where
  "refreshed st tick cur =
     (let extra = extra_loop (refresh_amounts st) (max_per_min st) (last_refresh cur) 1
                    (unat (tick - last_refresh cur)) 0;
          new_tokens = tokens cur + extra
      in \<lparr>tokens = (if max_per_min st < new_tokens then max_per_min st else new_tokens), last_refresh = tick\<rparr>)"

definition refresh :: "u32 \<Rightarrow> limiter_state \<Rightarrow> tokens_and_refresh \<times> limiter_state" where
  "refresh tick st =
     (let cur = tokens_and_refresh st
      in if last_refresh cur < tick
         then let new_val = refreshed st tick cur in (new_val, st\<lparr>tokens_and_refresh := new_val\<rparr>)
         else (cur, st))"

text \<open>\<^verbatim>\<open>allow\<close> without interference; \<^const>\<open>None\<close> is the null \<^verbatim>\<open>state_\<close>.\<close>

definition allow :: "u32 \<Rightarrow> limiter_state option \<Rightarrow> bool \<times> limiter_state option" where
  "allow tick so =
     (case so of None \<Rightarrow> (False, None)
      | Some st \<Rightarrow>
          (case refresh tick st of (cur, st1) \<Rightarrow>
             if tokens cur = 0 then (False, Some st1)
             else (True, Some (st1\<lparr>tokens_and_refresh :=
                     \<lparr>tokens = tokens cur - 1, last_refresh = last_refresh cur\<rparr>\<rparr>))))"

section \<open>The zone\<close>

text \<open>
  \<^verbatim>\<open>get_limiter\<close>: the zone's data, \<^const>\<open>None\<close> for a null zone or null data; the state is initialised
  by the first worker that asks. The lock makes the test and the initialisation one step.
\<close>

definition get_limiter :: "u32 \<Rightarrow> limiter_state option \<Rightarrow> u32 \<Rightarrow> limiter_state option" where
  "get_limiter now_tick data mx =
     (case data of None \<Rightarrow> None
      | Some st \<Rightarrow>
          if mx = 0 then None
          else Some (if max_per_min st = 0 then initialize_shared_state now_tick mx st else st))"

text \<open>\<^verbatim>\<open>shared_limiter_zone_init\<close>: \<open>slab\<close> is whether \<^verbatim>\<open>ngx_slab_alloc\<close> succeeds; \<^const>\<open>None\<close> is \<^verbatim>\<open>NGX_ERROR\<close>.\<close>

definition shared_limiter_zone_init :: "bool \<Rightarrow> limiter_state option \<Rightarrow> limiter_state option" where
  "shared_limiter_zone_init slab old =
     (case old of Some _ \<Rightarrow> Some limiter_zero | None \<Rightarrow> if slab then Some limiter_zero else None)"

section \<open>Workers\<close>

text \<open>Where a worker is in \<^verbatim>\<open>allow\<close>, with its local variables.\<close>

datatype pc = Idle | Refreshing u32 tokens_and_refresh | Taking tokens_and_refresh | Returned bool

record system =
  sy_state :: limiter_state
  sy_pc :: "nat \<Rightarrow> pc"

definition set_pc :: "nat \<Rightarrow> pc \<Rightarrow> system \<Rightarrow> system" where
  "set_pc w p s = s\<lparr>sy_pc := (sy_pc s)(w := p)\<rparr>"

definition store :: "tokens_and_refresh \<Rightarrow> system \<Rightarrow> system" where
  "store v s = s\<lparr>sy_state := (sy_state s)\<lparr>tokens_and_refresh := v\<rparr>\<rparr>"

abbreviation cell :: "system \<Rightarrow> tokens_and_refresh" where
  "cell s \<equiv> tokens_and_refresh (sy_state s)"

text \<open>A step of a worker; the flag is true for the step that grants a request.\<close>

inductive wstep :: "system \<Rightarrow> bool \<Rightarrow> system \<Rightarrow> bool" where
  load: "sy_pc s w = Idle \<Longrightarrow> wstep s False (set_pc w (Refreshing tick (cell s)) s)"
| refresh_done: "sy_pc s w = Refreshing tick cur \<Longrightarrow> \<not> last_refresh cur < tick \<Longrightarrow>
    wstep s False (set_pc w (Taking cur) s)"
| refresh_cas: "sy_pc s w = Refreshing tick cur \<Longrightarrow> last_refresh cur < tick \<Longrightarrow> cell s = cur \<Longrightarrow>
    new_val = refreshed (sy_state s) tick cur \<Longrightarrow>
    wstep s False (set_pc w (Taking new_val) (store new_val s))"
| refresh_retry: "sy_pc s w = Refreshing tick cur \<Longrightarrow> last_refresh cur < tick \<Longrightarrow>
    wstep s False (set_pc w (Refreshing tick (cell s)) s)"
| take_empty: "sy_pc s w = Taking cur \<Longrightarrow> tokens cur = 0 \<Longrightarrow>
    wstep s False (set_pc w (Returned False) s)"
| take_cas: "sy_pc s w = Taking cur \<Longrightarrow> tokens cur \<noteq> 0 \<Longrightarrow> cell s = cur \<Longrightarrow>
    wstep s True (set_pc w (Returned True)
      (store \<lparr>tokens = tokens cur - 1, last_refresh = last_refresh cur\<rparr> s))"
| take_retry: "sy_pc s w = Taking cur \<Longrightarrow> tokens cur \<noteq> 0 \<Longrightarrow>
    wstep s False (set_pc w (Taking (cell s)) s)"
| return: "sy_pc s w = Returned b \<Longrightarrow> wstep s False (set_pc w Idle s)"

inductive_cases wstepE: "wstep s g s'"

text \<open>Runs, with the number of requests they grant.\<close>

inductive wrun :: "system \<Rightarrow> nat \<Rightarrow> system \<Rightarrow> bool" where
  wrun_refl: "wrun s 0 s"
| wrun_step: "wrun s n s1 \<Longrightarrow> wstep s1 g s2 \<Longrightarrow> wrun s (if g then Suc n else n) s2"

section \<open>The distribution of the tokens over the minute\<close>

definition slot_index :: "nat \<Rightarrow> nat \<Rightarrow> nat" where
  "slot_index r i = i * 50 div r"

lemma slot_index_word:
  assumes "unat r < 50" and "i < unat r"
  shows "unat ((of_nat i * RefreshesPerMin) div r) = slot_index (unat r) i"
proof -
  have "i < 50" using assms by simp
  then have "unat (of_nat i :: u32) = i" by (simp add: unsigned_of_nat take_bit_eq_mod)
  then have "unat (of_nat i * RefreshesPerMin) = i * 50"
    using \<open>i < 50\<close> by (simp add: RefreshesPerMin_def unat_word_ariths)
  then show ?thesis by (simp add: unat_div slot_index_def)
qed

lemma slot_index_less: "i < r \<Longrightarrow> slot_index r i < 50"
  by (simp add: slot_index_def div_less_iff_less_mult)

lemma slot_index_inj:
  assumes "0 < r" and "r < 50" and "slot_index r i = slot_index r j"
  shows "i = j"
proof (rule ccontr)
  assume "i \<noteq> j"
  moreover have "slot_index r a < slot_index r b" if "a < b" for a b
  proof -
    have "slot_index r a + 1 = (a * 50 + r) div r" using assms(1) by (simp add: slot_index_def div_add_self2)
    also have "\<dots> \<le> b * 50 div r" using that assms(2) by (intro div_le_mono) linarith
    finally show ?thesis by (simp add: slot_index_def)
  qed
  ultimately show False using assms(3) by (metis less_irrefl linorder_neqE_nat)
qed

lemma unat_plus_one: "unat (w :: u32) < 2 ^ 32 - 1 \<Longrightarrow> unat (w + 1) = unat w + 1"
  by (simp add: unat_word_ariths)

lemma add_remainder_spec:
  "unat r < 50 \<Longrightarrow> i + k \<le> unat r \<Longrightarrow> length am = 50 \<Longrightarrow> (\<forall>j < 50. unat (am ! j) < 2 ^ 32 - 1 - k) \<Longrightarrow>
     length (add_remainder k i r am) = 50
     \<and> (\<forall>j < 50. unat (add_remainder k i r am ! j) = unat (am ! j) + card {t. i \<le> t \<and> t < i + k \<and> slot_index (unat r) t = j})
     \<and> sum_list (map unat (add_remainder k i r am)) = sum_list (map unat am) + k"
proof (induction k arbitrary: i am)
  case (Suc k)
  let ?x = "slot_index (unat r) i" and ?am = "am[slot_index (unat r) i := am ! slot_index (unat r) i + 1]"
  have ir: "i < unat r" using Suc.prems by simp
  have x: "unat ((of_nat i * RefreshesPerMin) div r) = ?x" "?x < 50"
    using slot_index_word [OF Suc.prems(1) ir] slot_index_less [OF ir] by auto
  have up: "unat (am ! ?x + 1) = unat (am ! ?x) + 1"
    using Suc.prems(4) x(2) by (intro unat_plus_one) (metis diff_le_self less_le_trans)
  have "\<forall>j < 50. unat (?am ! j) < 2 ^ 32 - 1 - k"
    using Suc.prems(3,4) x(2) up by (auto simp: nth_list_update less_diff_conv)
  from Suc.IH [OF Suc.prems(1) _ _ this, of "Suc i"] Suc.prems(2,3)
  have IH: "length (add_remainder k (Suc i) r ?am) = 50"
    "\<forall>j < 50. unat (add_remainder k (Suc i) r ?am ! j) = unat (?am ! j) + card {t. Suc i \<le> t \<and> t < Suc i + k \<and> slot_index (unat r) t = j}"
    "sum_list (map unat (add_remainder k (Suc i) r ?am)) = sum_list (map unat ?am) + k" by auto
  have "{t. i \<le> t \<and> t < i + Suc k \<and> slot_index (unat r) t = j}
      = (if ?x = j then insert i {t. Suc i \<le> t \<and> t < Suc i + k \<and> slot_index (unat r) t = j}
         else {t. Suc i \<le> t \<and> t < Suc i + k \<and> slot_index (unat r) t = j})" for j
    by (auto simp: Suc_le_eq order.order_iff_strict)
  then have c: "card {t. i \<le> t \<and> t < i + Suc k \<and> slot_index (unat r) t = j}
      = (if ?x = j then 1 else 0) + card {t. Suc i \<le> t \<and> t < Suc i + k \<and> slot_index (unat r) t = j}" for j
    by simp
  have "sum_list (map unat ?am) = sum_list (map unat am) + 1"
    using x(2) Suc.prems(3) up
    by (simp add: map_update sum_list_update)
  with IH(3) have "sum_list (map unat (add_remainder k (Suc i) r ?am)) = sum_list (map unat am) + Suc k" by simp
  moreover have "unat (add_remainder k (Suc i) r ?am ! j) = unat (am ! j) + card {t. i \<le> t \<and> t < i + Suc k \<and> slot_index (unat r) t = j}"
    if "j < 50" for j
    using IH(2) that c [of j] up Suc.prems(3) x(2) by (cases "j = ?x") simp_all
  moreover have "add_remainder (Suc k) i r am = add_remainder k (Suc i) r ?am" by (simp add: Let_def x(1))
  ultimately show ?case using IH(1) by (intro conjI allI impI) (simp_all del: add_remainder.simps)
qed simp

text \<open>The state a worker can rely on.\<close>

definition amounts_ok :: "limiter_state \<Rightarrow> bool" where
  "amounts_ok st \<longleftrightarrow> length (refresh_amounts st) = 50
     \<and> sum_list (map unat (refresh_amounts st)) = unat (max_per_min st)"

lemma distribute_spec:
  fixes mx :: u32 and st :: limiter_state
  defines "st' \<equiv> distribute_refresh_amounts mx st"
  shows "length (refresh_amounts st') = 50 \<and> sum_list (map unat (refresh_amounts st')) = unat mx
     \<and> (\<forall>j < 50. unat (refresh_amounts st' ! j) = unat mx div 50 \<or> unat (refresh_amounts st' ! j) = unat mx div 50 + 1)"
proof -
  let ?r = "mx mod RefreshesPerMin" and ?b = "mx div RefreshesPerMin"
  have r: "unat ?r = unat mx mod 50" and b: "unat ?b = unat mx div 50"
    by (simp_all add: unat_mod unat_div RefreshesPerMin_def)
  have mx: "unat mx < 2 ^ 32" using unsigned_less [of mx] by simp
  have "unat ?b < 85899346" unfolding b using mx by (simp add: div_less_iff_less_mult)
  moreover have "unat ?r < 50" by (simp add: r)
  ultimately have "unat ?b < 2 ^ 32 - 1 - unat ?r" by simp
  then have "\<forall>j < 50. unat (replicate 50 ?b ! j) < 2 ^ 32 - 1 - unat ?r" by simp
  from add_remainder_spec [of ?r 0 "unat ?r" "replicate 50 ?b", OF _ _ _ this] r
  have s: "length (refresh_amounts st') = 50"
    "\<forall>j < 50. unat (refresh_amounts st' ! j) = unat ?b + card {t. t < unat ?r \<and> slot_index (unat ?r) t = j}"
    "sum_list (map unat (refresh_amounts st')) = 50 * unat ?b + unat ?r"
    by (auto simp: st'_def distribute_refresh_amounts_def Let_def sum_list_replicate)
  have "card {t. t < unat ?r \<and> slot_index (unat ?r) t = j} \<le> 1" for j
  proof (cases "\<exists>t0. t0 < unat ?r \<and> slot_index (unat ?r) t0 = j")
    case True
    then obtain t0 where "t0 < unat ?r" "slot_index (unat ?r) t0 = j" by blast
    then have "{t. t < unat ?r \<and> slot_index (unat ?r) t = j} \<subseteq> {t0}"
      using slot_index_inj [of "unat ?r"] r by auto
    then show ?thesis using card_mono [of "{t0}"] by fastforce
  next
    case False
    then have "{t. t < unat ?r \<and> slot_index (unat ?r) t = j} = {}" by auto
    then show ?thesis by (metis card.empty zero_le_one)
  qed
  then have "card {t. t < unat ?r \<and> slot_index (unat ?r) t = j} \<in> {0, 1}" for j
    by (simp add: le_Suc_eq)
  then have "unat (refresh_amounts st' ! j) \<in> {unat mx div 50, unat mx div 50 + 1}" if "j < 50" for j
    using s(2) that b by fastforce
  moreover have "50 * unat ?b + unat ?r = unat mx" unfolding r b by simp
  ultimately show ?thesis using s(1,3) by (intro conjI allI impI) auto
qed

section \<open>Refreshing adds the tokens of the periods that passed\<close>

definition period_sum :: "u32 list \<Rightarrow> nat \<Rightarrow> nat \<Rightarrow> nat" where
  "period_sum am l k = (\<Sum>j<k. unat (am ! ((l + 1 + j) mod 50)))"

lemma period_sum_Suc: "period_sum am l (Suc k) = unat (am ! ((l + 1) mod 50)) + period_sum am (Suc l) k"
proof -
  have "(\<Sum>j<Suc k. unat (am ! ((l + 1 + j) mod 50)))
      = unat (am ! ((l + 1 + 0) mod 50)) + (\<Sum>j<k. unat (am ! ((l + 1 + Suc j) mod 50)))"
    by (rule sum.lessThan_Suc_shift)
  then show ?thesis by (simp add: period_sum_def)
qed

lemma period_sum_add: "period_sum am l (j + k) = period_sum am l j + period_sum am (l + j) k"
  by (induction j arbitrary: l) (simp_all add: period_sum_def [of _ _ 0] period_sum_Suc)

lemma amount_le: "length am = 50 \<Longrightarrow> unat (am ! (n mod 50)) \<le> sum_list (map unat am)"
  using nth_mem [of "n mod 50" am] by (intro member_le_sum_list) auto

lemma extra_loop_spec:
  assumes "length am = 50" and "sum_list (map unat am) \<le> unat mx" and "unat mx \<le> 2 ^ 30"
  shows "unat lr + unat i + k \<le> 2 ^ 32 \<Longrightarrow> 0 < unat i \<Longrightarrow> unat e \<le> 2 * unat mx \<Longrightarrow>
    (let x = extra_loop am mx lr i k e; total = unat e + period_sum am (unat lr + unat i - 1) k
     in unat x \<le> 2 * unat mx \<and> (unat x = total \<or> (unat mx \<le> unat x \<and> unat x \<le> total)))"
proof (induction k arbitrary: i e)
  case 0
  then show ?case by (simp add: period_sum_def)
next
  case (Suc k)
  show ?case
  proof (cases "e < mx")
    case False
    with Suc.prems show ?thesis by (simp add: word_less_nat_alt Let_def)
  next
    case True
    then have e: "unat e < unat mx" by (simp add: word_less_nat_alt)
    let ?a = "am ! ((unat lr + unat i) mod 50)"
    have li: "unat (lr + i) = unat lr + unat i" using Suc.prems(1) by (simp add: unat_word_ariths)
    have ix: "unat ((lr + i) mod RefreshesPerMin) = (unat lr + unat i) mod 50"
      by (simp add: unat_mod RefreshesPerMin_def li)
    have a: "unat ?a \<le> unat mx" using amount_le [OF assms(1)] assms(2) order_trans by blast
    have ea: "unat (e + ?a) = unat e + unat ?a" using e a assms(3) by (simp add: unat_word_ariths)
    show ?thesis
    proof (cases "k = 0")
      case True
      with \<open>e < mx\<close> ix ea e a Suc.prems(2) show ?thesis by (simp add: Let_def period_sum_def)
    next
      case False
      then have i1: "unat (i + 1) = unat i + 1"
        using Suc.prems(1) by (intro unat_plus_one) linarith
      have ps: "period_sum am (unat lr + unat i - 1) (Suc k) = unat ?a + period_sum am (unat lr + unat i) k"
        using period_sum_Suc [of am "unat lr + unat i - 1" k] Suc.prems(2) by simp
      show ?thesis
        using Suc.IH [of "i + 1" "e + ?a"] \<open>e < mx\<close> ix ea e a i1 ps Suc.prems
        by (auto simp: Let_def add.assoc)
    qed
  qed
qed

lemma refreshed_spec:
  assumes "amounts_ok st" and "unat (max_per_min st) \<le> 2 ^ 30" and "tokens cur \<le> max_per_min st"
    and "last_refresh cur < tick"
  shows "unat (tokens (refreshed st tick cur)) =
      min (unat (max_per_min st))
          (unat (tokens cur) + period_sum (refresh_amounts st) (unat (last_refresh cur)) (unat tick - unat (last_refresh cur)))"
    and "last_refresh (refreshed st tick cur) = tick"
proof -
  let ?lr = "last_refresh cur" and ?mx = "max_per_min st"
  let ?k = "unat tick - unat ?lr"
  let ?x = "extra_loop (refresh_amounts st) ?mx ?lr 1 ?k 0"
  have lt: "unat ?lr < unat tick" using assms(4) by (simp add: word_less_nat_alt)
  have k: "unat (tick - ?lr) = ?k" using lt by (simp add: unat_sub_if')
  have tk: "unat (tokens cur) \<le> unat ?mx" using assms(3) by (simp add: word_le_nat_alt)
  have "unat tick < 2 ^ 32" using unsigned_less [of tick] by simp
  with lt have "unat ?lr + unat (1 :: u32) + ?k \<le> 2 ^ 32" by simp
  from extra_loop_spec [OF _ _ assms(2) this, of "refresh_amounts st" 0] assms(1)
  have x: "unat ?x \<le> 2 * unat ?mx"
    "unat ?x = period_sum (refresh_amounts st) (unat ?lr) ?k
       \<or> (unat ?mx \<le> unat ?x \<and> unat ?x \<le> period_sum (refresh_amounts st) (unat ?lr) ?k)"
    by (simp_all add: Let_def amounts_ok_def)
  have s: "unat (tokens cur + ?x) = unat (tokens cur) + unat ?x"
    using tk x(1) assms(2) by (simp add: unat_word_ariths)
  show "unat (tokens (refreshed st tick cur)) =
      min (unat ?mx) (unat (tokens cur) + period_sum (refresh_amounts st) (unat ?lr) ?k)"
    using x s k by (auto simp: refreshed_def Let_def word_less_nat_alt)
  show "last_refresh (refreshed st tick cur) = tick" by (simp add: refreshed_def Let_def)
qed

section \<open>Invariants of the workers\<close>

text \<open>
  What holds in every reachable state: the configuration does not change, and neither the shared
  cell nor a worker's copy of it exceeds the maximum.
\<close>

fun pc_ok :: "u32 \<Rightarrow> pc \<Rightarrow> bool" where
  "pc_ok mx (Refreshing tick cur) \<longleftrightarrow> tokens cur \<le> mx"
| "pc_ok mx (Taking cur) \<longleftrightarrow> tokens cur \<le> mx"
| "pc_ok mx _ \<longleftrightarrow> True"

definition sys_ok :: "system \<Rightarrow> bool" where
  "sys_ok s \<longleftrightarrow> amounts_ok (sy_state s) \<and> unat (max_per_min (sy_state s)) \<le> 2 ^ 30
     \<and> tokens (cell s) \<le> max_per_min (sy_state s) \<and> (\<forall>w. pc_ok (max_per_min (sy_state s)) (sy_pc s w))"

lemma store_simps [simp]:
  "cell (store v s) = v" "max_per_min (sy_state (store v s)) = max_per_min (sy_state s)"
  "refresh_amounts (sy_state (store v s)) = refresh_amounts (sy_state s)"
  "sy_pc (store v s) = sy_pc s" "sy_state (set_pc w p s) = sy_state s"
  "sy_pc (set_pc w p s) = (sy_pc s)(w := p)"
  by (simp_all add: store_def set_pc_def)

text \<open>The effect of a step on the cell: nothing, a refresh to a later tick, or a token taken.\<close>

definition cell_step :: "limiter_state \<Rightarrow> tokens_and_refresh \<Rightarrow> bool \<Rightarrow> tokens_and_refresh \<Rightarrow> bool" where
  "cell_step st c g c' \<longleftrightarrow>
     (\<not> g \<and> c' = c)
     \<or> (\<not> g \<and> last_refresh c < last_refresh c' \<and> c' = refreshed st (last_refresh c') c)
     \<or> (g \<and> tokens c \<noteq> 0 \<and> c' = \<lparr>tokens = tokens c - 1, last_refresh = last_refresh c\<rparr>)"

lemma wstep_cell:
  "wstep s g s' \<Longrightarrow> cell_step (sy_state s) (cell s) g (cell s')
     \<and> max_per_min (sy_state s') = max_per_min (sy_state s)
     \<and> refresh_amounts (sy_state s') = refresh_amounts (sy_state s)"
  by (induction rule: wstep.induct) (auto simp: cell_step_def refreshed_def Let_def)

lemma tokens_minus_one: "tokens c \<noteq> 0 \<Longrightarrow> unat (tokens c - 1) = unat (tokens c) - 1 \<and> 0 < unat (tokens c)"
proof -
  assume "tokens c \<noteq> 0"
  then have "0 < unat (tokens c)" by (metis gr0I unat_eq_zero)
  then show ?thesis by (simp add: unat_sub_if')
qed

lemma cell_step_le:
  assumes "cell_step st c g c'" and "amounts_ok st" and "unat (max_per_min st) \<le> 2 ^ 30" and "tokens c \<le> max_per_min st"
  shows "tokens c' \<le> max_per_min st \<and> unat (last_refresh c) \<le> unat (last_refresh c') \<and>
     unat (tokens c') + (if g then 1 else 0) \<le> unat (tokens c)
       + period_sum (refresh_amounts st) (unat (last_refresh c)) (unat (last_refresh c') - unat (last_refresh c))"
  using assms(1) unfolding cell_step_def
proof (elim disjE conjE)
  assume "\<not> g" "last_refresh c < last_refresh c'" "c' = refreshed st (last_refresh c') c"
  with refreshed_spec(1) [OF assms(2-4), of "last_refresh c'"] show ?thesis
    by (simp add: word_le_nat_alt word_less_nat_alt)
next
  assume "g" "tokens c \<noteq> 0" "c' = \<lparr>tokens = tokens c - 1, last_refresh = last_refresh c\<rparr>"
  with tokens_minus_one [of c] assms(4) show ?thesis
    by (simp add: word_le_nat_alt period_sum_def)
qed (use assms in \<open>simp add: period_sum_def\<close>)

lemma pc_okD:
  "\<forall>w. pc_ok mx (f w) \<Longrightarrow> f w = Refreshing tick cur \<Longrightarrow> tokens cur \<le> mx"
  by (metis pc_ok.simps(1))

lemma wstep_ok:
  assumes "sys_ok s" and "wstep s g s'"
  shows "sys_ok s'"
proof -
  note c = wstep_cell [OF assms(2)]
  have t: "tokens (cell s') \<le> max_per_min (sy_state s)"
    using cell_step_le [OF conjunct1 [OF c]] assms(1) by (simp add: sys_ok_def)
  from assms(2,1) t have "\<forall>w. pc_ok (max_per_min (sy_state s)) (sy_pc s' w)"
    by (induction rule: wstep.induct) (auto simp: sys_ok_def dest: pc_okD)
  with c t assms(1) show ?thesis by (simp add: sys_ok_def amounts_ok_def)
qed

lemma wrun_bound:
  "wrun s n s' \<Longrightarrow> sys_ok s \<Longrightarrow> sys_ok s'
     \<and> max_per_min (sy_state s') = max_per_min (sy_state s) \<and> refresh_amounts (sy_state s') = refresh_amounts (sy_state s)
     \<and> unat (last_refresh (cell s)) \<le> unat (last_refresh (cell s'))
     \<and> n + unat (tokens (cell s')) \<le> unat (tokens (cell s))
         + period_sum (refresh_amounts (sy_state s)) (unat (last_refresh (cell s)))
             (unat (last_refresh (cell s')) - unat (last_refresh (cell s)))"
proof (induction rule: wrun.induct)
  case (wrun_refl s)
  then show ?case by (simp add: period_sum_def)
next
  case (wrun_step s n s1 g s2)
  then have IH: "sys_ok s1" "max_per_min (sy_state s1) = max_per_min (sy_state s)"
      "refresh_amounts (sy_state s1) = refresh_amounts (sy_state s)"
      "unat (last_refresh (cell s)) \<le> unat (last_refresh (cell s1))"
      "n + unat (tokens (cell s1)) \<le> unat (tokens (cell s))
         + period_sum (refresh_amounts (sy_state s)) (unat (last_refresh (cell s)))
             (unat (last_refresh (cell s1)) - unat (last_refresh (cell s)))" by auto
  note c = wstep_cell [OF wrun_step.hyps(2)]
  note e = cell_step_le [OF conjunct1 [OF c]]
  have e: "unat (last_refresh (cell s1)) \<le> unat (last_refresh (cell s2))"
    "unat (tokens (cell s2)) + (if g then 1 else 0) \<le> unat (tokens (cell s1))
       + period_sum (refresh_amounts (sy_state s)) (unat (last_refresh (cell s1)))
           (unat (last_refresh (cell s2)) - unat (last_refresh (cell s1)))"
    using e IH(1,3) by (auto simp: sys_ok_def)
  have "period_sum (refresh_amounts (sy_state s)) (unat (last_refresh (cell s)))
        (unat (last_refresh (cell s2)) - unat (last_refresh (cell s)))
      = period_sum (refresh_amounts (sy_state s)) (unat (last_refresh (cell s)))
          (unat (last_refresh (cell s1)) - unat (last_refresh (cell s)))
      + period_sum (refresh_amounts (sy_state s)) (unat (last_refresh (cell s1)))
          (unat (last_refresh (cell s2)) - unat (last_refresh (cell s1)))"
    using period_sum_add [of "refresh_amounts (sy_state s)" "unat (last_refresh (cell s))"
        "unat (last_refresh (cell s1)) - unat (last_refresh (cell s))"
        "unat (last_refresh (cell s2)) - unat (last_refresh (cell s1))"] IH(4) e(1) by simp
  with IH e c wstep_ok [OF IH(1) wrun_step.hyps(2)] show ?case by (auto split: if_splits)
qed

lemma period_sum_minute:
  assumes "length am = 50"
  shows "period_sum am l 50 = sum_list (map unat am)"
proof -
  have shift: "period_sum am (Suc l) 50 = period_sum am l 50" for l
  proof -
    have one: "period_sum am l' 1 = unat (am ! ((l' + 1) mod 50))" for l' by (simp add: period_sum_def)
    have "period_sum am l 1 + period_sum am (l + 1) 50 = period_sum am l 50 + period_sum am (l + 50) 1"
      using period_sum_add [of am l 1 50] period_sum_add [of am l 50 1] by simp
    moreover have "(l + 50 + 1) mod 50 = (l + 1) mod 50"
      using mod_add_self2 [of "l + 1" 50] by (simp only: ac_simps)
    ultimately have "period_sum am (l + 1) 50 = period_sum am l 50" unfolding one by (metis add.commute add_right_cancel)
    then show ?thesis by simp
  qed
  have all: "period_sum am l 50 = period_sum am 0 50" for l by (induction l) (simp_all add: shift)
  have "period_sum am 49 50 = (\<Sum>j<50. unat (am ! j))"
    by (simp add: period_sum_def)
  also have "\<dots> = sum_list (map unat am)"
    using assms by (simp add: sum_list_sum_nth atLeast0LessThan)
  finally show ?thesis by (metis all)
qed

lemma period_sum_mono: "j \<le> k \<Longrightarrow> period_sum am l j \<le> period_sum am l k"
  by (metis le_add1 le_add_diff_inverse period_sum_add)

section \<open>Properties\<close>

text \<open>
  C9. The rate limit under concurrency: whatever the number of workers, the interleaving of their
  steps and the failures of their compare-and-exchange operations, the requests granted while the
  refresh tick advances by at most one minute never exceed the tokens at the start plus one
  minute's allowance, the tokens never exceed the maximum, and no 32-bit addition wraps. The
  maximum is assumed to be at most \<open>2 ^ 30\<close>.
\<close>

theorem limiter_rate:
  assumes "wrun s n s'" and "sys_ok s"
    and "unat (last_refresh (cell s')) - unat (last_refresh (cell s)) \<le> 50"
  shows "n \<le> unat (tokens (cell s)) + unat (max_per_min (sy_state s))
     \<and> tokens (cell s') \<le> max_per_min (sy_state s) \<and> sys_ok s'"
proof -
  note b = wrun_bound [OF assms(1,2)]
  have "period_sum (refresh_amounts (sy_state s)) (unat (last_refresh (cell s)))
      (unat (last_refresh (cell s')) - unat (last_refresh (cell s))) \<le> unat (max_per_min (sy_state s))"
    using period_sum_mono [OF assms(3)] period_sum_minute assms(2)
    by (metis amounts_ok_def sys_ok_def)
  moreover have "tokens (cell s') \<le> max_per_min (sy_state s)" using b by (auto simp: sys_ok_def)
  ultimately show ?thesis using b by linarith
qed

text \<open>A state after initialisation, with all workers idle.\<close>

definition initial_system :: "u32 \<Rightarrow> u32 \<Rightarrow> system" where
  "initial_system now_tick mx =
     \<lparr>sy_state = initialize_shared_state now_tick mx limiter_zero, sy_pc = (\<lambda>w. Idle)\<rparr>"

lemma initialize_simps:
  "max_per_min (initialize_shared_state now_tick mx st) = mx"
  "tokens_and_refresh (initialize_shared_state now_tick mx st) = \<lparr>tokens = mx, last_refresh = now_tick\<rparr>"
  by (simp_all add: initialize_shared_state_def distribute_refresh_amounts_def Let_def)

lemma initialize_amounts_ok: "amounts_ok (initialize_shared_state now_tick mx st)"
  using distribute_spec [of mx] initialize_simps(1) [of now_tick mx st]
  unfolding amounts_ok_def by (simp add: initialize_shared_state_def)

lemma initial_system_ok: "unat mx \<le> 2 ^ 30 \<Longrightarrow> sys_ok (initial_system now_tick mx)"
  by (simp add: sys_ok_def initial_system_def initialize_simps initialize_amounts_ok)

theorem limiter_rate_witness:
  "\<exists>s'. wrun (initial_system 7 100) 0 s' \<and> 0 \<le> unat (tokens (cell (initial_system 7 100))) + unat (100 :: u32)
     \<and> tokens (cell s') \<le> 100 \<and> sys_ok s'"
proof -
  have "wrun (initial_system 7 100) 0 (initial_system 7 100)" by (rule wrun_refl)
  with limiter_rate [OF this initial_system_ok] show ?thesis
    by (auto simp: initial_system_def initialize_simps)
qed

text \<open>
  Initialisation spreads the allowance over the 50 periods of a minute: the amounts add up to
  exactly the maximum and no two of them differ by more than one, for every 32-bit maximum.
\<close>

theorem refresh_amounts_spread:
  "length (refresh_amounts (initialize_shared_state now_tick mx st)) = 50
   \<and> sum_list (map unat (refresh_amounts (initialize_shared_state now_tick mx st))) = unat mx
   \<and> (\<forall>a \<in> set (refresh_amounts (initialize_shared_state now_tick mx st)).
        unat a = unat mx div 50 \<or> unat a = unat mx div 50 + 1)"
proof -
  note d = distribute_spec [of mx "st\<lparr>tokens_and_refresh := \<lparr>tokens = mx, last_refresh = now_tick\<rparr>, max_per_min := mx\<rparr>"]
  then show ?thesis
    unfolding initialize_shared_state_def by (metis (no_types, lifting) in_set_conv_nth)
qed

theorem refresh_amounts_spread_witness:
  "list_all (\<lambda>a. unat a = 2 \<or> unat a = 3) (refresh_amounts (initialize_shared_state 0 101 limiter_zero))
   \<and> sum_list (map unat (refresh_amounts (initialize_shared_state 0 101 limiter_zero))) = 101"
  using refresh_amounts_spread [of 0 101 limiter_zero] by (simp add: list_all_iff)

text \<open>
  C35. A worker that runs undisturbed completes \<^verbatim>\<open>allow\<close>, with the result and the final state of the
  sequential function; and that function grants a request exactly when the tokens, topped up
  by the amounts of the periods that passed and capped at the maximum, are not exhausted.
\<close>

theorem allow_undisturbed:
  assumes "sys_ok s" and "sy_pc s w = Idle" and "allow tick (Some (sy_state s)) = (b, Some st')"
  shows "(\<exists>n s'. wrun s n s' \<and> sy_pc s' w = Returned b \<and> sy_state s' = st' \<and> n = (if b then 1 else 0))
     \<and> (last_refresh (cell s) < tick \<longrightarrow> (b \<longleftrightarrow>
          0 < min (unat (max_per_min (sy_state s))) (unat (tokens (cell s))
            + period_sum (refresh_amounts (sy_state s)) (unat (last_refresh (cell s))) (unat tick - unat (last_refresh (cell s))))))"
proof
  define s1 where "s1 = set_pc w (Refreshing tick (cell s)) s"
  have r1: "wrun s 0 s1"
    using wrun_step [OF wrun_refl load [OF assms(2)]] by (simp add: s1_def)
  obtain cur st1 where rf: "refresh tick (sy_state s) = (cur, st1)" by fastforce
  have "\<exists>s2. wrun s 0 s2 \<and> sy_pc s2 w = Taking cur \<and> sy_state s2 = st1 \<and> cell s2 = cur"
  proof (cases "last_refresh (cell s) < tick")
    case True
    with rf have "wstep s1 False (set_pc w (Taking cur) (store cur s1))" "st1 = (sy_state s)\<lparr>tokens_and_refresh := cur\<rparr>"
      using refresh_cas [of s1 w tick "cell s" cur] by (auto simp: s1_def refresh_def Let_def)
    with wrun_step [OF r1] show ?thesis
      by (intro exI [of _ "set_pc w (Taking cur) (store cur s1)"]) (force simp: s1_def store_def set_pc_def)
  next
    case False
    with rf have "wstep s1 False (set_pc w (Taking cur) s1)" "st1 = sy_state s" "cur = cell s"
      using refresh_done [of s1 w tick "cell s"] by (auto simp: s1_def refresh_def Let_def)
    with wrun_step [OF r1] show ?thesis
      by (intro exI [of _ "set_pc w (Taking cur) s1"]) (force simp: s1_def)
  qed
  then obtain s2 where s2: "wrun s 0 s2" "sy_pc s2 w = Taking cur" "sy_state s2 = st1" "cell s2 = cur" by blast
  show "\<exists>n s'. wrun s n s' \<and> sy_pc s' w = Returned b \<and> sy_state s' = st' \<and> n = (if b then 1 else 0)"
  proof (cases "tokens cur = 0")
    case True
    with assms(3) rf have "b = False" "st' = st1" by (auto simp: allow_def)
    with wrun_step [OF s2(1) take_empty [OF s2(2) True]] s2(3) show ?thesis
      by (intro exI [of _ 0] exI [of _ "set_pc w (Returned False) s2"]) simp
  next
    case False
    with assms(3) rf have b: "b" "st' = st1\<lparr>tokens_and_refresh := \<lparr>tokens = tokens cur - 1, last_refresh = last_refresh cur\<rparr>\<rparr>"
      by (auto simp: allow_def)
    let ?s3 = "set_pc w (Returned True) (store \<lparr>tokens = tokens cur - 1, last_refresh = last_refresh cur\<rparr> s2)"
    from wrun_step [OF s2(1) take_cas [OF s2(2) False s2(4)]] b s2(3) show ?thesis
      by (intro exI [of _ "Suc 0"] exI [of _ ?s3]) (simp add: store_def)
  qed
  show "last_refresh (cell s) < tick \<longrightarrow> (b \<longleftrightarrow>
          0 < min (unat (max_per_min (sy_state s))) (unat (tokens (cell s))
            + period_sum (refresh_amounts (sy_state s)) (unat (last_refresh (cell s))) (unat tick - unat (last_refresh (cell s)))))"
  proof
    assume lt: "last_refresh (cell s) < tick"
    then have "b \<longleftrightarrow> tokens (refreshed (sy_state s) tick (cell s)) \<noteq> 0"
      using assms(3) by (auto simp: allow_def refresh_def Let_def split: if_splits)
    also have "\<dots> \<longleftrightarrow> 0 < unat (tokens (refreshed (sy_state s) tick (cell s)))"
      by (metis gr0I not_gr_zero unat_0 unat_eq_zero)
    finally show "b \<longleftrightarrow> 0 < min (unat (max_per_min (sy_state s))) (unat (tokens (cell s))
            + period_sum (refresh_amounts (sy_state s)) (unat (last_refresh (cell s))) (unat tick - unat (last_refresh (cell s))))"
      using refreshed_spec(1) [OF _ _ _ lt] assms(1) by (simp add: sys_ok_def)
  qed
qed

theorem allow_undisturbed_witness:
  "\<exists>n s'. wrun (initial_system 7 100) n s' \<and> sy_pc s' 3 = Returned True \<and> n = 1"
proof -
  have "allow 7 (Some (sy_state (initial_system 7 100)))
      = (True, Some ((sy_state (initial_system 7 100))\<lparr>tokens_and_refresh := \<lparr>tokens = 99, last_refresh = 7\<rparr>\<rparr>))"
    by (simp add: allow_def refresh_def initial_system_def initialize_simps Let_def)
  moreover have "sys_ok (initial_system 7 100)" by (rule initial_system_ok) simp
  moreover have "sy_pc (initial_system 7 100) 3 = Idle" by (simp add: initial_system_def)
  ultimately show ?thesis
    using allow_undisturbed [of "initial_system 7 100" 3 7 True] by fastforce
qed

end
