(* ===== verification/Header_Tags.thy ===== *)
theory Header_Tags
  imports Client_Ip
begin

text \<open>
  The span tags made from headers: \<^verbatim>\<open>src/security/header_tags.cpp\<close>. The calls on the span are recorded
  in order; what they amount to is the map that they leave, a later call replacing an earlier one.
\<close>

datatype span_op = Set_span_tag bytes bytes | Remove_span_tag bytes

definition attack_headers :: "bytes list" where
  "attack_headers =
     [''x-forwarded-for'', ''x-real-ip'', ''true-client-ip'', ''x-client-ip'', ''x-forwarded'', ''forwarded-for'',
      ''x-cluster-client-ip'', ''fastly-client-ip'', ''cf-connecting-ip'', ''cf-connecting-ipv6'', ''forwarded'', ''via'',
      ''content-length'', ''content-encoding'', ''content-language'', ''host'', ''accept-encoding'', ''accept-language'']"

definition appsec_headers :: "bytes list" where
  "appsec_headers =
     [''content-type'', ''user-agent'', ''accept'', ''x-amzn-trace-id'', ''cloudfront-viewer-ja3-fingerprint'', ''cf-ray'',
      ''x-cloud-trace-context'', ''x-appgw-trace-id'', ''x-sigsci-requestid'', ''x-sigsci-tags'', ''akamai-user-risk'']"

definition req_key_equals_ci :: "header_elt \<Rightarrow> bytes \<Rightarrow> bool" where
  "req_key_equals_ci h key \<longleftrightarrow> key = lc_key h"

definition resp_key_equals_ci :: "header_elt \<Rightarrow> bytes \<Rightarrow> bool" where
  "resp_key_equals_ci h key \<longleftrightarrow> length (he_key h) = length key \<and> map tolower (he_key h) = key"

text \<open>The \<^verbatim>\<open>switch\<close> on the hash: the one case with that hash, if there is one.\<close>

definition each_req_header :: "ip_env \<Rightarrow> bool \<Rightarrow> header_elt \<Rightarrow> span_op list" where
  "each_req_header env has_attack h =
     (case find (\<lambda>n. unat (ngx_hash_ce env n) = he_hash h) (attack_headers @ appsec_headers) of
        None \<Rightarrow> []
      | Some n \<Rightarrow>
          if n \<in> set attack_headers then
            (if has_attack \<and> req_key_equals_ci h n then [Set_span_tag (''http.request.headers.'' @ n) (he_value h)] else [])
          else
            (if resp_key_equals_ci h n then [Set_span_tag (''http.request.headers.'' @ n) (he_value h)] else []))"

definition resp_headers :: "bytes list" where
  "resp_headers = [''content-length'', ''content-type'', ''content-encoding'', ''content-language'']"

definition each_resp_header :: "header_elt \<Rightarrow> span_op list" where
  "each_resp_header h =
     (case find (\<lambda>n. length (he_key h) = length n \<and> resp_key_equals_ci h n) resp_headers of
        None \<Rightarrow> []
      | Some n \<Rightarrow>
          if he_hash h \<noteq> 0 then [Set_span_tag (''http.response.headers.'' @ n) (he_value h)]
          else [Remove_span_tag (''http.response.headers.'' @ n)])"

text \<open>
  \<^verbatim>\<open>headers_out.content_type\<close> and \<^verbatim>\<open>content_length_n\<close>, a signed 64-bit number with -1 for an unknown
  length. The number is written into a buffer of nineteen bytes.
\<close>

definition handle_special_resp_headers :: "bytes \<Rightarrow> int \<Rightarrow> span_op list" where
  "handle_special_resp_headers content_type content_length_n =
     (if 0 < length content_type then [Set_span_tag ''http.response.headers.content-type'' content_type] else []) @
     (if content_length_n \<noteq> - 1 \<and> length (decimal_int content_length_n) \<le> 19
      then [Set_span_tag ''http.response.headers.content-length'' (decimal_int content_length_n)] else [])"

definition set_header_tags ::
  "ip_env \<Rightarrow> bool \<Rightarrow> header_elt ngx_list \<Rightarrow> header_elt ngx_list \<Rightarrow> bytes \<Rightarrow> int \<Rightarrow> span_op list option" where
  "set_header_tags env has_attack headers_in headers_out content_type content_length_n =
     ngx_collect headers_in ngx_begin \<bind> (\<lambda>ins.
     ngx_collect headers_out ngx_begin \<bind> (\<lambda>outs.
       Some (concat (map (each_req_header env has_attack) ins) @ concat (map each_resp_header outs) @
             handle_special_resp_headers content_type content_length_n)))"

section \<open>The tags that are left\<close>

fun span_step :: "span_op \<Rightarrow> (bytes \<rightharpoonup> bytes) \<Rightarrow> (bytes \<rightharpoonup> bytes)" where
  "span_step (Set_span_tag t v) m = m(t \<mapsto> v)"
| "span_step (Remove_span_tag t) m = m(t := None)"

definition span_tags :: "span_op list \<Rightarrow> (bytes \<rightharpoonup> bytes) \<Rightarrow> (bytes \<rightharpoonup> bytes)" where
  "span_tags ops m = fold span_step ops m"

lemma span_tags_append [simp]: "span_tags (xs @ ys) m = span_tags ys (span_tags xs m)"
  by (simp add: span_tags_def)

lemma span_tags_Nil [simp]: "span_tags [] m = m"
  by (simp add: span_tags_def)

text \<open>The last header that speaks of a tag decides.\<close>

lemma last_header_decides:
  assumes "\<And>h m. h \<in> set hs \<Longrightarrow> span_tags (f h) m t = (if Q h then val h else m t)"
  shows "span_tags (concat (map f hs)) m t = (case find Q (rev hs) of Some h \<Rightarrow> val h | None \<Rightarrow> m t)"
  using assms
proof (induction hs rule: rev_induct)
  case (snoc h hs)
  then show ?case by simp
qed simp

lemma silent_headers:
  assumes "\<And>h m. span_tags (f h) m t = m t"
  shows "span_tags (concat (map f hs)) m t = m t"
  using assms by (induction hs rule: rev_induct) simp_all

text \<open>A header as nginx's request parser leaves it.\<close>

definition req_indexed :: "ip_env \<Rightarrow> header_elt \<Rightarrow> bool" where
  "req_indexed env h \<longleftrightarrow> he_lowcase_key h = map tolower (he_key h) \<and> he_hash h = unat (ngx_hash_ce env (he_lowcase_key h))"

lemma find_inj:
  assumes "inj_on f (set xs)" and "x \<in> set xs"
  shows "find (\<lambda>y. f y = f x) xs = Some x"
  using assms
proof (induction xs)
  case (Cons y xs)
  then show ?case by (cases "f y = f x") (auto dest: inj_onD)
qed simp

lemma attack_appsec_disjoint: "set attack_headers \<inter> set appsec_headers = {}"
  by (simp add: attack_headers_def appsec_headers_def)

lemma req_header_tag:
  assumes "req_indexed env h" and inj: "inj_on (ngx_hash_ce env) (set (attack_headers @ appsec_headers))"
    and n: "n \<in> set (attack_headers @ appsec_headers)"
  shows "span_tags (each_req_header env has_attack h) m (''http.request.headers.'' @ n) =
    (if map tolower (he_key h) = n \<and> (n \<in> set appsec_headers \<or> has_attack) then Some (he_value h)
     else m (''http.request.headers.'' @ n))"
proof -
  let ?names = "attack_headers @ appsec_headers" and ?lk = "map tolower (he_key h)"
  from assms(1) have h: "he_hash h = unat (ngx_hash_ce env ?lk)" "lc_key h = ?lk" by (simp_all add: req_indexed_def lc_key_def)
  have eq: "each_req_header env has_attack h =
    (if ?lk \<in> set ?names \<and> (?lk \<in> set appsec_headers \<or> has_attack) then [Set_span_tag (''http.request.headers.'' @ ?lk) (he_value h)] else [])"
  proof (cases "?lk \<in> set ?names")
    case True
    then have "find (\<lambda>n. unat (ngx_hash_ce env n) = he_hash h) ?names = Some ?lk"
      unfolding h(1) word_unat_eq_iff [symmetric] by (rule find_inj [OF inj])
    with True attack_appsec_disjoint show ?thesis
      by (auto simp: each_req_header_def req_key_equals_ci_def resp_key_equals_ci_def h(2))
  next
    case False
    have "each_req_header env has_attack h = []"
    proof (cases "find (\<lambda>n. unat (ngx_hash_ce env n) = he_hash h) ?names")
      case (Some n')
      then have "n' \<in> set ?names" unfolding find_Some_iff by (metis nth_mem)
      with False have "n' \<noteq> ?lk" by blast
      with Some show ?thesis by (auto simp: each_req_header_def req_key_equals_ci_def resp_key_equals_ci_def h(2))
    qed (simp add: each_req_header_def)
    with False show ?thesis by simp
  qed
  show ?thesis unfolding eq using n by (auto simp: span_tags_def)
qed

lemma req_header_other:
  assumes "\<And>n. t \<noteq> ''http.request.headers.'' @ n"
  shows "span_tags (each_req_header env has_attack h) m t = m t"
  using assms by (auto simp: each_req_header_def span_tags_def split: option.split)

lemma resp_header_tag:
  assumes "n \<in> set resp_headers"
  shows "span_tags (each_resp_header h) m (''http.response.headers.'' @ n) =
    (if map tolower (he_key h) = n then (if he_hash h \<noteq> 0 then Some (he_value h) else None) else m (''http.response.headers.'' @ n))"
proof -
  have "(\<lambda>n. length (he_key h) = length n \<and> resp_key_equals_ci h n) = (\<lambda>n. n = map tolower (he_key h))"
    by (auto simp: resp_key_equals_ci_def fun_eq_iff)
  then have f: "find (\<lambda>n. length (he_key h) = length n \<and> resp_key_equals_ci h n) resp_headers =
    (if map tolower (he_key h) \<in> set resp_headers then Some (map tolower (he_key h)) else None)"
    using find_inj [of id resp_headers "map tolower (he_key h)"] by (auto simp: find_None_iff)
  show ?thesis unfolding each_resp_header_def f using assms by (auto simp: span_tags_def)
qed

lemma resp_header_other:
  assumes "\<And>n. t \<noteq> ''http.response.headers.'' @ n"
  shows "span_tags (each_resp_header h) m t = m t"
  using assms by (auto simp: each_resp_header_def span_tags_def split: option.split)

lemma special_tags:
  assumes "- 1 \<le> cl" and "cl < 2 ^ 63"
  shows "span_tags (handle_special_resp_headers ct cl) m t =
    (if t = ''http.response.headers.content-type'' \<and> ct \<noteq> [] then Some ct
     else if t = ''http.response.headers.content-length'' \<and> cl \<noteq> - 1 then Some (decimal (nat cl)) else m t)"
proof -
  have "length (decimal_int cl) \<le> 19" if "cl \<noteq> - 1"
  proof -
    have "nat cl < 10 ^ 19" using assms(2) by simp
    with assms(1) that show ?thesis using decimal_length [of "nat cl" 19] by (simp add: decimal_int_def)
  qed
  with assms(1) show ?thesis by (auto simp: handle_special_resp_headers_def span_tags_def decimal_int_def)
qed


definition plain_tag_env :: ip_env where
  "plain_tag_env = localhost_env\<lparr>ngx_hash := (\<lambda>k c. k * 31 + of_nat (ord c))\<rparr>"

definition tag_header :: "bytes \<Rightarrow> bytes \<Rightarrow> header_elt" where
  "tag_header k v = \<lparr>he_key = k, he_lowcase_key = map tolower k, he_value = v, he_hash = unat (ngx_hash_ce plain_tag_env (map tolower k))\<rparr>"

lemma plain_hash_inj: "inj_on (ngx_hash_ce plain_tag_env) (set (attack_headers @ appsec_headers))"
proof -
  have "distinct (map (ngx_hash_ce plain_tag_env) (attack_headers @ appsec_headers))" by code_simp
  then show ?thesis unfolding distinct_map by (rule conjunct2)
qed


end
