(* ===== verification/Metrics.thy ===== *)
theory Metrics
  imports Prelude "HOL-Library.Monad_Syntax"
begin

text \<open>
  The statistics of the module: \<^verbatim>\<open>src/security/stats.cpp\<close> and \<^verbatim>\<open>stats.h\<close>. The counters, the text of a
  metric in its static buffer, one round of the reporting thread and its loop, and starting and
  stopping the thread. Sockets and \<^verbatim>\<open>mallinfo2\<close> are the environment: a datagram is the bytes handed
  to \<^verbatim>\<open>sendto\<close>, whose result the code only logs.
\<close>

section \<open>The text of a metric\<close>

text \<open>The size of the static buffer, \<^verbatim>\<open>max_payload_len\<close>.\<close>

definition max_payload_len :: nat where
  "max_payload_len = length ''appsec.tasks_submission_failed:18446744073709551615|c|#pid:65535''"

text \<open>Bytes written from a position on; \<^const>\<open>None\<close> is a write outside the buffer.\<close>

definition put :: "nat \<Rightarrow> bytes \<Rightarrow> bytes \<Rightarrow> bytes option" where
  "put it bs buf = (if it + length bs \<le> length buf then Some (take it buf @ bs @ drop (it + length bs) buf) else None)"

text \<open>
  The new contents of the buffer and the view returned. The failed assertions return the empty
  view, as they do when assertions are compiled out. \<^verbatim>\<open>to_chars\<close> is given twenty places; that the text
  fits is one of the things shown.
\<close>

definition prepare_metric :: "bytes \<Rightarrow> bytes \<Rightarrow> char \<Rightarrow> 64 word \<Rightarrow> bytes \<Rightarrow> (bytes \<times> bytes) option" where
  "prepare_metric metric pid type val buf =
     (let lim = length buf; it = 0 in
      if lim \<le> it + length metric then Some (buf, [])
      else put it metric buf \<bind> (\<lambda>buf. let it = it + length metric in
      if lim \<le> it then Some (buf, [])
      else put it '':'' buf \<bind> (\<lambda>buf. let it = it + 1; s = decimal (unat val) in
      if lim \<le> it + length ''18446744073709551615'' then Some (buf, [])
      else (if length s \<le> length ''18446744073709551615'' then put it s buf else None) \<bind> (\<lambda>buf. let it = it + length s in
      if lim \<le> it + 2 then Some (buf, [])
      else put it [CHR ''|'', type] buf \<bind> (\<lambda>buf. let it = it + 2 in
      if lim \<le> it + length ''|#pid:'' + length pid then Some (buf, [])
      else put it ''|#pid:'' buf \<bind> (\<lambda>buf. let it = it + 6 in
           put it pid buf \<bind> (\<lambda>buf. Some (buf, take (it + length pid) buf))))))))"

section \<open>The reporting thread\<close>

record counters =
  contexts_started :: "64 word"
  contexts_closed :: "64 word"
  tasks_created :: "64 word"
  tasks_submitted :: "64 word"
  tasks_submission_failed :: "64 word"
  tasks_completed :: "64 word"
  tasks_destructed :: "64 word"

record mallinfo =
  mi_arena :: "64 word"
  mi_uordblks :: "64 word"
  mi_fordblks :: "64 word"
  mi_hblkhd :: "64 word"

record sender =
  sn_pid :: bytes
  sn_buf :: bytes
  sn_sent :: "bytes list"

definition send_metric :: "bytes \<Rightarrow> char \<Rightarrow> 64 word \<Rightarrow> sender \<Rightarrow> sender option" where
  "send_metric name type val sn =
     map_option (\<lambda>(buf, data). sn\<lparr>sn_buf := buf, sn_sent := sn_sent sn @ [data]\<rparr>)
       (prepare_metric name (sn_pid sn) type val (sn_buf sn))"

text \<open>\<^const>\<open>None\<close> for the memory figures is a C library without \<^verbatim>\<open>mallinfo2\<close>.\<close>

definition report_memory_stats :: "mallinfo option \<Rightarrow> sender \<Rightarrow> sender option" where
  "report_memory_stats info sn =
     (case info of
        None \<Rightarrow> Some sn
      | Some mi \<Rightarrow>
          send_metric ''memory.arena'' CHR ''g'' (mi_arena mi) sn
          \<bind> send_metric ''memory.uordblks'' CHR ''g'' (mi_uordblks mi)
          \<bind> send_metric ''memory.fordblks'' CHR ''g'' (mi_fordblks mi)
          \<bind> send_metric ''memory.hblkhd'' CHR ''g'' (mi_hblkhd mi))"

text \<open>The body of the loop up to the wait.\<close>

definition report_round :: "counters \<Rightarrow> mallinfo option \<Rightarrow> sender \<Rightarrow> sender option" where
  "report_round c info sn =
     send_metric ''appsec.contexts_started'' CHR ''c'' (contexts_started c) sn
     \<bind> send_metric ''appsec.contexts_closed'' CHR ''c'' (contexts_closed c)
     \<bind> send_metric ''appsec.tasks_created'' CHR ''c'' (tasks_created c)
     \<bind> send_metric ''appsec.tasks_submitted'' CHR ''c'' (tasks_submitted c)
     \<bind> send_metric ''appsec.tasks_completed'' CHR ''c'' (tasks_completed c)
     \<bind> send_metric ''appsec.tasks_submission_failed'' CHR ''c'' (tasks_submission_failed c)
     \<bind> send_metric ''appsec.tasks_destructed'' CHR ''c'' (tasks_destructed c)
     \<bind> report_memory_stats info"

text \<open>
  The loop, over what each iteration loads and whether \<^verbatim>\<open>stop_flag_\<close> is set after its wait. The
  second component says whether the loop has ended.
\<close>

fun reporting_loop :: "(counters \<times> mallinfo option \<times> bool) list \<Rightarrow> sender \<Rightarrow> (sender \<times> bool) option" where
  "reporting_loop [] sn = Some (sn, False)"
| "reporting_loop ((c, info, stop) # its) sn =
     (case report_round c info sn of
        None \<Rightarrow> None
      | Some sn' \<Rightarrow> if stop then Some (sn', True) else reporting_loop its sn')"

section \<open>Starting, stopping, counting\<close>

record stats_state =
  st_joinable :: bool
  st_stop_flag :: bool
  st_counters :: counters

text \<open>\<open>created\<close> is whether \<^verbatim>\<open>MetricSender::create\<close> gives a sender.\<close>

definition do_start :: "bool \<Rightarrow> stats_state \<Rightarrow> bool \<times> stats_state" where
  "do_start created st =
     (if st_joinable st then (False, st)
      else if \<not> created then (False, st)
      else (True, st\<lparr>st_joinable := True\<rparr>))"

definition do_stop :: "stats_state \<Rightarrow> bool \<times> stats_state" where
  "do_stop st =
     (if \<not> st_joinable st then (False, st)
      else (True, st\<lparr>st_stop_flag := True, st_joinable := False\<rparr>))"

datatype count_event = Context_started | Context_closed | Task_created | Task_submitted | Task_submission_failed | Task_completed | Task_destructed

fun count_one :: "count_event \<Rightarrow> counters \<Rightarrow> counters" where
  "count_one Context_started c = c\<lparr>contexts_started := contexts_started c + 1\<rparr>"
| "count_one Context_closed c = c\<lparr>contexts_closed := contexts_closed c + 1\<rparr>"
| "count_one Task_created c = c\<lparr>tasks_created := tasks_created c + 1\<rparr>"
| "count_one Task_submitted c = c\<lparr>tasks_submitted := tasks_submitted c + 1\<rparr>"
| "count_one Task_submission_failed c = c\<lparr>tasks_submission_failed := tasks_submission_failed c + 1\<rparr>"
| "count_one Task_completed c = c\<lparr>tasks_completed := tasks_completed c + 1\<rparr>"
| "count_one Task_destructed c = c\<lparr>tasks_destructed := tasks_destructed c + 1\<rparr>"

section \<open>Properties\<close>

definition metric_text :: "bytes \<Rightarrow> bytes \<Rightarrow> char \<Rightarrow> 64 word \<Rightarrow> bytes" where
  "metric_text metric pid type val = metric @ '':'' @ decimal (unat val) @ [CHR ''|'', type] @ ''|#pid:'' @ pid"

lemma put_next:
  assumes "take it buf = pre" and "length pre = it" and "it + length bs \<le> length buf"
  shows "\<exists>buf'. put it bs buf = Some buf' \<and> length buf' = length buf \<and> take (it + length bs) buf' = pre @ bs"
  using assms by (auto simp: put_def)

lemma decimal_word: "length (decimal (unat (v :: 64 word))) \<le> 20"
proof (rule decimal_length)
  have "unat v < 2 ^ 64" using unsigned_less [of v] by simp
  then show "unat v < 10 ^ 20" by simp
qed simp

lemma max_payload_len_64: "max_payload_len = 64"
  by (simp add: max_payload_len_def)

text \<open>The part of \<^const>\<open>prepare_metric\<close> behind the value, from a position on.\<close>

definition metric_tail :: "bytes \<Rightarrow> char \<Rightarrow> nat \<Rightarrow> bytes \<Rightarrow> (bytes \<times> bytes) option" where
  "metric_tail pid type it buf =
     (if length buf \<le> it + 2 then Some (buf, [])
      else put it [CHR ''|'', type] buf \<bind> (\<lambda>buf. let it = it + 2 in
      if length buf \<le> it + 6 + length pid then Some (buf, [])
      else put it ''|#pid:'' buf \<bind> (\<lambda>buf. let it = it + 6 in
           put it pid buf \<bind> (\<lambda>buf. Some (buf, take (it + length pid) buf)))))"

lemma metric_tail_text:
  assumes "take it buf = pre" and "length pre = it"
  shows "\<exists>buf'. length buf' = length buf \<and> metric_tail pid type it buf =
    Some (buf', if it + 8 + length pid < length buf then pre @ [CHR ''|'', type] @ ''|#pid:'' @ pid else [])"
proof (cases "length buf \<le> it + 2")
  case False
  obtain b1 where b1: "put it [CHR ''|'', type] buf = Some b1" "length b1 = length buf" "take (it + 2) b1 = pre @ [CHR ''|'', type]"
    using put_next [OF assms, of "[CHR ''|'', type]"] False by auto
  show ?thesis
  proof (cases "length buf \<le> it + 8 + length pid")
    case True
    with False b1 show ?thesis by (simp add: metric_tail_def Let_def)
  next
    case G: False
    obtain b2 where b2: "put (it + 2) ''|#pid:'' b1 = Some b2" "length b2 = length buf"
      "take (it + 2 + length ''|#pid:'') b2 = (pre @ [CHR ''|'', type]) @ ''|#pid:''"
      using put_next [OF b1(3), of "''|#pid:''"] G b1(2) assms(2) by auto
    obtain b3 where b3: "put (it + 2 + length ''|#pid:'') pid b2 = Some b3" "length b3 = length buf"
      "take (it + 2 + length ''|#pid:'' + length pid) b3 = ((pre @ [CHR ''|'', type]) @ ''|#pid:'') @ pid"
      using put_next [OF b2(3), of pid] G b2(2) assms(2) by auto
    from False G b1(1,2) b2(1) b3 show ?thesis by (simp add: metric_tail_def Let_def eval_nat_numeral)
  qed
qed (simp add: metric_tail_def)

text \<open>The text of a metric is written whole or not at all, and inside the buffer.\<close>

lemma prepare_metric_text:
  assumes "length buf = max_payload_len"
  shows "\<exists>buf'. length buf' = max_payload_len \<and>
    prepare_metric metric pid type val buf =
      Some (buf', if length metric + 21 < 64 \<and> length (metric_text metric pid type val) < 64
        then metric_text metric pid type val else [])"
proof (cases "length metric + 21 < 64")
  case True
  let ?d = "decimal (unat val)" and ?m = "length metric"
  note len = assms [unfolded max_payload_len_64]
  have d: "length ?d \<le> 20" by (rule decimal_word)
  obtain b1 where b1: "put 0 metric buf = Some b1" "length b1 = 64" "take ?m b1 = metric"
    using put_next [of 0 buf "[]" metric] True len by auto
  obtain b2 where b2: "put ?m '':'' b1 = Some b2" "length b2 = 64" "take (?m + 1) b2 = metric @ '':''"
    using put_next [OF b1(3), of "'':''"] True b1(2) by auto
  obtain b3 where b3: "put (?m + 1) ?d b2 = Some b3" "length b3 = 64" "take (?m + 1 + length ?d) b3 = (metric @ '':'') @ ?d"
    using put_next [OF b2(3), of ?d] True b2(2) d by auto
  have put_len: "put i bs b = Some b' \<Longrightarrow> length b' = length b" for i bs b b' by (auto simp: put_def split: if_splits)
  have "prepare_metric metric pid type val buf = metric_tail pid type (?m + 1 + length ?d) b3"
    using True d len b1(1) b2(1) b3(1,2)
    by (auto simp: prepare_metric_def metric_tail_def Let_def put_len split: bind_splits)
  moreover obtain b4 where "length b4 = 64" "metric_tail pid type (?m + 1 + length ?d) b3 =
      Some (b4, if ?m + 1 + length ?d + 8 + length pid < 64 then ((metric @ '':'') @ ?d) @ [CHR ''|'', type] @ ''|#pid:'' @ pid else [])"
    using metric_tail_text [OF b3(3), of pid type] b3(2) by auto
  ultimately show ?thesis using True by (intro exI [of _ b4]) (simp add: max_payload_len_64 metric_text_def)
qed (use assms in \<open>auto simp: prepare_metric_def put_def Let_def max_payload_len_64\<close>)

text \<open>The metrics of one round, and the datagram for each.\<close>

definition round_metrics :: "counters \<Rightarrow> mallinfo option \<Rightarrow> (bytes \<times> char \<times> 64 word) list" where
  "round_metrics c info =
     [(''appsec.contexts_started'', CHR ''c'', contexts_started c), (''appsec.contexts_closed'', CHR ''c'', contexts_closed c),
      (''appsec.tasks_created'', CHR ''c'', tasks_created c), (''appsec.tasks_submitted'', CHR ''c'', tasks_submitted c),
      (''appsec.tasks_completed'', CHR ''c'', tasks_completed c),
      (''appsec.tasks_submission_failed'', CHR ''c'', tasks_submission_failed c),
      (''appsec.tasks_destructed'', CHR ''c'', tasks_destructed c)] @
     (case info of None \<Rightarrow> [] | Some mi \<Rightarrow>
       [(''memory.arena'', CHR ''g'', mi_arena mi), (''memory.uordblks'', CHR ''g'', mi_uordblks mi),
        (''memory.fordblks'', CHR ''g'', mi_fordblks mi), (''memory.hblkhd'', CHR ''g'', mi_hblkhd mi)])"

definition datagram :: "bytes \<Rightarrow> bytes \<times> char \<times> 64 word \<Rightarrow> bytes" where
  "datagram pid x = (case x of (name, type, val) \<Rightarrow>
     let t = metric_text name pid type val in if length t < 64 then t else [])"

fun send_all :: "(bytes \<times> char \<times> 64 word) list \<Rightarrow> sender \<Rightarrow> sender option" where
  "send_all [] sn = Some sn"
| "send_all ((name, type, val) # xs) sn = send_metric name type val sn \<bind> send_all xs"

lemma send_all_fun:
  "send_all [] = Some" "send_all ((name, type, val) # xs) = (\<lambda>sn. send_metric name type val sn \<bind> send_all xs)"
  by (simp_all add: fun_eq_iff)

lemma report_memory_fun:
  "report_memory_stats None = Some"
  "report_memory_stats (Some mi) = (\<lambda>sn. send_metric ''memory.arena'' CHR ''g'' (mi_arena mi) sn
     \<bind> send_metric ''memory.uordblks'' CHR ''g'' (mi_uordblks mi) \<bind> send_metric ''memory.fordblks'' CHR ''g'' (mi_fordblks mi)
     \<bind> send_metric ''memory.hblkhd'' CHR ''g'' (mi_hblkhd mi))"
  by (simp_all add: report_memory_stats_def fun_eq_iff)

lemma report_round_send_all: "report_round c info sn = send_all (round_metrics c info) sn"
  by (cases info)
    (simp_all add: report_round_def round_metrics_def report_memory_fun send_all_fun Option.bind_assoc Option.bind_runit
      del: send_all.simps)

lemma send_all_datagrams:
  assumes "list_all (\<lambda>(name, _). length name \<le> 30) xs" and "length (sn_buf sn) = max_payload_len"
  shows "\<exists>sn'. send_all xs sn = Some sn' \<and> length (sn_buf sn') = max_payload_len \<and> sn_pid sn' = sn_pid sn
    \<and> sn_sent sn' = sn_sent sn @ map (datagram (sn_pid sn)) xs"
  using assms
proof (induction xs arbitrary: sn)
  case (Cons x xs)
  obtain name type val where x: "x = (name, type, val)" by (cases x)
  obtain b where b: "length b = max_payload_len" "prepare_metric name (sn_pid sn) type val (sn_buf sn) = Some (b, datagram (sn_pid sn) x)"
    using prepare_metric_text [OF Cons.prems(2), of name "sn_pid sn" type val] Cons.prems(1) x
    by (auto simp: datagram_def Let_def)
  let ?sn = "sn\<lparr>sn_buf := b, sn_sent := sn_sent sn @ [datagram (sn_pid sn) x]\<rparr>"
  from Cons.IH [of ?sn] Cons.prems(1) b x show ?case by (auto simp: send_metric_def)
qed simp

lemma round_names: "list_all (\<lambda>(name, _). length name \<le> 30) (round_metrics c info)"
  by (simp add: round_metrics_def split: option.split)

fun until_stop :: "('a \<times> 'b \<times> bool) list \<Rightarrow> ('a \<times> 'b) list" where
  "until_stop [] = []"
| "until_stop ((c, info, stop) # its) = (c, info) # (if stop then [] else until_stop its)"

text \<open>
  C40. The reporting thread sends, for every iteration up to the one that sees the stop flag, the
  datagrams of the seven counters and of the memory figures when there are any, in order, never
  writing outside its buffer. A datagram is the whole text of the metric when that text is shorter than
  sixty-four bytes, and empty otherwise, with the assertions compiled out; the text is short enough for
  values below ten to the seventeen and a process id of at most seven digits, and not for the metric that the buffer
  was dimensioned for (\<open>maximal_metric_dropped\<close>). The loop ends exactly when an iteration sees the flag.
\<close>

theorem metrics_reported:
  assumes "length (sn_buf sn) = max_payload_len"
  shows "(\<exists>sn'. reporting_loop its sn = Some (sn', list_ex (\<lambda>(c, info, stop). stop) its)
      \<and> sn_sent sn' = sn_sent sn @ concat (map (\<lambda>(c, info). map (datagram (sn_pid sn)) (round_metrics c info)) (until_stop its)))
    \<and> (\<forall>c info name type val. (name, type, val) \<in> set (round_metrics c info) \<longrightarrow>
         (let t = name @ '':'' @ decimal (unat val) @ [CHR ''|'', type] @ ''|#pid:'' @ sn_pid sn
          in datagram (sn_pid sn) (name, type, val) = (if length t < 64 then t else [])
           \<and> (unat val < 10 ^ 17 \<and> length (sn_pid sn) \<le> 7 \<longrightarrow> length t < 64)))"
proof
  show "\<exists>sn'. reporting_loop its sn = Some (sn', list_ex (\<lambda>(c, info, stop). stop) its)
      \<and> sn_sent sn' = sn_sent sn @ concat (map (\<lambda>(c, info). map (datagram (sn_pid sn)) (round_metrics c info)) (until_stop its))"
    using assms
  proof (induction its arbitrary: sn)
    case (Cons it its)
    obtain c info stop where it: "it = (c, info, stop)" by (cases it)
    obtain sn1 where sn1: "report_round c info sn = Some sn1" "length (sn_buf sn1) = max_payload_len" "sn_pid sn1 = sn_pid sn"
      "sn_sent sn1 = sn_sent sn @ map (datagram (sn_pid sn)) (round_metrics c info)"
      using send_all_datagrams [OF round_names Cons.prems, of c info] by (auto simp: report_round_send_all)
    from Cons.IH [OF sn1(2)] sn1 it show ?case by auto
  qed simp
  show "\<forall>c info name type val. (name, type, val) \<in> set (round_metrics c info) \<longrightarrow>
         (let t = name @ '':'' @ decimal (unat val) @ [CHR ''|'', type] @ ''|#pid:'' @ sn_pid sn
          in datagram (sn_pid sn) (name, type, val) = (if length t < 64 then t else [])
           \<and> (unat val < 10 ^ 17 \<and> length (sn_pid sn) \<le> 7 \<longrightarrow> length t < 64))"
  proof (intro allI impI)
    fix c info name type val
    assume "(name, type, val) \<in> set (round_metrics c info)"
    then have "length name \<le> 30" using round_names [of c info] by (auto simp: list_all_iff)
    with decimal_length [of "unat val" 17] show "let t = name @ '':'' @ decimal (unat val) @ [CHR ''|'', type] @ ''|#pid:'' @ sn_pid sn
          in datagram (sn_pid sn) (name, type, val) = (if length t < 64 then t else [])
           \<and> (unat val < 10 ^ 17 \<and> length (sn_pid sn) \<le> 7 \<longrightarrow> length t < 64)"
      by (auto simp: datagram_def metric_text_def Let_def)
  qed
qed

definition no_events :: counters where
  "no_events = \<lparr>contexts_started = 0, contexts_closed = 0, tasks_created = 0, tasks_submitted = 0, tasks_submission_failed = 0,
     tasks_completed = 0, tasks_destructed = 0\<rparr>"

theorem metrics_reported_witness:
  "\<exists>sn'. reporting_loop [(no_events, None, False), (count_one Context_started no_events, None, True)]
        \<lparr>sn_pid = ''42'', sn_buf = replicate 64 NUL, sn_sent = []\<rparr> = Some (sn', True)
     \<and> take 1 (drop 7 (sn_sent sn')) = [''appsec.contexts_started:1|c|#pid:42''] \<and> length (sn_sent sn') = 14"
proof -
  let ?its = "[(no_events, None :: mallinfo option, False), (count_one Context_started no_events, None, True)]"
  let ?sn = "\<lparr>sn_pid = ''42'', sn_buf = replicate 64 NUL, sn_sent = []\<rparr>"
  have "length (sn_buf ?sn) = max_payload_len" by (simp add: max_payload_len_64)
  from metrics_reported [OF this, of ?its] obtain sn' where "reporting_loop ?its ?sn = Some (sn', list_ex (\<lambda>(c, info, stop). stop) ?its)"
    "sn_sent sn' = sn_sent ?sn @ concat (map (\<lambda>(c, info). map (datagram (sn_pid ?sn)) (round_metrics c info)) (until_stop ?its))"
    by blast
  moreover have "datagram ''42'' (''appsec.contexts_started'', CHR ''c'', 1) = ''appsec.contexts_started:1|c|#pid:42''"
    by (simp add: datagram_def metric_text_def decimal.simps char_of_def bit_Suc_0_iff)
  ultimately show ?thesis by (simp add: round_metrics_def no_events_def)
qed

text \<open>
  The metric that the buffer is dimensioned for is the first that does not fit: the tests compare
  with \<^verbatim>\<open>>=\<close> where one byte would still be free, and the empty text is sent.
\<close>

lemma maximal_metric_dropped:
  assumes "length buf = max_payload_len"
  shows "\<exists>buf'. prepare_metric ''appsec.tasks_submission_failed'' ''65535'' CHR ''c'' (- 1) buf = Some (buf', [])
    \<and> length (metric_text ''appsec.tasks_submission_failed'' ''65535'' CHR ''c'' (- 1)) = max_payload_len"
proof -
  have m: "unat (- 1 :: 64 word) = 18446744073709551615" by (simp add: unsigned_minus_1_eq_mask mask_eq_exp_minus_1)
  have "length (decimal (unat (- 1 :: 64 word))) = 20"
    using decimal_word [of "- 1"] decimal_length_ge [of 19 "unat (- 1 :: 64 word)"] by (simp add: m)
  then have l: "length (metric_text ''appsec.tasks_submission_failed'' ''65535'' CHR ''c'' (- 1)) = 64" by (simp add: metric_text_def)
  from prepare_metric_text [OF assms, of "''appsec.tasks_submission_failed''" "''65535''" "CHR ''c''" "- 1"] l show ?thesis
    by (auto simp: max_payload_len_64)
qed

text \<open>The flag that ends the loop is never reset: a thread started again ends after one round.\<close>

lemma restart_ends_at_once:
  assumes "st_joinable st"
  shows "st_stop_flag (snd (do_start True (snd (do_stop st)))) \<and> fst (do_start True (snd (do_stop st)))"
  using assms by (simp add: do_start_def do_stop_def)

end
