(* ===== verification/Ngx_Headers.thy ===== *)
theory Ngx_Headers
  imports Ngx_List
begin

text \<open>
  Searching, adding and removing headers: \<^verbatim>\<open>src/common/headers.cpp\<close>. Unlike the iterator of
  \<open>Ngx_List\<close> these functions walk over the parts of the list by hand, and one of them changes the
  list, so that a part is modelled as its storage together with \<^verbatim>\<open>nelts\<close>.
\<close>

record ngx_part =
  pt_elts :: "header_elt list"
  pt_nelts :: nat

text \<open>
  nginx's \<^verbatim>\<open>ngx_strncasecmp\<close> (whether it gives zero), \<^verbatim>\<open>ngx_hash_key\<close> and \<^verbatim>\<open>ngx_list_push\<close>, which returns
  a null pointer when it cannot allocate.
\<close>

record hdr_env =
  hd_same_ci :: "bytes \<Rightarrow> bytes \<Rightarrow> bool"
  hd_hash :: "bytes \<Rightarrow> nat"
  hd_push :: "ngx_part list \<Rightarrow> header_elt \<Rightarrow> ngx_part list option"

section \<open>Walking over the parts\<close>

text \<open>
  The loop that \<^verbatim>\<open>search_header\<close> and \<^verbatim>\<open>remove_header\<close> share: the first element that satisfies \<open>P\<close>, by
  the number of its part and its index. On entry to the next part \<^verbatim>\<open>nelts\<close> is not looked at.
  \<^const>\<open>None\<close> is a read outside the storage of a part.
\<close>

function walk :: "(header_elt \<Rightarrow> bool) \<Rightarrow> ngx_part \<Rightarrow> ngx_part list \<Rightarrow> nat \<Rightarrow> nat \<Rightarrow> (nat \<times> nat) option option" where
  "walk P p ps k i =
     (if pt_nelts p \<le> i then
        (case ps of
           [] \<Rightarrow> Some None
         | q # qs \<Rightarrow>
             if pt_elts q = [] then None
             else if P (pt_elts q ! 0) then Some (Some (Suc k, 0))
             else walk P q qs (Suc k) 1)
      else if length (pt_elts p) \<le> i then None
      else if P (pt_elts p ! i) then Some (Some (k, i))
      else walk P p ps k (Suc i))"
  by pat_completeness auto
termination
  by (relation "inv_image (less_than <*lex*> less_than) (\<lambda>(P, p, ps, k, i). (length ps, pt_nelts p - i))") auto

declare walk.simps [simp del]

definition walk_list :: "(header_elt \<Rightarrow> bool) \<Rightarrow> ngx_part list \<Rightarrow> (nat \<times> nat) option option" where
  "walk_list P ps = (case ps of [] \<Rightarrow> None | p # qs \<Rightarrow> walk P p qs 0 0)"

definition search_header :: "hdr_env \<Rightarrow> ngx_part list \<Rightarrow> bytes \<Rightarrow> header_elt option option" where
  "search_header env ps key =
     map_option (map_option (\<lambda>(k, i). pt_elts (ps ! k) ! i))
       (walk_list (\<lambda>e. length key = length (he_key e) \<and> hd_same_ci env key (he_key e)) ps)"

text \<open>\<open>has_last\<close> is whether \<^verbatim>\<open>headers.last\<close> is set.\<close>

definition add_header :: "hdr_env \<Rightarrow> bool \<Rightarrow> ngx_part list \<Rightarrow> bytes \<Rightarrow> bytes \<Rightarrow> ngx_part list option" where
  "add_header env has_last ps key value =
     (if \<not> has_last then None
      else let k = map tolower key
           in hd_push env ps \<lparr>he_key = k, he_lowcase_key = k, he_value = value, he_hash = hd_hash env k\<rparr>)"

text \<open>The removal of one element: \<^verbatim>\<open>memmove\<close> of the live elements behind it.\<close>

definition remove_at :: "nat \<Rightarrow> ngx_part \<Rightarrow> ngx_part" where
  "remove_at i p =
     (let n = pt_nelts p - 1
      in \<lparr>pt_elts = (if i < n then take i (pt_elts p) @ take (n - i) (drop (Suc i) (pt_elts p)) @ drop n (pt_elts p) else pt_elts p),
          pt_nelts = n\<rparr>)"

definition remove_header :: "hdr_env \<Rightarrow> ngx_part list \<Rightarrow> bytes \<Rightarrow> (bool \<times> ngx_part list) option" where
  "remove_header env ps key =
     (let key_lc = map tolower key;
          key_hash = hd_hash env key_lc
      in map_option (\<lambda>r. case r of None \<Rightarrow> (False, ps) | Some (k, i) \<Rightarrow> (True, ps[k := remove_at i (ps ! k)]))
           (walk_list (\<lambda>e. he_hash e = key_hash \<and> length key = length (he_key e) \<and> key_lc = take (length key) (he_lowcase_key e)) ps))"

section \<open>The dictionary that the tracer writes and reads\<close>

text \<open>\<^verbatim>\<open>NgxHeaderWriter::set\<close> and \<^verbatim>\<open>erase\<close>. Strings copied to the request's pool are taken to be allocated.\<close>

definition writer_set :: "hdr_env \<Rightarrow> bool \<Rightarrow> bytes \<Rightarrow> bytes \<Rightarrow> ngx_part list \<Rightarrow> ngx_part list option" where
  "writer_set env has_last key value ps =
     map_option (\<lambda>r. case r of
         None \<Rightarrow> (case add_header env has_last ps key value of None \<Rightarrow> ps | Some ps' \<Rightarrow> ps')
       | Some (k, i) \<Rightarrow> ps[k := (ps ! k)\<lparr>pt_elts := (pt_elts (ps ! k))[i := (pt_elts (ps ! k) ! i)\<lparr>he_value := value\<rparr>]\<rparr>])
       (walk_list (\<lambda>e. length key = length (he_key e) \<and> hd_same_ci env key (he_key e)) ps)"

definition writer_erase :: "hdr_env \<Rightarrow> bytes \<Rightarrow> ngx_part list \<Rightarrow> ngx_part list option" where
  "writer_erase env key ps = map_option snd (remove_header env ps key)"

text \<open>\<^verbatim>\<open>for_each\<close> of \<^verbatim>\<open>src/array_util.h\<close>, with the elements in the order of the calls.\<close>

function for_each :: "ngx_part \<Rightarrow> ngx_part list \<Rightarrow> nat \<Rightarrow> header_elt list option" where
  "for_each p ps i =
     (if pt_nelts p \<le> i then
        (case ps of
           [] \<Rightarrow> Some []
         | q # qs \<Rightarrow> if pt_elts q = [] then None else map_option (\<lambda>es. pt_elts q ! 0 # es) (for_each q qs 1))
      else if length (pt_elts p) \<le> i then None
      else map_option (\<lambda>es. pt_elts p ! i # es) (for_each p ps (Suc i)))"
  by pat_completeness auto
termination
  by (relation "inv_image (less_than <*lex*> less_than) (\<lambda>(p, ps, i). (length ps, pt_nelts p - i))") auto

declare for_each.simps [simp del]

text \<open>\<^verbatim>\<open>NgxHeaderReader\<close>: the constructor and \<^verbatim>\<open>lookup\<close>.\<close>

definition reader_new :: "ngx_part list \<Rightarrow> (bytes \<times> bytes) list option" where
  "reader_new ps =
     (case ps of [] \<Rightarrow> None | p # qs \<Rightarrow>
        map_option (\<lambda>es. fold (\<lambda>e m. emplace (take (length (he_key e)) (he_lowcase_key e)) (he_value e) m) es []) (for_each p qs 0))"

definition reader_lookup :: "(bytes \<times> bytes) list \<Rightarrow> bytes \<Rightarrow> bytes option" where
  "reader_lookup m key = map_of m (map tolower key)"

section \<open>What the walk finds\<close>

definition live :: "ngx_part \<Rightarrow> header_elt list" where
  "live p = take (pt_nelts p) (pt_elts p)"

text \<open>Lists as nginx builds them: a part is added only together with an element.\<close>

definition parts_ok :: "ngx_part list \<Rightarrow> bool" where
  "parts_ok ps \<longleftrightarrow> ps \<noteq> [] \<and> list_all (\<lambda>p. pt_nelts p \<le> length (pt_elts p)) ps \<and> list_all (\<lambda>p. 0 < pt_nelts p) (tl ps)"

abbreviation elts :: "ngx_part list \<Rightarrow> header_elt list" where
  "elts ps \<equiv> concat (map live ps)"

text \<open>The live elements with their places, from an index of one part on.\<close>

definition tagged :: "nat \<Rightarrow> ngx_part \<Rightarrow> nat \<Rightarrow> ((nat \<times> nat) \<times> header_elt) list" where
  "tagged k p i = map (\<lambda>j. ((k, j), pt_elts p ! j)) [i..<pt_nelts p]"

fun tags :: "nat \<Rightarrow> ngx_part list \<Rightarrow> ((nat \<times> nat) \<times> header_elt) list" where
  "tags k [] = []"
| "tags k (p # ps) = tagged k p 0 @ tags (Suc k) ps"

lemma tagged_end: "pt_nelts p \<le> i \<Longrightarrow> tagged k p i = []"
  by (simp add: tagged_def)

lemma tagged_unfold: "i < pt_nelts p \<Longrightarrow> tagged k p i = ((k, i), pt_elts p ! i) # tagged k p (Suc i)"
  by (simp add: tagged_def upt_conv_Cons)

lemma tagged_live: "pt_nelts p \<le> length (pt_elts p) \<Longrightarrow> map snd (tagged k p 0) = live p"
  by (auto simp: tagged_def live_def comp_def intro: nth_equalityI)

lemma tags_live: "list_all (\<lambda>p. pt_nelts p \<le> length (pt_elts p)) ps \<Longrightarrow> map snd (tags k ps) = elts ps"
  by (induction ps arbitrary: k) (auto simp: tagged_live)

lemma tags_place: "((k', j), e) \<in> set (tags k ps) \<Longrightarrow> k \<le> k' \<and> k' - k < length ps \<and> j < pt_nelts (ps ! (k' - k)) \<and> e = pt_elts (ps ! (k' - k)) ! j"
proof (induction ps arbitrary: k)
  case (Cons p ps)
  from Cons.prems consider "((k', j), e) \<in> set (tagged k p 0)" | "((k', j), e) \<in> set (tags (Suc k) ps)" by auto
  then show ?case
  proof cases
    case 1
    then show ?thesis by (auto simp: tagged_def)
  next
    case 2
    with Cons.IH [of "Suc k"] show ?thesis by (auto simp: nth_Cons' Suc_le_eq)
  qed
qed simp

lemma find_append: "find P (xs @ ys) = (case find P xs of None \<Rightarrow> find P ys | r \<Rightarrow> r)"
  by (induction xs) auto

lemma find_map_snd: "find P (map snd xs) = map_option snd (find (P \<circ> snd) xs)"
  by (induction xs) auto

text \<open>The walk visits the live elements in order.\<close>

lemma walk_tags:
  assumes "pt_nelts p \<le> length (pt_elts p)" and "list_all (\<lambda>p. pt_nelts p \<le> length (pt_elts p) \<and> 0 < pt_nelts p) ps"
  shows "walk P p ps k i = Some (map_option fst (find (P \<circ> snd) (tagged k p i @ tags (Suc k) ps)))"
  using assms
proof (induction P p ps k i rule: walk.induct)
  case (1 P p ps k i)
  show ?case
  proof (cases "pt_nelts p \<le> i")
    case True
    then show ?thesis
    proof (cases ps)
      case (Cons q qs)
      with "1.prems" have q: "pt_elts q \<noteq> []" "tagged (Suc k) q 0 = ((Suc k, 0), pt_elts q ! 0) # tagged (Suc k) q 1"
        using tagged_unfold [of 0 q "Suc k"] by auto
      with True Cons 1 show ?thesis by (simp add: walk.simps [of P p "q # qs" k i] tagged_end)
    qed (simp add: walk.simps [of P p "[]" k i] tagged_end)
  next
    case False
    with 1 show ?thesis by (simp add: walk.simps [of P p ps k i] tagged_unfold)
  qed
qed

lemma walk_list_tags: "parts_ok ps \<Longrightarrow> walk_list P ps = Some (map_option fst (find (P \<circ> snd) (tags 0 ps)))"
  by (cases ps) (auto simp: parts_ok_def walk_list_def walk_tags list_all_iff)

lemma walk_list_elt:
  assumes "parts_ok ps"
  shows "map_option (map_option (\<lambda>(k, i). pt_elts (ps ! k) ! i)) (walk_list P ps) = Some (find P (elts ps))"
proof (cases "find (P \<circ> snd) (tags 0 ps)")
  case None
  with assms show ?thesis
    by (simp add: walk_list_tags tags_live [of ps 0, symmetric] find_map_snd parts_ok_def)
next
  case (Some x)
  obtain k j e where x: "x = ((k, j), e)" by (cases x) auto
  with Some have "((k, j), e) \<in> set (tags 0 ps)" by (auto simp: find_Some_iff)
  from tags_place [OF this] Some x assms show ?thesis
    by (simp add: walk_list_tags tags_live [of ps 0, symmetric] find_map_snd parts_ok_def)
qed


section \<open>Properties\<close>

text \<open>The case-insensitive comparison and the hash field as nginx's request parser fills it.\<close>

definition same_ci_ok :: "hdr_env \<Rightarrow> bool" where
  "same_ci_ok env \<longleftrightarrow> (\<forall>a b. length a = length b \<longrightarrow> hd_same_ci env a b = (map tolower a = map tolower b))"

definition indexed :: "hdr_env \<Rightarrow> header_elt \<Rightarrow> bool" where
  "indexed env e \<longleftrightarrow> he_lowcase_key e = map tolower (he_key e) \<and> he_hash e = hd_hash env (he_lowcase_key e)"

definition named :: "bytes \<Rightarrow> header_elt \<Rightarrow> bool" where
  "named key e \<longleftrightarrow> map tolower (he_key e) = map tolower key"

lemma same_ci_named:
  assumes "same_ci_ok env"
  shows "(length key = length (he_key e) \<and> hd_same_ci env key (he_key e)) = named key e"
  using assms by (metis same_ci_ok_def named_def map_eq_imp_length_eq)

lemma search_header_find:
  assumes "parts_ok ps" and "same_ci_ok env"
  shows "search_header env ps key = Some (find (named key) (elts ps))"
  using walk_list_elt [OF assms(1), of "named key"] by (simp add: search_header_def same_ci_named [OF assms(2)])

fun delete_first :: "('a \<Rightarrow> bool) \<Rightarrow> 'a list \<Rightarrow> 'a list" where
  "delete_first P [] = []"
| "delete_first P (x # xs) = (if P x then xs else x # delete_first P xs)"

lemma delete_first_append:
  "delete_first P (xs @ ys) = (if \<exists>x \<in> set xs. P x then delete_first P xs @ ys else xs @ delete_first P ys)"
  by (induction xs) auto

lemma delete_first_nth:
  "j < length xs \<Longrightarrow> P (xs ! j) \<Longrightarrow> (\<forall>i < j. \<not> P (xs ! i)) \<Longrightarrow> delete_first P xs = take j xs @ drop (Suc j) xs"
proof (induction xs arbitrary: j)
  case (Cons x xs)
  show ?case
  proof (cases j)
    case (Suc j')
    with Cons.prems have "\<not> P x" "\<forall>i < j'. \<not> P (xs ! i)" by (auto dest: spec [of _ 0] spec [of _ "Suc _"])
    with Suc Cons show ?thesis by simp
  qed (use Cons.prems in simp)
qed simp

fun replace_first :: "('a \<Rightarrow> bool) \<Rightarrow> ('a \<Rightarrow> 'a) \<Rightarrow> 'a list \<Rightarrow> 'a list" where
  "replace_first P f [] = []"
| "replace_first P f (x # xs) = (if P x then f x # xs else x # replace_first P f xs)"

lemma replace_first_append:
  "replace_first P f (xs @ ys) = (if \<exists>x \<in> set xs. P x then replace_first P f xs @ ys else xs @ replace_first P f ys)"
  by (induction xs) auto

lemma replace_first_nth:
  "j < length xs \<Longrightarrow> P (xs ! j) \<Longrightarrow> (\<forall>i < j. \<not> P (xs ! i)) \<Longrightarrow> replace_first P f xs = xs[j := f (xs ! j)]"
proof (induction xs arbitrary: j)
  case (Cons x xs)
  show ?case
  proof (cases j)
    case (Suc j')
    with Cons.prems have "\<not> P x" "\<forall>i < j'. \<not> P (xs ! i)" by (auto dest: spec [of _ 0] spec [of _ "Suc _"])
    with Suc Cons show ?thesis by simp
  qed (use Cons.prems in simp)
qed simp

lemma live_remove_at:
  assumes "j < pt_nelts p" and "pt_nelts p \<le> length (pt_elts p)"
  shows "live (remove_at j p) = take j (live p) @ drop (Suc j) (live p)"
  using assms by (auto simp: live_def remove_at_def Let_def min_def drop_take intro!: nth_equalityI)

lemma delete_first_remove_at:
  assumes "find (P \<circ> snd) (tagged k p 0) = Some ((k', j), e)" and "pt_nelts p \<le> length (pt_elts p)"
  shows "k' = k \<and> j < pt_nelts p \<and> live (remove_at j p) = delete_first P (live p) \<and> (\<exists>x \<in> set (live p). P x)"
proof -
  from assms(1) obtain i where i: "i < pt_nelts p" "P (pt_elts p ! i)" "((k', j), e) = ((k, i), pt_elts p ! i)"
    "\<forall>m < i. \<not> P (pt_elts p ! m)"
    by (auto simp: find_Some_iff tagged_def comp_def)
  then have l: "i < length (live p)" "live p ! i = pt_elts p ! i" "\<forall>m < i. live p ! m = pt_elts p ! m"
    using assms(2) by (auto simp: live_def)
  have "delete_first P (live p) = take i (live p) @ drop (Suc i) (live p)"
    using l i by (intro delete_first_nth) auto
  moreover have "\<exists>x \<in> set (live p). P x" using l i by (metis nth_mem)
  ultimately show ?thesis using i live_remove_at [OF i(1) assms(2)] by simp
qed

text \<open>An edit of the place that the walk finds is an edit of the list of live elements.\<close>

lemma edit_first_parts:
  assumes "find (P \<circ> snd) (tags k ps) = Some ((k', j), e)" and "list_all (\<lambda>p. pt_nelts p \<le> length (pt_elts p)) ps"
    and D: "\<And>xs ys. D (xs @ ys) = (if \<exists>x \<in> set xs. P x then D xs @ ys else xs @ D ys)"
    and g: "\<And>p k k' j e. find (P \<circ> snd) (tagged k p 0) = Some ((k', j), e) \<Longrightarrow> pt_nelts p \<le> length (pt_elts p) \<Longrightarrow>
       k' = k \<and> live (g j p) = D (live p) \<and> (\<exists>x \<in> set (live p). P x)"
  shows "elts (ps[k' - k := g j (ps ! (k' - k))]) = D (elts ps)"
  using assms(1,2)
proof (induction ps arbitrary: k)
  case (Cons p ps)
  show ?case
  proof (cases "find (P \<circ> snd) (tagged k p 0)")
    case None
    with Cons.prems have f: "find (P \<circ> snd) (tags (Suc k) ps) = Some ((k', j), e)" by (simp add: find_append comp_def)
    then have "((k', j), e) \<in> set (tags (Suc k) ps)" by (auto simp: find_Some_iff)
    then obtain d where d: "k' = Suc k + d" using tags_place [of k' j e "Suc k" ps] le_Suc_ex by blast
    have "\<not> (\<exists>x \<in> set (live p). P x)"
      using None tagged_live [of p k] Cons.prems(2) by (auto simp: find_None_iff simp flip: tagged_live [of p k])
    with Cons.IH [OF f] Cons.prems(2) d show ?thesis by (simp add: D)
  next
    case (Some x)
    with Cons.prems have x: "x = ((k', j), e)" by (simp add: find_append comp_def)
    with g [OF Some [unfolded x]] Cons.prems(2) show ?thesis by (simp add: D)
  qed
qed simp

lemma delete_first_parts:
  assumes "find (P \<circ> snd) (tags k ps) = Some ((k', j), e)" and "list_all (\<lambda>p. pt_nelts p \<le> length (pt_elts p)) ps"
  shows "elts (ps[k' - k := remove_at j (ps ! (k' - k))]) = delete_first P (elts ps)"
  by (rule edit_first_parts [where g = remove_at, OF assms delete_first_append]) (auto dest: delete_first_remove_at)

lemma indexed_match:
  assumes "indexed env e"
  shows "(he_hash e = hd_hash env (map tolower key) \<and> length key = length (he_key e) \<and> map tolower key = take (length key) (he_lowcase_key e))
    = named key e"
proof -
  from assms have i: "he_lowcase_key e = map tolower (he_key e)" "he_hash e = hd_hash env (map tolower (he_key e))"
    by (simp_all add: indexed_def)
  show ?thesis
  proof (cases "length key = length (he_key e)")
    case True
    then show ?thesis unfolding i named_def by (metis length_map order_refl take_all)
  next
    case False
    then show ?thesis unfolding named_def by (metis length_map)
  qed
qed

lemma remove_header_elts:
  assumes "parts_ok ps" and idx: "list_all (indexed env) (elts ps)"
  shows "\<exists>ps'. remove_header env ps key = Some (\<exists>e \<in> set (elts ps). named key e, ps') \<and> elts ps' = delete_first (named key) (elts ps)"
proof -
  let ?Q = "\<lambda>e. he_hash e = hd_hash env (map tolower key) \<and> length key = length (he_key e) \<and> map tolower key = take (length key) (he_lowcase_key e)"
  have Q: "?Q e = named key e" if "e \<in> set (elts ps)" for e
    using idx that by (intro indexed_match) (auto simp: list_all_iff)
  have ok: "list_all (\<lambda>p. pt_nelts p \<le> length (pt_elts p)) ps" using assms(1) by (simp add: parts_ok_def)
  have f: "find (?Q \<circ> snd) (tags 0 ps) = find (named key \<circ> snd) (tags 0 ps)"
    using Q by (intro find_cong) (auto simp flip: tags_live [OF ok, of 0])
  show ?thesis
  proof (cases "find (named key \<circ> snd) (tags 0 ps)")
    case None
    then have n: "\<not> (\<exists>e \<in> set (elts ps). named key e)" by (auto simp: find_None_iff simp flip: tags_live [OF ok, of 0])
    then have "delete_first (named key) (elts ps) = elts ps" using delete_first_append [of "named key" "elts ps" "[]"] by simp
    with None n f show ?thesis by (simp add: remove_header_def walk_list_tags [OF assms(1)] comp_def)
  next
    case (Some x)
    obtain k j e where x: "x = ((k, j), e)" by (cases x) auto
    have "\<exists>e \<in> set (elts ps). named key e" using Some by (auto simp: find_Some_iff simp flip: tags_live [OF ok, of 0] intro!: bexI [OF _ nth_mem])
    with Some x f delete_first_parts [OF Some [unfolded x] ok] show ?thesis
      by (simp add: remove_header_def walk_list_tags [OF assms(1)] comp_def)
  qed
qed

text \<open>
  Headers as a list: on a list as nginx builds it, the search finds the first header with the
  name, letters compared without case; the removal takes exactly that header out and keeps the order
  of the others, or says that there is none; an added header is found, and headers of other names are
  found as before.
\<close>

theorem header_list_operations:
  assumes "parts_ok ps" and "same_ci_ok env" and "list_all (indexed env) (elts ps)"
    and push: "\<And>e ps'. hd_push env ps e = Some ps' \<Longrightarrow> parts_ok ps' \<and> elts ps' = elts ps @ [e]"
  shows "search_header env ps key = Some (find (named key) (elts ps))
    \<and> (\<exists>ps'. remove_header env ps key = Some (\<exists>e \<in> set (elts ps). named key e, ps') \<and> elts ps' = delete_first (named key) (elts ps))
    \<and> (\<forall>ps'. add_header env True ps key value = Some ps' \<longrightarrow>
         map_option (map_option he_value) (search_header env ps' key) =
           Some (case find (named key) (elts ps) of None \<Rightarrow> Some value | Some e \<Rightarrow> Some (he_value e))
         \<and> (\<forall>k. map tolower k \<noteq> map tolower key \<longrightarrow> search_header env ps' k = search_header env ps k))"
proof (intro conjI allI impI)
  show "search_header env ps key = Some (find (named key) (elts ps))" by (rule search_header_find [OF assms(1,2)])
next
  show "\<exists>ps'. remove_header env ps key = Some (\<exists>e \<in> set (elts ps). named key e, ps') \<and> elts ps' = delete_first (named key) (elts ps)"
    by (rule remove_header_elts [OF assms(1,3)])
next
  fix ps' assume "add_header env True ps key value = Some ps'"
  then have p: "parts_ok ps'"
    "elts ps' = elts ps @ [\<lparr>he_key = map tolower key, he_lowcase_key = map tolower key, he_value = value, he_hash = hd_hash env (map tolower key)\<rparr>]"
    using push by (auto simp: add_header_def Let_def)
  show "map_option (map_option he_value) (search_header env ps' key) =
           Some (case find (named key) (elts ps) of None \<Rightarrow> Some value | Some e \<Rightarrow> Some (he_value e))"
    unfolding search_header_find [OF p(1) assms(2)] p(2) find_append
    by (simp add: named_def comp_def split: option.splits)
  fix k assume "map tolower k \<noteq> map tolower key"
  then show "search_header env ps' k = search_header env ps k"
    unfolding search_header_find [OF p(1) assms(2)] search_header_find [OF assms(1,2)] p(2) find_append
    by (simp add: named_def comp_def split: option.splits)
qed

definition plain_hdr_env :: hdr_env where
  "plain_hdr_env = \<lparr>hd_same_ci = (\<lambda>a b. map tolower a = map tolower b), hd_hash = length,
     hd_push = (\<lambda>ps e. Some (ps @ [\<lparr>pt_elts = [e], pt_nelts = 1\<rparr>]))\<rparr>"

definition plain_header :: "bytes \<Rightarrow> bytes \<Rightarrow> header_elt" where
  "plain_header k v = \<lparr>he_key = k, he_lowcase_key = map tolower k, he_value = v, he_hash = length k\<rparr>"

theorem header_list_operations_witness:
  "\<exists>ps'. remove_header plain_hdr_env [\<lparr>pt_elts = [plain_header ''Host'' ''a'', plain_header ''Via'' ''b''], pt_nelts = 2\<rparr>] ''host'' = Some (True, ps')
     \<and> elts ps' = [plain_header ''Via'' ''b'']"
proof -
  let ?ps = "[\<lparr>pt_elts = [plain_header ''Host'' ''a'', plain_header ''Via'' ''b''], pt_nelts = 2\<rparr>]"
  have e: "elts ?ps = [plain_header ''Host'' ''a'', plain_header ''Via'' ''b'']" by (simp add: live_def)
  have ok: "parts_ok ?ps" "same_ci_ok plain_hdr_env" by (simp_all add: parts_ok_def same_ci_ok_def plain_hdr_env_def)
  have i: "list_all (indexed plain_hdr_env) (elts ?ps)" unfolding e by (simp add: indexed_def plain_hdr_env_def plain_header_def)
  have n: "named ''host'' (plain_header ''Host'' ''a'')" by (simp add: named_def plain_header_def tolower_keep)
  have push: "hd_push plain_hdr_env ?ps x = Some ps' \<Longrightarrow> parts_ok ps' \<and> elts ps' = elts ?ps @ [x]" for x ps'
    by (auto simp: plain_hdr_env_def parts_ok_def live_def)
  from header_list_operations [OF ok i push, of "''host''" "[]"] n show ?thesis unfolding e by simp
qed

text \<open>A list that nginx built from a request, and the functions of nginx as they are documented.\<close>

definition dict_ok :: "hdr_env \<times> ngx_part list \<Rightarrow> bool" where
  "dict_ok s = (case s of (env, ps) \<Rightarrow> parts_ok ps \<and> same_ci_ok env \<and> list_all (indexed env) (elts ps)
     \<and> (\<forall>qs e. parts_ok qs \<longrightarrow> (\<exists>qs'. hd_push env qs e = Some qs' \<and> parts_ok qs' \<and> elts qs' = elts qs @ [e])))"

definition dict_set :: "bytes \<Rightarrow> bytes \<Rightarrow> hdr_env \<times> ngx_part list \<Rightarrow> (hdr_env \<times> ngx_part list) option" where
  "dict_set k v s = (case s of (env, ps) \<Rightarrow> map_option (Pair env) (writer_set env True k v ps))"

definition dict_get :: "hdr_env \<times> ngx_part list \<Rightarrow> bytes \<Rightarrow> bytes option" where
  "dict_get s k = (case reader_new (snd s) of None \<Rightarrow> None | Some m \<Rightarrow> reader_lookup m k)"

lemma for_each_elts:
  assumes "pt_nelts p \<le> length (pt_elts p)" and "list_all (\<lambda>p. pt_nelts p \<le> length (pt_elts p) \<and> 0 < pt_nelts p) ps"
  shows "for_each p ps i = Some (drop i (live p) @ elts ps)"
  using assms
proof (induction p ps i rule: for_each.induct)
  case (1 p ps i)
  have d: "drop i (live p) = pt_elts p ! i # drop (Suc i) (live p)" if "i < pt_nelts p"
    using that "1.prems"(1) Cons_nth_drop_Suc [of i "live p"] by (simp add: live_def)
  show ?case
  proof (cases "pt_nelts p \<le> i")
    case True
    then have l: "drop i (live p) = []" by (simp add: live_def)
    show ?thesis
    proof (cases ps)
      case (Cons q qs)
      with "1.prems" have q: "pt_elts q \<noteq> []" "live q = pt_elts q ! 0 # drop 1 (live q)"
        by (cases "pt_elts q"; cases "pt_nelts q"; auto simp: live_def)+
      with True l Cons 1 show ?thesis by (subst for_each.simps) (simp add: q(2) [symmetric] del: drop_eq_Nil)
    qed (use True l in \<open>simp add: for_each.simps [of p "[]" i]\<close>)
  next
    case False
    with 1 d show ?thesis by (subst for_each.simps) simp
  qed
qed

lemma fold_emplace:
  "map_of (fold (\<lambda>e m. emplace (f e) (g e) m) es m) k =
     (case map_of m k of Some v \<Rightarrow> Some v | None \<Rightarrow> map_option g (find (\<lambda>e. f e = k) es))"
  by (induction es arbitrary: m) (auto simp: map_of_emplace split: option.splits)

lemma dict_get_find:
  assumes "dict_ok (env, ps)"
  shows "dict_get (env, ps) k = map_option he_value (find (named k) (elts ps))"
proof -
  obtain p qs where ps: "ps = p # qs" using assms by (cases ps) (auto simp: dict_ok_def parts_ok_def)
  have "for_each p qs 0 = Some (elts ps)"
    using assms unfolding ps by (subst for_each_elts) (auto simp: dict_ok_def parts_ok_def list_all_iff)
  moreover have "find (\<lambda>e. take (length (he_key e)) (he_lowcase_key e) = map tolower k) (elts ps) = find (named k) (elts ps)"
  proof (intro find_cong refl)
    fix e assume "e \<in> set (elts ps)"
    then have "indexed env e" using assms unfolding dict_ok_def list_all_iff by blast
    then show "(take (length (he_key e)) (he_lowcase_key e) = map tolower k) = named k e" by (simp add: indexed_def named_def)
  qed
  moreover have "dict_get (env, ps) k = map_option he_value (find (\<lambda>e. take (length (he_key e)) (he_lowcase_key e) = map tolower k) es)"
    if "for_each p qs 0 = Some es" for es
    using that by (simp add: dict_get_def reader_new_def ps reader_lookup_def fold_emplace)
  ultimately show ?thesis by simp
qed


lemma live_replace:
  assumes "find (P \<circ> snd) (tagged k p 0) = Some ((k', j), e)" and "pt_nelts p \<le> length (pt_elts p)"
  shows "k' = k \<and> live (p\<lparr>pt_elts := (pt_elts p)[j := f (pt_elts p ! j)]\<rparr>) = replace_first P f (live p) \<and> (\<exists>x \<in> set (live p). P x)"
proof -
  from assms(1) obtain i where i: "i < pt_nelts p" "P (pt_elts p ! i)" "((k', j), e) = ((k, i), pt_elts p ! i)"
    "\<forall>m < i. \<not> P (pt_elts p ! m)"
    by (auto simp: find_Some_iff tagged_def comp_def)
  then have l: "i < length (live p)" "live p ! i = pt_elts p ! i" "\<forall>m < i. live p ! m = pt_elts p ! m"
    using assms(2) by (auto simp: live_def)
  have "replace_first P f (live p) = (live p)[i := f (live p ! i)]"
    using l i by (intro replace_first_nth) auto
  moreover have "\<exists>x \<in> set (live p). P x" using l i by (metis nth_mem)
  ultimately show ?thesis using i l by (simp add: live_def take_update_swap)
qed

lemma replace_first_parts:
  assumes "find (P \<circ> snd) (tags k ps) = Some ((k', j), e)" and "list_all (\<lambda>p. pt_nelts p \<le> length (pt_elts p)) ps"
  shows "elts (ps[k' - k := (ps ! (k' - k))\<lparr>pt_elts := (pt_elts (ps ! (k' - k)))[j := f (pt_elts (ps ! (k' - k)) ! j)]\<rparr>])
    = replace_first P f (elts ps)"
  by (rule edit_first_parts [where g = "\<lambda>j p. p\<lparr>pt_elts := (pt_elts p)[j := f (pt_elts p ! j)]\<rparr>", OF assms replace_first_append])
    (rule live_replace)

lemma parts_ok_update:
  assumes ok: "parts_ok ps"
  shows "parts_ok (ps[k := (ps ! k)\<lparr>pt_elts := (pt_elts (ps ! k))[j := x]\<rparr>])"
proof (cases "k < length ps")
  case True
  let ?q = "(ps ! k)\<lparr>pt_elts := (pt_elts (ps ! k))[j := x]\<rparr>"
  have all: "list_all (\<lambda>p. pt_nelts p \<le> length (pt_elts p)) (ps[k := ?q])"
    using ok True by (auto simp: parts_ok_def list_all_length nth_list_update)
  have "list_all (\<lambda>p. 0 < pt_nelts p) (tl (ps[k := ?q]))"
    using ok True by (auto simp: parts_ok_def list_all_length nth_tl nth_list_update)
  with ok all show ?thesis by (simp add: parts_ok_def)
qed (use ok in \<open>simp add: list_update_beyond\<close>)

lemma named_value [simp]: "named k (e\<lparr>he_value := v\<rparr>) = named k e"
  by (simp add: named_def)

lemma find_replace_named:
  "map_option he_value (find (named k') (replace_first (named k) (\<lambda>e. e\<lparr>he_value := v\<rparr>) es)) =
     (if map tolower k' = map tolower k then (if find (named k) es = None then None else Some v)
      else map_option he_value (find (named k') es))"
proof (cases "map tolower k' = map tolower k")
  case True
  then have "named k' = named k" by (auto simp: named_def)
  with True show ?thesis by (induction es) auto
next
  case False
  then have "named k e \<Longrightarrow> \<not> named k' e" for e by (auto simp: named_def)
  with False show ?thesis by (induction es) auto
qed

lemma set_replace_first: "set (replace_first P f xs) \<subseteq> set xs \<union> f ` set xs"
  by (induction xs) auto

text \<open>The laws of a dictionary of headers, and what follows for a client that writes several pairs.\<close>

locale header_dict =
  fixes dset :: "bytes \<Rightarrow> bytes \<Rightarrow> 's \<Rightarrow> 's option"
    and dget :: "'s \<Rightarrow> bytes \<Rightarrow> bytes option"
    and fold_key :: "bytes \<Rightarrow> bytes"
    and ok :: "'s \<Rightarrow> bool"
  assumes set_total: "ok s \<Longrightarrow> \<exists>s'. dset k v s = Some s' \<and> ok s'"
    and get_set: "ok s \<Longrightarrow> dset k v s = Some s' \<Longrightarrow> dget s' k' = (if fold_key k' = fold_key k then Some v else dget s k')"
begin

fun dwrite :: "(bytes \<times> bytes) list \<Rightarrow> 's \<Rightarrow> 's option" where
  "dwrite [] s = Some s"
| "dwrite ((k, v) # kvs) s = (case dset k v s of None \<Rightarrow> None | Some s' \<Rightarrow> dwrite kvs s')"

lemma dwrite_get:
  "ok s \<Longrightarrow> \<exists>s'. dwrite kvs s = Some s' \<and> ok s'
     \<and> (\<forall>k. dget s' k = (case map_of (rev (map (\<lambda>(k, v). (fold_key k, v)) kvs)) (fold_key k) of Some v \<Rightarrow> Some v | None \<Rightarrow> dget s k))"
proof (induction kvs arbitrary: s)
  case (Cons kv kvs)
  obtain k v where kv: "kv = (k, v)" by (cases kv)
  obtain s1 where s1: "dset k v s = Some s1" "ok s1" using set_total [OF Cons.prems] by blast
  from Cons.IH [OF s1(2)] obtain s' where "dwrite kvs s1 = Some s'" "ok s'"
    "\<forall>k. dget s' k = (case map_of (rev (map (\<lambda>(k, v). (fold_key k, v)) kvs)) (fold_key k) of Some v \<Rightarrow> Some v | None \<Rightarrow> dget s1 k)" by blast
  with kv s1(1) get_set [OF Cons.prems s1(1)] show ?case by (auto simp: map_add_def split: option.splits)
qed simp

end

lemma dict_set_laws:
  assumes "dict_ok s"
  shows "\<exists>s'. dict_set k v s = Some s' \<and> dict_ok s' \<and> (\<forall>k'. dict_get s' k' = (if map tolower k' = map tolower k then Some v else dict_get s k'))"
proof -
  obtain env ps where s: "s = (env, ps)" by (cases s)
  with assms have ok: "parts_ok ps" "same_ci_ok env" "list_all (indexed env) (elts ps)"
    and all: "list_all (\<lambda>p. pt_nelts p \<le> length (pt_elts p)) ps"
    and push: "\<And>qs e. parts_ok qs \<Longrightarrow> \<exists>qs'. hd_push env qs e = Some qs' \<and> parts_ok qs' \<and> elts qs' = elts qs @ [e]"
    by (auto simp: dict_ok_def parts_ok_def)
  have q: "(\<lambda>e. length k = length (he_key e) \<and> hd_same_ci env k (he_key e)) = named k"
    by (rule ext) (rule same_ci_named [OF ok(2)])
  have env: "dict_ok (env, qs)" if "parts_ok qs" "list_all (indexed env) (elts qs)" for qs
    using that assms by (simp add: dict_ok_def s)
  show ?thesis
  proof (cases "find (named k \<circ> snd) (tags 0 ps)")
    case None
    then have n: "find (named k) (elts ps) = None" using find_map_snd [of "named k" "tags 0 ps"] tags_live [OF all, of 0] by simp
    let ?e = "\<lparr>he_key = map tolower k, he_lowcase_key = map tolower k, he_value = v, he_hash = hd_hash env (map tolower k)\<rparr>"
    obtain qs where qs: "hd_push env ps ?e = Some qs" "parts_ok qs" "elts qs = elts ps @ [?e]" using push [OF ok(1)] by blast
    have set: "dict_set k v s = Some (env, qs)"
      using None qs(1) by (simp add: dict_set_def s writer_set_def q walk_list_tags [OF ok(1)] add_header_def Let_def)
    have d: "dict_ok (env, qs)" using ok(3) qs by (intro env) (simp_all add: indexed_def comp_def)
    have "dict_get (env, qs) k' = (if map tolower k' = map tolower k then Some v else dict_get s k')" for k'
    proof -
      have "named k' = named k" if "map tolower k' = map tolower k" using that by (auto simp: named_def)
      with n show ?thesis
        unfolding dict_get_find [OF d] s dict_get_find [OF assms [unfolded s]] qs(3) find_append
        by (auto simp: named_def comp_def split: option.splits)
    qed
    with set d show ?thesis by blast
  next
    case (Some y)
    obtain a j e where y: "y = ((a, j), e)" by (cases y) auto
    let ?f = "\<lambda>e. e\<lparr>he_value := v\<rparr>"
    let ?qs = "ps[a := (ps ! a)\<lparr>pt_elts := (pt_elts (ps ! a))[j := ?f (pt_elts (ps ! a) ! j)]\<rparr>]"
    have set: "dict_set k v s = Some (env, ?qs)"
      using Some y by (simp add: dict_set_def s writer_set_def q walk_list_tags [OF ok(1)])
    have qs: "elts ?qs = replace_first (named k) ?f (elts ps)"
      using replace_first_parts [OF Some [unfolded y] all, of ?f] by simp
    have f: "find (named k) (elts ps) = Some e" using Some y find_map_snd [of "named k" "tags 0 ps"] tags_live [OF all, of 0] by simp
    have i: "list_all (indexed env) (elts ?qs)"
      unfolding qs list_all_iff using set_replace_first [of "named k" ?f "elts ps"] ok(3)
      by (force simp: list_all_iff indexed_def)
    have d: "dict_ok (env, ?qs)" by (rule env [OF parts_ok_update [OF ok(1)] i])
    have "dict_get (env, ?qs) k' = (if map tolower k' = map tolower k then Some v else dict_get s k')" for k'
      unfolding dict_get_find [OF d] s dict_get_find [OF assms [unfolded s]] qs find_replace_named using f by simp
    with set d show ?thesis by blast
  qed
qed


interpretation hdr: header_dict dict_set dict_get "map tolower" dict_ok
proof
  fix s k v assume ok: "dict_ok s"
  from dict_set_laws [OF ok, of k v] show "\<exists>s'. dict_set k v s = Some s' \<and> dict_ok s'" by blast
  fix s' k' assume "dict_set k v s = Some s'"
  with dict_set_laws [OF ok, of k v] show "dict_get s' k' = (if map tolower k' = map tolower k then Some v else dict_get s k')" by auto
qed

text \<open>A client of the dictionary: the tracer writes the pairs of a trace context one after the other.\<close>

fun dict_write :: "(bytes \<times> bytes) list \<Rightarrow> hdr_env \<times> ngx_part list \<Rightarrow> (hdr_env \<times> ngx_part list) option" where
  "dict_write [] s = Some s"
| "dict_write ((k, v) # kvs) s = (case dict_set k v s of None \<Rightarrow> None | Some s' \<Rightarrow> dict_write kvs s')"

lemma dict_write_hdr: "dict_write kvs s = hdr.dwrite kvs s"
  by (induction kvs s rule: dict_write.induct) (auto split: option.split)

text \<open>
  C39. A trace context that \<^verbatim>\<open>NgxHeaderWriter\<close> writes into the headers of a request is what \<^verbatim>\<open>NgxHeaderReader\<close>
  reads from them: the last value written under a name, letters compared without case, replaces what the
  client sent, and every other header is read as before.
\<close>

theorem propagation_roundtrip:
  assumes "dict_ok (env, ps)"
  shows "\<exists>s'. dict_write kvs (env, ps) = Some s' \<and> dict_ok s'
    \<and> (\<forall>k. dict_get s' k =
         (case map_of (rev (map (\<lambda>(k, v). (map tolower k, v)) kvs)) (map tolower k) of Some v \<Rightarrow> Some v | None \<Rightarrow> dict_get (env, ps) k))"
  using hdr.dwrite_get [OF assms, of kvs] by (simp only: dict_write_hdr)

theorem propagation_roundtrip_witness:
  "\<exists>s'. dict_write [(''X-Id'', ''1''), (''x-id'', ''2'')] (plain_hdr_env, [\<lparr>pt_elts = [plain_header ''Via'' ''b''], pt_nelts = 1\<rparr>]) = Some s'
     \<and> dict_get s' ''X-ID'' = Some ''2'' \<and> dict_get s' ''Via'' = Some ''b''"
proof -
  let ?ps = "[\<lparr>pt_elts = [plain_header ''Via'' ''b''], pt_nelts = 1\<rparr>]"
  have ok: "dict_ok (plain_hdr_env, ?ps)"
    by (auto simp: dict_ok_def parts_ok_def same_ci_ok_def live_def indexed_def plain_hdr_env_def plain_header_def)
  have v: "dict_get (plain_hdr_env, ?ps) ''Via'' = Some ''b''"
    unfolding dict_get_find [OF ok] by (simp add: live_def named_def plain_header_def)
  obtain s' where s': "dict_write [(''X-Id'', ''1''), (''x-id'', ''2'')] (plain_hdr_env, ?ps) = Some s'"
    "\<And>k. dict_get s' k = (case map_of (rev (map (\<lambda>(k, v). (map tolower k, v)) [(''X-Id'', ''1''), (''x-id'', ''2'')])) (map tolower k) of
        Some v \<Rightarrow> Some v | None \<Rightarrow> dict_get (plain_hdr_env, ?ps) k)"
    using propagation_roundtrip [OF ok, of "[(''X-Id'', ''1''), (''x-id'', ''2'')]"] by blast
  have "dict_get s' ''X-ID'' = Some ''2''" "dict_get s' ''Via'' = Some ''b''"
    unfolding s'(2) by (simp_all add: tolower_keep v [simplified])
  with s'(1) show ?thesis by blast
qed

section \<open>A header that is alone in its part\<close>

lemma walk_skip:
  assumes "parts_ok ps" and "\<not> (\<exists>e \<in> set (elts ps). P e)" and "q = \<lparr>pt_elts = h # es, pt_nelts = 0\<rparr>" and "P h"
  shows "walk_list P (ps @ [q]) = Some (Some (length ps, 0))"
proof -
  have walk: "walk P p (qs @ [q]) k i = Some (Some (k + length qs + 1, 0))"
    if "pt_nelts p \<le> length (pt_elts p)" "list_all (\<lambda>p. pt_nelts p \<le> length (pt_elts p) \<and> 0 < pt_nelts p) qs"
      "\<not> (\<exists>e \<in> set (live p @ elts qs). P e)" for p qs k i
    using that assms(3,4)
  proof (induction P p qs k i rule: walk.induct)
    case (1 P p qs k i)
    show ?case
    proof (cases "pt_nelts p \<le> i")
      case True
      then show ?thesis
      proof (cases qs)
        case (Cons q' qs')
        with "1.prems" have "pt_elts q' \<noteq> []" "\<not> P (pt_elts q' ! 0)"
          by (cases "pt_elts q'"; cases "pt_nelts q'"; auto simp: live_def)+
        with True Cons 1 show ?thesis by (subst walk.simps) simp
      qed (use 1 True in \<open>subst walk.simps, simp\<close>)
    next
      case False
      with "1.prems" have "pt_elts p ! i \<in> set (live p)" by (auto simp: live_def in_set_conv_nth intro!: exI [of _ i])
      with False 1 show ?thesis by (subst walk.simps) simp
    qed
  qed
  from assms obtain p qs where "ps = p # qs" by (cases ps) (auto simp: parts_ok_def)
  with assms(1,2) walk [of p qs 0 0] show ?thesis by (auto simp: walk_list_def parts_ok_def list_all_iff)
qed

lemma tags_append: "tags k (ps @ qs) = tags k ps @ tags (k + length ps) qs"
  by (induction ps arbitrary: k) simp_all

lemma remove_last_part:
  assumes ok: "parts_ok (ps @ [\<lparr>pt_elts = h # es, pt_nelts = 1\<rparr>])" and no: "\<not> (\<exists>e \<in> set (elts ps). named key e)"
    and "named key h" and idx: "list_all (indexed env) (elts ps @ [h])"
  shows "remove_header env (ps @ [\<lparr>pt_elts = h # es, pt_nelts = 1\<rparr>]) key = Some (True, ps @ [\<lparr>pt_elts = h # es, pt_nelts = 0\<rparr>])"
proof -
  let ?Q = "\<lambda>e. he_hash e = hd_hash env (map tolower key) \<and> length key = length (he_key e) \<and> map tolower key = take (length key) (he_lowcase_key e)"
  have Q: "?Q e = named key e" if "e \<in> set (elts ps @ [h])" for e
    using idx that by (intro indexed_match) (auto simp: list_all_iff)
  have l: "map snd (tags 0 ps) = elts ps" using ok by (intro tags_live) (simp add: parts_ok_def)
  have "\<not> ?Q e" if "e \<in> set (elts ps)" for e using Q [of e] no that by auto
  then have "\<not> ?Q e" if "e \<in> snd ` set (tags 0 ps)" for e using that by (metis l list.set_map)
  then have "find (?Q \<circ> snd) (tags 0 ps) = None" unfolding find_None_iff comp_def by blast
  moreover have "?Q h" using Q [of h] assms(3) by simp
  ultimately have "walk_list ?Q (ps @ [\<lparr>pt_elts = h # es, pt_nelts = 1\<rparr>]) = Some (Some (length ps, 0))"
    unfolding walk_list_tags [OF ok] by (simp add: tags_append find_append tagged_def comp_def)
  then show ?thesis by (simp add: remove_header_def Let_def remove_at_def)
qed

text \<open>
  A header that is the only one in its part, behind the first, is erased from the list, but its
  storage is still the first thing that the walk looks at when it enters the part: the search goes on
  finding the erased header, and a value that the tracer then sets is written to the dead storage and
  is not in the list.
\<close>

theorem removed_header_still_found:
  assumes ok: "parts_ok (ps @ [\<lparr>pt_elts = h # es, pt_nelts = 1\<rparr>])" and no: "\<not> (\<exists>e \<in> set (elts ps). named key e)"
    and h: "named key h" and idx: "list_all (indexed env) (elts ps @ [h])" and env: "same_ci_ok env" and "ps \<noteq> []"
  shows "\<exists>ps' ps''. writer_erase env key (ps @ [\<lparr>pt_elts = h # es, pt_nelts = 1\<rparr>]) = Some ps' \<and> elts ps' = elts ps
    \<and> search_header env ps' key = Some (Some h)
    \<and> writer_set env True key value ps' = Some ps'' \<and> elts ps'' = elts ps"
proof -
  let ?ps' = "ps @ [\<lparr>pt_elts = h # es, pt_nelts = 0\<rparr>]"
  have "parts_ok ps" using ok \<open>ps \<noteq> []\<close> by (simp add: parts_ok_def list_all_iff)
  from walk_skip [OF this no refl h]
  have w: "walk_list (\<lambda>e. length key = length (he_key e) \<and> hd_same_ci env key (he_key e)) ?ps' = Some (Some (length ps, 0))"
    unfolding same_ci_named [OF env] by simp
  then have "search_header env ?ps' key = Some (Some h)"
    "writer_set env True key value ?ps' = Some (ps @ [\<lparr>pt_elts = h\<lparr>he_value := value\<rparr> # es, pt_nelts = 0\<rparr>])"
    by (simp_all add: search_header_def writer_set_def)
  moreover have "writer_erase env key (ps @ [\<lparr>pt_elts = h # es, pt_nelts = 1\<rparr>]) = Some ?ps'"
    using remove_last_part [OF ok no h idx] by (simp add: writer_erase_def)
  ultimately show ?thesis by (simp add: live_def)
qed

theorem removed_header_still_found_witness:
  "\<exists>ps' ps''. writer_erase plain_hdr_env ''X-Id'' ([\<lparr>pt_elts = [plain_header ''Via'' ''b''], pt_nelts = 1\<rparr>] @ [\<lparr>pt_elts = [plain_header ''x-id'' ''1''], pt_nelts = 1\<rparr>]) = Some ps'
     \<and> search_header plain_hdr_env ps' ''X-Id'' = Some (Some (plain_header ''x-id'' ''1''))
     \<and> writer_set plain_hdr_env True ''X-Id'' ''2'' ps' = Some ps'' \<and> elts ps'' = [plain_header ''Via'' ''b'']"
proof -
  let ?p = "\<lparr>pt_elts = [plain_header ''Via'' ''b''], pt_nelts = 1\<rparr>"
  have e: "elts [?p] = [plain_header ''Via'' ''b'']" by (simp add: live_def)
  have 1: "parts_ok ([?p] @ [\<lparr>pt_elts = plain_header ''x-id'' ''1'' # [], pt_nelts = 1\<rparr>])" by (simp add: parts_ok_def)
  have 2: "\<not> (\<exists>e \<in> set (elts [?p]). named ''X-Id'' e)" unfolding e by (simp add: named_def plain_header_def)
  have 3: "named ''X-Id'' (plain_header ''x-id'' ''1'')" by (simp add: named_def plain_header_def tolower_keep)
  have 4: "list_all (indexed plain_hdr_env) (elts [?p] @ [plain_header ''x-id'' ''1''])"
    unfolding e by (simp add: indexed_def plain_hdr_env_def plain_header_def)
  have 5: "same_ci_ok plain_hdr_env" by (simp add: same_ci_ok_def plain_hdr_env_def)
  from removed_header_still_found [OF 1 2 3 4 5, of "''2''"] show ?thesis unfolding e by fastforce
qed

end
