(* ===== verification/Rum_Injection.thy ===== *)
theory Rum_Injection
  imports Ngx_Headers "HOL-Library.Monad_Syntax"
begin

text \<open>
  Injection of the RUM browser SDK: \<^verbatim>\<open>src/rum/injection.cpp\<close>. The body filter relinks the buffer chain
  that nginx hands it, so chain links are cells of an explicit store; a link is modelled together with
  the buffer it points to. The injector, which looks for the place in the page, is a parameter: what it
  answers for a piece of the page is a list of slices and whether it injected.
\<close>

section \<open>State\<close>

datatype rum_phase = Init | Searching | Injected | Error | Failed

record rum_buf =
  rb_data :: bytes
  rb_flush :: bool
  rb_sync :: bool
  rb_last_buf :: bool
  rb_last_in_chain :: bool
  rb_recycled :: bool

record link =
  ln_buf :: rum_buf
  ln_next :: "nat option"

text \<open>
  The store, the next address, and the outcomes of the allocations to come (all succeed once the
  list is exhausted).
\<close>

record link_store =
  so_link :: "nat \<Rightarrow> link option"
  so_fresh :: nat
  so_allocs :: "bool list"

definition alloc :: "link_store \<Rightarrow> bool \<times> link_store" where
  "alloc s = (case so_allocs s of [] \<Rightarrow> (True, s) | b # bs \<Rightarrow> (b, s\<lparr>so_allocs := bs\<rparr>))"

record 'i injector_ops =
  injector_create :: "bytes \<Rightarrow> 'i"
  injector_write :: "'i \<Rightarrow> bytes \<Rightarrow> 'i \<times> bytes list \<times> bool"
  injector_end :: "'i \<Rightarrow> 'i \<times> bytes list"

record 'i handler =
  hn_state :: rum_phase
  hn_output_padding :: bool
  hn_injector :: "'i option"

definition new_handler :: "'i handler" where
  "new_handler = \<lparr>hn_state = Init, hn_output_padding = False, hn_injector = None\<rparr>"

text \<open>The location's configuration; the snippet is what the injector is made of.\<close>

record rum_conf =
  rum_enable :: bool
  rum_snippet :: "bytes option"

section \<open>The header phase\<close>

datatype ngx_rc = NGX_OK | NGX_ERROR | NGX_DECLINED | Filter_rc int

definition is_html_content :: "bytes \<Rightarrow> bool" where
  "is_html_content content_type = contains ''text/html'' content_type"

record rum_req =
  rq_headers_in :: "ngx_part list"
  rq_in_last :: bool
  rq_headers_out :: "ngx_part list"
  rq_header_only :: bool
  rq_content_length_n :: int
  rq_content_type :: bytes
  rq_content_encoding :: "bytes option"
  rq_need_in_memory :: bool

definition on_rewrite_handler :: "hdr_env \<Rightarrow> rum_req \<Rightarrow> ngx_rc \<times> rum_req" where
  "on_rewrite_handler env r =
     (case add_header env (rq_in_last r) (rq_headers_in r) ''x-datadog-rum-injection-pending'' ''1'' of
        None \<Rightarrow> (NGX_ERROR, r)
      | Some ps \<Rightarrow> (NGX_DECLINED, r\<lparr>rq_headers_in := ps\<rparr>))"

text \<open>
  What the handler does in the header phase: the calls of the next header filter are counted, and
  the telemetry counters that are incremented are recorded with the tag that says why.
  \<^const>\<open>None\<close> is a read outside the storage of the header list or of the missing snippet.
\<close>

datatype counter = Injection_skipped bytes | Injection_succeed | Injection_failed bytes

record 'i header_result =
  hr_rc :: ngx_rc
  hr_handler :: "'i handler"
  hr_req :: rum_req
  hr_next_calls :: nat
  hr_counters :: "counter list"

definition on_header_filter ::
  "hdr_env \<Rightarrow> 'i injector_ops \<Rightarrow> (rum_req \<Rightarrow> int) \<Rightarrow> rum_conf \<Rightarrow> 'i handler \<Rightarrow> rum_req \<Rightarrow> 'i header_result option" where
  "on_header_filter env ops next_header_filter cfg hn r =
     (let skip = (\<lambda>cs. Some \<lparr>hr_rc = Filter_rc (next_header_filter r), hr_handler = hn, hr_req = r, hr_next_calls = 1, hr_counters = cs\<rparr>)
      in if \<not> rum_enable cfg then skip []
      else search_header env (rq_headers_in r) ''x-datadog-rum-injected'' \<bind> (\<lambda>h.
      if (case h of None \<Rightarrow> False | Some e \<Rightarrow> he_value e = ''1'') then skip [Injection_skipped ''reason:already_injected'']
      else if rq_header_only r \<or> rq_content_length_n r = 0 then skip [Injection_skipped ''reason:no_content'']
      else if \<not> is_html_content (rq_content_type r) then skip [Injection_skipped ''reason:invalid_content_type'']
      else if (case rq_content_encoding r of None \<Rightarrow> False | Some v \<Rightarrow> length v \<noteq> 0) then skip [Injection_skipped ''reason:compressed_html'']
      else rum_snippet cfg \<bind> (\<lambda>snippet.
        let hn = hn\<lparr>hn_state := Searching, hn_injector := Some (injector_create ops snippet)\<rparr>;
            padded = rq_content_length_n r \<noteq> - 1;
            hn = (if padded then hn\<lparr>hn_output_padding := True\<rparr> else hn);
            r = (if padded then r\<lparr>rq_content_length_n := rq_content_length_n r + int (length snippet)\<rparr> else r)
        in case hd_push env (rq_headers_out r) \<lparr>he_key = ''x-datadog-rum-injected'', he_lowcase_key = [], he_value = ''1'', he_hash = 1\<rparr> of
             None \<Rightarrow> Some \<lparr>hr_rc = NGX_ERROR, hr_handler = hn\<lparr>hn_state := Error\<rparr>, hr_req = r, hr_next_calls = 0, hr_counters = []\<rparr>
           | Some ps \<Rightarrow> Some \<lparr>hr_rc = NGX_OK, hr_handler = hn, hr_req = r\<lparr>rq_headers_out := ps, rq_need_in_memory := True\<rparr>,
                hr_next_calls = 0, hr_counters = []\<rparr>)))"

section \<open>The body phase\<close>

text \<open>
  \<^verbatim>\<open>InjectionHandler::inject\<close>: the link to output for \<open>cl_in\<close>. \<^const>\<open>None\<close> is an access through a null
  pointer: the results of \<^verbatim>\<open>ngx_calloc_buf\<close> and \<^verbatim>\<open>ngx_pnalloc\<close> are not tested.
\<close>

definition inject :: "nat \<Rightarrow> bytes list \<Rightarrow> link_store \<Rightarrow> (nat \<times> link_store) option" where
  "inject cl_in slices s =
     (if slices = [] then Some (cl_in, s)
      else case alloc s of
        (False, s) \<Rightarrow> Some (cl_in, s)
      | (True, s) \<Rightarrow> (case alloc s of
          (False, s) \<Rightarrow> None
        | (True, s) \<Rightarrow> (case alloc s of
            (False, s) \<Rightarrow> None
          | (True, s) \<Rightarrow> so_link s cl_in \<bind> (\<lambda>l.
              let b = ln_buf l; cl = so_fresh s;
                  buf = \<lparr>rb_data = concat slices, rb_flush = rb_flush b, rb_sync = rb_sync b, rb_last_buf = rb_last_buf b,
                         rb_last_in_chain = rb_last_in_chain b, rb_recycled = False\<rparr>;
                  heap = (so_link s)(cl \<mapsto> \<lparr>ln_buf = buf, ln_next = ln_next l\<rparr>);
                  heap = (if rb_recycled b then heap(cl_in \<mapsto> l\<lparr>ln_buf := b\<lparr>rb_data := []\<rparr>\<rparr>) else heap)
              in Some (cl, s\<lparr>so_link := heap, so_fresh := Suc cl\<rparr>)))))"

text \<open>Where \<^verbatim>\<open>current_chain\<close> points to: the variable \<^verbatim>\<open>output_chain\<close> or the next field of a link.\<close>

datatype cursor = Output_chain | Next_of nat

text \<open>An assignment through \<^verbatim>\<open>current_chain\<close>.\<close>

definition set_cursor :: "cursor \<Rightarrow> nat \<Rightarrow> nat option \<times> link_store \<Rightarrow> (nat option \<times> link_store) option" where
  "set_cursor c a os = (case os of (out, s) \<Rightarrow>
     (case c of
        Output_chain \<Rightarrow> Some (Some a, s)
      | Next_of x \<Rightarrow> so_link s x \<bind> (\<lambda>l. Some (out, s\<lparr>so_link := (so_link s)(x \<mapsto> l\<lparr>ln_next := Some a\<rparr>)\<rparr>))))"

record 'i loop_state =
  lp_injector :: 'i
  lp_store :: link_store
  lp_out :: "nat option"
  lp_cursor :: cursor
  lp_previous :: "nat option"
  lp_injected :: bool

text \<open>What the injector is given of a buffer: the size is a \<^verbatim>\<open>uint32_t\<close>.\<close>

definition rum_piece :: "rum_buf \<Rightarrow> bytes" where
  "rum_piece b = take (length (rb_data b) mod 2 ^ 32) (rb_data b)"

text \<open>The loop over the chain; a chain that ends in itself is walked for ever.\<close>

partial_function (option) body_loop :: "'i injector_ops \<Rightarrow> nat option \<Rightarrow> 'i loop_state \<Rightarrow> 'i loop_state option" where
  "body_loop ops cl st =
     (case cl of
        None \<Rightarrow> Some st
      | Some a \<Rightarrow>
          so_link (lp_store st) a \<bind> (\<lambda>l.
          case injector_write ops (lp_injector st) (rum_piece (ln_buf l)) of
            (i, slices, injected) \<Rightarrow>
          inject a slices (lp_store st) \<bind> (\<lambda>(x, s).
          set_cursor (lp_cursor st) x (lp_out st, s) \<bind> (\<lambda>(out, s).
            let st' = \<lparr>lp_injector = i, lp_store = s, lp_out = out, lp_cursor = Next_of x, lp_previous = Some a, lp_injected = injected\<rparr>
            in if injected then Some st'
               else so_link s a \<bind> (\<lambda>l. body_loop ops (ln_next l) st')))))"

text \<open>
  The body filter: the chain given to the next filter, with the store in which it lies, and the counters.
\<close>

record 'i body_result =
  br_handler :: "'i handler"
  br_store :: link_store
  br_out :: "nat option"
  br_counters :: "counter list"

definition on_body_filter :: "'i injector_ops \<Rightarrow> rum_conf \<Rightarrow> nat option \<Rightarrow> 'i handler \<Rightarrow> link_store \<Rightarrow> 'i body_result option" where
  "on_body_filter ops cfg cl_in hn s =
     (if \<not> rum_enable cfg \<or> cl_in = None \<or> hn_state hn \<noteq> Searching
      then Some \<lparr>br_handler = hn, br_store = s, br_out = cl_in, br_counters = []\<rparr>
      else hn_injector hn \<bind> (\<lambda>i.
        body_loop ops cl_in \<lparr>lp_injector = i, lp_store = s, lp_out = None, lp_cursor = Output_chain, lp_previous = None, lp_injected = False\<rparr>
        \<bind> (\<lambda>st.
        let hn = hn\<lparr>hn_injector := Some (lp_injector st)\<rparr> in
        if lp_injected st
        then Some \<lparr>br_handler = hn\<lparr>hn_state := Injected\<rparr>, br_store = lp_store st, br_out = lp_out st, br_counters = [Injection_succeed]\<rparr>
        else lp_previous st \<bind> (\<lambda>p. so_link (lp_store st) p \<bind> (\<lambda>l.
          if rb_last_buf (ln_buf l) \<and> hn_output_padding hn
          then (case injector_end ops (lp_injector st) of
             (i, slices) \<Rightarrow>
               inject p slices (lp_store st) \<bind> (\<lambda>(x, s).
               set_cursor (lp_cursor st) x (lp_out st, s) \<bind> (\<lambda>(out, s).
                 Some \<lparr>br_handler = hn\<lparr>hn_state := Failed, hn_injector := Some i\<rparr>, br_store = s, br_out = out,
                       br_counters = [Injection_failed ''reason:missing_header_tag'']\<rparr>)))
          else Some \<lparr>br_handler = hn, br_store = lp_store st, br_out = lp_out st, br_counters = []\<rparr>)))))"

definition on_log_request :: "hdr_env \<Rightarrow> rum_req \<Rightarrow> counter list option" where
  "on_log_request env r =
     map_option (\<lambda>h. case h of None \<Rightarrow> [] | Some _ \<Rightarrow> [Injection_failed ''status:seen''])
       (search_header env (rq_headers_out r) ''content-security-policy'')"

section \<open>Chains in the store\<close>

fun is_chain :: "(nat \<Rightarrow> link option) \<Rightarrow> nat option \<Rightarrow> nat list \<Rightarrow> bool" where
  "is_chain h p [] = (p = None)"
| "is_chain h p (a # as) = (p = Some a \<and> (case h a of None \<Rightarrow> False | Some l \<Rightarrow> is_chain h (ln_next l) as))"

definition rum_bufs :: "(nat \<Rightarrow> link option) \<Rightarrow> nat list \<Rightarrow> rum_buf list" where
  "rum_bufs h as = map (\<lambda>a. ln_buf (the (h a))) as"

lemma is_chain_frame: "(\<And>y. y \<in> set as \<Longrightarrow> h' y = h y) \<Longrightarrow> is_chain h' p as = is_chain h p as"
  by (induction h p as rule: is_chain.induct) (auto split: option.splits)

lemma is_chain_next: "(\<And>y. map_option ln_next (h' y) = map_option ln_next (h y)) \<Longrightarrow> is_chain h' p as = is_chain h p as"
proof (induction as arbitrary: p)
  case (Cons a as)
  from Cons.prems [of a] Cons.IH [OF Cons.prems] show ?case by (cases "h a"; cases "h' a") auto
qed simp

lemma rum_bufs_frame: "(\<And>y. y \<in> set as \<Longrightarrow> h' y = h y) \<Longrightarrow> rum_bufs h' as = rum_bufs h as"
  by (auto simp: rum_bufs_def)

lemma rum_bufs_last: "os \<noteq> [] \<Longrightarrow> rum_bufs h os = rum_bufs h (butlast os) @ [ln_buf (the (h (last os)))]"
  by (cases os rule: rev_cases) (simp_all add: rum_bufs_def)

lemma is_chain_relink:
  assumes "is_chain h p (os @ as)" and "os \<noteq> []" and "distinct os" and "h (last os) = Some l"
    and "\<And>y. y \<in> set os \<Longrightarrow> y \<noteq> last os \<Longrightarrow> h' y = h y" and "h' (last os) = Some (l\<lparr>ln_next := Some x\<rparr>)"
    and "is_chain h' (Some x) bs"
  shows "is_chain h' p (os @ bs)"
  using assms
proof (induction os arbitrary: p)
  case (Cons o' os)
  show ?case
  proof (cases "os = []")
    case False
    with Cons.prems(3) have "o' \<noteq> last (o' # os)" by auto
    with Cons.prems(5) have "h' o' = h o'" by simp
    with Cons False show ?thesis by (auto split: option.splits)
  qed (use Cons.prems in \<open>auto split: option.splits\<close>)
qed simp

lemma chain_link: "is_chain h p (a # as) \<Longrightarrow> \<exists>l. h a = Some l \<and> p = Some a \<and> is_chain h (ln_next l) as"
  by (auto split: option.splits)

section \<open>The filter on lists of buffers\<close>

text \<open>What the next filter is to receive: every buffer with its slices in place of its data.\<close>

definition rebuilt :: "rum_buf \<Rightarrow> bytes list \<Rightarrow> rum_buf" where
  "rebuilt b slices = (if slices = [] then b else b\<lparr>rb_data := concat slices, rb_recycled := False\<rparr>)"

fun ref_body :: "'i injector_ops \<Rightarrow> 'i \<Rightarrow> rum_buf list \<Rightarrow> rum_buf list \<times> 'i \<times> bool" where
  "ref_body ops i [] = ([], i, False)"
| "ref_body ops i (b # bs) =
     (case injector_write ops i (rum_piece b) of
        (i', slices, injected) \<Rightarrow>
          if injected then (rebuilt b slices # bs, i', True)
          else (case ref_body ops i' bs of (out, i'', found) \<Rightarrow> (rebuilt b slices # out, i'', found)))"

text \<open>Whether the injector left the last buffer it was given as it was.\<close>

fun ref_kept :: "'i injector_ops \<Rightarrow> 'i \<Rightarrow> bool \<Rightarrow> rum_buf list \<Rightarrow> bool" where
  "ref_kept ops i kept [] = kept"
| "ref_kept ops i kept (b # bs) =
     (case injector_write ops i (rum_piece b) of (i', slices, injected) \<Rightarrow> ref_kept ops i' (slices = []) bs)"

text \<open>A buffer after its data was replaced: a recycled buffer is marked as consumed.\<close>

definition consumed :: "rum_buf \<Rightarrow> rum_buf" where
  "consumed b = (if rb_recycled b then b\<lparr>rb_data := []\<rparr> else b)"

lemma consumed_simps [simp]:
  "rb_last_buf (consumed b) = rb_last_buf b" "cs \<noteq> [] \<Longrightarrow> rebuilt (consumed b) cs = rebuilt b cs" "consumed (consumed b) = consumed b"
  "rb_recycled (consumed b) = rb_recycled b"
  by (auto simp: consumed_def rebuilt_def)

lemma inject_total:
  assumes "so_allocs s = []" and "so_link s a = Some l"
  shows "\<exists>x s'. inject a slices s = Some (x, s')"
  using assms by (simp add: inject_def alloc_def Let_def)

lemma inject_ok:
  assumes "so_allocs s = []" and "so_link s a = Some l" and "a < so_fresh s" and "inject a slices s = Some (x, s')"
  shows "so_allocs s' = []" and "so_fresh s \<le> so_fresh s'" and "x < so_fresh s'" and "x = a \<or> so_fresh s \<le> x"
    and "so_link s' x = Some \<lparr>ln_buf = rebuilt (ln_buf l) slices, ln_next = ln_next l\<rparr>"
    and "slices \<noteq> [] \<Longrightarrow> x \<noteq> a"
    and "so_link s' a = Some (if slices = [] then l else l\<lparr>ln_buf := consumed (ln_buf l)\<rparr>)"
    and "\<And>y. y \<noteq> a \<Longrightarrow> y < so_fresh s \<Longrightarrow> so_link s' y = so_link s y"
  using assms
  by (cases "slices = []"; cases "rb_recycled (ln_buf l)"; auto simp: inject_def alloc_def Let_def rebuilt_def consumed_def; fail)+

text \<open>
  The invariant of the loop. \<open>os\<close> are the links output so far, \<open>as\<close> the links still to be read; the last
  link output already leads to the rest of the input, so that the output is a chain at every moment.
\<close>

definition loop_inv :: "nat option \<Rightarrow> nat list \<Rightarrow> nat list \<Rightarrow> 'i loop_state \<Rightarrow> bool" where
  "loop_inv cl os as st \<longleftrightarrow>
     (let s = lp_store st; h = so_link s in
      so_allocs s = [] \<and> distinct (os @ as) \<and> list_all (\<lambda>a. a < so_fresh s) (os @ as) \<and> is_chain h cl as \<and>
      (if os = [] then lp_cursor st = Output_chain
       else lp_cursor st = Next_of (last os) \<and> is_chain h (lp_out st) (os @ as)))"

lemma chain_mem: "is_chain h p as \<Longrightarrow> a \<in> set as \<Longrightarrow> \<exists>l. h a = Some l"
  by (induction h p as rule: is_chain.induct) (auto split: option.splits)

text \<open>One output link: the assignment through the cursor.\<close>

lemma cursor_step:
  assumes inv: "loop_inv (Some a) os (a # as) st" and inj: "inject a slices (lp_store st) = Some (x, s')"
    and l: "so_link (lp_store st) a = Some l"
  shows "\<exists>out s''. set_cursor (lp_cursor st) x (lp_out st, s') = Some (out, s'')
    \<and> loop_inv (ln_next l) (os @ [x]) as \<lparr>lp_injector = i, lp_store = s'', lp_out = out, lp_cursor = Next_of x, lp_previous = p, lp_injected = b\<rparr>
    \<and> rum_bufs (so_link s'') (os @ [x]) = rum_bufs (so_link (lp_store st)) os @ [rebuilt (ln_buf l) slices]
    \<and> rum_bufs (so_link s'') as = rum_bufs (so_link (lp_store st)) as
    \<and> so_link s'' a = Some (if slices = [] then l else l\<lparr>ln_buf := consumed (ln_buf l)\<rparr>)"
proof -
  let ?s = "lp_store st"
  let ?h = "so_link ?s" and ?h1 = "so_link s'"
  from inv have d: "distinct (os @ a # as)" and fr: "\<And>y. y \<in> set (os @ a # as) \<Longrightarrow> y < so_fresh ?s" and al: "so_allocs ?s = []"
    and ch: "is_chain ?h (Some a) (a # as)" by (auto simp: loop_inv_def Let_def list_all_iff)
  have lt: "a < so_fresh ?s" using fr by simp
  note x = inject_ok(1-5) [OF al l lt inj] and a = inject_ok(7) [OF al l lt inj] and keep = inject_ok(8) [OF al l lt inj]
  have new: "x \<notin> set os" "x \<notin> set as" using x(4) d fr by force+
  have h1: "?h1 y = ?h y" if "y \<in> set os \<union> set as" for y using that d fr by (intro keep) auto
  have fr': "list_all (\<lambda>a. a < so_fresh s') (os @ x # as)" using fr x(2,3) by (force simp: list_all_iff)
  have as1: "is_chain ?h (ln_next l) as" using ch l by simp
  show ?thesis
  proof (cases "os = []")
    case True
    have "is_chain ?h1 (ln_next l) as" using as1 is_chain_frame [of as ?h1 ?h] h1 by simp
    moreover have "set_cursor (lp_cursor st) x (lp_out st, s') = Some (Some x, s')"
      using inv True by (simp add: loop_inv_def Let_def set_cursor_def)
    ultimately show ?thesis using True x(1,5) a new d fr' rum_bufs_frame [of as ?h1 ?h] h1
      by (auto simp: loop_inv_def Let_def rum_bufs_def)
  next
    case False
    let ?y = "last os"
    from inv False have cu: "lp_cursor st = Next_of ?y" "is_chain ?h (lp_out st) (os @ a # as)" by (simp_all add: loop_inv_def Let_def)
    have y: "?y \<in> set os" using False by simp
    then obtain ly where ly: "?h ?y = Some ly" using chain_mem [OF cu(2)] by auto
    let ?h2 = "?h1(?y \<mapsto> ly\<lparr>ln_next := Some x\<rparr>)"
    have ne: "?y \<noteq> a" "?y \<noteq> x" "?y \<notin> set as" using y new d by auto
    have h2: "?h2 z = ?h z" if "z \<in> set os \<union> set as" "z \<noteq> ?y" for z using that h1 by simp
    have "is_chain ?h2 (ln_next l) as = is_chain ?h (ln_next l) as" using h2 ne(3) by (intro is_chain_frame) auto
    with as1 have rest: "is_chain ?h2 (ln_next l) as" by simp
    have "is_chain ?h2 (lp_out st) (os @ x # as)"
      by (rule is_chain_relink [OF cu(2) False _ ly]) (use d h2 rest x(5) ne in auto)
    moreover have "rum_bufs ?h2 os = rum_bufs ?h os" using h2 ly by (auto simp: rum_bufs_def)
    moreover have "rum_bufs ?h2 as = rum_bufs ?h as" using h2 ne(3) by (intro rum_bufs_frame) auto
    moreover have "set_cursor (lp_cursor st) x (lp_out st, s') = Some (lp_out st, s'\<lparr>so_link := ?h2\<rparr>)"
      using cu(1) h1 [of ?y] y ly by (simp add: set_cursor_def)
    ultimately show ?thesis using x(1,5) a new d fr' rest ne
      by (auto simp: loop_inv_def Let_def rum_bufs_def)
  qed
qed

text \<open>
  The link read last: when the injector kept its buffer, it is the last link of the output; otherwise it is not in the
  output, and its buffer is consumed.
\<close>

definition prev_ok :: "nat option \<Rightarrow> rum_buf \<Rightarrow> bool \<Rightarrow> nat list \<Rightarrow> 'i loop_state \<Rightarrow> bool" where
  "prev_ok cl b kept os st = (case lp_previous st of None \<Rightarrow> False | Some p \<Rightarrow>
     p < so_fresh (lp_store st) \<and> so_link (lp_store st) p = Some \<lparr>ln_buf = if kept then b else consumed b, ln_next = cl\<rparr>
     \<and> (if kept then os \<noteq> [] \<and> last os = p else p \<notin> set os))"

lemma body_loop_correct:
  assumes "loop_inv cl os as st" and "os \<noteq> [] \<or> as \<noteq> []" and "as = [] \<Longrightarrow> prev_ok cl b kept os st \<and> \<not> lp_injected st"
    and "ref_body ops (lp_injector st) (rum_bufs (so_link (lp_store st)) as) = (out, i, found)"
  shows "\<exists>st' os'. body_loop ops cl st = Some st' \<and> lp_injector st' = i \<and> lp_injected st' = found
    \<and> is_chain (so_link (lp_store st')) (lp_out st') os' \<and> distinct os'
    \<and> rum_bufs (so_link (lp_store st')) os' = rum_bufs (so_link (lp_store st)) os @ out
    \<and> (\<not> found \<longrightarrow> loop_inv None os' [] st' \<and> os' \<noteq> []
         \<and> prev_ok None (if as = [] then b else last (rum_bufs (so_link (lp_store st)) as))
             (ref_kept ops (lp_injector st) kept (rum_bufs (so_link (lp_store st)) as)) os' st')"
  using assms
proof (induction as arbitrary: cl os st b kept out)
  case Nil
  then have "cl = None" by (simp add: loop_inv_def Let_def)
  with Nil show ?case by (subst body_loop.simps) (auto simp: loop_inv_def Let_def rum_bufs_def)
next
  case (Cons a as)
  let ?h = "so_link (lp_store st)"
  obtain l where l: "?h a = Some l" "cl = Some a" "is_chain ?h (ln_next l) as"
    using Cons.prems(1) chain_link [of ?h cl a as] by (auto simp: loop_inv_def Let_def)
  have b0: "rum_bufs ?h (a # as) = ln_buf l # rum_bufs ?h as" using l(1) by (simp add: rum_bufs_def)
  obtain i' slices inj where w: "injector_write ops (lp_injector st) (rum_piece (ln_buf l)) = (i', slices, inj)"
    using prod_cases3 by blast
  have fr: "a < so_fresh (lp_store st)" "so_allocs (lp_store st) = []" using Cons.prems(1) by (simp_all add: loop_inv_def Let_def)
  obtain x s' where inj': "inject a slices (lp_store st) = Some (x, s')" using inject_total [OF fr(2) l(1)] by blast
  note fresh' = inject_ok(2) [OF fr(2) l(1) fr(1) inj']
  note step = cursor_step [OF Cons.prems(1) [unfolded l(2)] inj' l(1), where i = i' and p = "Some a" and b = inj]
  obtain out' s'' where s'': "set_cursor (lp_cursor st) x (lp_out st, s') = Some (out', s'')" 
    "loop_inv (ln_next l) (os @ [x]) as \<lparr>lp_injector = i', lp_store = s'', lp_out = out', lp_cursor = Next_of x, lp_previous = Some a, lp_injected = inj\<rparr>"
    "rum_bufs (so_link s'') (os @ [x]) = rum_bufs ?h os @ [rebuilt (ln_buf l) slices]" "rum_bufs (so_link s'') as = rum_bufs ?h as"
    "so_link s'' a = Some (if slices = [] then l else l\<lparr>ln_buf := consumed (ln_buf l)\<rparr>)"
    using step by blast
  let ?st = "\<lparr>lp_injector = i', lp_store = s'', lp_out = out', lp_cursor = Next_of x, lp_previous = Some a, lp_injected = inj\<rparr>"
  have fresh: "so_fresh s'' = so_fresh s'" using s''(1) by (auto simp: set_cursor_def split: cursor.splits bind_splits)
  have run: "body_loop ops cl st = (if inj then Some ?st else body_loop ops (ln_next l) ?st)"
    using s''(5) by (subst body_loop.simps) (auto simp: l(1,2) w inj' s''(1) Let_def)
  show ?case
  proof (cases inj)
    case True
    with Cons.prems(4) w have o: "out = rebuilt (ln_buf l) slices # rum_bufs ?h as" "i = i'" "found" by (simp_all add: b0)
    have "rum_bufs (so_link s'') ((os @ [x]) @ as) = rum_bufs (so_link s'') (os @ [x]) @ rum_bufs (so_link s'') as" by (simp add: rum_bufs_def)
    with run True o s''(2,3,4) show ?thesis
      by (intro exI [of _ ?st] exI [of _ "(os @ [x]) @ as"]) (auto simp: loop_inv_def Let_def)
  next
    case False
    obtain out2 where r: "ref_body ops (lp_injector ?st) (rum_bufs (so_link (lp_store ?st)) as) = (out2, i, found)"
      and o: "out = rebuilt (ln_buf l) slices # out2"
      using Cons.prems(4) w False by (auto simp: b0 s''(4) split: prod.splits)
    have "slices = [] \<Longrightarrow> x = a" using inj' by (simp add: inject_def)
    moreover have "slices \<noteq> [] \<Longrightarrow> a \<notin> set (os @ [x])"
      using inject_ok(6) [OF fr(2) l(1) fr(1) inj'] Cons.prems(1) by (auto simp: loop_inv_def Let_def)
    ultimately have p: "prev_ok (ln_next l) (ln_buf l) (slices = []) (os @ [x]) ?st"
      using s''(5) fresh fresh' fr(1) by (auto simp: prev_ok_def)
    have ih: "\<exists>st' os'. body_loop ops (ln_next l) ?st = Some st' \<and> lp_injector st' = i \<and> lp_injected st' = found
      \<and> is_chain (so_link (lp_store st')) (lp_out st') os' \<and> distinct os'
      \<and> rum_bufs (so_link (lp_store st')) os' = rum_bufs (so_link (lp_store ?st)) (os @ [x]) @ out2
      \<and> (\<not> found \<longrightarrow> loop_inv None os' [] st' \<and> os' \<noteq> []
         \<and> prev_ok None (if as = [] then ln_buf l else last (rum_bufs (so_link (lp_store ?st)) as))
             (ref_kept ops (lp_injector ?st) (slices = []) (rum_bufs (so_link (lp_store ?st)) as)) os' st')"
      by (rule Cons.IH [OF s''(2) _ _ r]) (use p False in simp_all)
    have kept: "ref_kept ops (lp_injector ?st) (slices = []) (rum_bufs (so_link (lp_store ?st)) as)
        = ref_kept ops (lp_injector st) kept (rum_bufs ?h (a # as))"
      by (simp add: b0 w s''(4))
    have last: "(if as = [] then ln_buf l else last (rum_bufs (so_link (lp_store ?st)) as)) = last (rum_bufs ?h (a # as))"
      by (simp add: b0 s''(4)) (simp add: rum_bufs_def)
    from ih [unfolded last kept] show ?thesis unfolding run by (simp add: False s''(3) o)
  qed
qed

text \<open>What the next filter is to receive when the page is closed: \<^const>\<open>None\<close> is a chain that never ends.\<close>

definition closed_body :: "rum_buf list \<Rightarrow> rum_buf \<Rightarrow> bool \<Rightarrow> bytes list \<Rightarrow> rum_buf list option" where
  "closed_body out b kept cs =
     (if cs = [] then (if kept then None else Some (out @ [consumed b]))
      else Some ((if kept then butlast out @ [consumed b] else out) @ [rebuilt b cs]))"

definition handed_on :: "(nat \<Rightarrow> link option) \<Rightarrow> nat option \<Rightarrow> rum_buf list option \<Rightarrow> bool" where
  "handed_on h p bufs = (case bufs of
     None \<Rightarrow> (\<forall>os. \<not> is_chain h p os)
   | Some bs \<Rightarrow> (\<exists>os. is_chain h p os \<and> distinct os \<and> rum_bufs h os = bs))"

lemma no_chain_cycle: "h x = Some l \<Longrightarrow> ln_next l = Some x \<Longrightarrow> \<not> is_chain h (Some x) as"
  by (induction as) auto

lemma no_chain_to_cycle:
  assumes "is_chain h p os" and "os \<noteq> []" and "distinct os" and "\<And>y. y \<in> set os \<Longrightarrow> y \<noteq> last os \<Longrightarrow> h' y = h y"
    and "h' (last os) = Some l" and "ln_next l = Some (last os)"
  shows "\<not> is_chain h' p as"
  using assms
proof (induction os arbitrary: p as)
  case (Cons o' os)
  show ?case
  proof (cases "os = []")
    case True
    with Cons.prems show ?thesis using no_chain_cycle [of h' o' l as] by auto
  next
    case False
    with Cons.prems(3) have "o' \<noteq> last (o' # os)" by auto
    with Cons.prems(4) have h: "h' o' = h o'" by simp
    obtain l' where l': "h o' = Some l'" "p = Some o'" "is_chain h (ln_next l') os" using chain_link [OF Cons.prems(1)] by blast
    have "\<not> is_chain h' (ln_next l') as'" for as'
      by (rule Cons.IH [OF l'(3) False]) (use Cons.prems False in auto)
    with h l' show ?thesis by (cases as) auto
  qed
qed simp

lemma padding_step:
  assumes inv: "loop_inv None os [] st" "os \<noteq> []" and prev: "prev_ok None b kept os st" "lp_previous st = Some p"
    and out: "rum_bufs (so_link (lp_store st)) os = out"
  shows "\<exists>x s1 out' s2. inject p cs (lp_store st) = Some (x, s1) \<and> set_cursor (lp_cursor st) x (lp_out st, s1) = Some (out', s2)
    \<and> handed_on (so_link s2) out' (closed_body out b kept cs)"
proof -
  let ?h = "so_link (lp_store st)" and ?y = "last os"
  from inv have i: "so_allocs (lp_store st) = []" "lp_cursor st = Next_of ?y" "distinct os" "is_chain ?h (lp_out st) os"
    "\<And>y. y \<in> set os \<Longrightarrow> y < so_fresh (lp_store st)" by (auto simp: loop_inv_def Let_def list_all_iff)
  let ?l = "\<lparr>ln_buf = if kept then b else consumed b, ln_next = None\<rparr>"
  have p: "p < so_fresh (lp_store st)" "?h p = Some ?l" "if kept then ?y = p else p \<notin> set os" using prev by (auto simp: prev_ok_def)
  obtain x s1 where x: "inject p cs (lp_store st) = Some (x, s1)" using inject_total [OF i(1) p(2)] by blast
  note ok = inject_ok [OF i(1) p(2,1) x]
  have y: "?y \<in> set os" using inv(2) by simp
  obtain ly where ly: "so_link s1 ?y = Some ly" using chain_mem [OF i(4) y] ok(7) ok(8) [of ?y] i(5) [OF y] by (cases "?y = p") auto
  let ?h2 = "(so_link s1)(?y \<mapsto> ly\<lparr>ln_next := Some x\<rparr>)"
  have same: "so_link s1 z = ?h z" if "z \<in> set os" "z \<noteq> ?y" for z
    using that ok(8) [of z] i(5) p(3) by (cases "z = p") (auto split: if_splits)
  have cur: "set_cursor (lp_cursor st) x (lp_out st, s1) = Some (lp_out st, s1\<lparr>so_link := ?h2\<rparr>)"
    using i(2) ly by (simp add: set_cursor_def)
  have outs: "out = rum_bufs ?h (butlast os) @ [ln_buf (the (?h ?y))]"
    using out rum_bufs_last [OF inv(2), of ?h] by simp
  have bl: "rum_bufs ?h2 (butlast os) = rum_bufs ?h (butlast os)"
  proof (rule rum_bufs_frame)
    fix z assume z: "z \<in> set (butlast os)"
    then have "z \<noteq> ?y" using i(3) inv(2) by (cases os rule: rev_cases) auto
    with same [OF in_set_butlastD [OF z]] show "?h2 z = ?h z" by simp
  qed
  have link: "handed_on ?h2 (lp_out st) (Some (rum_bufs ?h (butlast os) @ [ln_buf ly, ln_buf lx]))"
    if lx: "?h2 x = Some lx" "ln_next lx = None" "x \<notin> set os" for lx
  proof -
    obtain l0 where l0: "?h ?y = Some l0" using chain_mem [OF i(4) y] by blast
    have nx: "ln_next ly = ln_next l0"
      using ok(7) ok(8) [of ?y] i(5) [OF y] ly l0 p(2) by (cases "?y = p") (auto split: if_splits)
    let ?g = "?h(?y \<mapsto> ly)"
    have "is_chain ?g (lp_out st) os" using i(4) is_chain_next [of ?g ?h "lp_out st" os] nx l0 by simp
    then have g: "is_chain ?g (lp_out st) (os @ [])" by simp
    have "is_chain ?h2 (Some x) [x]" using lx(1,2) by simp
    then have "is_chain ?h2 (lp_out st) (os @ [x])"
      by (rule is_chain_relink [OF g inv(2) i(3), of ly ?h2 x, rotated 3]) (simp_all add: same)
    moreover have "rum_bufs ?h2 (os @ [x]) = rum_bufs ?h (butlast os) @ [ln_buf ly, ln_buf lx]"
    proof -
      have "rum_bufs ?h2 (os @ [x]) = rum_bufs ?h2 os @ [ln_buf (the (?h2 x))]" by (simp add: rum_bufs_def)
      with bl lx(1) rum_bufs_last [OF inv(2), of ?h2] show ?thesis by simp
    qed
    ultimately show ?thesis using i(3) lx(3) by (auto simp: handed_on_def)
  qed
  have "handed_on ?h2 (lp_out st) (closed_body out b kept cs)"
  proof (cases "cs = []")
    case True
    then have xp: "x = p" "so_link s1 = ?h" using x by (auto simp: inject_def)
    show ?thesis
    proof (cases kept)
      case k: True
      have "\<not> is_chain ?h2 (lp_out st) as" for as
        by (rule no_chain_to_cycle [OF i(4) inv(2) i(3)]) (use same xp p(3) k in auto)
      with True k show ?thesis by (simp add: handed_on_def closed_body_def)
    next
      case k: False
      with p(3) have "x \<noteq> ?y" "x \<notin> set os" using xp y by auto
      with link [of ?l] True k outs xp p(2) ly show ?thesis by (simp add: closed_body_def)
    qed
  next
    case False
    have xn: "x \<notin> set os" using ok(4,6) False i(5) p(1) by (metis linorder_not_less)
    then have "x \<noteq> ?y" using y by auto
    with ok(5) have lx: "?h2 x = Some \<lparr>ln_buf = rebuilt (ln_buf ?l) cs, ln_next = None\<rparr>" by simp
    have "ln_buf ly = (if kept then consumed b else ln_buf (the (?h ?y)))"
    proof (cases kept)
      case True
      with p(3) ok(7) ly False show ?thesis by auto
    next
      case k: False
      with p(3) y have "?y \<noteq> p" by auto
      with ok(8) [of ?y] i(5) [OF y] ly have "?h ?y = Some ly" by simp
      with k show ?thesis by simp
    qed
    with link [OF lx _ xn] False outs show ?thesis by (cases kept) (simp_all add: closed_body_def)
  qed
  with x cur show ?thesis by (intro exI [of _ x] exI [of _ s1] exI [of _ "lp_out st"] exI [of _ "s1\<lparr>so_link := ?h2\<rparr>"]) simp
qed

text \<open>
  C38. The body filter while it searches, on a chain of distinct links and with memory available, for any injector: the next
  filter receives a chain whose buffers are those of the input with the slices of the injector in place of their
  data, up to the buffer in which the SDK was injected. When none was, the length was announced and the body is complete, the
  page is closed: the closing slices of the injector follow as one more buffer, and the data of a recycled last buffer that
  the injector had kept is lost, since it is marked as consumed after it was put out. When the injector closes the page
  with no slice, the last buffer is put out again, or, when the injector had kept it, is linked to itself, so that the chain
  never ends. The handler stops searching exactly when it injected or closed the page.
\<close>

theorem rum_body_filtered:
  assumes "rum_enable cfg" and "hn_state hn = Searching" and "hn_injector hn = Some i"
    and chain: "is_chain (so_link s) cl_in as" "as \<noteq> []" "distinct as" "list_all (\<lambda>a. a < so_fresh s) as"
    and "so_allocs s = []"
    and ref: "ref_body ops i (rum_bufs (so_link s) as) = (out, j, found)"
  shows "\<exists>br. on_body_filter ops cfg cl_in hn s = Some br
    \<and> (let b = last (rum_bufs (so_link s) as); pad = \<not> found \<and> rb_last_buf b \<and> hn_output_padding hn;
           kept = ref_kept ops i False (rum_bufs (so_link s) as)
       in handed_on (so_link (br_store br)) (br_out br) (if pad then closed_body out b kept (snd (injector_end ops j)) else Some out)
        \<and> hn_state (br_handler br) = (if found then Injected else if pad then Failed else Searching)
        \<and> br_counters br = (if found then [Injection_succeed] else if pad then [Injection_failed ''reason:missing_header_tag''] else []))"
proof -
  let ?st = "\<lparr>lp_injector = i, lp_store = s, lp_out = None, lp_cursor = Output_chain, lp_previous = None, lp_injected = False\<rparr>"
  let ?b = "last (rum_bufs (so_link s) as)" and ?k = "ref_kept ops i False (rum_bufs (so_link s) as)"
  have inv: "loop_inv cl_in [] as ?st" using assms by (simp add: loop_inv_def)
  obtain st' os' where st': "body_loop ops cl_in ?st = Some st'" "lp_injector st' = j" "lp_injected st' = found"
    "is_chain (so_link (lp_store st')) (lp_out st') os'" "distinct os'" "rum_bufs (so_link (lp_store st')) os' = out"
    "\<not> found \<Longrightarrow> loop_inv None os' [] st' \<and> os' \<noteq> [] \<and> prev_ok None ?b ?k os' st'"
    using body_loop_correct [OF inv, of undefined False ops out j found] chain(2) ref by (auto simp: rum_bufs_def)
  have cl: "cl_in \<noteq> None" using chain(1,2) by (cases as) auto
  have prev: "\<exists>p l. lp_previous st' = Some p \<and> so_link (lp_store st') p = Some l \<and> rb_last_buf (ln_buf l) = rb_last_buf ?b" if "\<not> found"
    using st'(7) [OF that] by (auto simp: prev_ok_def split: option.splits)
  show ?thesis
  proof (cases "\<not> found \<and> rb_last_buf ?b \<and> hn_output_padding hn")
    case False
    have "on_body_filter ops cfg cl_in hn s = Some \<lparr>br_handler = hn\<lparr>hn_injector := Some j, hn_state := if found then Injected else Searching\<rparr>,
        br_store = lp_store st', br_out = lp_out st', br_counters = if found then [Injection_succeed] else []\<rparr>"
    proof (cases found)
      case True
      with assms(1-3) cl st'(1-3) show ?thesis by (simp add: on_body_filter_def)
    next
      case F: False
      with prev False assms(1-3) cl st'(1-3) show ?thesis by (auto simp: on_body_filter_def)
    qed
    with False st'(4-6) show ?thesis by (intro exI conjI) (assumption | auto simp: Let_def handed_on_def)+
  next
    case True
    from True prev obtain p l where p: "lp_previous st' = Some p" "so_link (lp_store st') p = Some l" "rb_last_buf (ln_buf l)" by auto
    obtain i' cs where e: "injector_end ops j = (i', cs)" by (cases "injector_end ops j")
    obtain x s1 out' s2 where x: "inject p cs (lp_store st') = Some (x, s1)" "set_cursor (lp_cursor st') x (lp_out st', s1) = Some (out', s2)"
      "handed_on (so_link s2) out' (closed_body out ?b ?k cs)"
      using padding_step [of os' st' ?b ?k p out cs] st'(6,7) p(1) True by blast
    have "on_body_filter ops cfg cl_in hn s = Some \<lparr>br_handler = hn\<lparr>hn_injector := Some i', hn_state := Failed\<rparr>, br_store = s2,
        br_out = out', br_counters = [Injection_failed ''reason:missing_header_tag'']\<rparr>"
      using True assms(1-3) cl st'(1-3) p x(1,2) by (auto simp: on_body_filter_def Let_def e)
    with True x(3) e show ?thesis by (intro exI conjI) (assumption | simp add: Let_def)+
  qed
qed

text \<open>An injector that looks for a buffer that ends the head of the page, for examples.\<close>

definition plain_injector :: "unit injector_ops" where
  "plain_injector = \<lparr>injector_create = (\<lambda>_. ()), injector_write = (\<lambda>_ d. if d = ''</head>'' then ((), [''<s>'', d], True) else ((), [], False)),
     injector_end = (\<lambda>_. ((), [''   '']))\<rparr>"

definition plain_buf :: "bytes \<Rightarrow> bool \<Rightarrow> rum_buf" where
  "plain_buf d lst = \<lparr>rb_data = d, rb_flush = False, rb_sync = False, rb_last_buf = lst, rb_last_in_chain = lst, rb_recycled = False\<rparr>"

definition two_links :: "rum_buf \<Rightarrow> rum_buf \<Rightarrow> link_store" where
  "two_links b c = \<lparr>so_link = [0 \<mapsto> \<lparr>ln_buf = b, ln_next = Some 1\<rparr>, 1 \<mapsto> \<lparr>ln_buf = c, ln_next = None\<rparr>], so_fresh = 2, so_allocs = []\<rparr>"

theorem rum_body_filtered_witness:
  "\<exists>br os. on_body_filter plain_injector \<lparr>rum_enable = True, rum_snippet = Some ''<s>''\<rparr> (Some 0)
        \<lparr>hn_state = Searching, hn_output_padding = True, hn_injector = Some ()\<rparr> (two_links (plain_buf ''<p>'' False) (plain_buf ''</p>'' True)) = Some br
     \<and> is_chain (so_link (br_store br)) (br_out br) os
     \<and> rum_bufs (so_link (br_store br)) os = [plain_buf ''<p>'' False, plain_buf ''</p>'' True, plain_buf ''   '' True]
     \<and> hn_state (br_handler br) = Failed"
proof -
  let ?s = "two_links (plain_buf ''<p>'' False) (plain_buf ''</p>'' True)"
  let ?hn = "\<lparr>hn_state = Searching, hn_output_padding = True, hn_injector = Some ()\<rparr>"
  let ?cfg = "\<lparr>rum_enable = True, rum_snippet = Some ''<s>''\<rparr>"
  have b: "rum_bufs (so_link ?s) [0, 1] = [plain_buf ''<p>'' False, plain_buf ''</p>'' True]" by (simp add: rum_bufs_def two_links_def)
  have 1: "is_chain (so_link ?s) (Some 0) [0, 1]" "list_all (\<lambda>a. a < so_fresh ?s) [0, 1]" "so_allocs ?s = []" by (simp_all add: two_links_def)
  have 4: "ref_body plain_injector () (rum_bufs (so_link ?s) [0, 1]) = ([plain_buf ''<p>'' False, plain_buf ''</p>'' True], (), False)"
    unfolding b by (simp add: plain_injector_def plain_buf_def rum_piece_def rebuilt_def)
  have "rum_enable ?cfg" "hn_state ?hn = Searching" "hn_injector ?hn = Some ()" by simp_all
  from rum_body_filtered [OF this 1(1) _ _ 1(2,3) 4] show ?thesis
    unfolding b by (auto simp: Let_def plain_buf_def rebuilt_def plain_injector_def closed_body_def handed_on_def consumed_def rum_piece_def)
qed

text \<open>
  Without memory for the link of the closing buffer, \<^const>\<open>inject\<close> gives back the link it was called
  for, which is already the last one of the output: the link is made its own successor, and the next
  filter is handed a chain without end. The same happens when the injector closes the page with no slice.
\<close>

theorem padding_makes_cycle:
  assumes "rum_enable cfg" and "hn_state hn = Searching" and "hn_injector hn = Some i" and "hn_output_padding hn"
    and l: "so_link s a = Some l" "ln_next l = None" "rb_last_buf (ln_buf l)"
    and w: "injector_write ops i (rum_piece (ln_buf l)) = (j, [], False)"
    and no_link: "snd (injector_end ops j) = [] \<or> so_allocs s = False # bs"
  shows "\<exists>br. on_body_filter ops cfg (Some a) hn s = Some br \<and> br_out br = Some a
    \<and> map_option ln_next (so_link (br_store br) a) = Some (Some a) \<and> (\<forall>as. \<not> is_chain (so_link (br_store br)) (br_out br) as)"
proof -
  let ?st = "\<lparr>lp_injector = i, lp_store = s, lp_out = None, lp_cursor = Output_chain, lp_previous = None, lp_injected = False\<rparr>"
  have loop: "body_loop ops (Some a) ?st = Some \<lparr>lp_injector = j, lp_store = s, lp_out = Some a, lp_cursor = Next_of a, lp_previous = Some a, lp_injected = False\<rparr>"
    by (subst body_loop.simps, subst body_loop.simps) (simp add: l w inject_def set_cursor_def Let_def)
  obtain k sl where e: "injector_end ops j = (k, sl)" by (cases "injector_end ops j")
  obtain s1 where s1: "inject a sl s = Some (a, s1)" "so_link s1 a = Some l"
    using no_link e l(1) by (cases "sl = []") (auto simp: inject_def alloc_def)
  let ?h = "(so_link s1)(a \<mapsto> l\<lparr>ln_next := Some a\<rparr>)"
  have cyc: "\<not> is_chain ?h (Some a) as" for as
    by (induction as) auto
  have "on_body_filter ops cfg (Some a) hn s = Some \<lparr>br_handler = hn\<lparr>hn_injector := Some k, hn_state := Failed\<rparr>, br_store = s1\<lparr>so_link := ?h\<rparr>,
      br_out = Some a, br_counters = [Injection_failed ''reason:missing_header_tag'']\<rparr>"
    using assms(1-4) loop l s1 e by (simp add: on_body_filter_def set_cursor_def)
  with cyc show ?thesis by simp
qed

theorem padding_makes_cycle_witness:
  "\<exists>br. on_body_filter plain_injector \<lparr>rum_enable = True, rum_snippet = Some ''<s>''\<rparr> (Some 0)
        \<lparr>hn_state = Searching, hn_output_padding = True, hn_injector = Some ()\<rparr>
        \<lparr>so_link = [0 \<mapsto> \<lparr>ln_buf = plain_buf ''<p>'' True, ln_next = None\<rparr>], so_fresh = 1, so_allocs = [False]\<rparr> = Some br
     \<and> map_option ln_next (so_link (br_store br) 0) = Some (Some 0)"
proof -
  let ?s = "\<lparr>so_link = [0 \<mapsto> \<lparr>ln_buf = plain_buf ''<p>'' True, ln_next = None\<rparr>], so_fresh = 1, so_allocs = [False]\<rparr>"
  let ?hn = "\<lparr>hn_state = Searching, hn_output_padding = True, hn_injector = Some ()\<rparr>"
  let ?cfg = "\<lparr>rum_enable = True, rum_snippet = Some ''<s>''\<rparr>"
  let ?l = "\<lparr>ln_buf = plain_buf ''<p>'' True, ln_next = None\<rparr>"
  have 1: "rum_enable ?cfg" "hn_state ?hn = Searching" "hn_injector ?hn = Some ()" "hn_output_padding ?hn" by simp_all
  have 2: "so_link ?s 0 = Some ?l" "ln_next ?l = None" "rb_last_buf (ln_buf ?l)" by (simp_all add: plain_buf_def)
  have 3: "injector_write plain_injector () (rum_piece (ln_buf ?l)) = ((), [], False)"
    by (simp add: plain_injector_def plain_buf_def rum_piece_def)
  have 4: "snd (injector_end plain_injector ()) = [] \<or> so_allocs ?s = False # []" by simp
  from padding_makes_cycle [OF 1 2 3 4] show ?thesis by blast
qed

end
