(* ===== verification/Rum_Config.thy ===== *)
theory Rum_Config
  imports Rum_Injection
begin

text \<open>
  Configuration of the RUM injection: \<^verbatim>\<open>src/rum/config.cpp\<close>. The snippet generator of the SDK is a
  parameter, as are \<^verbatim>\<open>strtod\<close> and nginx's configuration parser, of which the model sees the arguments
  of the statements inside the block.
\<close>

section \<open>Values\<close>

definition parse_bool :: "bytes \<Rightarrow> bool option" where
  "parse_bool value =
     (let lower = map tolower value
      in if lower \<in> {''true'', ''1'', ''yes'', ''on''} then Some True
         else if lower \<in> {''false'', ''0'', ''no'', ''off''} then Some False
         else None)"

text \<open>
  \<^verbatim>\<open>std::from_chars\<close> into an \<^verbatim>\<open>int\<close>: a minus sign if there is one, then digits as far as they go;
  \<^const>\<open>None\<close> when there is no digit or the number is out of range.
\<close>

definition decimal_val :: "bytes \<Rightarrow> int" where
  "decimal_val ds = foldl (\<lambda>n c. 10 * n + (int (ord c) - 48)) 0 ds"

definition from_chars_int :: "bytes \<Rightarrow> int option" where
  "from_chars_int s =
     (let neg = (s \<noteq> [] \<and> hd s = CHR ''-''); ds = takeWhile isdigit (if neg then tl s else s);
          n = (if neg then - decimal_val ds else decimal_val ds)
      in if ds = [] \<or> n < - (2 ^ 31) \<or> 2 ^ 31 \<le> n then None else Some n)"

definition parse_rum_version :: "bytes \<Rightarrow> int option" where
  "parse_rum_version config_version =
     (if length config_version < 2 \<or> hd config_version \<noteq> CHR ''v'' then None
      else from_chars_int (tl config_version))"

section \<open>The JSON overlay\<close>

datatype 'd rum_json = RString bytes | RBool bool | RNumber 'd | RArray "bytes list"

abbreviation c_str :: "bytes \<Rightarrow> bytes" where
  "c_str s \<equiv> takeWhile (\<lambda>c. c \<noteq> NUL) s"

text \<open>\<open>strtod\<close> gives \<^const>\<open>None\<close> when it reads nothing.\<close>

definition rum_member :: "(bytes \<Rightarrow> 'd option) \<Rightarrow> bytes \<Rightarrow> bytes list \<Rightarrow> 'd rum_json" where
  "rum_member strtod key values =
     (if key \<in> {''sessionSampleRate'', ''sessionReplaySampleRate''} then
        (case strtod (c_str (hd values)) of None \<Rightarrow> RString (c_str (hd values)) | Some d \<Rightarrow> RNumber d)
      else if key \<in> {''trackResources'', ''trackLongTasks'', ''trackUserInteractions''} then
        (case parse_bool (hd values) of Some b \<Rightarrow> RBool b | None \<Rightarrow> RString (c_str (hd values)))
      else if length values = 1 then RString (c_str (hd values))
      else RArray (map c_str values))"

type_synonym rum_config_map = "(bytes \<times> bytes list) list"

definition make_rum_json_config :: "(bytes \<Rightarrow> 'd option) \<Rightarrow> int \<Rightarrow> rum_config_map \<Rightarrow> int \<times> (bytes \<times> 'd rum_json) list" where
  "make_rum_json_config strtod config_version config =
     (config_version, map (\<lambda>(key, values). (c_str key, rum_member strtod key values)) (filter (\<lambda>(key, values). values \<noteq> []) config))"

section \<open>The directive\<close>

text \<open>\<^verbatim>\<open>operator[]\<close> followed by an assignment.\<close>

fun assign :: "'k \<Rightarrow> 'v \<Rightarrow> ('k \<times> 'v) list \<Rightarrow> ('k \<times> 'v) list" where
  "assign k v [] = [(k, v)]"
| "assign k v ((k', v') # m) = (if k = k' then (k, v) # m else (k', v') # assign k v m)"

datatype rum_error = Invalid_version bytes | Missing_arguments | Empty_key | Script_failed bytes

definition set_config :: "bytes list \<Rightarrow> rum_config_map \<Rightarrow> rum_error + rum_config_map" where
  "set_config args rum_config =
     (if length args < 2 then Inl Missing_arguments
      else if hd args = [] then Inl Empty_key
      else Inr (assign (hd args) (tl args) rum_config))"

fun parse_block :: "bytes list list \<Rightarrow> rum_config_map \<Rightarrow> rum_error + rum_config_map" where
  "parse_block [] m = Inr m"
| "parse_block (args # rest) m = (case set_config args m of Inl e \<Rightarrow> Inl e | Inr m' \<Rightarrow> parse_block rest m')"

text \<open>A location's RUM settings; \<^const>\<open>None\<close> for the flag is \<^verbatim>\<open>NGX_CONF_UNSET\<close>.\<close>

record rum_loc =
  rl_enable :: "bool option"
  rl_snippet :: "bytes option"
  rl_application_id_tag :: bytes
  rl_remote_config_tag :: bytes

definition apply_rum_config_tags :: "rum_config_map \<Rightarrow> rum_loc \<Rightarrow> rum_loc" where
  "apply_rum_config_tags config lc =
     (let lc = lc\<lparr>rl_remote_config_tag := ''remote_config_used:false''\<rparr>;
          lc = (case map_of config ''applicationId'' of
                  Some (v # vs) \<Rightarrow> lc\<lparr>rl_application_id_tag := ''application_id:'' @ v\<rparr> | _ \<Rightarrow> lc)
      in case map_of config ''remoteConfigurationId'' of
           Some (v # vs) \<Rightarrow> lc\<lparr>rl_remote_config_tag := ''remote_config_used:true''\<rparr> | _ \<Rightarrow> lc)"

text \<open>
  \<open>make_snippet\<close> is \<^verbatim>\<open>snippet_create_from_stable_config\<close> with or without an overlay: no snippet at all,
  an error message, or the snippet.
\<close>

datatype snippet_result = No_snippet | Snippet_error bytes | Snippet bytes

definition on_datadog_rum_config ::
  "(bytes \<Rightarrow> 'd option) \<Rightarrow> ((int \<times> (bytes \<times> 'd rum_json) list) option \<Rightarrow> snippet_result) \<Rightarrow> bytes \<Rightarrow> bytes list list \<Rightarrow> rum_loc
    \<Rightarrow> rum_error + rum_loc" where
  "on_datadog_rum_config strtod make_snippet arg1 block lc =
     (case parse_rum_version arg1 of
        None \<Rightarrow> Inl (Invalid_version arg1)
      | Some config_version \<Rightarrow>
          (case parse_block block [] of
             Inl status \<Rightarrow> Inl status
           | Inr rum_config \<Rightarrow>
               (case make_snippet (Some (make_rum_json_config strtod config_version rum_config)) of
                  No_snippet \<Rightarrow> Inl (Script_failed ''null snippet'')
                | Snippet_error e \<Rightarrow> Inl (Script_failed e)
                | Snippet sn \<Rightarrow> Inr (apply_rum_config_tags rum_config (lc\<lparr>rl_snippet := Some sn\<rparr>)))))"

section \<open>Merging\<close>

definition try_build_snippet_from_stable_config :: "snippet_result \<Rightarrow> rum_loc \<Rightarrow> rum_loc" where
  "try_build_snippet_from_stable_config scfg lc =
     (case scfg of
        Snippet sn \<Rightarrow> lc\<lparr>rl_snippet := Some sn, rl_remote_config_tag := ''remote_config_used:false''\<rparr>
      | _ \<Rightarrow> lc)"

text \<open>\<open>env\<close> is the value of \<^verbatim>\<open>DD_RUM_ENABLED\<close>.\<close>

definition resolve_rum_enable_from_env :: "bytes option \<Rightarrow> rum_loc \<Rightarrow> rum_loc" where
  "resolve_rum_enable_from_env env lc =
     (case env of
        Some (c # raw) \<Rightarrow>
          (case parse_bool (c # raw) of
             None \<Rightarrow> lc
           | Some parsed \<Rightarrow>
               if parsed \<and> rl_snippet lc = None then lc\<lparr>rl_enable := Some False\<rparr>
               else lc\<lparr>rl_enable := Some parsed\<rparr>)
      | _ \<Rightarrow> if rl_snippet lc \<noteq> None then lc\<lparr>rl_enable := Some True\<rparr> else lc)"

definition datadog_rum_merge_loc_config :: "snippet_result \<Rightarrow> bytes option \<Rightarrow> rum_loc \<Rightarrow> rum_loc \<Rightarrow> rum_loc" where
  "datadog_rum_merge_loc_config scfg env parent child =
     (let rum_enable_unset = (rl_enable child = None \<and> rl_enable parent = None);
          child = child\<lparr>rl_enable := (case rl_enable child of Some b \<Rightarrow> Some b | None \<Rightarrow>
                    (case rl_enable parent of Some b \<Rightarrow> Some b | None \<Rightarrow> Some False))\<rparr>;
          child = (if rl_snippet child = None then child\<lparr>rl_snippet := rl_snippet parent\<rparr> else child);
          child = (if rl_application_id_tag child = [] then child\<lparr>rl_application_id_tag := rl_application_id_tag parent\<rparr> else child);
          child = (if rl_remote_config_tag child = [] then child\<lparr>rl_remote_config_tag := rl_remote_config_tag parent\<rparr> else child);
          child = (if rl_snippet child = None then try_build_snippet_from_stable_config scfg child else child)
      in if rum_enable_unset then resolve_rum_enable_from_env env child else child)"

section \<open>Properties\<close>

lemma map_of_assign: "map_of (assign k v m) k' = (if k' = k then Some v else map_of m k')"
  by (induction m) auto

lemma parse_block_map:
  assumes "parse_block block m = Inr m'"
  shows "map_of m' k = (case map_of (rev (map (\<lambda>args. (hd args, tl args)) block)) k of Some v \<Rightarrow> Some v | None \<Rightarrow> map_of m k)"
  using assms
proof (induction block m rule: parse_block.induct)
  case (2 args rest m)
  then show ?case
    by (auto simp: set_config_def map_of_assign map_add_def split: sum.splits if_splits option.splits)
qed simp

lemma resolve_keeps: "rl_snippet (resolve_rum_enable_from_env env lc) = rl_snippet lc"
  by (auto simp: resolve_rum_enable_from_env_def split: option.splits list.splits)

lemma resolve_decides:
  assumes "rl_enable lc = Some False"
  shows "\<exists>b. rl_enable (resolve_rum_enable_from_env env lc) = Some b \<and> (b \<longrightarrow> rl_snippet lc \<noteq> None)"
  using assms by (auto simp: resolve_rum_enable_from_env_def split: option.splits list.splits)

text \<open>The merged settings before the environment is asked.\<close>

lemma merge_stages:
  "\<exists>c. datadog_rum_merge_loc_config scfg env parent child =
        (if rl_enable child = None \<and> rl_enable parent = None then resolve_rum_enable_from_env env c else c)
     \<and> rl_enable c = (case rl_enable child of Some b \<Rightarrow> Some b | None \<Rightarrow> (case rl_enable parent of Some b \<Rightarrow> Some b | None \<Rightarrow> Some False))
     \<and> rl_snippet c = (case rl_snippet child of Some sn \<Rightarrow> Some sn | None \<Rightarrow>
         (case rl_snippet parent of Some sn \<Rightarrow> Some sn | None \<Rightarrow> (case scfg of Snippet sn \<Rightarrow> Some sn | _ \<Rightarrow> None)))"
proof -
  have build: "rl_enable (try_build_snippet_from_stable_config scfg lc) = rl_enable lc"
    "rl_snippet (try_build_snippet_from_stable_config scfg lc) = (case scfg of Snippet sn \<Rightarrow> Some sn | _ \<Rightarrow> rl_snippet lc)" for lc
    by (auto simp: try_build_snippet_from_stable_config_def split: snippet_result.splits)
  define c1 where "c1 = child\<lparr>rl_enable := (case rl_enable child of Some b \<Rightarrow> Some b | None \<Rightarrow>
                    (case rl_enable parent of Some b \<Rightarrow> Some b | None \<Rightarrow> Some False))\<rparr>"
  define c2 where "c2 = (if rl_snippet c1 = None then c1\<lparr>rl_snippet := rl_snippet parent\<rparr> else c1)"
  define c3 where "c3 = (if rl_application_id_tag c2 = [] then c2\<lparr>rl_application_id_tag := rl_application_id_tag parent\<rparr> else c2)"
  define c4 where "c4 = (if rl_remote_config_tag c3 = [] then c3\<lparr>rl_remote_config_tag := rl_remote_config_tag parent\<rparr> else c3)"
  define c5 where "c5 = (if rl_snippet c4 = None then try_build_snippet_from_stable_config scfg c4 else c4)"
  have e: "rl_enable c5 = rl_enable c1" by (simp add: c5_def c4_def c3_def c2_def build)
  have sn: "rl_snippet c4 = (case rl_snippet child of Some sn \<Rightarrow> Some sn | None \<Rightarrow> rl_snippet parent)"
    by (simp add: c4_def c3_def c2_def c1_def split: option.splits)
  have m: "datadog_rum_merge_loc_config scfg env parent child =
      (if rl_enable child = None \<and> rl_enable parent = None then resolve_rum_enable_from_env env c5 else c5)"
    unfolding datadog_rum_merge_loc_config_def Let_def c5_def c4_def c3_def c2_def c1_def by (rule refl)
  show ?thesis
  proof (intro exI conjI, rule m)
    show "rl_enable c5 = (case rl_enable child of Some b \<Rightarrow> Some b | None \<Rightarrow> (case rl_enable parent of Some b \<Rightarrow> Some b | None \<Rightarrow> Some False))"
      unfolding e by (simp add: c1_def)
    show "rl_snippet c5 = (case rl_snippet child of Some sn \<Rightarrow> Some sn | None \<Rightarrow>
         (case rl_snippet parent of Some sn \<Rightarrow> Some sn | None \<Rightarrow> (case scfg of Snippet sn \<Rightarrow> Some sn | _ \<Rightarrow> None)))"
      by (simp add: c5_def sn build split: option.splits snippet_result.splits)
  qed
qed

text \<open>
  Merging a level of the configuration with its parent. The flag is decided afterwards; a flag that
  a directive sets wins, the child's first; the snippet is the child's, the parent's or that of the
  stable configuration, in that order; and when no directive sets the flag, injection is enabled only
  where there is a snippet.
\<close>

theorem rum_merge:
  fixes scfg env parent child
  defines "m \<equiv> datadog_rum_merge_loc_config scfg env parent child"
  shows "rl_enable m \<noteq> None
    \<and> (\<forall>b. rl_enable child = Some b \<or> rl_enable child = None \<and> rl_enable parent = Some b \<longrightarrow> rl_enable m = Some b)
    \<and> rl_snippet m = (case rl_snippet child of Some sn \<Rightarrow> Some sn | None \<Rightarrow>
         (case rl_snippet parent of Some sn \<Rightarrow> Some sn | None \<Rightarrow> (case scfg of Snippet sn \<Rightarrow> Some sn | _ \<Rightarrow> None)))
    \<and> (rl_enable child = None \<and> rl_enable parent = None \<and> rl_enable m = Some True \<longrightarrow> rl_snippet m \<noteq> None)"
proof -
  obtain c where c: "m = (if rl_enable child = None \<and> rl_enable parent = None then resolve_rum_enable_from_env env c else c)"
    "rl_enable c = (case rl_enable child of Some b \<Rightarrow> Some b | None \<Rightarrow> (case rl_enable parent of Some b \<Rightarrow> Some b | None \<Rightarrow> Some False))"
    "rl_snippet c = (case rl_snippet child of Some sn \<Rightarrow> Some sn | None \<Rightarrow>
         (case rl_snippet parent of Some sn \<Rightarrow> Some sn | None \<Rightarrow> (case scfg of Snippet sn \<Rightarrow> Some sn | _ \<Rightarrow> None)))"
    using merge_stages [of scfg env parent child] unfolding m_def by blast
  show ?thesis
  proof (cases "rl_enable child = None \<and> rl_enable parent = None")
    case True
    then have "rl_enable c = Some False" using c(2) by simp
    from resolve_decides [OF this, of env] True c(1,3) show ?thesis by (auto simp: resolve_keeps simp del: not_None_eq)
  next
    case False
    with c show ?thesis by (auto simp del: not_None_eq split: option.splits)
  qed
qed

definition unset_loc :: rum_loc where
  "unset_loc = \<lparr>rl_enable = None, rl_snippet = None, rl_application_id_tag = [], rl_remote_config_tag = []\<rparr>"

theorem rum_merge_witness:
  "rl_enable (datadog_rum_merge_loc_config (Snippet ''s'') None (unset_loc\<lparr>rl_enable := Some False\<rparr>) unset_loc) = Some False
     \<and> rl_snippet (datadog_rum_merge_loc_config (Snippet ''s'') None (unset_loc\<lparr>rl_enable := Some False\<rparr>) unset_loc) = Some ''s''"
  using rum_merge [of "Snippet ''s''" None "unset_loc\<lparr>rl_enable := Some False\<rparr>" unset_loc] by (auto simp: unset_loc_def)

text \<open>
  A directive that enables injection is not withdrawn when there is no snippet: the header filter
  then reads through the missing snippet for the first page that it could inject into.
\<close>

theorem enabled_without_snippet:
  assumes "rl_enable child = Some True" and "rl_snippet child = None" and "rl_snippet parent = None" and "scfg = Snippet_error e"
    and html: "is_html_content (rq_content_type r)" "rq_content_length_n r \<noteq> 0" "\<not> rq_header_only r" "rq_content_encoding r = None"
    and no: "search_header henv (rq_headers_in r) ''x-datadog-rum-injected'' = Some None"
  shows "let m = datadog_rum_merge_loc_config scfg env parent child
    in rl_enable m = Some True \<and> rl_snippet m = None
     \<and> on_header_filter henv ops next_filter \<lparr>rum_enable = (rl_enable m = Some True), rum_snippet = rl_snippet m\<rparr> hn r = None"
  using assms by (simp add: datadog_rum_merge_loc_config_def Let_def try_build_snippet_from_stable_config_def on_header_filter_def)

definition html_page :: rum_req where
  "html_page = \<lparr>rq_headers_in = [\<lparr>pt_elts = [], pt_nelts = 0\<rparr>], rq_in_last = True, rq_headers_out = [\<lparr>pt_elts = [], pt_nelts = 0\<rparr>],
     rq_header_only = False, rq_content_length_n = 10, rq_content_type = ''text/html'', rq_content_encoding = None, rq_need_in_memory = False\<rparr>"

theorem enabled_without_snippet_witness:
  "on_header_filter plain_hdr_env plain_injector (\<lambda>_. 0) \<lparr>rum_enable = True, rum_snippet = None\<rparr> new_handler html_page = None"
proof -
  have "is_html_content (rq_content_type html_page)" by code_simp
  moreover have "search_header plain_hdr_env (rq_headers_in html_page) ''x-datadog-rum-injected'' = Some None"
    by (simp add: html_page_def search_header_def walk_list_def walk.simps)
  moreover have "rq_content_length_n html_page \<noteq> 0" "\<not> rq_header_only html_page" "rq_content_encoding html_page = None"
    by (simp_all add: html_page_def)
  moreover let ?c = "unset_loc\<lparr>rl_enable := Some True\<rparr>"
  have "rl_enable ?c = Some True" "rl_snippet ?c = None" "rl_snippet unset_loc = None" by (simp_all add: unset_loc_def)
  ultimately have r: "let m = datadog_rum_merge_loc_config (Snippet_error []) None unset_loc ?c
    in rl_enable m = Some True \<and> rl_snippet m = None
     \<and> on_header_filter plain_hdr_env plain_injector (\<lambda>_. 0) \<lparr>rum_enable = (rl_enable m = Some True), rum_snippet = rl_snippet m\<rparr> new_handler html_page = None"
    by (intro enabled_without_snippet) (rule refl | assumption)+
  then have m: "rl_enable (datadog_rum_merge_loc_config (Snippet_error []) None unset_loc ?c) = Some True"
    "rl_snippet (datadog_rum_merge_loc_config (Snippet_error []) None unset_loc ?c) = None" by (simp_all add: Let_def)
  show ?thesis using r unfolding Let_def m by simp
qed

text \<open>
  A location with a snippet of its own, inside a server without one: the server's flag is settled
  first, to off, and the location inherits it as if a directive had set it, although a snippet is
  available and neither a directive nor the environment says anything.
\<close>

theorem location_snippet_not_enabled:
  assumes "rl_enable main = None" "rl_snippet main = None" "rl_enable server = None" "rl_snippet server = None"
    "rl_enable location = None" "rl_snippet location = Some sn"
  shows "let m = datadog_rum_merge_loc_config No_snippet None (datadog_rum_merge_loc_config No_snippet None main server) location
    in rl_snippet m = Some sn \<and> rl_enable m = Some False"
  using assms by (simp add: datadog_rum_merge_loc_config_def Let_def try_build_snippet_from_stable_config_def resolve_rum_enable_from_env_def)

theorem location_snippet_not_enabled_witness:
  "rl_enable (datadog_rum_merge_loc_config No_snippet None (datadog_rum_merge_loc_config No_snippet None unset_loc unset_loc)
      (unset_loc\<lparr>rl_snippet := Some ''s''\<rparr>)) = Some False"
  using location_snippet_not_enabled [of unset_loc unset_loc "unset_loc\<lparr>rl_snippet := Some ''s''\<rparr>" "''s''"]
  by (simp add: unset_loc_def Let_def)

text \<open>Behind the digits of the version anything goes.\<close>

lemma version_trailing_text:
  assumes "ds \<noteq> []" and "list_all isdigit ds" and "decimal_val ds < 2 ^ 31" and "rest \<noteq> [] \<Longrightarrow> \<not> isdigit (hd rest)" 
  shows "parse_rum_version (CHR ''v'' # ds @ rest) = Some (decimal_val ds)"
proof -
  have t: "takeWhile isdigit (ds @ rest) = ds"
    using assms(2,4) by (cases rest) (auto simp: takeWhile_append list_all_iff)
  have "hd ds \<in> set ds" using assms(1) by simp
  then have "isdigit (hd ds)" using assms(2) by (auto simp: list_all_iff)
  then have m: "hd (ds @ rest) \<noteq> CHR ''-''" using assms(1) by (auto simp: isdigit_def)
  have "0 \<le> foldl (\<lambda>n c. 10 * n + (int (ord c) - 48)) a ds" if "0 \<le> a" for a
    using that assms(2) by (induction ds arbitrary: a) (auto simp: isdigit_def)
  then have "0 \<le> decimal_val ds" by (simp add: decimal_val_def)
  with assms(1,3) m t show ?thesis by (auto simp: parse_rum_version_def from_chars_int_def Let_def)
qed

end
