(* ===== verification/Request_Tracing.thy ===== *)
theory Request_Tracing
  imports Prelude "HOL-Library.Monad_Syntax"
begin

text \<open>
  The spans of one request: \<^verbatim>\<open>src/request_tracing.cpp\<close> and the source tag of a sampling directive in
  \<^verbatim>\<open>src/datadog_conf.cpp\<close>. The tracer is the environment: spans are numbered as they are made and the
  calls on them are recorded in order. What a configuration script evaluates to, the clocks and the
  response are those of the moment of a call, collected in a record.
\<close>

section \<open>Configuration and environment\<close>

record sample_rate =
  sr_file_name :: bytes
  sr_line :: nat
  sr_same_line_index :: nat
  sr_condition :: bytes

definition sr_tag_name :: "sample_rate \<Rightarrow> bytes" where
  "sr_tag_name r = ''nginx.sample_rate_source''"

definition sr_tag_value :: "sample_rate \<Rightarrow> bytes" where
  "sr_tag_value r = sr_file_name r @ '':'' @ decimal (sr_line r) @ ''#'' @ decimal (sr_same_line_index r + 1)"

datatype baggage_tags = Baggage_names "bytes list" | Baggage_flag bool

text \<open>A location's configuration; the sampling directives are its own and then those of its ancestors.\<close>

record trace_conf =
  enable_tracing :: bool
  enable_locations :: bool
  trust_incoming_span :: bool
  baggage_span_tags_enabled :: bool
  baggage_span_tags :: baggage_tags
  service_name :: bytes
  service_env :: bytes
  service_version :: bytes
  operation_name_script :: bytes
  resource_name_script :: bytes
  loc_operation_name_script :: bytes
  loc_resource_name_script :: bytes
  conf_tags :: "(bytes \<times> bytes) list"
  sample_rates :: "sample_rate list list"

datatype extraction = Extracted | No_span_to_extract | Extract_failed

record moment =
  eval_complex_value :: "bytes \<Rightarrow> bytes option"
  run_condition :: "bytes \<Rightarrow> bytes"
  now_wall :: int
  now_tick :: int
  start_sec :: int
  start_msec :: int
  status :: nat
  status_line :: bytes
  upstream_host :: "bytes option"
  extract_span :: extraction
  extract_baggage :: "(bytes \<times> bytes) list option"

section \<open>Spans\<close>

record span_config =
  cf_service :: "bytes option"
  cf_environment :: "bytes option"
  cf_version :: "bytes option"
  cf_name :: bytes
  cf_resource :: "bytes option"
  cf_start :: "(int \<times> int) option"

datatype span_call =
    Create_span nat span_config
  | Extract_span nat span_config
  | Create_child nat nat span_config
  | Tag_span nat bytes bytes
  | Set_error nat
  | Set_name nat bytes
  | Set_resource_name nat bytes
  | Set_end_time nat int
  | Set_source_appsec nat
  | Destroy_span nat

record tracer =
  tr_fresh :: nat
  tr_calls :: "span_call list"

definition emit_span :: "span_call \<Rightarrow> tracer \<Rightarrow> tracer" where
  "emit_span c t = t\<lparr>tr_calls := tr_calls t @ [c]\<rparr>"

definition make_span :: "(nat \<Rightarrow> span_call) \<Rightarrow> tracer \<Rightarrow> nat \<times> tracer" where
  "make_span f t = (tr_fresh t, emit_span (f (tr_fresh t)) (t\<lparr>tr_fresh := Suc (tr_fresh t)\<rparr>))"

section \<open>Tags\<close>

definition get_loc_operation_name :: "moment \<Rightarrow> bytes \<Rightarrow> trace_conf \<Rightarrow> bytes" where
  "get_loc_operation_name mo core_name lc =
     (case eval_complex_value mo (loc_operation_name_script lc) of Some v \<Rightarrow> v | None \<Rightarrow> core_name)"

definition get_request_operation_name :: "moment \<Rightarrow> bytes \<Rightarrow> trace_conf \<Rightarrow> bytes" where
  "get_request_operation_name mo core_name lc =
     (case eval_complex_value mo (operation_name_script lc) of Some v \<Rightarrow> v | None \<Rightarrow> core_name)"

definition get_loc_resource_name :: "moment \<Rightarrow> trace_conf \<Rightarrow> bytes" where
  "get_loc_resource_name mo lc =
     (case eval_complex_value mo (loc_resource_name_script lc) of Some v \<Rightarrow> v | None \<Rightarrow> ''[invalid_resource_name_pattern]'')"

definition get_request_resource_name :: "moment \<Rightarrow> trace_conf \<Rightarrow> bytes" where
  "get_request_resource_name mo lc =
     (case eval_complex_value mo (resource_name_script lc) of Some v \<Rightarrow> v | None \<Rightarrow> ''[invalid_resource_name_pattern]'')"

definition add_script_tags :: "moment \<Rightarrow> (bytes \<times> bytes) list \<Rightarrow> nat \<Rightarrow> tracer \<Rightarrow> tracer" where
  "add_script_tags mo tags span t =
     fold (\<lambda>(key, script) t. case eval_complex_value mo script of Some v \<Rightarrow> emit_span (Tag_span span key v) t | None \<Rightarrow> t) tags t"

text \<open>\<^verbatim>\<open>data()\<close> of a \<^verbatim>\<open>std::string\<close> is never null.\<close>

definition add_status_tags :: "moment \<Rightarrow> nat \<Rightarrow> tracer \<Rightarrow> tracer" where
  "add_status_tags mo span t =
     (let t = (if status mo \<noteq> 0 then emit_span (Tag_span span ''http.status_code'' (decimal (status mo))) t else t);
          t = emit_span (Tag_span span ''http.status_line'' (status_line mo)) t
      in if 500 \<le> status mo then emit_span (Set_error span) t else t)"

definition add_baggage_span_tags :: "trace_conf \<Rightarrow> (bytes \<times> bytes) list \<Rightarrow> nat \<Rightarrow> tracer \<Rightarrow> tracer" where
  "add_baggage_span_tags lc baggage span t =
     (if baggage = [] then t
      else case baggage_span_tags lc of
        Baggage_names names \<Rightarrow>
          fold (\<lambda>n t. case map_of baggage n of Some v \<Rightarrow> emit_span (Tag_span span (''baggage.'' @ n) v) t | None \<Rightarrow> t) names t
      | Baggage_flag b \<Rightarrow> if b then fold (\<lambda>(k, v) t. emit_span (Tag_span span (''baggage.'' @ k) v) t) baggage t else t)"

definition add_upstream_name :: "moment \<Rightarrow> nat \<Rightarrow> tracer \<Rightarrow> tracer" where
  "add_upstream_name mo span t =
     (case upstream_host mo of None \<Rightarrow> t | Some host \<Rightarrow> emit_span (Tag_span span ''upstream.name'' host) t)"

text \<open>Times in nanoseconds since the epoch of their clock.\<close>

definition to_system_timestamp :: "int \<Rightarrow> int \<Rightarrow> int" where
  "to_system_timestamp sec msec = sec * 10 ^ 9 + msec * 10 ^ 6"

definition estimate_past_time_point :: "moment \<Rightarrow> int \<Rightarrow> int \<times> int" where
  "estimate_past_time_point mo before =
     (let elapsed = now_wall mo - before
      in (before, if 0 < elapsed then now_tick mo - elapsed else now_tick mo))"

text \<open>The directives of one level, then those of the levels above.\<close>

fun rate_loop :: "moment \<Rightarrow> sample_rate list \<Rightarrow> sample_rate option" where
  "rate_loop mo [] = None"
| "rate_loop mo (r # rs) = (if run_condition mo (sr_condition r) = ''on'' then Some r else rate_loop mo rs)"

fun set_sample_rate_tag :: "moment \<Rightarrow> sample_rate list list \<Rightarrow> nat \<Rightarrow> tracer \<Rightarrow> tracer" where
  "set_sample_rate_tag mo [] span t = t"
| "set_sample_rate_tag mo (rates # parents) span t =
     (case rate_loop mo rates of
        Some r \<Rightarrow> emit_span (Tag_span span (sr_tag_name r) (sr_tag_value r)) t
      | None \<Rightarrow> set_sample_rate_tag mo parents span t)"

section \<open>RequestTracing\<close>

record tracing =
  rt_request :: nat
  rt_main_tags :: "(bytes \<times> bytes) list"
  rt_core_name :: bytes
  rt_conf :: trace_conf
  rt_request_span :: nat
  rt_span :: "nat option"

definition loc_span_config :: "moment \<Rightarrow> bytes \<Rightarrow> trace_conf \<Rightarrow> span_config" where
  "loc_span_config mo core_name lc =
     \<lparr>cf_service = eval_complex_value mo (service_name lc), cf_environment = eval_complex_value mo (service_env lc),
      cf_version = eval_complex_value mo (service_version lc), cf_name = get_loc_operation_name mo core_name lc,
      cf_resource = None, cf_start = None\<rparr>"

text \<open>
  The constructor; \<^const>\<open>None\<close> is the exception for a missing tracer. A span is made from the request's
  headers only without a parent and when they are trusted.
\<close>

definition make_request_span :: "moment \<Rightarrow> trace_conf \<Rightarrow> span_config \<Rightarrow> nat option \<Rightarrow> tracer \<Rightarrow> nat \<times> tracer" where
  "make_request_span mo lc cfg parent t =
     (if parent = None \<and> trust_incoming_span lc then
        (case (if extract_span mo = Extracted then make_span (\<lambda>i. Extract_span i cfg) t else make_span (\<lambda>i. Create_span i cfg) t) of
           (span, t) \<Rightarrow>
             (span, if baggage_span_tags_enabled lc
                    then (case extract_baggage mo of Some b \<Rightarrow> add_baggage_span_tags lc b span t | None \<Rightarrow> t) else t))
      else case parent of
        Some p \<Rightarrow> make_span (\<lambda>i. Create_child p i cfg) t
      | None \<Rightarrow> make_span (\<lambda>i. Create_span i cfg) t)"

definition new_tracing ::
  "bool \<Rightarrow> moment \<Rightarrow> nat \<Rightarrow> (bytes \<times> bytes) list \<Rightarrow> bytes \<Rightarrow> trace_conf \<Rightarrow> nat option \<Rightarrow> tracer \<Rightarrow> (tracing \<times> tracer) option" where
  "new_tracing has_tracer mo request main_tags core_name lc parent t =
     (if \<not> has_tracer then None
      else
        let cfg = \<lparr>cf_service = eval_complex_value mo (service_name lc), cf_environment = eval_complex_value mo (service_env lc),
                   cf_version = eval_complex_value mo (service_version lc), cf_name = get_request_operation_name mo core_name lc,
                   cf_resource = Some (get_request_resource_name mo lc),
                   cf_start = Some (estimate_past_time_point mo (to_system_timestamp (start_sec mo) (start_msec mo)))\<rparr>
        in case make_request_span mo lc cfg parent t of (rs, t) \<Rightarrow>
           (case (if enable_locations lc
                  then (case make_span (\<lambda>i. Create_child rs i (loc_span_config mo core_name lc)) t of (s, t) \<Rightarrow> (Some s, t))
                  else (None, t)) of
              (sp, t) \<Rightarrow>
                Some (\<lparr>rt_request = request, rt_main_tags = main_tags, rt_core_name = core_name, rt_conf = lc, rt_request_span = rs, rt_span = sp\<rparr>,
                      set_sample_rate_tag mo (sample_rates lc) rs t)))"

text \<open>\<^const>\<open>None\<close> is the use of an empty \<^verbatim>\<open>std::optional\<close>.\<close>

definition active_span :: "tracing \<Rightarrow> nat option" where
  "active_span rt = (if enable_locations (rt_conf rt) then rt_span rt else Some (rt_request_span rt))"

definition on_exit_block :: "moment \<Rightarrow> int \<Rightarrow> tracing \<Rightarrow> tracer \<Rightarrow> tracer option" where
  "on_exit_block mo finish rt t =
     (let lc = rt_conf rt; rs = rt_request_span rt in
      map_option (set_sample_rate_tag mo (sample_rates lc) rs)
        (if enable_locations lc then
           rt_span rt \<bind> (\<lambda>s.
             let t = add_script_tags mo (rt_main_tags rt) s t; t = add_script_tags mo (conf_tags lc) s t;
                 t = add_status_tags mo s t; t = add_upstream_name mo s t;
                 t = emit_span (Set_name s (get_loc_operation_name mo (rt_core_name rt) lc)) t;
                 t = emit_span (Set_resource_name s (get_loc_resource_name mo lc)) t
             in Some (emit_span (Set_end_time s finish) t))
         else Some (add_script_tags mo (conf_tags lc) rs (add_script_tags mo (rt_main_tags rt) rs t))))"

text \<open>The new location span is made before the old one, if there is one, is destroyed.\<close>

definition tracing_on_change_block :: "moment \<Rightarrow> bytes \<Rightarrow> trace_conf \<Rightarrow> tracing \<Rightarrow> tracer \<Rightarrow> (tracing \<times> tracer) option" where
  "tracing_on_change_block mo core_name lc rt t =
     on_exit_block mo (now_tick mo) rt t \<bind> (\<lambda>t.
       let rt = rt\<lparr>rt_core_name := core_name, rt_conf := lc\<rparr>;
           (rt, t) = (if enable_locations lc
             then (case make_span (\<lambda>i. Create_child (rt_request_span rt) i (loc_span_config mo core_name lc)) t of (s, t) \<Rightarrow>
                     (rt\<lparr>rt_span := Some s\<rparr>, case rt_span rt of None \<Rightarrow> t | Some old \<Rightarrow> emit_span (Destroy_span old) t))
             else (rt, t))
       in Some (rt, set_sample_rate_tag mo (sample_rates lc) (rt_request_span rt) t))"

definition tracing_on_log_request :: "moment \<Rightarrow> tracing \<Rightarrow> tracer \<Rightarrow> tracer option" where
  "tracing_on_log_request mo rt t =
     on_exit_block mo (now_tick mo) rt t \<bind> (\<lambda>t.
       let rs = rt_request_span rt; t = add_status_tags mo rs t; t = add_upstream_name mo rs t
       in Some (emit_span (Set_end_time rs (now_tick mo)) t))"

section \<open>What the calls make, end and destroy\<close>

fun made :: "span_call \<Rightarrow> nat list" where
  "made (Create_span i _) = [i]"
| "made (Extract_span i _) = [i]"
| "made (Create_child _ i _) = [i]"
| "made _ = []"

fun ended :: "span_call \<Rightarrow> nat list" where
  "ended (Set_end_time i _) = [i]"
| "ended _ = []"

fun destroyed :: "span_call \<Rightarrow> nat list" where
  "destroyed (Destroy_span i) = [i]"
| "destroyed _ = []"

definition makes :: "span_call list \<Rightarrow> nat list" where "makes cs = concat (map made cs)"
definition ends :: "span_call list \<Rightarrow> nat list" where "ends cs = concat (map ended cs)"
definition destroys :: "span_call list \<Rightarrow> nat list" where "destroys cs = concat (map destroyed cs)"

lemma log_simps [simp]:
  "makes [] = []" "makes (c # cs) = made c @ makes cs" "makes (cs @ cs') = makes cs @ makes cs'"
  "ends [] = []" "ends (c # cs) = ended c @ ends cs" "ends (cs @ cs') = ends cs @ ends cs'"
  "destroys [] = []" "destroys (c # cs) = destroyed c @ destroys cs" "destroys (cs @ cs') = destroys cs @ destroys cs'"
  by (simp_all add: makes_def ends_def destroys_def)

text \<open>Calls that make and destroy no span and end the given ones.\<close>

definition grows :: "tracer \<Rightarrow> tracer \<Rightarrow> nat list \<Rightarrow> bool" where
  "grows t t' es \<longleftrightarrow> tr_fresh t' = tr_fresh t \<and>
     (\<exists>cs. tr_calls t' = tr_calls t @ cs \<and> makes cs = [] \<and> ends cs = es \<and> destroys cs = [])"

named_theorems grow_rules \<open>operations that only set properties of spans\<close>

lemma grows_refl [simp]: "grows t t []"
  by (simp add: grows_def)

lemma grows_trans: "grows t t' es \<Longrightarrow> grows t' t'' es' \<Longrightarrow> grows t t'' (es @ es')"
  by (fastforce simp: grows_def)

lemma grows_set [grow_rules]:
  "grows t0 t es \<Longrightarrow> made c = [] \<Longrightarrow> ended c = [] \<Longrightarrow> destroyed c = [] \<Longrightarrow> grows t0 (emit_span c t) es"
  by (auto simp: grows_def emit_span_def)

lemma grows_end [grow_rules]: "grows t0 t es \<Longrightarrow> grows t0 (emit_span (Set_end_time s finish) t) (es @ [s])"
  by (auto simp: grows_def emit_span_def)

lemma grows_fold:
  assumes "\<And>x t. grows t0 t es \<Longrightarrow> grows t0 (f x t) es" and "grows t0 t es"
  shows "grows t0 (fold f xs t) es"
  using assms(2) by (induction xs arbitrary: t) (auto intro: assms(1))

lemma add_script_tags_grows [grow_rules]: "grows t0 t es \<Longrightarrow> grows t0 (add_script_tags mo tags span t) es"
  unfolding add_script_tags_def by (rule grows_fold) (auto split: option.splits intro!: grow_rules)

lemma add_status_tags_grows [grow_rules]: "grows t0 t es \<Longrightarrow> grows t0 (add_status_tags mo span t) es"
  by (auto simp: add_status_tags_def Let_def intro!: grow_rules)

lemma add_baggage_grows [grow_rules]: "grows t0 t es \<Longrightarrow> grows t0 (add_baggage_span_tags lc b span t) es"
  by (auto simp: add_baggage_span_tags_def split: baggage_tags.splits option.splits intro!: grows_fold grow_rules)

lemma add_upstream_grows [grow_rules]: "grows t0 t es \<Longrightarrow> grows t0 (add_upstream_name mo span t) es"
  by (auto simp: add_upstream_name_def split: option.splits intro!: grow_rules)

lemma set_sample_rate_grows [grow_rules]: "grows t0 t es \<Longrightarrow> grows t0 (set_sample_rate_tag mo rates span t) es"
  by (induction rates) (auto split: option.splits intro!: grow_rules)

lemma exit_block_grows:
  assumes "enable_locations (rt_conf rt) \<Longrightarrow> rt_span rt = Some s"
  shows "\<exists>t'. on_exit_block mo finish rt t = Some t' \<and> grows t t' (if enable_locations (rt_conf rt) then [s] else [])"
proof (cases "enable_locations (rt_conf rt)")
  case True
  have "grows t (set_sample_rate_tag mo (sample_rates (rt_conf rt)) (rt_request_span rt)
      (emit_span (Set_end_time s finish) (emit_span (Set_resource_name s (get_loc_resource_name mo (rt_conf rt)))
      (emit_span (Set_name s (get_loc_operation_name mo (rt_core_name rt) (rt_conf rt)))
      (add_upstream_name mo s (add_status_tags mo s (add_script_tags mo (conf_tags (rt_conf rt)) s (add_script_tags mo (rt_main_tags rt) s t)))))))) ([] @ [s])"
    by (intro grow_rules grows_refl) simp_all
  with assms True show ?thesis by (simp add: on_exit_block_def Let_def)
next
  case False
  have "grows t (set_sample_rate_tag mo (sample_rates (rt_conf rt)) (rt_request_span rt)
      (add_script_tags mo (conf_tags (rt_conf rt)) (rt_request_span rt) (add_script_tags mo (rt_main_tags rt) (rt_request_span rt) t))) []"
    by (intro grow_rules grows_refl)
  with False show ?thesis by (simp add: on_exit_block_def Let_def)
qed

section \<open>The spans of a request\<close>

text \<open>
  What holds of the calls made for a request between two events: \<open>n\<close> spans were made, and all of them are
  ended, once, but those in \<open>op\<close>; \<open>rs\<close> is the request span and \<open>sp\<close> the span of the last block that had one.
\<close>

definition span_inv :: "span_call list \<Rightarrow> nat \<Rightarrow> nat \<Rightarrow> nat option \<Rightarrow> nat set \<Rightarrow> tracer \<Rightarrow> bool" where
  "span_inv pre n rs sp op t \<longleftrightarrow> (\<exists>cs. tr_calls t = pre @ cs \<and> length (makes cs) = n \<and> distinct (makes cs) \<and> distinct (ends cs)
     \<and> (\<forall>i \<in> set (makes cs). i < tr_fresh t) \<and> insert rs (set_option sp) \<subseteq> set (makes cs) \<and> sp \<noteq> Some rs
     \<and> op \<subseteq> set (makes cs) \<and> set (ends cs) = set (makes cs) - op \<and> set (destroys cs) \<subseteq> set (ends cs)
     \<and> (\<forall>p i cfg. Create_child p i cfg \<in> set cs \<longrightarrow> i = rs \<or> p = rs))"

definition open_spans :: "tracing \<Rightarrow> nat set" where
  "open_spans rt = {rt_request_span rt} \<union> (if enable_locations (rt_conf rt) then set_option (rt_span rt) else {})"

definition trace_inv :: "span_call list \<Rightarrow> nat \<Rightarrow> tracing \<Rightarrow> tracer \<Rightarrow> bool" where
  "trace_inv pre n rt t \<longleftrightarrow> span_inv pre n (rt_request_span rt) (rt_span rt) (open_spans rt) t
     \<and> (enable_locations (rt_conf rt) \<longrightarrow> rt_span rt \<noteq> None)"

lemma child_made: "Create_child p i cfg \<in> set cs \<Longrightarrow> i \<in> set (makes cs)"
  by (induction cs) auto

text \<open>Setting properties and ending open spans.\<close>

lemma span_inv_grows:
  assumes "span_inv pre n rs sp op t" and "grows t t' es" and "distinct es" and "set es \<subseteq> op"
  shows "span_inv pre n rs sp (op - set es) t'"
proof -
  from assms(2) obtain ds where ds: "tr_fresh t' = tr_fresh t" "tr_calls t' = tr_calls t @ ds" "makes ds = []" "ends ds = es" "destroys ds = []"
    by (auto simp: grows_def)
  from assms(1) obtain cs where cs: "tr_calls t = pre @ cs" "length (makes cs) = n" "distinct (makes cs)" "distinct (ends cs)"
     "\<forall>i \<in> set (makes cs). i < tr_fresh t" "insert rs (set_option sp) \<subseteq> set (makes cs)" "sp \<noteq> Some rs"
     "op \<subseteq> set (makes cs)" "set (ends cs) = set (makes cs) - op" "set (destroys cs) \<subseteq> set (ends cs)"
     "\<And>p i cfg. Create_child p i cfg \<in> set cs \<Longrightarrow> i = rs \<or> p = rs"
    unfolding span_inv_def by blast
  have "set (ends (cs @ ds)) = set (makes (cs @ ds)) - (op - set es)" using cs(8,9) ds(3,4) assms(4) by auto
  moreover have "Create_child p i cfg \<in> set (cs @ ds) \<Longrightarrow> i = rs \<or> p = rs" for p i cfg
    using cs(11) child_made [of p i cfg ds] ds(3) by auto
  ultimately show ?thesis
    unfolding span_inv_def using cs(1-10) ds assms(3,4) by (intro exI [of _ "cs @ ds"]) auto
qed

lemmas span_inv_sets = span_inv_grows [where es = "[]", simplified]

text \<open>Making the span of a block, which replaces an ended one if there is one.\<close>

lemma span_inv_child:
  assumes "span_inv pre n rs sp op t" and "\<And>s. sp = Some s \<Longrightarrow> s \<notin> op" and "make_span (\<lambda>i. Create_child rs i cfg) t = (s, t')"
  shows "span_inv pre (Suc n) rs (Some s) (insert s op) (case sp of None \<Rightarrow> t' | Some old \<Rightarrow> emit_span (Destroy_span old) t')"
proof -
  let ?ds = "Create_child rs s cfg # (case sp of None \<Rightarrow> [] | Some old \<Rightarrow> [Destroy_span old])"
  let ?t = "case sp of None \<Rightarrow> t' | Some old \<Rightarrow> emit_span (Destroy_span old) t'"
  from assms(3) have s: "s = tr_fresh t" "tr_calls ?t = tr_calls t @ ?ds" "tr_fresh ?t = Suc (tr_fresh t)"
    by (auto simp: make_span_def emit_span_def split: option.splits)
  have m: "makes ?ds = [s]" "ends ?ds = []" "destroys ?ds = (case sp of None \<Rightarrow> [] | Some old \<Rightarrow> [old])" by (auto split: option.splits)
  from assms(1) obtain cs where cs: "tr_calls t = pre @ cs" "length (makes cs) = n" "distinct (makes cs)" "distinct (ends cs)"
     "\<forall>i \<in> set (makes cs). i < tr_fresh t" "insert rs (set_option sp) \<subseteq> set (makes cs)" "sp \<noteq> Some rs"
     "op \<subseteq> set (makes cs)" "set (ends cs) = set (makes cs) - op" "set (destroys cs) \<subseteq> set (ends cs)"
     "\<And>p i cfg. Create_child p i cfg \<in> set cs \<Longrightarrow> i = rs \<or> p = rs"
    unfolding span_inv_def by blast
  have new: "s \<notin> set (makes cs)" using cs(5) s(1) by auto
  have "set (ends (cs @ ?ds)) = set (makes (cs @ ?ds)) - insert s op" using cs(8,9) m new by auto
  moreover have "set (destroys (cs @ ?ds)) \<subseteq> set (ends (cs @ ?ds))" using cs(6,9,10) m assms(2) by (auto split: option.splits)
  moreover have "Create_child p i c \<in> set (cs @ ?ds) \<Longrightarrow> i = rs \<or> p = rs" for p i c using cs(11) by (auto split: option.splits)
  moreover have "\<forall>i \<in> set (makes (cs @ ?ds)). i < tr_fresh ?t" using cs(5) s(1,3) m by auto
  ultimately show ?thesis
    unfolding span_inv_def using cs(1-4,6-8) s(2) m new by (intro exI [of _ "cs @ ?ds"]) auto
qed

text \<open>A step that makes the next span and then sets properties.\<close>

definition makes_one :: "tracer \<Rightarrow> tracer \<Rightarrow> bool" where
  "makes_one t t' \<longleftrightarrow> tr_fresh t' = Suc (tr_fresh t) \<and>
     (\<exists>cs. tr_calls t' = tr_calls t @ cs \<and> makes cs = [tr_fresh t] \<and> ends cs = [] \<and> destroys cs = [])"

lemma makes_one_emit:
  "made c = [tr_fresh t] \<Longrightarrow> ended c = [] \<Longrightarrow> destroyed c = [] \<Longrightarrow> makes_one t (emit_span c (t\<lparr>tr_fresh := Suc (tr_fresh t)\<rparr>))"
  by (simp add: makes_one_def emit_span_def)

lemma makes_one_grows: "makes_one t t' \<Longrightarrow> grows t' t'' [] \<Longrightarrow> makes_one t t''"
  by (fastforce simp: makes_one_def grows_def)

lemma make_request_span_one:
  "makes_one t (snd (make_request_span mo lc cfg parent t)) \<and> fst (make_request_span mo lc cfg parent t) = tr_fresh t"
proof -
  have b: "grows t' (if e then (case eb of Some b \<Rightarrow> add_baggage_span_tags lc b span t' | None \<Rightarrow> t') else t') []" for t' e eb span
    by (auto split: option.splits intro: add_baggage_grows)
  show ?thesis
    by (cases parent; cases "trust_incoming_span lc"; cases "extract_span mo = Extracted")
      (simp_all add: make_request_span_def make_span_def makes_one_emit makes_one_grows [OF makes_one_emit b])
qed

lemma new_tracing_inv:
  "\<exists>rt t'. new_tracing True mo request main_tags core_name lc parent t = Some (rt, t') \<and> rt_conf rt = lc \<and> rt_request rt = request
     \<and> trace_inv (tr_calls t) (if enable_locations lc then 2 else 1) rt t'"
proof -
  define cfg where "cfg = \<lparr>cf_service = eval_complex_value mo (service_name lc), cf_environment = eval_complex_value mo (service_env lc),
    cf_version = eval_complex_value mo (service_version lc), cf_name = get_request_operation_name mo core_name lc,
    cf_resource = Some (get_request_resource_name mo lc),
    cf_start = Some (estimate_past_time_point mo (to_system_timestamp (start_sec mo) (start_msec mo)))\<rparr>"
  obtain rs t1 where m: "make_request_span mo lc cfg parent t = (rs, t1)" by fastforce
  with make_request_span_one [of t mo lc cfg parent] have "makes_one t t1" "rs = tr_fresh t" by simp_all
  then have inv1: "span_inv (tr_calls t) 1 rs None {rs} t1"
    by (auto simp: makes_one_def span_inv_def dest!: child_made)
  show ?thesis
  proof (cases "enable_locations lc")
    case True
    obtain s t2 where c: "make_span (\<lambda>i. Create_child rs i (loc_span_config mo core_name lc)) t1 = (s, t2)" by fastforce
    let ?t = "set_sample_rate_tag mo (sample_rates lc) rs t2"
    have "span_inv (tr_calls t) 2 rs (Some s) {s, rs} ?t"
      using span_inv_sets [OF span_inv_child [OF inv1 _ c]] set_sample_rate_grows [OF grows_refl] by (simp add: numeral_2_eq_2)
    moreover have "{s, rs} = {rs, s}" by auto
    ultimately show ?thesis using True m c by (simp add: new_tracing_def Let_def cfg_def [symmetric] trace_inv_def open_spans_def)
  next
    case False
    have "span_inv (tr_calls t) 1 rs None {rs} (set_sample_rate_tag mo (sample_rates lc) rs t1)"
      using span_inv_sets [OF inv1] set_sample_rate_grows [OF grows_refl] by simp
    with False m show ?thesis by (simp add: new_tracing_def Let_def cfg_def [symmetric] trace_inv_def open_spans_def)
  qed
qed

text \<open>Leaving a block ends its span: what is left open is the request span.\<close>

lemma exit_block_inv:
  assumes "trace_inv pre n rt t"
  shows "\<exists>t'. on_exit_block mo finish rt t = Some t' \<and> span_inv pre n (rt_request_span rt) (rt_span rt) {rt_request_span rt} t'"
proof -
  from assms obtain s where s: "enable_locations (rt_conf rt) \<Longrightarrow> rt_span rt = Some s" by (auto simp: trace_inv_def)
  from exit_block_grows [OF s] obtain t' where t': "on_exit_block mo finish rt t = Some t'"
    "grows t t' (if enable_locations (rt_conf rt) then [s] else [])" by blast
  have inv: "span_inv pre n (rt_request_span rt) (rt_span rt) (open_spans rt) t" using assms by (simp add: trace_inv_def)
  have ne: "rt_span rt \<noteq> Some (rt_request_span rt)" using inv by (auto simp: span_inv_def)
  from span_inv_grows [OF inv t'(2)] have "span_inv pre n (rt_request_span rt) (rt_span rt)
      (open_spans rt - set (if enable_locations (rt_conf rt) then [s] else [])) t'"
    using s by (auto simp: open_spans_def)
  moreover have "open_spans rt - set (if enable_locations (rt_conf rt) then [s] else []) = {rt_request_span rt}"
    using s ne by (auto simp: open_spans_def)
  ultimately show ?thesis using t'(1) by simp
qed

lemma change_block_inv:
  assumes "trace_inv pre n rt t"
  shows "\<exists>rt' t'. tracing_on_change_block mo core_name lc rt t = Some (rt', t') \<and> rt_conf rt' = lc \<and> rt_request rt' = rt_request rt
    \<and> rt_request_span rt' = rt_request_span rt \<and> trace_inv pre (if enable_locations lc then Suc n else n) rt' t'"
proof -
  let ?rs = "rt_request_span rt"
  obtain t1 where t1: "on_exit_block mo (now_tick mo) rt t = Some t1" "span_inv pre n ?rs (rt_span rt) {?rs} t1"
    using exit_block_inv [OF assms] by blast
  show ?thesis
  proof (cases "enable_locations lc")
    case True
    obtain s t2 where c: "make_span (\<lambda>i. Create_child ?rs i (loc_span_config mo core_name lc)) t1 = (s, t2)" by fastforce
    have ne: "x \<notin> {?rs}" if "rt_span rt = Some x" for x using t1(2) that by (auto simp: span_inv_def)
    define t3 where "t3 = (case rt_span rt of None \<Rightarrow> t2 | Some old \<Rightarrow> emit_span (Destroy_span old) t2)"
    have "span_inv pre (Suc n) ?rs (Some s) {s, ?rs} (set_sample_rate_tag mo (sample_rates lc) ?rs t3)"
      using span_inv_sets [OF span_inv_child [OF t1(2) ne c]] set_sample_rate_grows [OF grows_refl] by (simp add: t3_def)
    moreover have "{s, ?rs} = {?rs, s}" by auto
    ultimately show ?thesis using True t1(1) c
      by (simp add: tracing_on_change_block_def Let_def trace_inv_def open_spans_def t3_def)
  next
    case False
    have "span_inv pre n ?rs (rt_span rt) {?rs} (set_sample_rate_tag mo (sample_rates lc) ?rs t1)"
      using span_inv_sets [OF t1(2)] set_sample_rate_grows [OF grows_refl] by simp
    with False t1(1) show ?thesis by (simp add: tracing_on_change_block_def Let_def trace_inv_def open_spans_def)
  qed
qed

lemma log_request_inv:
  assumes "trace_inv pre n rt t"
  shows "\<exists>t'. tracing_on_log_request mo rt t = Some t' \<and> span_inv pre n (rt_request_span rt) (rt_span rt) {} t'"
proof -
  let ?rs = "rt_request_span rt"
  obtain t1 where t1: "on_exit_block mo (now_tick mo) rt t = Some t1" "span_inv pre n ?rs (rt_span rt) {?rs} t1"
    using exit_block_inv [OF assms] by blast
  have "grows t1 (emit_span (Set_end_time ?rs (now_tick mo)) (add_upstream_name mo ?rs (add_status_tags mo ?rs t1))) ([] @ [?rs])"
    by (intro grow_rules grows_refl)
  from span_inv_grows [OF t1(2) this] t1(1) show ?thesis by (simp add: tracing_on_log_request_def Let_def)
qed

fun run_blocks :: "(moment \<times> bytes \<times> trace_conf) list \<Rightarrow> tracing \<Rightarrow> tracer \<Rightarrow> (tracing \<times> tracer) option" where
  "run_blocks [] rt t = Some (rt, t)"
| "run_blocks ((mo, core_name, lc) # bs) rt t =
     (case tracing_on_change_block mo core_name lc rt t of None \<Rightarrow> None | Some (rt', t') \<Rightarrow> run_blocks bs rt' t')"

lemma run_blocks_inv:
  "trace_inv pre n rt t \<Longrightarrow> \<exists>rt' t'. run_blocks bs rt t = Some (rt', t') \<and> rt_request_span rt' = rt_request_span rt
     \<and> trace_inv pre (n + length (filter (\<lambda>(_, _, lc). enable_locations lc) bs)) rt' t'"
proof (induction bs arbitrary: rt t n)
  case (Cons b bs)
  obtain mo core_name lc where b: "b = (mo, core_name, lc)" by (cases b)
  obtain rt1 t1 where 1: "tracing_on_change_block mo core_name lc rt t = Some (rt1, t1)" "rt_request_span rt1 = rt_request_span rt"
    "trace_inv pre (if enable_locations lc then Suc n else n) rt1 t1"
    using change_block_inv [OF Cons.prems] by blast
  from Cons.IH [OF 1(3)] 1(1,2) show ?case by (cases "enable_locations lc") (auto simp: b)
qed simp

text \<open>
  C37. The spans of a request. Whatever blocks the request goes through, in whatever order location
  spans are enabled in them, there is always a span to be the active one, and when the request has been
  logged: one span was made for the request and one for each block with location spans; each of them
  has been given an end time, exactly once, those that were destroyed on the way included; and every
  location span is a child of the request span.
\<close>

theorem request_spans_ended:
  "\<exists>rt0 t1 rt t2 t3 cs. new_tracing True mo request main_tags core_name lc parent t0 = Some (rt0, t1)
     \<and> run_blocks bs rt0 t1 = Some (rt, t2) \<and> active_span rt \<noteq> None \<and> tracing_on_log_request mo' rt t2 = Some t3
     \<and> tr_calls t3 = tr_calls t0 @ cs
     \<and> length (makes cs) = 1 + length (filter enable_locations (lc # map (\<lambda>(_, _, lc). lc) bs))
     \<and> distinct (makes cs) \<and> distinct (ends cs) \<and> set (ends cs) = set (makes cs) \<and> set (destroys cs) \<subseteq> set (ends cs)
     \<and> list_all (\<lambda>c. case c of Create_child p i _ \<Rightarrow> i = rt_request_span rt \<or> p = rt_request_span rt | _ \<Rightarrow> True) cs"
proof -
  obtain rt0 t1 where 1: "new_tracing True mo request main_tags core_name lc parent t0 = Some (rt0, t1)"
    "trace_inv (tr_calls t0) (if enable_locations lc then 2 else 1) rt0 t1" using new_tracing_inv by blast
  obtain rt t2 where 2: "run_blocks bs rt0 t1 = Some (rt, t2)"
    "trace_inv (tr_calls t0) ((if enable_locations lc then 2 else 1) + length (filter (\<lambda>(_, _, lc). enable_locations lc) bs)) rt t2"
    using run_blocks_inv [OF 1(2)] by blast
  obtain t3 where 3: "tracing_on_log_request mo' rt t2 = Some t3"
    "span_inv (tr_calls t0) ((if enable_locations lc then 2 else 1) + length (filter (\<lambda>(_, _, lc). enable_locations lc) bs))
       (rt_request_span rt) (rt_span rt) {} t3"
    using log_request_inv [OF 2(2)] by blast
  have a: "active_span rt \<noteq> None" using 2(2) by (auto simp: trace_inv_def active_span_def)
  have len: "length (filter enable_locations (map (\<lambda>(_, _, lc). lc) bs)) = length (filter (\<lambda>(_, _, lc). enable_locations lc) bs)"
    by (induction bs) auto
  from 3(2) obtain cs where "tr_calls t3 = tr_calls t0 @ cs"
    "length (makes cs) = (if enable_locations lc then 2 else 1) + length (filter (\<lambda>(_, _, lc). enable_locations lc) bs)"
    "distinct (makes cs)" "distinct (ends cs)" "set (ends cs) = set (makes cs)" "set (destroys cs) \<subseteq> set (ends cs)"
    "\<forall>p i cfg. Create_child p i cfg \<in> set cs \<longrightarrow> i = rt_request_span rt \<or> p = rt_request_span rt"
    unfolding span_inv_def by auto
  moreover from this(7) have "list_all (\<lambda>c. case c of Create_child p i _ \<Rightarrow> i = rt_request_span rt \<or> p = rt_request_span rt | _ \<Rightarrow> True) cs"
    by (auto simp: list_all_iff split: span_call.splits)
  ultimately show ?thesis using 1(1) 2(1) 3(1) a len by (intro exI conjI) (assumption | simp)+
qed

section \<open>Sampling directives\<close>

lemma rate_loop_find: "rate_loop mo rs = find (\<lambda>r. run_condition mo (sr_condition r) = ''on'') rs"
  by (induction rs) auto

lemma set_sample_rate_find:
  "set_sample_rate_tag mo rates span t =
     (case find (\<lambda>r. run_condition mo (sr_condition r) = ''on'') (concat rates) of
        Some r \<Rightarrow> emit_span (Tag_span span (sr_tag_name r) (sr_tag_value r)) t | None \<Rightarrow> t)"
proof (induction rates)
  case (Cons rs rates)
  have "find P (xs @ ys) = (case find P xs of None \<Rightarrow> find P ys | Some x \<Rightarrow> Some x)" for P and xs ys :: "sample_rate list"
    by (induction xs) auto
  with Cons show ?case by (simp add: rate_loop_find split: option.splits)
qed simp

lemma no_separators: "CHR '':'' \<notin> set (decimal n)" "CHR ''#'' \<notin> set (decimal n)"
  using decimal_digits [of n] by (auto simp: list_all_iff isdigit_def)

lemma sr_tag_value_inject:
  "sr_tag_value r = sr_tag_value r' \<longleftrightarrow>
     sr_file_name r = sr_file_name r' \<and> sr_line r = sr_line r' \<and> sr_same_line_index r = sr_same_line_index r'"
proof
  assume eq: "sr_tag_value r = sr_tag_value r'"
  let ?a = "\<lambda>r. sr_file_name r @ CHR '':'' # decimal (sr_line r)"
  have "?a r @ CHR ''#'' # decimal (sr_same_line_index r + 1) = ?a r' @ CHR ''#'' # decimal (sr_same_line_index r' + 1)"
    using eq by (simp add: sr_tag_value_def)
  from last_separator_unique [OF this no_separators(2,2)] have
    1: "?a r = ?a r'" and 2: "decimal (sr_same_line_index r + 1) = decimal (sr_same_line_index r' + 1)" by auto
  from last_separator_unique [OF 1 no_separators(1,1)] decimal_inj [OF 2]
  show "sr_file_name r = sr_file_name r' \<and> sr_line r = sr_line r' \<and> sr_same_line_index r = sr_same_line_index r'"
    by (auto dest: decimal_inj)
qed (simp add: sr_tag_value_def)

text \<open>
  The sampling directive of a request. Going outwards through the levels of the configuration,
  the first directive whose condition evaluates to \<open>on\<close> is the one that the tag names, and no tag is set
  when there is none; and the text of the tag names exactly one directive: two directives have the same
  text only when file, line and position in the line are the same.
\<close>

theorem sampling_directive:
  "set_sample_rate_tag mo rates span t =
     (case find (\<lambda>r. run_condition mo (sr_condition r) = ''on'') (concat rates) of
        Some r \<Rightarrow> emit_span (Tag_span span ''nginx.sample_rate_source'' (sr_tag_value r)) t | None \<Rightarrow> t)
   \<and> (sr_tag_value r = sr_tag_value r' \<longleftrightarrow>
        sr_file_name r = sr_file_name r' \<and> sr_line r = sr_line r' \<and> sr_same_line_index r = sr_same_line_index r')"
  unfolding set_sample_rate_find sr_tag_name_def sr_tag_value_inject by simp

end
