(* ===== verification/Dd_Context.thy ===== *)
theory Dd_Context
  imports Request_Tracing Rum_Injection
begin

text \<open>
  The context of a request and the handlers that nginx calls: \<^verbatim>\<open>src/datadog_context.cpp\<close> and
  \<^verbatim>\<open>src/datadog_handler.cpp\<close>. The module is built plain, with the WAF or with RUM injection; the last two
  exclude each other. Contexts are objects in a store, found through nginx's per-request slot or
  through the cleanup handlers of the request's pool. Whether there is a security context is a flag
  here; what it does is the subject of \<open>Waf_Context\<close>.
\<close>

datatype build = Plain | With_waf | With_rum

text \<open>A result, an exception, or undefined behaviour.\<close>

datatype 'a outcome = Done 'a | Raised | Undefined

fun outcome_bind :: "'a outcome \<Rightarrow> ('a \<Rightarrow> 'b outcome) \<Rightarrow> 'b outcome" where
  "outcome_bind (Done x) f = f x"
| "outcome_bind Raised f = Raised"
| "outcome_bind Undefined f = Undefined"

record 'i ddctx =
  dc_traces :: "tracing list"
  dc_sec :: bool
  dc_rum :: "'i handler"

text \<open>One call by nginx: the request, the block it is in and the environment at that moment.\<close>

record hcall =
  ca_request :: nat
  ca_is_main :: bool
  ca_internal :: bool
  ca_core_name :: bytes
  ca_log_subrequest :: bool
  ca_conf :: trace_conf
  ca_rum :: rum_conf
  ca_moment :: moment
  ca_has_tracer :: bool
  ca_main_tags :: "(bytes \<times> bytes) list"
  ca_waf_enabled :: bool
  ca_rum_req :: rum_req
  ca_cleanup_ok :: bool

definition find_trace :: "nat \<Rightarrow> 'i ddctx \<Rightarrow> tracing option" where
  "find_trace request dc = find (\<lambda>rt. rt_request rt = request) (dc_traces dc)"

definition single_trace :: "'i ddctx \<Rightarrow> tracing outcome" where
  "single_trace dc = (case dc_traces dc of [rt] \<Rightarrow> Done rt | _ \<Rightarrow> Raised)"

text \<open>The active span; using an empty \<^verbatim>\<open>std::optional\<close> is undefined.\<close>

definition the_active_span :: "tracing \<Rightarrow> nat outcome" where
  "the_active_span rt = (case active_span rt of Some s \<Rightarrow> Done s | None \<Rightarrow> Undefined)"

section \<open>Spans around RUM steps\<close>

definition default_span_config :: span_config where
  "default_span_config = \<lparr>cf_service = None, cf_environment = None, cf_version = None, cf_name = [], cf_resource = None, cf_start = None\<rparr>"

text \<open>The child span that a RUM step is wrapped in when the request has a trace, with the step's error.\<close>

definition rum_wrapped :: "bytes \<Rightarrow> (bytes \<times> bytes) list \<Rightarrow> nat \<Rightarrow> bool \<Rightarrow> tracer \<Rightarrow> tracer" where
  "rum_wrapped name ts parent failed t =
     (case make_span (\<lambda>i. Create_child parent i default_span_config) t of (s, t) \<Rightarrow>
        let t = emit_span (Set_name s name) t; t = fold (\<lambda>(k, v). emit_span (Tag_span s k v)) ts t;
            t = (if failed then emit_span (Set_error s) t else t)
        in emit_span (Destroy_span s) t)"

section \<open>DatadogContext\<close>

definition dd_new :: "build \<Rightarrow> hdr_env \<Rightarrow> hcall \<Rightarrow> tracer \<Rightarrow> ('i ddctx \<times> rum_req \<times> tracer) outcome" where
  "dd_new b env c t =
     outcome_bind
       (if enable_tracing (ca_conf c) then
          (case new_tracing (ca_has_tracer c) (ca_moment c) (ca_request c) (ca_main_tags c) (ca_core_name c) (ca_conf c) None t of
             None \<Rightarrow> Raised
           | Some (rt, t) \<Rightarrow> Done ([rt], t))
        else Done ([], t))
       (\<lambda>(traces, t).
          let dc = \<lparr>dc_traces = traces, dc_sec = (b = With_waf \<and> ca_waf_enabled c), dc_rum = new_handler\<rparr> in
          if b = With_rum \<and> rum_enable (ca_rum c) then
            (case on_rewrite_handler env (ca_rum_req c) of (rc, r) \<Rightarrow>
               (case find_trace (ca_request c) dc of
                  None \<Rightarrow> Done (dc, r, t)
                | Some rt \<Rightarrow> outcome_bind (the_active_span rt) (\<lambda>sp.
                    Done (dc, r, rum_wrapped ''rum_sdk_injection.on_rewrite_handler'' [] sp (rc = NGX_ERROR) t))))
          else Done (dc, ca_rum_req c, t))"

text \<open>An existing trace is updated in place; another request gets a trace of its own below the first one.\<close>

fun update_trace :: "nat \<Rightarrow> tracing \<Rightarrow> tracing list \<Rightarrow> tracing list" where
  "update_trace request rt [] = []"
| "update_trace request rt (x # xs) = (if rt_request x = request then rt # xs else x # update_trace request rt xs)"

definition dd_on_change_block :: "hcall \<Rightarrow> 'i ddctx \<Rightarrow> tracer \<Rightarrow> ('i ddctx \<times> tracer) outcome" where
  "dd_on_change_block c dc t =
     (if \<not> enable_tracing (ca_conf c) then Done (dc, t)
      else case find_trace (ca_request c) dc of
        Some rt \<Rightarrow>
          (case tracing_on_change_block (ca_moment c) (ca_core_name c) (ca_conf c) rt t of
             None \<Rightarrow> Undefined
           | Some (rt', t) \<Rightarrow> Done (dc\<lparr>dc_traces := update_trace (ca_request c) rt' (dc_traces dc)\<rparr>, t))
      | None \<Rightarrow>
          (case dc_traces dc of
             [] \<Rightarrow> Undefined
           | rt0 # _ \<Rightarrow> outcome_bind (the_active_span rt0) (\<lambda>sp.
               case new_tracing (ca_has_tracer c) (ca_moment c) (ca_request c) (ca_main_tags c) (ca_core_name c) (ca_conf c) (Some sp) t of
                 None \<Rightarrow> Raised
               | Some (rt, t) \<Rightarrow> Done (dc\<lparr>dc_traces := dc_traces dc @ [rt]\<rparr>, t))))"

definition dd_on_main_req_access :: "'i ddctx \<Rightarrow> nat option outcome" where
  "dd_on_main_req_access dc =
     (if \<not> dc_sec dc then Done None
      else outcome_bind (single_trace dc) (\<lambda>rt. outcome_bind (the_active_span rt) (\<lambda>sp. Done (Some sp))))"

text \<open>What a filter does: it calls the next filter, the WAF with a span, or the RUM handler, in order.\<close>

datatype filter_call = Next_filter | Waf_filter nat

text \<open>\<^verbatim>\<open>loc_conf\<close> is taken to be present.\<close>

definition dd_on_header_filter ::
  "build \<Rightarrow> hdr_env \<Rightarrow> 'i injector_ops \<Rightarrow> (rum_req \<Rightarrow> int) \<Rightarrow> hcall \<Rightarrow> 'i ddctx \<Rightarrow> tracer
    \<Rightarrow> (filter_call list \<times> 'i ddctx \<times> rum_req \<times> tracer) outcome" where
  "dd_on_header_filter b env ops next_header_filter c dc t =
     (if b = With_rum \<and> rum_enable (ca_rum c) then
        (case on_header_filter env ops next_header_filter (ca_rum c) (dc_rum dc) (ca_rum_req c) of
           None \<Rightarrow> Undefined
         | Some hr \<Rightarrow>
             outcome_bind
               (case find_trace (ca_request c) dc of
                  None \<Rightarrow> Done t
                | Some rt \<Rightarrow> outcome_bind (the_active_span rt) (\<lambda>sp.
                    Done (rum_wrapped ''rum_sdk_injection.on_header'' [] sp (hr_rc hr = NGX_ERROR \<or> hr_rc hr = Filter_rc (- 1)) t)))
               (\<lambda>t. Done (replicate (hr_next_calls hr) Next_filter @ [Next_filter], dc\<lparr>dc_rum := hr_handler hr\<rparr>, hr_req hr, t)))
      else if b = With_waf \<and> dc_sec dc \<and> ca_is_main c \<and> find_trace (ca_request c) dc \<noteq> None then
        (case find_trace (ca_request c) dc of
           None \<Rightarrow> Undefined
         | Some rt \<Rightarrow> outcome_bind (the_active_span rt) (\<lambda>sp. Done ([Waf_filter sp], dc, ca_rum_req c, t)))
      else Done ([Next_filter], dc, ca_rum_req c, t))"

definition dd_request_body_filter :: "hcall \<Rightarrow> 'i ddctx \<Rightarrow> filter_call list outcome" where
  "dd_request_body_filter c dc =
     (if \<not> dc_sec dc then Done [Next_filter]
      else case find_trace (ca_request c) dc of
        None \<Rightarrow> Raised
      | Some rt \<Rightarrow> outcome_bind (the_active_span rt) (\<lambda>sp. Done [Waf_filter sp]))"

text \<open>
  With RUM the handler gets the chain, and its result is the chain passed on; \<open>failed\<close> is whether the
  next filter reports an error for it.
\<close>

definition dd_on_output_body_filter ::
  "build \<Rightarrow> 'i injector_ops \<Rightarrow> hcall \<Rightarrow> nat option \<Rightarrow> bool \<Rightarrow> 'i ddctx \<Rightarrow> link_store \<Rightarrow> tracer
    \<Rightarrow> (filter_call list \<times> 'i ddctx \<times> nat option \<times> link_store \<times> tracer) outcome" where
  "dd_on_output_body_filter b ops c chain failed dc s t =
     (if b = With_waf then
        (if \<not> dc_sec dc then Done ([Next_filter], dc, chain, s, t)
         else case find_trace (ca_request c) dc of
           None \<Rightarrow> Raised
         | Some rt \<Rightarrow> outcome_bind (the_active_span rt) (\<lambda>sp. Done ([Waf_filter sp], dc, chain, s, t)))
      else if b = With_rum \<and> rum_enable (ca_rum c) then
        (case on_body_filter ops (ca_rum c) chain (dc_rum dc) s of
           None \<Rightarrow> Undefined
         | Some br \<Rightarrow>
             outcome_bind
               (case find_trace (ca_request c) dc of
                  None \<Rightarrow> Done t
                | Some rt \<Rightarrow> (case rum_snippet (ca_rum c) of
                    None \<Rightarrow> Undefined
                  | Some sn \<Rightarrow> outcome_bind (the_active_span rt) (\<lambda>sp.
                      Done (rum_wrapped ''rum_sdk_injection.on_body_filter'' [(''configuration.length'', decimal (length sn))] sp failed t))))
               (\<lambda>t. Done ([Next_filter], dc\<lparr>dc_rum := br_handler br\<rparr>, br_out br, br_store br, t)))
      else Done ([Next_filter], dc, chain, s, t))"

text \<open>The result says with which span the WAF is told that the request is logged, and which RUM counters are incremented.\<close>

definition dd_on_log_request ::
  "build \<Rightarrow> hdr_env \<Rightarrow> hcall \<Rightarrow> 'i ddctx \<Rightarrow> tracer \<Rightarrow> (nat option \<times> counter list \<times> tracer) outcome" where
  "dd_on_log_request b env c dc t =
     outcome_bind
       (if b = With_rum \<and> rum_enable (ca_rum c)
        then (case on_log_request env (ca_rum_req c) of None \<Rightarrow> Undefined | Some cs \<Rightarrow> Done cs) else Done [])
       (\<lambda>cs.
          if \<not> enable_tracing (ca_conf c) then Done (None, cs, t)
          else case find_trace (ca_request c) dc of
            None \<Rightarrow> Raised
          | Some rt \<Rightarrow>
              (case tracing_on_log_request (ca_moment c) rt t of
                 None \<Rightarrow> Undefined
               | Some t \<Rightarrow>
                   if dc_sec dc \<and> ca_is_main c then outcome_bind (the_active_span rt) (\<lambda>sp. Done (Some sp, cs, t)) else Done (None, cs, t)))"

text \<open>
  The span whose context is injected into the request's headers, after the span kind is set;
  \<open>keep_span\<close> is what the security context says when there is one.
\<close>

definition dd_on_precontent_phase :: "bool \<Rightarrow> 'i ddctx \<Rightarrow> tracer \<Rightarrow> (nat option \<times> tracer) outcome" where
  "dd_on_precontent_phase keep_span dc t =
     (case dc_traces dc of
        [] \<Rightarrow> Done (None, t)
      | rt # _ \<Rightarrow> outcome_bind (the_active_span rt) (\<lambda>sp.
          let t = emit_span (Tag_span sp ''span.kind'' ''client'') t;
              t = (if dc_sec dc \<and> keep_span then emit_span (Set_source_appsec sp) t else t)
          in Done (Some sp, t)))"

definition dd_lookup_span_variable :: "(bytes \<Rightarrow> nat \<Rightarrow> bytes) \<Rightarrow> nat \<Rightarrow> bytes \<Rightarrow> 'i ddctx \<Rightarrow> bytes outcome" where
  "dd_lookup_span_variable resolve request key dc =
     (case find_trace request dc of
        None \<Rightarrow> Raised
      | Some rt \<Rightarrow> outcome_bind (the_active_span rt) (\<lambda>sp. Done (resolve key sp)))"

section \<open>Contexts of requests\<close>

text \<open>
  nginx's slot for the module in each request, the module's cleanup handlers in the pool that a
  request and its subrequests share, newest first, and the contexts by address.
\<close>

record 'i world =
  wd_slot :: "nat \<Rightarrow> nat option"
  wd_cleanups :: "nat option list"
  wd_ctx :: "nat \<Rightarrow> 'i ddctx option"
  wd_fresh :: nat
  wd_tracer :: tracer

definition get_datadog_context :: "hcall \<Rightarrow> 'i world \<Rightarrow> nat option \<times> 'i world" where
  "get_datadog_context c w =
     (case wd_slot w (ca_request c) of
        Some a \<Rightarrow> (Some a, w)
      | None \<Rightarrow>
          if \<not> ca_internal c then (None, w)
          else case wd_cleanups w of
            Some a # _ \<Rightarrow> (Some a, w\<lparr>wd_slot := (wd_slot w)(ca_request c \<mapsto> a)\<rparr>)
          | _ \<Rightarrow> (None, w))"

text \<open>Without a cleanup handler the context is deleted again, and an exception is raised.\<close>

definition set_datadog_context :: "hcall \<Rightarrow> 'i ddctx \<Rightarrow> 'i world \<Rightarrow> 'i world outcome" where
  "set_datadog_context c dc w =
     (if \<not> ca_cleanup_ok c then Raised
      else Done (w\<lparr>wd_slot := (wd_slot w)(ca_request c \<mapsto> wd_fresh w), wd_cleanups := Some (wd_fresh w) # wd_cleanups w,
                   wd_ctx := (wd_ctx w)(wd_fresh w \<mapsto> dc), wd_fresh := Suc (wd_fresh w)\<rparr>))"

definition destroy_datadog_context :: "hcall \<Rightarrow> 'i world \<Rightarrow> 'i world" where
  "destroy_datadog_context c w =
     (case wd_cleanups w of
        [] \<Rightarrow> w
      | d # ds \<Rightarrow> w\<lparr>wd_ctx := (case d of None \<Rightarrow> wd_ctx w | Some a \<Rightarrow> (wd_ctx w)(a := None)),
                    wd_cleanups := None # ds, wd_slot := (wd_slot w)(ca_request c := None)\<rparr>)"

section \<open>Handlers\<close>

definition is_datadog_tracing_enabled :: "hcall \<Rightarrow> bool" where
  "is_datadog_tracing_enabled c \<longleftrightarrow> (if ca_is_main c then enable_tracing (ca_conf c) else enable_tracing (ca_conf c) \<and> ca_log_subrequest c)"

text \<open>
  The rewrite phase of every block. Exceptions end here; what is left is the new state or undefined
  behaviour, to which the use of a destroyed context counts.
\<close>

definition on_enter_block :: "build \<Rightarrow> hdr_env \<Rightarrow> hcall \<Rightarrow> 'i world \<Rightarrow> 'i world outcome" where
  "on_enter_block b env c w =
     (if \<not> is_datadog_tracing_enabled c \<and> \<not> (b = With_rum \<and> rum_enable (ca_rum c)) then Done w
      else case get_datadog_context c w of
        (None, w) \<Rightarrow>
          (case dd_new b env c (wd_tracer w) of
             Undefined \<Rightarrow> Undefined
           | Raised \<Rightarrow> Done w
           | Done (dc, r, t) \<Rightarrow>
               (case set_datadog_context c dc (w\<lparr>wd_tracer := t\<rparr>) of
                  Done w' \<Rightarrow> Done w' | Raised \<Rightarrow> Done (w\<lparr>wd_tracer := t\<rparr>) | Undefined \<Rightarrow> Undefined))
      | (Some a, w) \<Rightarrow>
          (case wd_ctx w a of
             None \<Rightarrow> Undefined
           | Some dc \<Rightarrow>
               (case dd_on_change_block c dc (wd_tracer w) of
                  Undefined \<Rightarrow> Undefined
                | Raised \<Rightarrow> Done (destroy_datadog_context c w)
                | Done (dc', t) \<Rightarrow> Done (w\<lparr>wd_ctx := (wd_ctx w)(a \<mapsto> dc'), wd_tracer := t\<rparr>))))"

text \<open>
  The other handlers look up the context, do without one, and turn an exception into \<^verbatim>\<open>failed\<close>.
\<close>

definition in_context ::
  "hcall \<Rightarrow> 'a \<Rightarrow> 'a \<Rightarrow> ('i ddctx \<Rightarrow> tracer \<Rightarrow> ('a \<times> 'i ddctx \<times> tracer) outcome) \<Rightarrow> 'i world \<Rightarrow> ('a \<times> 'i world) outcome" where
  "in_context c absent failed f w =
     (case get_datadog_context c w of
        (None, w) \<Rightarrow> Done (absent, w)
      | (Some a, w) \<Rightarrow>
          (case wd_ctx w a of
             None \<Rightarrow> Undefined
           | Some dc \<Rightarrow>
               (case f dc (wd_tracer w) of
                  Undefined \<Rightarrow> Undefined
                | Raised \<Rightarrow> Done (failed, w)
                | Done (x, dc', t) \<Rightarrow> Done (x, w\<lparr>wd_ctx := (wd_ctx w)(a \<mapsto> dc'), wd_tracer := t\<rparr>))))"

text \<open>\<^const>\<open>None\<close> is \<^verbatim>\<open>NGX_ERROR\<close>.\<close>

definition handle_header_filter ::
  "build \<Rightarrow> hdr_env \<Rightarrow> 'i injector_ops \<Rightarrow> (rum_req \<Rightarrow> int) \<Rightarrow> hcall \<Rightarrow> 'i world \<Rightarrow> (filter_call list option \<times> 'i world) outcome" where
  "handle_header_filter b env ops next_header_filter c =
     in_context c (Some [Next_filter]) None
       (\<lambda>dc t. outcome_bind (dd_on_header_filter b env ops next_header_filter c dc t) (\<lambda>(calls, dc, r, t). Done (Some calls, dc, t)))"

definition handle_request_body_filter :: "hcall \<Rightarrow> 'i world \<Rightarrow> (filter_call list option \<times> 'i world) outcome" where
  "handle_request_body_filter c w =
     (if \<not> ca_is_main c then Done (Some [Next_filter], w)
      else in_context c (Some [Next_filter]) None
        (\<lambda>dc t. outcome_bind (dd_request_body_filter c dc) (\<lambda>calls. Done (Some calls, dc, t))) w)"

definition handle_output_body_filter ::
  "build \<Rightarrow> 'i injector_ops \<Rightarrow> hcall \<Rightarrow> nat option \<Rightarrow> bool \<Rightarrow> link_store \<Rightarrow> 'i world
    \<Rightarrow> ((filter_call list \<times> nat option \<times> link_store) option \<times> 'i world) outcome" where
  "handle_output_body_filter b ops c chain failed s w =
     (if \<not> ca_is_main c then Done (Some ([Next_filter], chain, s), w)
      else in_context c (Some ([Next_filter], chain, s)) None
        (\<lambda>dc t. outcome_bind (dd_on_output_body_filter b ops c chain failed dc s t)
           (\<lambda>(calls, dc, out, s, t). Done (Some (calls, out, s), dc, t))) w)"

text \<open>The access phase: the span with which the WAF is started, if it is.\<close>

definition handle_access :: "hcall \<Rightarrow> 'i world \<Rightarrow> (nat option \<times> 'i world) outcome" where
  "handle_access c w =
     (if \<not> ca_is_main c then Done (None, w)
      else in_context c None None (\<lambda>dc t. outcome_bind (dd_on_main_req_access dc) (\<lambda>sp. Done (sp, dc, t))) w)"

definition handle_log_request :: "build \<Rightarrow> hdr_env \<Rightarrow> hcall \<Rightarrow> 'i world \<Rightarrow> ((nat option \<times> counter list) \<times> 'i world) outcome" where
  "handle_log_request b env c =
     in_context c (None, []) (None, [])
       (\<lambda>dc t. outcome_bind (dd_on_log_request b env c dc t) (\<lambda>(sp, cs, t). Done ((sp, cs), dc, t)))"

definition handle_precontent_phase :: "bool \<Rightarrow> hcall \<Rightarrow> 'i world \<Rightarrow> (nat option option \<times> 'i world) outcome" where
  "handle_precontent_phase keep_span c =
     in_context c (Some None) None (\<lambda>dc t. outcome_bind (dd_on_precontent_phase keep_span dc t) (\<lambda>(sp, t). Done (Some sp, dc, t)))"

section \<open>Properties\<close>

definition empty_world :: "tracer \<Rightarrow> 'i world" where
  "empty_world t = \<lparr>wd_slot = (\<lambda>_. None), wd_cleanups = [], wd_ctx = (\<lambda>_. None), wd_fresh = 0, wd_tracer = t\<rparr>"

fun enter_blocks :: "build \<Rightarrow> hdr_env \<Rightarrow> hcall list \<Rightarrow> 'i world \<Rightarrow> 'i world outcome" where
  "enter_blocks b env [] w = Done w"
| "enter_blocks b env (c # cs) w = outcome_bind (on_enter_block b env c w) (enter_blocks b env cs)"

definition rt_ok :: "tracing \<Rightarrow> bool" where
  "rt_ok rt \<longleftrightarrow> (enable_locations (rt_conf rt) \<longrightarrow> rt_span rt \<noteq> None)"

definition ctx_ok :: "'i ddctx \<Rightarrow> bool" where
  "ctx_ok dc \<longleftrightarrow> dc_traces dc \<noteq> [] \<and> list_all rt_ok (dc_traces dc)"

text \<open>Every context that nginx or the pool refers to is alive and has a first trace with an active span.\<close>

definition world_ok :: "'i world \<Rightarrow> bool" where
  "world_ok w \<longleftrightarrow> (\<forall>r a. wd_slot w r = Some a \<longrightarrow> (\<exists>dc. wd_ctx w a = Some dc \<and> ctx_ok dc))
     \<and> (\<forall>a. Some a \<in> set (wd_cleanups w) \<longrightarrow> (\<exists>dc. wd_ctx w a = Some dc \<and> ctx_ok dc))"

lemma rt_ok_active: "rt_ok rt \<Longrightarrow> \<exists>sp. the_active_span rt = Done sp"
  by (auto simp: rt_ok_def the_active_span_def active_span_def)

lemma new_tracing_ok:
  "\<exists>rt t'. new_tracing True mo request main_tags core_name lc parent t = Some (rt, t') \<and> rt_ok rt \<and> rt_request rt = request"
proof -
  from new_tracing_inv [of mo request main_tags core_name lc parent t] show ?thesis by (fastforce simp: trace_inv_def rt_ok_def)
qed

lemma change_block_ok:
  assumes "rt_ok rt"
  shows "\<exists>rt' t'. tracing_on_change_block mo core_name lc rt t = Some (rt', t') \<and> rt_ok rt'"
proof -
  from assms obtain s where "enable_locations (rt_conf rt) \<Longrightarrow> rt_span rt = Some s" by (auto simp: rt_ok_def)
  from exit_block_grows [OF this] obtain t1 where "on_exit_block mo (now_tick mo) rt t = Some t1" by blast
  then show ?thesis by (auto simp: tracing_on_change_block_def Let_def rt_ok_def make_span_def)
qed

lemma update_trace_set: "x \<in> set (update_trace request rt xs) \<Longrightarrow> x = rt \<or> x \<in> set xs"
  by (induction xs) (auto split: if_splits)

lemma update_trace_empty: "update_trace request rt xs = [] \<longleftrightarrow> xs = []"
  by (cases xs) auto

lemma dd_new_ok:
  assumes "b \<noteq> With_rum" and "ca_has_tracer c" and "enable_tracing (ca_conf c)"
  shows "\<exists>dc r t'. dd_new b env c t = Done (dc, r, t') \<and> ctx_ok dc"
  using new_tracing_ok [of "ca_moment c" "ca_request c" "ca_main_tags c" "ca_core_name c" "ca_conf c" None t] assms
  by (auto simp: dd_new_def ctx_ok_def Let_def)

lemma dd_change_block_ok:
  assumes ok: "ctx_ok dc" and "ca_has_tracer c"
  shows "\<exists>dc' t'. dd_on_change_block c dc t = Done (dc', t') \<and> ctx_ok dc'"
proof (cases "enable_tracing (ca_conf c)")
  case True
  show ?thesis
  proof (cases "find_trace (ca_request c) dc")
    case None
    from ok obtain rt0 rts where rts: "dc_traces dc = rt0 # rts" "rt_ok rt0" by (cases "dc_traces dc") (auto simp: ctx_ok_def)
    obtain sp where sp: "the_active_span rt0 = Done sp" using rt_ok_active [OF rts(2)] by blast
    from new_tracing_ok [of "ca_moment c" "ca_request c" "ca_main_tags c" "ca_core_name c" "ca_conf c" "Some sp" t] None True rts sp assms
    show ?thesis by (auto simp: dd_on_change_block_def ctx_ok_def)
  next
    case (Some rt)
    then have "rt \<in> set (dc_traces dc)" by (auto simp: find_trace_def find_Some_iff)
    with ok have "rt_ok rt" by (auto simp: ctx_ok_def list_all_iff)
    then obtain rt' t' where "tracing_on_change_block (ca_moment c) (ca_core_name c) (ca_conf c) rt t = Some (rt', t')" "rt_ok rt'"
      using change_block_ok by blast
    with Some True ok show ?thesis
      by (auto simp: dd_on_change_block_def ctx_ok_def list_all_iff update_trace_empty dest!: update_trace_set)
  qed
qed (use ok in \<open>auto simp: dd_on_change_block_def\<close>)

lemma get_context_ok:
  assumes "world_ok w" and "get_datadog_context c w = (ctx, w1)"
  shows "world_ok w1" and "ctx = Some a \<Longrightarrow> \<exists>dc. wd_ctx w1 a = Some dc \<and> ctx_ok dc"
  using assms by (auto simp: world_ok_def get_datadog_context_def split: option.splits if_splits list.splits)

lemma enter_block_ok:
  assumes ok: "world_ok w" and b: "b \<noteq> With_rum" and c: "ca_has_tracer c"
  shows "\<exists>w'. on_enter_block b env c w = Done w' \<and> world_ok w'"
proof (cases "is_datadog_tracing_enabled c")
  case True
  then have en: "enable_tracing (ca_conf c)" by (auto simp: is_datadog_tracing_enabled_def split: if_splits)
  obtain ctx w1 where g: "get_datadog_context c w = (ctx, w1)" by fastforce
  note ok1 = get_context_ok [OF ok g]
  show ?thesis
  proof (cases ctx)
    case None
    obtain dc :: "'a ddctx" and r t where n: "dd_new b env c (wd_tracer w1) = Done (dc, r, t)" "ctx_ok dc" using dd_new_ok [OF b c en] by blast
    with True None g ok1(1) show ?thesis
      by (cases "ca_cleanup_ok c") (auto simp: on_enter_block_def set_datadog_context_def world_ok_def)
  next
    case (Some a)
    with ok1(2) obtain dc where dc: "wd_ctx w1 a = Some dc" "ctx_ok dc" by blast
    obtain dc' t' where "dd_on_change_block c dc (wd_tracer w1) = Done (dc', t')" "ctx_ok dc'" using dd_change_block_ok [OF dc(2) c] by blast
    with True Some g dc(1) ok1(1) show ?thesis by (auto simp: on_enter_block_def world_ok_def)
  qed
qed (use assms in \<open>auto simp: on_enter_block_def\<close>)

text \<open>The calls of nginx in any order.\<close>

datatype hevent = Enter_block | Access | Header_filter | Request_body | Output_body "nat option" bool link_store | Precontent bool | Log_request

fun handle :: "build \<Rightarrow> hdr_env \<Rightarrow> 'i injector_ops \<Rightarrow> (rum_req \<Rightarrow> int) \<Rightarrow> hevent \<Rightarrow> hcall \<Rightarrow> 'i world \<Rightarrow> 'i world outcome" where
  "handle b env ops nf Enter_block c w = on_enter_block b env c w"
| "handle b env ops nf Access c w = outcome_bind (handle_access c w) (\<lambda>(_, w). Done w)"
| "handle b env ops nf Header_filter c w = outcome_bind (handle_header_filter b env ops nf c w) (\<lambda>(_, w). Done w)"
| "handle b env ops nf Request_body c w = outcome_bind (handle_request_body_filter c w) (\<lambda>(_, w). Done w)"
| "handle b env ops nf (Output_body chain failed s) c w = outcome_bind (handle_output_body_filter b ops c chain failed s w) (\<lambda>(_, w). Done w)"
| "handle b env ops nf (Precontent keep) c w = outcome_bind (handle_precontent_phase keep c w) (\<lambda>(_, w). Done w)"
| "handle b env ops nf Log_request c w = outcome_bind (handle_log_request b env c w) (\<lambda>(_, w). Done w)"

fun handle_all ::
  "build \<Rightarrow> hdr_env \<Rightarrow> 'i injector_ops \<Rightarrow> (rum_req \<Rightarrow> int) \<Rightarrow> (hevent \<times> hcall) list \<Rightarrow> 'i world \<Rightarrow> 'i world outcome" where
  "handle_all b env ops nf [] w = Done w"
| "handle_all b env ops nf ((e, c) # es) w = outcome_bind (handle b env ops nf e c w) (handle_all b env ops nf es)"

lemma find_trace_ok: "ctx_ok dc \<Longrightarrow> find_trace r dc = Some rt \<Longrightarrow> \<exists>sp. the_active_span rt = Done sp"
  by (rule rt_ok_active) (auto simp: find_trace_def find_Some_iff ctx_ok_def list_all_length)

text \<open>Operations that do not change the context.\<close>

definition reads_context :: "('i ddctx \<Rightarrow> tracer \<Rightarrow> ('a \<times> 'i ddctx \<times> tracer) outcome) \<Rightarrow> bool" where
  "reads_context f \<longleftrightarrow> (\<forall>dc t. ctx_ok dc \<longrightarrow> f dc t = Raised \<or> (\<exists>x t'. f dc t = Done (x, dc, t')))"

lemma in_context_ok:
  assumes ok: "world_ok w" and f: "reads_context f"
  shows "\<exists>x w'. in_context c absent failed f w = Done (x, w') \<and> world_ok w'"
proof -
  obtain ctx w1 where g: "get_datadog_context c w = (ctx, w1)" by fastforce
  note ok1 = get_context_ok [OF ok g]
  show ?thesis
  proof (cases ctx)
    case None
    with g ok1(1) show ?thesis by (simp add: in_context_def)
  next
    case (Some a)
    with ok1(2) obtain dc where dc: "wd_ctx w1 a = Some dc" "ctx_ok dc" by blast
    with f consider "f dc (wd_tracer w1) = Raised" | x t' where "f dc (wd_tracer w1) = Done (x, dc, t')"
      unfolding reads_context_def by blast
    then show ?thesis using g Some dc ok1(1) by cases (auto simp: in_context_def world_ok_def)
  qed
qed

lemma reads_contextI:
  "(\<And>dc t. ctx_ok dc \<Longrightarrow> f dc t = Raised \<or> (\<exists>x t'. f dc t = Done (x, dc, t'))) \<Longrightarrow> reads_context f"
  by (auto simp: reads_context_def)

lemma header_filter_reads:
  "b \<noteq> With_rum \<Longrightarrow> reads_context (\<lambda>dc t. outcome_bind (dd_on_header_filter b env ops nf c dc t) (\<lambda>(calls, dc, r, t). Done (Some calls, dc, t)))"
  using find_trace_ok [of _ "ca_request c"] by (fastforce simp: reads_context_def dd_on_header_filter_def)

lemma request_body_reads:
  "reads_context (\<lambda>dc t. outcome_bind (dd_request_body_filter c dc) (\<lambda>calls. Done (Some calls, dc, t)))"
proof (rule reads_contextI)
  fix dc :: "'a ddctx" and t assume ok: "ctx_ok dc"
  show "outcome_bind (dd_request_body_filter c dc) (\<lambda>calls. Done (Some calls, dc, t)) = Raised \<or>
    (\<exists>x t'. outcome_bind (dd_request_body_filter c dc) (\<lambda>calls. Done (Some calls, dc, t)) = Done (x, dc, t'))"
    using find_trace_ok [OF ok, of "ca_request c"] by (cases "find_trace (ca_request c) dc") (auto simp: dd_request_body_filter_def)
qed

lemma output_body_reads:
  assumes "b \<noteq> With_rum"
  shows "reads_context (\<lambda>dc t. outcome_bind (dd_on_output_body_filter b ops c chain failed dc s t)
     (\<lambda>(calls, dc, out, s, t). Done (Some (calls, out, s), dc, t)))" (is "reads_context ?f")
proof (rule reads_contextI)
  fix dc :: "'a ddctx" and t assume ok: "ctx_ok dc"
  show "?f dc t = Raised \<or> (\<exists>x t'. ?f dc t = Done (x, dc, t'))"
    using assms find_trace_ok [OF ok, of "ca_request c"] by (cases "find_trace (ca_request c) dc") (auto simp: dd_on_output_body_filter_def)
qed

lemma access_reads: "reads_context (\<lambda>dc t. outcome_bind (dd_on_main_req_access dc) (\<lambda>sp. Done (sp, dc, t)))" (is "reads_context ?f")
proof (rule reads_contextI)
  fix dc :: "'a ddctx" and t assume ok: "ctx_ok dc"
  show "?f dc t = Raised \<or> (\<exists>x t'. ?f dc t = Done (x, dc, t'))"
  proof (cases "single_trace dc")
    case (Done rt)
    then have "rt_ok rt" using ok by (auto simp: single_trace_def ctx_ok_def split: list.splits)
    from rt_ok_active [OF this] Done show ?thesis by (auto simp: dd_on_main_req_access_def)
  qed (auto simp: dd_on_main_req_access_def single_trace_def split: list.splits)
qed

lemma precontent_reads:
  "reads_context (\<lambda>dc t. outcome_bind (dd_on_precontent_phase keep dc t) (\<lambda>(sp, t). Done (Some sp, dc, t)))" (is "reads_context ?f")
proof (rule reads_contextI)
  fix dc :: "'a ddctx" and t assume ok: "ctx_ok dc"
  then obtain rt rts where rt: "dc_traces dc = rt # rts" "rt_ok rt" by (cases "dc_traces dc") (auto simp: ctx_ok_def)
  from rt_ok_active [OF rt(2)] rt(1) show "?f dc t = Raised \<or> (\<exists>x t'. ?f dc t = Done (x, dc, t'))"
    by (auto simp: dd_on_precontent_phase_def Let_def)
qed

lemma log_reads:
  assumes "b \<noteq> With_rum"
  shows "reads_context (\<lambda>dc t. outcome_bind (dd_on_log_request b env c dc t) (\<lambda>(sp, cs, t). Done ((sp, cs), dc, t)))" (is "reads_context ?f")
proof (rule reads_contextI)
  fix dc :: "'a ddctx" and t assume ok: "ctx_ok dc"
  show "?f dc t = Raised \<or> (\<exists>x t'. ?f dc t = Done (x, dc, t'))"
  proof (cases "find_trace (ca_request c) dc")
    case (Some rt)
    then have "rt_ok rt" using ok by (auto simp: find_trace_def find_Some_iff ctx_ok_def list_all_length)
    then obtain s where "enable_locations (rt_conf rt) \<Longrightarrow> rt_span rt = Some s" by (auto simp: rt_ok_def)
    from exit_block_grows [OF this] obtain t1 where "on_exit_block (ca_moment c) (now_tick (ca_moment c)) rt t = Some t1" by blast
    with Some assms find_trace_ok [OF ok Some] show ?thesis by (auto simp: dd_on_log_request_def tracing_on_log_request_def Let_def)
  qed (use assms in \<open>auto simp: dd_on_log_request_def\<close>)
qed

lemma in_context_done:
  assumes "world_ok w" and "reads_context f"
  shows "\<exists>w'. outcome_bind (in_context c absent failed f w) (\<lambda>(_, w). Done w) = Done w' \<and> world_ok w'"
proof -
  obtain x w' where "in_context c absent failed f w = Done (x, w')" "world_ok w'" using in_context_ok [OF assms] by blast
  then show ?thesis by simp
qed

lemma handle_ok:
  assumes "world_ok w" and "b \<noteq> With_rum" and "ca_has_tracer c"
  shows "\<exists>w'. handle b env ops nf e c w = Done w' \<and> world_ok w'"
proof (cases e)
  case Enter_block
  with enter_block_ok [OF assms] show ?thesis by simp
next
  case Access
  with in_context_done [OF assms(1) access_reads, of c None None] assms(1) show ?thesis by (simp add: handle_access_def)
next
  case Header_filter
  with in_context_done [OF assms(1) header_filter_reads [OF assms(2)]] show ?thesis by (simp add: handle_header_filter_def)
next
  case Request_body
  with in_context_done [OF assms(1) request_body_reads, of c "Some [Next_filter]" None c] assms(1) show ?thesis
    by (simp add: handle_request_body_filter_def)
next
  case (Output_body chain failed s)
  with in_context_done [OF assms(1) output_body_reads [OF assms(2)]] assms(1) show ?thesis by (simp add: handle_output_body_filter_def)
next
  case (Precontent keep)
  with in_context_done [OF assms(1) precontent_reads] show ?thesis by (simp add: handle_precontent_phase_def)
next
  case Log_request
  with in_context_done [OF assms(1) log_reads [OF assms(2)]] show ?thesis by (simp add: handle_log_request_def)
qed

lemma handle_all_ok:
  "world_ok w \<Longrightarrow> b \<noteq> With_rum \<Longrightarrow> list_all (\<lambda>(_, c). ca_has_tracer c) es \<Longrightarrow> \<exists>w'. handle_all b env ops nf es w = Done w' \<and> world_ok w'"
proof (induction es arbitrary: w)
  case (Cons ec es)
  obtain e c where ec: "ec = (e, c)" by (cases ec)
  with Cons.prems obtain w1 where "handle b env ops nf e c w = Done w1" "world_ok w1" using handle_ok [of w b c env ops nf e] by auto
  with Cons ec show ?case by auto
qed simp

text \<open>
  C36. Without RUM injection and with a tracer, the handlers have defined behaviour over every sequence
  of calls for requests, subrequests and internal redirects, in whatever blocks tracing is on: every
  context that a request refers to is alive, has a first trace, the parent of those of subrequests,
  and each of its traces has an active span.
\<close>

theorem contexts_always_traced:
  assumes "b \<noteq> With_rum" and "list_all (\<lambda>(_, c). ca_has_tracer c) es"
  shows "\<exists>w. handle_all b env ops nf es (empty_world t) = Done w
    \<and> (\<forall>r a. wd_slot w r = Some a \<longrightarrow> (\<exists>dc. wd_ctx w a = Some dc \<and> dc_traces dc \<noteq> [] \<and> (\<forall>rt \<in> set (dc_traces dc). active_span rt \<noteq> None)))"
proof -
  have "world_ok (empty_world t :: 'a world)" by (simp add: world_ok_def empty_world_def)
  from handle_all_ok [OF this assms, of env ops nf] obtain w :: "'a world" where
    w: "handle_all b env ops nf es (empty_world t) = Done w" "world_ok w" by blast
  have "active_span rt \<noteq> None" if "rt_ok rt" for rt using that by (auto simp: rt_ok_def active_span_def)
  with w show ?thesis by (fastforce simp: world_ok_def ctx_ok_def list_all_iff)
qed

text \<open>A block, its environment and a request, for examples.\<close>

definition plain_conf :: "bool \<Rightarrow> bool \<Rightarrow> trace_conf" where
  "plain_conf tracing locations = \<lparr>enable_tracing = tracing, enable_locations = locations, trust_incoming_span = True,
     baggage_span_tags_enabled = False, baggage_span_tags = Baggage_flag False, service_name = [], service_env = [], service_version = [],
     operation_name_script = [], resource_name_script = [], loc_operation_name_script = [], loc_resource_name_script = [],
     conf_tags = [], sample_rates = [[]]\<rparr>"

definition plain_moment :: moment where
  "plain_moment = \<lparr>eval_complex_value = (\<lambda>_. None), run_condition = (\<lambda>_. ''off''), now_wall = 0, now_tick = 0, start_sec = 0, start_msec = 0,
     status = 200, status_line = [], upstream_host = None, extract_span = No_span_to_extract, extract_baggage = None\<rparr>"

definition plain_rum_req :: "bytes \<Rightarrow> rum_req" where
  "plain_rum_req ct = \<lparr>rq_headers_in = [\<lparr>pt_elts = [], pt_nelts = 0\<rparr>], rq_in_last = True, rq_headers_out = [\<lparr>pt_elts = [], pt_nelts = 0\<rparr>],
     rq_header_only = False, rq_content_length_n = 10, rq_content_type = ct, rq_content_encoding = None, rq_need_in_memory = False\<rparr>"

definition plain_call :: "nat \<Rightarrow> bool \<Rightarrow> trace_conf \<Rightarrow> bool \<Rightarrow> hcall" where
  "plain_call r internal lc rum = \<lparr>ca_request = r, ca_is_main = (r = 0), ca_internal = internal, ca_core_name = ''/'', ca_log_subrequest = True,
     ca_conf = lc, ca_rum = \<lparr>rum_enable = rum, rum_snippet = Some ''<s>''\<rparr>, ca_moment = plain_moment, ca_has_tracer = True, ca_main_tags = [],
     ca_waf_enabled = True, ca_rum_req = plain_rum_req ''text/css'', ca_cleanup_ok = True\<rparr>"

abbreviation no_spans :: tracer where
  "no_spans \<equiv> \<lparr>tr_fresh = 0, tr_calls = []\<rparr>"

theorem contexts_always_traced_witness:
  "\<exists>w. handle_all With_waf plain_hdr_env plain_injector (\<lambda>_. 0)
       [(Enter_block, plain_call 0 False (plain_conf True True) False), (Enter_block, plain_call 1 True (plain_conf True False) False),
        (Log_request, plain_call 0 False (plain_conf True True) False)] (empty_world no_spans) = Done w"
  using contexts_always_traced [of With_waf
      "[(Enter_block, plain_call 0 False (plain_conf True True) False), (Enter_block, plain_call 1 True (plain_conf True False) False),
        (Log_request, plain_call 0 False (plain_conf True True) False)]" plain_hdr_env plain_injector "\<lambda>_. 0" no_spans]
  by (fastforce simp: plain_call_def)

text \<open>
  With RUM injection, a request that first enters a block with injection but without tracing has a
  context without traces. When it is redirected to a block with tracing, the handler asks for the
  active span of the first trace, which does not exist.
\<close>

theorem rum_redirect_undefined:
  assumes "rum_enable (ca_rum c)" "\<not> enable_tracing (ca_conf c)" "ca_cleanup_ok c"
    and "is_datadog_tracing_enabled d" "ca_internal d" "ca_request d = ca_request c"
  shows "enter_blocks With_rum env [c, d] (empty_world t :: 'i world) = Undefined"
proof -
  have dn: "\<exists>r. (dd_new With_rum env c t :: ('i ddctx \<times> rum_req \<times> tracer) outcome) = Done (\<lparr>dc_traces = [], dc_sec = False, dc_rum = new_handler\<rparr>, r, t)"
    using assms(1,2) by (simp add: dd_new_def find_trace_def Let_def split: prod.splits)
  have "enable_tracing (ca_conf d)" using assms(4) by (auto simp: is_datadog_tracing_enabled_def split: if_splits)
  with dn assms show ?thesis
    by (auto simp: on_enter_block_def get_datadog_context_def empty_world_def set_datadog_context_def dd_on_change_block_def find_trace_def)
qed

theorem rum_redirect_undefined_witness:
  "enter_blocks With_rum plain_hdr_env [plain_call 0 False (plain_conf False False) True, plain_call 0 True (plain_conf True False) True]
     (empty_world no_spans :: unit world) = Undefined"
  by (rule rum_redirect_undefined) (simp_all add: plain_call_def plain_conf_def is_datadog_tracing_enabled_def)

text \<open>
  With RUM injection, a response that is not to be injected into goes through the following header
  filters twice: the handler calls them when it skips the response, and its caller, which does not look
  at the result, calls them again.
\<close>

theorem skipped_response_filtered_twice:
  assumes "rum_enable (ca_rum c)" and search: "search_header env (rq_headers_in (ca_rum_req c)) ''x-datadog-rum-injected'' = Some h"
    and skip: "(\<exists>e. h = Some e \<and> he_value e = ''1'') \<or> rq_header_only (ca_rum_req c) \<or> rq_content_length_n (ca_rum_req c) = 0
      \<or> \<not> is_html_content (rq_content_type (ca_rum_req c)) \<or> (\<exists>v. rq_content_encoding (ca_rum_req c) = Some v \<and> v \<noteq> [])"
    and ok: "list_all rt_ok (dc_traces dc)"
  shows "\<exists>t'. dd_on_header_filter With_rum env ops next_filter c dc t = Done ([Next_filter, Next_filter], dc, ca_rum_req c, t')"
proof -
  let ?r = "ca_rum_req c"
  have hr: "\<exists>cs. on_header_filter env ops next_filter (ca_rum c) (dc_rum dc) ?r =
      Some \<lparr>hr_rc = Filter_rc (next_filter ?r), hr_handler = dc_rum dc, hr_req = ?r, hr_next_calls = 1, hr_counters = cs\<rparr>"
    using assms(1) search skip by (auto simp: on_header_filter_def Let_def split: option.splits)
  have "\<exists>sp. the_active_span rt = Done sp" if "find_trace (ca_request c) dc = Some rt" for rt
  proof (rule rt_ok_active)
    from that have "rt \<in> set (dc_traces dc)" by (auto simp: find_trace_def find_Some_iff)
    with ok show "rt_ok rt" by (simp add: list_all_iff)
  qed
  with hr assms(1) show ?thesis
    by (cases "find_trace (ca_request c) dc") (auto simp: dd_on_header_filter_def)
qed

theorem skipped_response_filtered_twice_witness:
  "\<exists>t'. dd_on_header_filter With_rum plain_hdr_env plain_injector (\<lambda>_. 0) (plain_call 0 False (plain_conf False False) True)
        \<lparr>dc_traces = [], dc_sec = False, dc_rum = new_handler\<rparr> no_spans
     = Done ([Next_filter, Next_filter], \<lparr>dc_traces = [], dc_sec = False, dc_rum = new_handler\<rparr>, plain_rum_req ''text/css'', t')"
proof -
  let ?c = "plain_call 0 False (plain_conf False False) True"
  have r: "ca_rum_req ?c = plain_rum_req ''text/css''" "rum_enable (ca_rum ?c)" by (simp_all add: plain_call_def)
  have s: "search_header plain_hdr_env (rq_headers_in (ca_rum_req ?c)) ''x-datadog-rum-injected'' = Some None"
    by (simp add: r plain_rum_req_def search_header_def walk_list_def walk.simps)
  have "\<not> is_html_content (rq_content_type (ca_rum_req ?c))" unfolding r by code_simp
  then show ?thesis using skipped_response_filtered_twice [OF r(2) s, of "\<lparr>dc_traces = [], dc_sec = False, dc_rum = new_handler\<rparr>"] by (simp add: r)
qed

text \<open>
  When an exception ends the tracing of a subrequest, the context that it shares with the main
  request is deleted, but only the subrequest's reference to it is cleared: the next handler of the
  main request uses a deleted object.
\<close>

lemma exception_leaves_dangling:
  assumes w: "wd_slot w m = Some a" "wd_slot w (ca_request d) = None" "wd_cleanups w = Some a # ds" "wd_ctx w a = Some dc" "ctx_ok dc"
    and d: "ca_internal d" "is_datadog_tracing_enabled d" "\<not> ca_has_tracer d" "find_trace (ca_request d) dc = None"
    and c: "ca_request c = m" "is_datadog_tracing_enabled c" and ne: "ca_request d \<noteq> m"
  shows "enter_blocks b env [d, c] w = Undefined"
proof -
  have e: "enable_tracing (ca_conf d)" using d(2) by (auto simp: is_datadog_tracing_enabled_def split: if_splits)
  from w(5) obtain rt0 rts where r0: "dc_traces dc = rt0 # rts" "rt_ok rt0" by (cases "dc_traces dc") (auto simp: ctx_ok_def)
  then obtain sp where rt: "dc_traces dc = rt0 # rts" "the_active_span rt0 = Done sp" using rt_ok_active by blast
  have "dd_on_change_block d dc t = Raised" for t using e d(3,4) rt by (simp add: dd_on_change_block_def new_tracing_def)
  with w d c ne show ?thesis
    by (simp add: on_enter_block_def get_datadog_context_def destroy_datadog_context_def)
qed

end
