(* ===== verification/Directives.thy ===== *)
theory Directives
  imports Request_Tracing Ddwaf_Obj
begin

text \<open>
  The configuration directives: the tables of \<^verbatim>\<open>src/tracing/directives.h\<close>, \<^verbatim>\<open>src/security/directives.h\<close>,
  \<^verbatim>\<open>src/rum/config.h\<close> and \<^verbatim>\<open>ngx_http_datadog_module.cpp\<close>, the handlers of the module's own directives, and
  the dispatch of \<^verbatim>\<open>datadog_conf_handler.cpp\<close> that an alias goes through. A bit mask is the list of its flags. What nginx and
  its other modules do when a directive is set is the parameter \<open>call\<close>; \<^verbatim>\<open>std::stod\<close>, the compilation of a variable
  script, the thread pools and the names of propagation styles are parameters too. Messages are left out.
\<close>

section \<open>Commands\<close>

datatype conf_flag =
    NGX_CONF_NOARGS | NGX_CONF_TAKE1 | NGX_CONF_TAKE2 | NGX_CONF_TAKE3 | NGX_CONF_TAKE4 | NGX_CONF_TAKE5
  | NGX_CONF_TAKE6 | NGX_CONF_TAKE7 | NGX_CONF_BLOCK | NGX_CONF_FLAG | NGX_CONF_ANY | NGX_CONF_1MORE | NGX_CONF_2MORE
  | NGX_DIRECT_CONF | NGX_MAIN_CONF | NGX_HTTP_MAIN_CONF | NGX_HTTP_SRV_CONF | NGX_HTTP_LOC_CONF

datatype setter =
    Flag_slot | Str_slot | Complex_value_slot | Msec_slot | Size_slot | Num_slot
  | Set_datadog_tag | Set_datadog_sample_rate | Set_datadog_propagation_styles | Set_datadog_baggage_tags
  | Set_datadog_agent_url | Waf_thread_pool_name | On_datadog_rum_config
  | Alias_directive | Silently_ignore_command | Warn_deprecated_command | Err_deprecated_command
  | Foreign_setter nat

datatype conf_level = MAIN_CONF_OFFSET | LOC_CONF_OFFSET

datatype post = No_post | Text_post bytes | Post_file_exists

text \<open>\<open>cmd_offset\<close> is the name of the member whose offset the entry has, empty where it is zero.\<close>

record command =
  cmd_name :: bytes
  cmd_type :: "conf_flag list"
  cmd_set :: setter
  cmd_conf :: conf_level
  cmd_offset :: bytes
  cmd_post :: post

definition directive :: "bytes \<Rightarrow> conf_flag list \<Rightarrow> setter \<Rightarrow> conf_level \<Rightarrow> bytes \<Rightarrow> post \<Rightarrow> command" where
  "directive name type s level offset p =
     \<lparr>cmd_name = name, cmd_type = type, cmd_set = s, cmd_conf = level, cmd_offset = offset, cmd_post = p\<rparr>"

definition IGNORE_COMMAND :: "bytes \<Rightarrow> conf_flag list \<Rightarrow> command" where
  "IGNORE_COMMAND name type = directive name type Silently_ignore_command LOC_CONF_OFFSET [] No_post"

definition ALIAS_COMMAND :: "bytes \<Rightarrow> bytes \<Rightarrow> conf_flag list \<Rightarrow> command" where
  "ALIAS_COMMAND src target type = directive target type Alias_directive LOC_CONF_OFFSET [] (Text_post src)"

definition WARN_DEPRECATED_COMMAND :: "bytes \<Rightarrow> conf_flag list \<Rightarrow> post \<Rightarrow> command" where
  "WARN_DEPRECATED_COMMAND name type msg = directive name type Warn_deprecated_command LOC_CONF_OFFSET [] msg"

definition ERROR_DEPRECATED_COMMAND :: "bytes \<Rightarrow> conf_flag list \<Rightarrow> post \<Rightarrow> command" where
  "ERROR_DEPRECATED_COMMAND name type msg = directive name type Err_deprecated_command LOC_CONF_OFFSET [] msg"

definition anywhere_but_main :: "conf_flag list" where
  "anywhere_but_main = [NGX_HTTP_SRV_CONF, NGX_HTTP_LOC_CONF]"

definition anywhere :: "conf_flag list" where
  "anywhere = anywhere_but_main @ [NGX_HTTP_MAIN_CONF]"

definition tracing_directives :: "command list" where
  "tracing_directives =
    [directive ''datadog_tracing'' (anywhere @ [NGX_CONF_TAKE1]) Flag_slot LOC_CONF_OFFSET ''enable_tracing'' No_post,
     directive ''datadog_apm_tracing_enabled'' [NGX_HTTP_MAIN_CONF, NGX_CONF_TAKE1] Flag_slot MAIN_CONF_OFFSET ''apm_tracing_enabled'' No_post,
     directive ''datadog_trace_locations'' (anywhere @ [NGX_CONF_TAKE1]) Flag_slot LOC_CONF_OFFSET ''enable_locations'' No_post,
     directive ''datadog_operation_name'' (anywhere @ [NGX_CONF_TAKE1]) Complex_value_slot LOC_CONF_OFFSET ''operation_name_script'' No_post,
     directive ''datadog_location_operation_name'' (anywhere @ [NGX_CONF_TAKE1]) Complex_value_slot LOC_CONF_OFFSET ''loc_operation_name_script'' No_post,
     directive ''datadog_resource_name'' (anywhere @ [NGX_CONF_TAKE1]) Complex_value_slot LOC_CONF_OFFSET ''resource_name_script'' No_post,
     directive ''datadog_location_resource_name'' (anywhere @ [NGX_CONF_TAKE1]) Complex_value_slot LOC_CONF_OFFSET ''loc_resource_name_script'' No_post,
     directive ''datadog_trust_incoming_span'' (anywhere @ [NGX_CONF_TAKE1]) Flag_slot LOC_CONF_OFFSET ''trust_incoming_span'' No_post,
     directive ''datadog_tag'' (anywhere @ [NGX_CONF_TAKE2]) Set_datadog_tag LOC_CONF_OFFSET [] No_post,
     directive ''datadog_sample_rate'' [NGX_HTTP_MAIN_CONF, NGX_HTTP_SRV_CONF, NGX_HTTP_LOC_CONF, NGX_CONF_TAKE1, NGX_CONF_TAKE2]
       Set_datadog_sample_rate LOC_CONF_OFFSET [] No_post,
     directive ''datadog_propagation_styles'' [NGX_HTTP_MAIN_CONF, NGX_CONF_1MORE] Set_datadog_propagation_styles MAIN_CONF_OFFSET [] No_post,
     directive ''datadog_baggage_tags_enabled'' (anywhere @ [NGX_CONF_TAKE1]) Flag_slot LOC_CONF_OFFSET ''baggage_span_tags_enabled'' No_post,
     directive ''datadog_baggage_tags_keys'' (anywhere @ [NGX_CONF_1MORE]) Set_datadog_baggage_tags LOC_CONF_OFFSET [] No_post,
     directive ''datadog_resource_renaming_enabled'' [NGX_HTTP_MAIN_CONF, NGX_CONF_TAKE1] Flag_slot MAIN_CONF_OFFSET ''resource_renaming_enabled'' No_post,
     directive ''datadog_resource_renaming_always_simplified_endpoint'' [NGX_HTTP_MAIN_CONF, NGX_CONF_TAKE1] Flag_slot MAIN_CONF_OFFSET
       ''resource_renaming_always_simplified_endpoint'' No_post,
     ALIAS_COMMAND ''datadog_tracing'' ''opentracing'' (anywhere @ [NGX_CONF_TAKE1]),
     ALIAS_COMMAND ''datadog_operation_name'' ''opentracing_operation_name'' (anywhere @ [NGX_CONF_TAKE1]),
     ALIAS_COMMAND ''datadog_location_operation_name'' ''opentracing_location_operation_name'' (anywhere @ [NGX_CONF_TAKE1]),
     ALIAS_COMMAND ''datadog_trust_incoming_span'' ''opentracing_trust_incoming_span'' (anywhere @ [NGX_CONF_TAKE1]),
     ALIAS_COMMAND ''datadog_tag'' ''opentracing_tag'' (anywhere @ [NGX_CONF_TAKE2]),
     ALIAS_COMMAND ''datadog_trace_locations'' ''opentracing_trace_locations'' (anywhere @ [NGX_CONF_TAKE1]),
     ALIAS_COMMAND ''datadog_operation_name'' ''opentelemetry_operation_name'' (anywhere @ [NGX_CONF_TAKE1]),
     ALIAS_COMMAND ''datadog_trust_incoming_span'' ''opentelemetry_trust_incoming_spans'' (anywhere @ [NGX_CONF_TAKE1]),
     ALIAS_COMMAND ''datadog_sample_rate'' ''opentelemetry_traces_sampler_ratio'' (anywhere @ [NGX_CONF_TAKE1]),
     ALIAS_COMMAND ''datadog_tracing'' ''opentelemetry'' (anywhere @ [NGX_CONF_TAKE1]),
     ALIAS_COMMAND ''datadog_tag'' ''opentelemetry_attribute'' (anywhere @ [NGX_CONF_TAKE2]),
     IGNORE_COMMAND ''opentelemetry_propagate'' (anywhere @ [NGX_CONF_NOARGS, NGX_CONF_TAKE1]),
     IGNORE_COMMAND ''opentelemetry_capture_headers'' (anywhere @ [NGX_CONF_TAKE1]),
     IGNORE_COMMAND ''opentelemetry_span_processor'' (anywhere @ [NGX_CONF_TAKE1]),
     IGNORE_COMMAND ''opentelemetry_bsp_max_queue_size'' (anywhere @ [NGX_CONF_TAKE1]),
     IGNORE_COMMAND ''opentelemetry_bsp_schedule_delay_millis'' (anywhere @ [NGX_CONF_TAKE1]),
     IGNORE_COMMAND ''opentelemetry_bsp_max_export_batch_size'' (anywhere @ [NGX_CONF_TAKE1]),
     IGNORE_COMMAND ''opentelemetry_traces_sampler'' (anywhere @ [NGX_CONF_TAKE1]),
     IGNORE_COMMAND ''opentelemetry_sensitive_header_names'' (anywhere @ [NGX_CONF_TAKE1]),
     IGNORE_COMMAND ''opentelemetry_sensitive_header_values'' (anywhere @ [NGX_CONF_TAKE1]),
     IGNORE_COMMAND ''opentelemetry_ignore_paths'' (anywhere @ [NGX_CONF_TAKE1]),
     ERROR_DEPRECATED_COMMAND ''datadog'' [NGX_MAIN_CONF, NGX_HTTP_MAIN_CONF, NGX_CONF_NOARGS, NGX_CONF_BLOCK]
       (Text_post (''The datadog { ... } block directive is no longer supported. '' @ ''Use the specific datadog_* ''
          @ ''directives instead, or use DD_TRACE_* environment variables'')),
     ERROR_DEPRECATED_COMMAND ''datadog_load_tracer'' [NGX_HTTP_MAIN_CONF, NGX_HTTP_SRV_CONF, NGX_CONF_TAKE2]
       (Text_post ''Use the separate datadog_* directives to configure tracing''),
     ERROR_DEPRECATED_COMMAND ''opentracing_load_tracer'' [NGX_HTTP_MAIN_CONF, NGX_HTTP_SRV_CONF, NGX_CONF_TAKE2]
       (Text_post ''Use the separate datadog_* directives to configure tracing''),
     WARN_DEPRECATED_COMMAND ''datadog_propagate_context'' (anywhere @ [NGX_CONF_NOARGS]) No_post,
     WARN_DEPRECATED_COMMAND ''opentracing_propagate_context'' (anywhere @ [NGX_CONF_NOARGS]) No_post,
     WARN_DEPRECATED_COMMAND ''opentracing_fastcgi_propagate_context'' (anywhere @ [NGX_CONF_NOARGS]) No_post,
     WARN_DEPRECATED_COMMAND ''datadog_fastcgi_propagate_context'' (anywhere @ [NGX_CONF_NOARGS]) No_post,
     WARN_DEPRECATED_COMMAND ''opentracing_grpc_propagate_context'' (anywhere @ [NGX_CONF_NOARGS]) No_post,
     WARN_DEPRECATED_COMMAND ''datadog_grpc_propagate_context'' (anywhere @ [NGX_CONF_NOARGS]) No_post]"

definition module_directives :: "command list" where
  "module_directives =
    [WARN_DEPRECATED_COMMAND ''datadog_enable'' (anywhere @ [NGX_CONF_NOARGS]) (Text_post ''Use datadog_tracing instead''),
     WARN_DEPRECATED_COMMAND ''datadog_disable'' (anywhere @ [NGX_CONF_NOARGS]) (Text_post ''Use datadog_tracing instead''),
     directive ''datadog_service_name'' [NGX_HTTP_MAIN_CONF, NGX_HTTP_SRV_CONF, NGX_HTTP_LOC_CONF, NGX_CONF_TAKE1]
       Complex_value_slot LOC_CONF_OFFSET ''service_name'' No_post,
     directive ''datadog_environment'' [NGX_HTTP_MAIN_CONF, NGX_HTTP_SRV_CONF, NGX_HTTP_LOC_CONF, NGX_CONF_TAKE1]
       Complex_value_slot LOC_CONF_OFFSET ''service_env'' No_post,
     directive ''datadog_version'' [NGX_HTTP_MAIN_CONF, NGX_HTTP_SRV_CONF, NGX_HTTP_LOC_CONF, NGX_CONF_TAKE1]
       Complex_value_slot LOC_CONF_OFFSET ''service_version'' No_post,
     directive ''datadog_agent_url'' [NGX_HTTP_MAIN_CONF, NGX_CONF_TAKE1] Set_datadog_agent_url MAIN_CONF_OFFSET [] No_post,
     ALIAS_COMMAND ''datadog_service_name'' ''opentelemetry_service_name'' [NGX_HTTP_MAIN_CONF, NGX_CONF_TAKE1],
     ALIAS_COMMAND ''datadog_agent_url'' ''opentelemetry_otlp_traces_endpoint'' [NGX_HTTP_MAIN_CONF, NGX_CONF_TAKE1]]"

definition kAppsecDirectives :: "command list" where
  "kAppsecDirectives =
    [directive ''datadog_waf_thread_pool_name'' [NGX_HTTP_MAIN_CONF, NGX_HTTP_SRV_CONF, NGX_HTTP_LOC_CONF, NGX_CONF_TAKE1]
       Waf_thread_pool_name LOC_CONF_OFFSET ''waf_pool'' No_post,
     directive ''datadog_appsec_enabled'' [NGX_HTTP_MAIN_CONF, NGX_CONF_TAKE1] Flag_slot MAIN_CONF_OFFSET ''appsec_enabled'' No_post,
     directive ''datadog_appsec_ruleset_file'' [NGX_HTTP_MAIN_CONF, NGX_CONF_TAKE1] Str_slot MAIN_CONF_OFFSET ''appsec_ruleset_file'' Post_file_exists,
     directive ''datadog_appsec_http_blocked_template_json'' [NGX_HTTP_MAIN_CONF, NGX_CONF_TAKE1] Str_slot MAIN_CONF_OFFSET
       ''appsec_http_blocked_template_json'' Post_file_exists,
     directive ''datadog_appsec_http_blocked_template_html'' [NGX_HTTP_MAIN_CONF, NGX_CONF_TAKE1] Str_slot MAIN_CONF_OFFSET
       ''appsec_http_blocked_template_html'' Post_file_exists,
     directive ''datadog_client_ip_header'' [NGX_HTTP_MAIN_CONF, NGX_CONF_TAKE1] Str_slot MAIN_CONF_OFFSET ''custom_client_ip_header'' No_post,
     directive ''datadog_appsec_waf_timeout'' [NGX_HTTP_MAIN_CONF, NGX_CONF_TAKE1] Msec_slot MAIN_CONF_OFFSET ''appsec_waf_timeout_ms'' No_post,
     directive ''datadog_appsec_obfuscation_key_regex'' [NGX_HTTP_MAIN_CONF, NGX_CONF_TAKE1] Str_slot MAIN_CONF_OFFSET
       ''appsec_obfuscation_key_regex'' No_post,
     directive ''datadog_appsec_obfuscation_value_regex'' [NGX_HTTP_MAIN_CONF, NGX_CONF_TAKE1] Str_slot MAIN_CONF_OFFSET
       ''appsec_obfuscation_value_regex'' No_post,
     directive ''datadog_appsec_max_saved_output_data'' [NGX_HTTP_MAIN_CONF, NGX_CONF_TAKE1] Size_slot MAIN_CONF_OFFSET
       ''appsec_max_saved_output_data'' No_post,
     directive ''datadog_appsec_test_task_post_failure_mask'' [NGX_HTTP_MAIN_CONF, NGX_CONF_TAKE1] Num_slot MAIN_CONF_OFFSET
       ''appsec_test_task_post_failure_mask'' No_post,
     directive ''datadog_appsec_test_task_delay_ms'' [NGX_HTTP_MAIN_CONF, NGX_CONF_TAKE1] Num_slot MAIN_CONF_OFFSET
       ''appsec_test_task_delay_ms'' No_post,
     directive ''datadog_appsec_test_task_termination_delay_ms'' [NGX_HTTP_MAIN_CONF, NGX_CONF_TAKE1] Num_slot MAIN_CONF_OFFSET
       ''appsec_test_task_termination_delay_ms'' No_post,
     directive ''datadog_appsec_test_task_termination_mask'' [NGX_HTTP_MAIN_CONF, NGX_CONF_TAKE1] Num_slot MAIN_CONF_OFFSET
       ''appsec_test_task_termination_mask'' No_post,
     directive ''datadog_appsec_stats_host_port'' [NGX_HTTP_MAIN_CONF, NGX_CONF_TAKE1] Str_slot MAIN_CONF_OFFSET
       ''appsec_stats_host_port'' No_post,
     directive ''datadog_api_security_enabled'' [NGX_HTTP_MAIN_CONF, NGX_CONF_TAKE1] Flag_slot MAIN_CONF_OFFSET ''api_security_enabled'' No_post,
     directive ''datadog_api_security_proxy_sample_rate'' [NGX_HTTP_MAIN_CONF, NGX_CONF_TAKE1] Num_slot MAIN_CONF_OFFSET
       ''api_security_proxy_sample_rate'' No_post]"

definition rum_directives :: "command list" where
  "rum_directives =
    [directive ''datadog_rum'' [NGX_HTTP_MAIN_CONF, NGX_HTTP_SRV_CONF, NGX_HTTP_LOC_CONF, NGX_CONF_FLAG] Flag_slot LOC_CONF_OFFSET ''rum_enable'' No_post,
     directive ''datadog_rum_config'' [NGX_HTTP_MAIN_CONF, NGX_HTTP_SRV_CONF, NGX_HTTP_LOC_CONF, NGX_CONF_BLOCK, NGX_CONF_TAKE1]
       On_datadog_rum_config LOC_CONF_OFFSET [] No_post]"

text \<open>\<^verbatim>\<open>merge_directives\<close>: the tables one after the other, and an entry with an empty name that ends them.\<close>

definition ngx_null_command :: command where
  "ngx_null_command = directive [] [] (Foreign_setter 0) MAIN_CONF_OFFSET [] No_post"

definition merge_directives :: "command list list \<Rightarrow> command list" where
  "merge_directives arrs = concat arrs @ [ngx_null_command]"

definition datadog_commands :: "bool \<Rightarrow> bool \<Rightarrow> command list" where
  "datadog_commands with_waf with_rum =
     merge_directives ([tracing_directives, module_directives]
       @ (if with_waf then [kAppsecDirectives] else []) @ (if with_rum then [rum_directives] else []))"


section \<open>Dispatch\<close>

record ngx_module =
  mod_core :: bool
  mod_kind :: nat
  mod_datadog :: bool
  mod_commands :: "command list"

text \<open>Where the configuration is being read: the type of module allowed and the kinds of block.\<close>

record conf_ctx =
  cx_module_type :: nat
  cx_cmd_type :: "conf_flag list"

datatype conf_rc = Conf_ok | Conf_error | Conf_message bytes

definition has_flag :: "conf_flag list \<Rightarrow> conf_flag \<Rightarrow> bool" where
  "has_flag type f \<longleftrightarrow> f \<in> set type"

definition name_matches :: "bytes \<Rightarrow> bytes \<Rightarrow> bool" where
  "name_matches name cname \<longleftrightarrow> length name = length cname \<and> c_string name = c_string cname"

definition argument_number :: "conf_flag list" where
  "argument_number = [NGX_CONF_NOARGS, NGX_CONF_TAKE1, NGX_CONF_TAKE2, NGX_CONF_TAKE3, NGX_CONF_TAKE4, NGX_CONF_TAKE5,
     NGX_CONF_TAKE6, NGX_CONF_TAKE7]"

definition argument_count_ok :: "conf_flag list \<Rightarrow> nat \<Rightarrow> bool" where
  "argument_count_ok type nelts \<longleftrightarrow>
     (if has_flag type NGX_CONF_ANY then True
      else if has_flag type NGX_CONF_FLAG then nelts = 2
      else if has_flag type NGX_CONF_1MORE then 2 \<le> nelts
      else if has_flag type NGX_CONF_2MORE then 3 \<le> nelts
      else if 8 < nelts then False
      else has_flag type (argument_number ! (nelts - 1)))"

text \<open>The commands in the order in which the loops come to them: a table is read up to its entry with an empty name.\<close>

definition visited :: "bool \<Rightarrow> ngx_module list \<Rightarrow> (ngx_module \<times> command) list" where
  "visited skip_this_module modules =
     concat (map (\<lambda>m. map (Pair m) (takeWhile (\<lambda>c. cmd_name c \<noteq> []) (mod_commands m)))
       (filter (\<lambda>m. \<not> (skip_this_module \<and> mod_datadog m)) modules))"

definition module_allowed :: "conf_ctx \<Rightarrow> ngx_module \<Rightarrow> bool" where
  "module_allowed cx m \<longleftrightarrow> mod_core m \<or> mod_kind m = cx_module_type cx"

definition location_right :: "conf_ctx \<Rightarrow> command \<Rightarrow> bool" where
  "location_right cx c \<longleftrightarrow> list_ex (has_flag (cmd_type c)) (cx_cmd_type cx)"

text \<open>
  The command whose handler will be called; \<^const>\<open>None\<close> for the four error messages. \<^verbatim>\<open>last\<close> is \<^verbatim>\<open>NGX_OK\<close> throughout,
  so that a block directive is always without its brace.
\<close>

definition select_command :: "conf_ctx \<Rightarrow> ngx_module list \<Rightarrow> bool \<Rightarrow> bytes list \<Rightarrow> command option" where
  "select_command cx modules skip_this_module args =
     (case List.find (\<lambda>(m, c). name_matches (hd args) (cmd_name c) \<and> module_allowed cx m \<and> location_right cx c)
             (visited skip_this_module modules) of
        None \<Rightarrow> None
      | Some (m, c) \<Rightarrow>
          if has_flag (cmd_type c) NGX_CONF_BLOCK then None
          else if \<not> argument_count_ok (cmd_type c) (length args) then None
          else Some c)"

text \<open>
  \<^verbatim>\<open>datadog_conf_handler\<close>, and \<^verbatim>\<open>alias_directive\<close> when that is the handler: it calls the dispatch again with the first
  argument replaced. The result is whether it is \<^verbatim>\<open>NGX_OK\<close>; \<^const>\<open>None\<close> stands for a run that does not end.
\<close>

partial_function (option) datadog_conf_handler ::
  "(command \<Rightarrow> bytes list \<Rightarrow> 's \<Rightarrow> conf_rc \<times> 's) \<Rightarrow> conf_ctx \<Rightarrow> ngx_module list \<Rightarrow> bool \<Rightarrow> bytes list \<Rightarrow> 's \<Rightarrow> (bool \<times> 's) option" where
  "datadog_conf_handler call cx modules skip_this_module args s =
     (case select_command cx modules skip_this_module args of
        None \<Rightarrow> Some (False, s)
      | Some c \<Rightarrow>
          if cmd_set c = Alias_directive then
            (case cmd_post c of
               Text_post src_directive \<Rightarrow> datadog_conf_handler call cx modules False (src_directive # tl args) s
             | _ \<Rightarrow> Some (False, s))
          else (case call c args s of (rv, s') \<Rightarrow> Some (rv = Conf_ok, s')))"

definition alias_directive ::
  "(command \<Rightarrow> bytes list \<Rightarrow> 's \<Rightarrow> conf_rc \<times> 's) \<Rightarrow> conf_ctx \<Rightarrow> ngx_module list \<Rightarrow> command \<Rightarrow> bytes list \<Rightarrow> 's \<Rightarrow> (conf_rc \<times> 's) option" where
  "alias_directive call cx modules c args s =
     (case cmd_post c of
        Text_post src_directive \<Rightarrow>
          map_option (\<lambda>(ok, s'). (if ok then Conf_ok else Conf_error, s'))
            (datadog_conf_handler call cx modules False (src_directive # tl args) s)
      | _ \<Rightarrow> Some (Conf_error, s))"

section \<open>Handlers\<close>

record conf_location =
  file_name :: bytes
  conf_line :: nat
  directive_name :: bytes

text \<open>The members that the handlers set: a rule is its depth's location, its rate and its tag.\<close>

record sampling_rule =
  rule_depth_of :: nat
  rule_rate :: f64
  rule_tag :: "bytes \<times> bytes"

record main_directives =
  are_propagation_styles_locked :: bool
  propagation_styles_source :: "conf_location option"
  propagation_styles :: "bytes list"
  sampling_rules :: "sampling_rule list"
  agent_url :: "bytes option"

record loc_directives =
  ld_tags :: "(bytes \<times> bytes) list"
  ld_baggage :: baggage_tags
  ld_sample_rates :: "sample_rate list"
  ld_waf_pool :: "nat option"

text \<open>\<open>compile\<close> is whether \<^verbatim>\<open>ngx_http_compile_complex_value\<close> succeeds. Assigning keeps one entry for a name.\<close>

definition insert_or_assign :: "bytes \<Rightarrow> bytes \<Rightarrow> (bytes \<times> bytes) list \<Rightarrow> (bytes \<times> bytes) list" where
  "insert_or_assign k v m = (k, v) # filter (\<lambda>e. fst e \<noteq> k) m"

definition set_datadog_tag :: "(bytes \<Rightarrow> bool) \<Rightarrow> bytes list \<Rightarrow> loc_directives \<Rightarrow> conf_rc \<times> loc_directives" where
  "set_datadog_tag compile args lc =
     (if \<not> compile (args ! 2) then (Conf_error, lc)
      else (Conf_ok, lc\<lparr>ld_tags := insert_or_assign (args ! 1) (args ! 2) (ld_tags lc)\<rparr>))"

fun baggage_loop :: "bytes list \<Rightarrow> bytes list \<Rightarrow> bool \<times> bytes list" where
  "baggage_loop [] acc = (True, acc)"
| "baggage_loop (k # ks) acc = (if k = [] then (False, acc) else baggage_loop ks (acc @ [k]))"

definition set_datadog_baggage_tags :: "bytes list \<Rightarrow> loc_directives \<Rightarrow> conf_rc \<times> loc_directives" where
  "set_datadog_baggage_tags values lc =
     (let args = tl values; nargs = length args
      in if args ! 0 = ''all'' then
           (if nargs = 1 then (Conf_ok, lc\<lparr>ld_baggage := Baggage_flag True\<rparr>) else (Conf_error, lc))
         else if args ! 0 = ''select'' then
           (if nargs = 1 then (Conf_error, lc)
            else case ld_baggage lc of
              Baggage_flag _ \<Rightarrow> (Conf_error, lc)
            | Baggage_names names \<Rightarrow>
                (case baggage_loop (tl args) names of
                   (ok, names') \<Rightarrow> (if ok then Conf_ok else Conf_error, lc\<lparr>ld_baggage := Baggage_names names'\<rparr>)))
         else (Conf_error, lc))"

text \<open>\<open>stod\<close> gives the number and how much of the text it took, or the exception it throws.\<close>

datatype stod_result = Stod f64 nat | Stod_invalid_argument | Stod_out_of_range

fun rate_in_range :: "f64 \<Rightarrow> bool" where
  "rate_in_range (Fin q) \<longleftrightarrow> 0 \<le> q \<and> q \<le> 1"
| "rate_in_range _ \<longleftrightarrow> False"

definition same_directive :: "conf_location \<Rightarrow> sample_rate \<Rightarrow> bool" where
  "same_directive d r \<longleftrightarrow> sr_file_name r = file_name d \<and> sr_line r = conf_line d"

definition new_sample_rate :: "conf_location \<Rightarrow> bytes \<Rightarrow> sample_rate list \<Rightarrow> sample_rate" where
  "new_sample_rate d condition rates =
     \<lparr>sr_file_name = file_name d, sr_line = conf_line d,
      sr_same_line_index = (if rates \<noteq> [] \<and> same_directive d (last rates) then sr_same_line_index (last rates) + 1 else 0),
      sr_condition = condition\<rparr>"

definition set_datadog_sample_rate ::
  "(bytes \<Rightarrow> stod_result) \<Rightarrow> (bytes \<Rightarrow> bool) \<Rightarrow> conf_location \<Rightarrow> nat \<Rightarrow> bytes list \<Rightarrow> main_directives \<times> loc_directives
     \<Rightarrow> conf_rc \<times> main_directives \<times> loc_directives" where
  "set_datadog_sample_rate stod compile d block values cf =
     (let (mc, lc) = cf; condition = (if length values = 3 then values ! 2 else ''on'')
      in case stod (values ! 1) of
           Stod_invalid_argument \<Rightarrow> (Conf_error, cf)
         | Stod_out_of_range \<Rightarrow> (Conf_error, cf)
         | Stod rate end_index \<Rightarrow>
             if end_index \<noteq> length (values ! 1) \<or> \<not> rate_in_range rate \<or> \<not> compile condition then (Conf_error, cf)
             else
               (let r = new_sample_rate d condition (ld_sample_rates lc)
                in (Conf_ok,
                    mc\<lparr>sampling_rules := sampling_rules mc
                         @ [\<lparr>rule_depth_of = block, rule_rate = rate, rule_tag = (sr_tag_name r, sr_tag_value r)\<rparr>]\<rparr>,
                    lc\<lparr>ld_sample_rates := ld_sample_rates lc @ [r]\<rparr>)))"

definition lock_propagation_styles :: "conf_location \<Rightarrow> main_directives \<Rightarrow> main_directives" where
  "lock_propagation_styles d mc = mc\<lparr>are_propagation_styles_locked := True, propagation_styles_source := Some d\<rparr>"

text \<open>\<open>parse_style\<close> is \<^verbatim>\<open>dd::parse_propagation_style\<close>; a style is named by a text here.\<close>

fun styles_loop :: "(bytes \<Rightarrow> bytes option) \<Rightarrow> bytes list \<Rightarrow> bytes list \<Rightarrow> bool \<times> bytes list" where
  "styles_loop parse_style [] styles = (True, styles)"
| "styles_loop parse_style (a # as) styles =
     (case parse_style a of
        None \<Rightarrow> (False, styles)
      | Some st \<Rightarrow> if st \<in> set styles then (False, styles) else styles_loop parse_style as (styles @ [st]))"

definition set_datadog_propagation_styles ::
  "(bytes \<Rightarrow> bytes option) \<Rightarrow> conf_location \<Rightarrow> bytes list \<Rightarrow> main_directives \<Rightarrow> conf_rc \<times> main_directives" where
  "set_datadog_propagation_styles parse_style d values mc =
     (if are_propagation_styles_locked mc then (Conf_error, mc)
      else
        (case styles_loop parse_style (tl values) (propagation_styles mc) of
           (ok, styles) \<Rightarrow>
             (let mc1 = mc\<lparr>propagation_styles := styles\<rparr>
              in if ok then (Conf_ok, lock_propagation_styles d mc1) else (Conf_error, mc1))))"

definition set_datadog_agent_url :: "bytes list \<Rightarrow> main_directives \<Rightarrow> conf_rc \<times> main_directives" where
  "set_datadog_agent_url values mc =
     (if values ! 1 = [] then (Conf_error, mc) else (Conf_ok, mc\<lparr>agent_url := Some (values ! 1)\<rparr>))"

text \<open>\<open>pools\<close> is \<^verbatim>\<open>ngx_thread_pool_get\<close>.\<close>

definition waf_thread_pool_name :: "(bytes \<Rightarrow> nat option) \<Rightarrow> bytes list \<Rightarrow> loc_directives \<Rightarrow> conf_rc \<times> loc_directives" where
  "waf_thread_pool_name pools values lc =
     (if values ! 1 = [] then (Conf_error, lc)
      else case pools (values ! 1) of
        None \<Rightarrow> (Conf_error, lc)
      | Some tp \<Rightarrow> (Conf_ok, lc\<lparr>ld_waf_pool := Some tp\<rparr>))"

definition check_file_exists :: "(bytes \<Rightarrow> bool) \<Rightarrow> bytes \<Rightarrow> conf_rc" where
  "check_file_exists exists f = (if exists f then Conf_ok else Conf_error)"


section \<open>The aliases\<close>

text \<open>The names of aliases and of what they stand for never meet, so that a dispatch goes through an alias at most once.\<close>

definition alias_names_apart :: "command \<Rightarrow> bool" where
  "alias_names_apart c \<longleftrightarrow>
     (if cmd_set c = Alias_directive
      then take 4 (cmd_name c) = ''open'' \<and>
        (case cmd_post c of Text_post src \<Rightarrow> take 4 src = ''data'' \<and> list_all (\<lambda>x. x \<noteq> NUL) src | _ \<Rightarrow> False)
      else True)"

lemmas command_defs = directive_def IGNORE_COMMAND_def ALIAS_COMMAND_def WARN_DEPRECATED_COMMAND_def ERROR_DEPRECATED_COMMAND_def

lemma tables_apart:
  "list_all alias_names_apart tracing_directives" "list_all alias_names_apart module_directives"
  "list_all alias_names_apart kAppsecDirectives" "list_all alias_names_apart rum_directives"
  by (simp_all add: tracing_directives_def module_directives_def kAppsecDirectives_def rum_directives_def command_defs
      alias_names_apart_def)

lemma commands_apart: "list_all alias_names_apart (datadog_commands waf rum)"
  using tables_apart by (simp add: datadog_commands_def merge_directives_def ngx_null_command_def directive_def alias_names_apart_def)


definition modules_ok :: "bool \<Rightarrow> bool \<Rightarrow> ngx_module list \<Rightarrow> bool" where
  "modules_ok waf rum modules \<longleftrightarrow>
     list_all (\<lambda>m. if mod_datadog m then mod_commands m = datadog_commands waf rum
                   else list_all (\<lambda>c. cmd_set c \<noteq> Alias_directive) (mod_commands m)) modules"

lemma name_matches_eq: "list_all (\<lambda>x. x \<noteq> NUL) name \<Longrightarrow> name_matches name cname \<longleftrightarrow> cname = name"
proof
  assume n: "list_all (\<lambda>x. x \<noteq> NUL) name" and m: "name_matches name cname"
  have "c_string name = name" using n by (simp add: c_string_def list_all_iff takeWhile_eq_all_conv)
  with m have c: "takeWhile (\<lambda>c. c \<noteq> NUL) cname = name" "length name = length cname"
    by (simp_all add: name_matches_def c_string_def)
  then have "length (takeWhile (\<lambda>c. c \<noteq> NUL) cname) = length cname" by simp
  then have "takeWhile (\<lambda>c. c \<noteq> NUL) cname = cname" by (metis append_eq_conv_conj takeWhile_dropWhile_id take_all le_refl)
  with c(1) show "cname = name" by simp
qed (simp add: name_matches_def)

lemma select_visited:
  assumes "select_command cx modules skip args = Some c"
  shows "\<exists>m. (m, c) \<in> set (visited skip modules) \<and> name_matches (hd args) (cmd_name c) \<and> module_allowed cx m \<and> location_right cx c
     \<and> \<not> has_flag (cmd_type c) NGX_CONF_BLOCK \<and> argument_count_ok (cmd_type c) (length args)"
  using assms unfolding select_command_def find_Some_iff
  by (auto split: option.splits if_splits simp: find_Some_iff) (metis nth_mem)

lemma visited_command:
  assumes "(m, c) \<in> set (visited skip modules)"
  shows "m \<in> set modules \<and> c \<in> set (mod_commands m) \<and> cmd_name c \<noteq> []"
  using assms by (auto simp: visited_def dest: set_takeWhileD)

lemma visited_apart:
  assumes "modules_ok waf rum modules" and "(m, c) \<in> set (visited skip modules)"
  shows "alias_names_apart c \<and> (cmd_set c = Alias_directive \<longrightarrow> c \<in> set (datadog_commands waf rum))"
proof -
  have v: "m \<in> set modules" "c \<in> set (mod_commands m)" using visited_command [OF assms(2)] by auto
  show ?thesis
  proof (cases "mod_datadog m")
    case True
    with v assms(1) have "c \<in> set (datadog_commands waf rum)" by (auto simp: modules_ok_def list_all_iff)
    with commands_apart [of waf rum] show ?thesis by (simp add: list_all_iff)
  next
    case False
    with v assms(1) have "cmd_set c \<noteq> Alias_directive" by (auto simp: modules_ok_def list_all_iff)
    then show ?thesis by (simp add: alias_names_apart_def)
  qed
qed

text \<open>
  C13. The dispatch of a directive always ends, whatever the other modules of nginx are: with the module's own tables an alias
  leads to a directive that is not an alias again. The other modules have no command with the handler of aliases, which is
  the module's own.
\<close>

theorem alias_dispatch_ends:
  assumes "modules_ok waf rum modules"
  shows "\<exists>ok s'. datadog_conf_handler call cx modules skip args s = Some (ok, s')"
proof -
  have direct: "\<exists>ok s'. datadog_conf_handler call cx modules sk as s = Some (ok, s')"
    if "\<And>c. select_command cx modules sk as = Some c \<Longrightarrow> cmd_set c \<noteq> Alias_directive" for sk as
    using that by (subst datadog_conf_handler.simps) (auto split: option.splits prod.splits)
  show ?thesis
  proof (cases "\<exists>c. select_command cx modules skip args = Some c \<and> cmd_set c = Alias_directive")
    case True
    then obtain c where c: "select_command cx modules skip args = Some c" "cmd_set c = Alias_directive" by blast
    obtain m where "(m, c) \<in> set (visited skip modules)" using select_visited [OF c(1)] by blast
    then have "alias_names_apart c" using visited_apart [OF assms] by blast
    with c(2) obtain src where src: "cmd_post c = Text_post src" "take 4 src = ''data''" "list_all (\<lambda>x. x \<noteq> NUL) src"
      by (auto simp: alias_names_apart_def split: post.splits)
    have "cmd_set t \<noteq> Alias_directive" if t: "select_command cx modules False (src # tl args) = Some t" for t
    proof
      assume al: "cmd_set t = Alias_directive"
      obtain m' where m': "(m', t) \<in> set (visited False modules)" "name_matches src (cmd_name t)"
        using select_visited [OF t] by auto
      have "take 4 (cmd_name t) = ''open''" using visited_apart [OF assms m'(1)] al by (simp add: alias_names_apart_def)
      with m'(2) src show False by (simp add: name_matches_eq)
    qed
    then have "\<exists>ok s'. datadog_conf_handler call cx modules False (src # tl args) s = Some (ok, s')" by (rule direct)
    then show ?thesis using c src(1) by (subst datadog_conf_handler.simps) simp
  next
    case False
    then show ?thesis by (intro direct) auto
  qed
qed

text \<open>Every name an alias stands for is in the tables, and each such entry takes what the alias takes, where the alias is allowed.\<close>

definition plain_flags :: "conf_flag list \<Rightarrow> bool" where
  "plain_flags type \<longleftrightarrow> list_all (\<lambda>f. f \<notin> {NGX_CONF_ANY, NGX_CONF_FLAG, NGX_CONF_1MORE, NGX_CONF_2MORE, NGX_CONF_BLOCK}) type"

definition stands_for :: "command \<Rightarrow> command \<Rightarrow> bool" where
  "stands_for c t \<longleftrightarrow> cmd_set t \<noteq> Alias_directive \<and> list_all (has_flag (cmd_type t)) (cmd_type c) \<and> plain_flags (cmd_type t) \<and> plain_flags (cmd_type c)"

definition alias_resolved :: "command list \<Rightarrow> command list \<Rightarrow> command \<Rightarrow> bool" where
  "alias_resolved base cmds c \<longleftrightarrow>
     (if cmd_set c = Alias_directive then
        (case cmd_post c of
           Text_post src \<Rightarrow> list_ex (\<lambda>t. cmd_name t = src) base \<and> list_all (\<lambda>t. if cmd_name t = src then stands_for c t else True) cmds
         | _ \<Rightarrow> False)
      else True)"

definition all_directives :: "command list" where
  "all_directives = tracing_directives @ module_directives @ kAppsecDirectives @ rum_directives"

lemma aliases_resolved: "list_all (alias_resolved (tracing_directives @ module_directives) all_directives) all_directives"
  by code_simp

lemma names_nonempty: "list_all (\<lambda>c. cmd_name c \<noteq> []) all_directives"
  by code_simp

lemma datadog_commands_set: "set (datadog_commands waf rum) \<subseteq> insert ngx_null_command (set all_directives)"
  by (auto simp: datadog_commands_def merge_directives_def all_directives_def)

definition own_tables :: "bool \<Rightarrow> bool \<Rightarrow> command list" where
  "own_tables waf rum = concat ([tracing_directives, module_directives]
     @ (if waf then [kAppsecDirectives] else []) @ (if rum then [rum_directives] else []))"

lemma datadog_commands_own: "datadog_commands waf rum = own_tables waf rum @ [ngx_null_command]"
  by (simp add: datadog_commands_def merge_directives_def own_tables_def)

text \<open>The loop over the module's table comes to all of its entries.\<close>

lemma datadog_commands_read: "takeWhile (\<lambda>c. cmd_name c \<noteq> []) (datadog_commands waf rum) = own_tables waf rum"
proof -
  have "\<forall>c \<in> set (own_tables waf rum). cmd_name c \<noteq> []"
    using names_nonempty by (auto simp: all_directives_def own_tables_def list_all_iff)
  then show ?thesis
    unfolding datadog_commands_own by (intro takeWhile_stop) (simp_all add: ngx_null_command_def directive_def)
qed

lemma resolved_target:
  assumes "c \<in> set (datadog_commands waf rum)" and "cmd_set c = Alias_directive" and "cmd_post c = Text_post src"
  shows "(\<exists>t \<in> set (own_tables waf rum). cmd_name t = src)
     \<and> (\<forall>t \<in> set (datadog_commands waf rum). cmd_name t = src \<longrightarrow> stands_for c t)"
proof -
  have "c \<noteq> ngx_null_command" using assms(2) by (auto simp: ngx_null_command_def directive_def)
  with assms(1) datadog_commands_set [of waf rum] have c: "c \<in> set all_directives" by auto
  then have r: "alias_resolved (tracing_directives @ module_directives) all_directives c"
    using aliases_resolved by (simp add: list_all_iff)
  then have ex: "\<exists>t \<in> set (tracing_directives @ module_directives). cmd_name t = src"
    and all: "\<forall>t \<in> set all_directives. cmd_name t = src \<longrightarrow> stands_for c t"
    using assms(2,3) by (auto simp: alias_resolved_def list_ex_iff list_all_iff)
  have "src \<noteq> []" using ex names_nonempty by (auto simp: all_directives_def list_all_iff)
  have "set (tracing_directives @ module_directives) \<subseteq> set (own_tables waf rum)"
    by (auto simp: own_tables_def)
  moreover have "stands_for c t" if "t \<in> set (datadog_commands waf rum)" "cmd_name t = src" for t
    using that all datadog_commands_set [of waf rum] \<open>src \<noteq> []\<close> by (auto simp: ngx_null_command_def directive_def)
  ultimately show ?thesis using ex by blast
qed

lemma stands_for_location: "stands_for c t \<Longrightarrow> location_right cx c \<Longrightarrow> location_right cx t"
  by (auto simp: stands_for_def location_right_def list_ex_iff list_all_iff has_flag_def)

lemma stands_for_arguments: "stands_for c t \<Longrightarrow> argument_count_ok (cmd_type c) n \<Longrightarrow> argument_count_ok (cmd_type t) n"
  by (auto simp: stands_for_def plain_flags_def argument_count_ok_def has_flag_def list_all_iff split: if_splits)

lemma stands_for_block: "stands_for c t \<Longrightarrow> \<not> has_flag (cmd_type t) NGX_CONF_BLOCK"
  by (auto simp: stands_for_def plain_flags_def has_flag_def list_all_iff)

text \<open>
  C15. An alias does what its directive does: wherever the alias is accepted, with whatever arguments, the directive it stands
  for is accepted as well, and the dispatch calls that directive's handler with the same arguments. No other module
  may have a command of that name.
\<close>

theorem alias_as_target:
  assumes ok: "modules_ok waf rum modules"
    and sel: "select_command cx modules skip (name # vals) = Some c" and al: "cmd_set c = Alias_directive"
    and foreign: "\<forall>m \<in> set modules. \<forall>c' \<in> set (mod_commands m). \<not> mod_datadog m \<longrightarrow> cmd_post c \<noteq> Text_post (cmd_name c')"
  shows "\<exists>src (t :: command). cmd_post c = Text_post src \<and> cmd_name t = src \<and> cmd_set t \<noteq> Alias_directive
     \<and> datadog_conf_handler call cx modules skip (name # vals) s = (case call t (src # vals) s of (rv, s') \<Rightarrow> Some (rv = Conf_ok, s'))
     \<and> datadog_conf_handler call cx modules False (src # vals) s = (case call t (src # vals) s of (rv, s') \<Rightarrow> Some (rv = Conf_ok, s'))"
proof -
  obtain m where m: "(m, c) \<in> set (visited skip modules)" "module_allowed cx m" "location_right cx c"
    "argument_count_ok (cmd_type c) (length (name # vals))"
    using select_visited [OF sel] by blast
  have apart: "alias_names_apart c" and tab: "c \<in> set (datadog_commands waf rum)" using visited_apart [OF ok m(1)] al by auto
  with al obtain src where src: "cmd_post c = Text_post src" "list_all (\<lambda>x. x \<noteq> NUL) src"
    by (auto simp: alias_names_apart_def split: post.splits)
  note tgt = resolved_target [OF tab al src(1)]
  have mm: "m \<in> set modules" "c \<in> set (mod_commands m)" using visited_command [OF m(1)] by auto
  have dm: "mod_datadog m"
    using ok mm al by (auto simp: modules_ok_def list_all_iff split: if_splits)
  obtain t0 where t0: "t0 \<in> set (own_tables waf rum)" "cmd_name t0 = src" using tgt by blast
  have "mod_commands m = datadog_commands waf rum" using ok mm dm by (auto simp: modules_ok_def list_all_iff)
  then have v0: "(m, t0) \<in> set (visited False modules)"
    using t0(1) mm(1) by (auto simp: visited_def datadog_commands_read intro!: bexI [of _ m])
  let ?P = "\<lambda>(m, c). name_matches src (cmd_name c) \<and> module_allowed cx m \<and> location_right cx c"
  have "stands_for c t0" using tgt t0 by (auto simp: datadog_commands_own)
  then have "?P (m, t0)" using t0(2) m(2,3) stands_for_location by (simp add: name_matches_eq [OF src(2)])
  with v0 obtain x where x: "List.find ?P (visited False modules) = Some x"
    by (cases "List.find ?P (visited False modules)") (auto simp: find_None_iff)
  obtain m1 t where t: "x = (m1, t)" by (cases x)
  have f: "(m1, t) \<in> set (visited False modules)" "cmd_name t = src"
    using x unfolding find_Some_iff t by (auto simp: name_matches_eq [OF src(2)]) (metis nth_mem)
  have m1: "m1 \<in> set modules" "t \<in> set (mod_commands m1)" using visited_command [OF f(1)] by auto
  with foreign src(1) f(2) have "mod_datadog m1" by auto
  with ok m1 have "t \<in> set (datadog_commands waf rum)" by (auto simp: modules_ok_def list_all_iff)
  with tgt f(2) have st: "stands_for c t" by blast
  then have "select_command cx modules False (src # vals) = Some t"
    using x t stands_for_block [OF st] stands_for_arguments [OF st, of "Suc (length vals)"] m(4)
    by (simp add: select_command_def)
  moreover have "cmd_set t \<noteq> Alias_directive" using st by (simp add: stands_for_def)
  ultimately have h: "datadog_conf_handler call cx modules False (src # vals) s = (case call t (src # vals) s of (rv, s') \<Rightarrow> Some (rv = Conf_ok, s'))"
    by (subst datadog_conf_handler.simps) simp
  moreover have "datadog_conf_handler call cx modules skip (name # vals) s = datadog_conf_handler call cx modules False (src # vals) s"
    using sel al src(1) by (subst datadog_conf_handler.simps) simp
  ultimately show ?thesis using src(1) f(2) \<open>cmd_set t \<noteq> Alias_directive\<close> by auto
qed


definition sample_modules :: "ngx_module list" where
  "sample_modules =
     [\<lparr>mod_core = True, mod_kind = 0, mod_datadog = False,
       mod_commands = [directive ''proxy_pass'' [NGX_HTTP_LOC_CONF, NGX_CONF_TAKE1] (Foreign_setter 1) LOC_CONF_OFFSET [] No_post]\<rparr>,
      \<lparr>mod_core = False, mod_kind = 7, mod_datadog = True, mod_commands = datadog_commands True True\<rparr>]"

definition sample_ctx :: conf_ctx where
  "sample_ctx = \<lparr>cx_module_type = 7, cx_cmd_type = [NGX_HTTP_LOC_CONF]\<rparr>"

lemma sample_modules_ok: "modules_ok True True sample_modules"
  by (simp add: modules_ok_def sample_modules_def directive_def)

theorem alias_dispatch_ends_witness:
  "\<exists>ok s'. datadog_conf_handler (\<lambda>c args n. (Conf_ok, Suc n)) sample_ctx sample_modules False [''opentracing_tag'', ''k'', ''v''] 0 = Some (ok, s')"
  by (rule alias_dispatch_ends [OF sample_modules_ok])

lemma sample_selected:
  "select_command sample_ctx sample_modules False [''opentracing'', ''on''] = Some (ALIAS_COMMAND ''datadog_tracing'' ''opentracing'' (anywhere @ [NGX_CONF_TAKE1]))"
  by code_simp

theorem alias_as_target_witness:
  "\<exists>t :: command. cmd_name t = ''datadog_tracing'' \<and> cmd_set t \<noteq> Alias_directive
     \<and> datadog_conf_handler (\<lambda>c args n. (Conf_ok, n + length (cmd_name c))) sample_ctx sample_modules False [''opentracing'', ''on''] 0
       = Some (True, length (cmd_name t))"
proof -
  let ?call = "\<lambda>(c :: command) (args :: bytes list) (n :: nat). (Conf_ok, n + length (cmd_name c))"
  let ?c = "ALIAS_COMMAND ''datadog_tracing'' ''opentracing'' (anywhere @ [NGX_CONF_TAKE1])"
  have c: "cmd_set ?c = Alias_directive" "cmd_post ?c = Text_post ''datadog_tracing''" by (simp_all add: ALIAS_COMMAND_def directive_def)
  have "\<forall>m \<in> set sample_modules. \<forall>c' \<in> set (mod_commands m). \<not> mod_datadog m \<longrightarrow> cmd_post ?c \<noteq> Text_post (cmd_name c')"
    unfolding c by (simp add: sample_modules_def directive_def)
  from alias_as_target [OF sample_modules_ok sample_selected c(1) this, of ?call 0]
  obtain src t where "cmd_post ?c = Text_post src" "cmd_name t = src" "cmd_set t \<noteq> Alias_directive"
    "datadog_conf_handler ?call sample_ctx sample_modules False [''opentracing'', ''on''] 0 = (case ?call t [src, ''on''] 0 of (rv, s') \<Rightarrow> Some (rv = Conf_ok, s'))"
    by blast
  then show ?thesis unfolding c(2) by (intro exI [of _ t] conjI) simp_all
qed

section \<open>Sampling rules\<close>

text \<open>
  nginx calls the handler for the directives of one block in order, with one location configuration,
  until a call fails. A directive is its place in the files and its words.
\<close>

fun run_sample_rates ::
  "(bytes \<Rightarrow> stod_result) \<Rightarrow> (bytes \<Rightarrow> bool) \<Rightarrow> nat \<Rightarrow> (conf_location \<times> bytes list) list \<Rightarrow> main_directives \<times> loc_directives
     \<Rightarrow> (main_directives \<times> loc_directives) option" where
  "run_sample_rates stod compile b [] cf = Some cf"
| "run_sample_rates stod compile b ((d, values) # ds) cf =
     (case set_datadog_sample_rate stod compile d b values cf of
        (Conf_ok, cf') \<Rightarrow> run_sample_rates stod compile b ds cf'
      | _ \<Rightarrow> None)"

text \<open>The conditions that the handler appends.\<close>

definition condition_of :: "bytes list \<Rightarrow> bytes" where
  "condition_of values = (if length values = 3 then values ! 2 else ''on'')"

fun block_rates :: "(conf_location \<times> bytes list) list \<Rightarrow> sample_rate list \<Rightarrow> sample_rate list" where
  "block_rates [] rates = rates"
| "block_rates ((d, values) # ds) rates = block_rates ds (rates @ [new_sample_rate d (condition_of values) rates])"

definition rate_key :: "sample_rate \<Rightarrow> bytes \<times> nat" where
  "rate_key r = (sr_file_name r, sr_line r)"

definition loc_key :: "conf_location \<Rightarrow> bytes \<times> nat" where
  "loc_key d = (file_name d, conf_line d)"

definition places :: "(conf_location \<times> bytes list) list \<Rightarrow> (bytes \<times> nat) list" where
  "places ds = map (\<lambda>d. loc_key (fst d)) ds"

text \<open>A place that was left is not come back to: the directives on one line follow one another.\<close>

fun contiguous :: "'a list \<Rightarrow> bool" where
  "contiguous [] \<longleftrightarrow> True"
| "contiguous [x] \<longleftrightarrow> True"
| "contiguous (x # y # xs) \<longleftrightarrow> contiguous (y # xs) \<and> (x = y \<or> x \<notin> set xs)"

lemma contiguous_snoc:
  "contiguous (xs @ [y]) \<longleftrightarrow> contiguous xs \<and> (xs = [] \<or> last xs = y \<or> y \<notin> set xs)"
  by (induction xs rule: contiguous.induct) auto

lemma contiguous_appendD: "contiguous (xs @ ys) \<Longrightarrow> contiguous xs"
  by (induction ys rule: rev_induct) (simp_all add: append_assoc [symmetric] contiguous_snoc del: append_assoc)

lemma new_sample_rate_key: "rate_key (new_sample_rate d c rates) = loc_key d"
  by (simp add: rate_key_def loc_key_def new_sample_rate_def)

lemma tag_value_key: "sr_tag_value r = sr_tag_value r' \<longleftrightarrow> rate_key r = rate_key r' \<and> sr_same_line_index r = sr_same_line_index r'"
  by (auto simp: sr_tag_value_inject rate_key_def)

lemma same_directive_key: "same_directive d r \<longleftrightarrow> rate_key r = loc_key d"
  by (simp add: same_directive_def rate_key_def loc_key_def)

lemma new_sample_rate_index:
  "sr_same_line_index (new_sample_rate d c rates) =
     (if rates \<noteq> [] \<and> rate_key (last rates) = loc_key d then sr_same_line_index (last rates) + 1 else 0)"
  by (simp add: new_sample_rate_def same_directive_key)

text \<open>
  Every place among the rates has a rate with index zero, and the last rate has the highest index of
  its place.
\<close>

definition rates_ok :: "sample_rate list \<Rightarrow> bool" where
  "rates_ok rates \<longleftrightarrow>
     (\<forall>r \<in> set rates. \<exists>r0 \<in> set rates. rate_key r0 = rate_key r \<and> sr_same_line_index r0 = 0)
     \<and> (\<forall>r \<in> set rates. contiguous (map rate_key rates) \<longrightarrow> rate_key r = rate_key (last rates)
          \<longrightarrow> sr_same_line_index r \<le> sr_same_line_index (last rates))"

lemma rates_ok_snoc:
  assumes ok: "rates_ok rates"
  shows "rates_ok (rates @ [new_sample_rate d c rates])"
    and "sr_tag_value (new_sample_rate d c rates) \<notin> set (map sr_tag_value rates) \<Longrightarrow>
      contiguous (map rate_key rates) \<Longrightarrow> contiguous (map rate_key rates @ [loc_key d])"
    and "contiguous (map rate_key rates @ [loc_key d]) \<Longrightarrow>
      sr_tag_value (new_sample_rate d c rates) \<notin> set (map sr_tag_value rates)"
proof -
  let ?n = "new_sample_rate d c rates"
  have less: "sr_same_line_index r < sr_same_line_index ?n"
    if "contiguous (map rate_key rates @ [loc_key d])" "r \<in> set rates" "rate_key r = loc_key d" for r
  proof -
    have ne: "rates \<noteq> []" using that(2) by auto
    have in_: "loc_key d \<in> rate_key ` set rates" using that(2,3) by (metis imageI)
    with that(1) ne have "rate_key (last rates) = loc_key d" "contiguous (map rate_key rates)"
      by (auto simp: contiguous_snoc last_map)
    with ok that ne show ?thesis by (auto simp: rates_ok_def new_sample_rate_index less_Suc_eq_le)
  qed
  then show "contiguous (map rate_key rates @ [loc_key d]) \<Longrightarrow> sr_tag_value ?n \<notin> set (map sr_tag_value rates)"
    by (fastforce simp: tag_value_key new_sample_rate_key)
  have "\<exists>r0 \<in> set (rates @ [?n]). rate_key r0 = loc_key d \<and> sr_same_line_index r0 = 0"
  proof (cases "rates \<noteq> [] \<and> rate_key (last rates) = loc_key d")
    case True
    then have "last rates \<in> set rates" by simp
    with ok obtain r0 where "r0 \<in> set rates" "rate_key r0 = rate_key (last rates)" "sr_same_line_index r0 = 0"
      unfolding rates_ok_def by blast
    with True show ?thesis by auto
  next
    case False
    then have "sr_same_line_index ?n = 0" by (auto simp: new_sample_rate_index)
    then show ?thesis by (intro bexI [of _ ?n]) (simp_all add: new_sample_rate_key)
  qed
  with ok less show "rates_ok (rates @ [?n])"
    by (fastforce simp: rates_ok_def new_sample_rate_key)
  assume "sr_tag_value ?n \<notin> set (map sr_tag_value rates)" and c: "contiguous (map rate_key rates)"
  then have new: "\<not> (rate_key r0 = loc_key d \<and> sr_same_line_index r0 = sr_same_line_index ?n)" if "r0 \<in> set rates" for r0
    using that by (metis tag_value_key new_sample_rate_key image_eqI set_map)
  have "rate_key (last rates) = loc_key d" if r: "r \<in> set rates" "rate_key r = loc_key d" for r
  proof (rule ccontr)
    assume "rate_key (last rates) \<noteq> loc_key d"
    then have "sr_same_line_index ?n = 0" by (simp add: new_sample_rate_index)
    moreover obtain r0 where "r0 \<in> set rates" "rate_key r0 = loc_key d" "sr_same_line_index r0 = 0"
      using ok r unfolding rates_ok_def by metis
    ultimately show False using new [of r0] by simp
  qed
  with c show "contiguous (map rate_key rates @ [loc_key d])" by (auto simp: contiguous_snoc last_map)
qed

lemma block_rates_append: "\<exists>new. block_rates ds rates = rates @ new"
  by (induction ds rates rule: block_rates.induct) auto

text \<open>Within a block the tags are distinct exactly when no place is come back to.\<close>

lemma block_rates_distinct:
  "rates_ok rates \<Longrightarrow> distinct (map sr_tag_value rates) \<Longrightarrow> contiguous (map rate_key rates) \<Longrightarrow>
     distinct (map sr_tag_value (block_rates ds rates)) \<longleftrightarrow> contiguous (map rate_key rates @ places ds)"
proof (induction ds rates rule: block_rates.induct)
  case (2 d vs ds rates)
  let ?n = "new_sample_rate d (condition_of vs) rates"
  note snoc = rates_ok_snoc [OF "2.prems"(1), of d "condition_of vs"]
  show ?case
  proof (cases "sr_tag_value ?n \<in> set (map sr_tag_value rates)")
    case True
    then have "\<not> contiguous (map rate_key rates @ loc_key d # places ds)"
      using snoc(3) contiguous_appendD [of "map rate_key rates @ [loc_key d]" "places ds"] by auto
    moreover obtain new where "block_rates ds (rates @ [?n]) = rates @ [?n] @ new"
      using block_rates_append [of ds "rates @ [?n]"] by auto
    ultimately show ?thesis using True by (auto simp: places_def)
  next
    case False
    then show ?thesis
      using "2.IH" snoc(1,2) "2.prems"(2,3) by (simp add: new_sample_rate_key places_def)
  qed
qed (simp add: places_def)

text \<open>The tags depend on the places only.\<close>

lemma block_rates_places:
  "places ds = places ds' \<Longrightarrow> map sr_tag_value rates = map sr_tag_value rates' \<Longrightarrow>
     map sr_tag_value (block_rates ds rates) = map sr_tag_value (block_rates ds' rates')"
proof (induction ds rates arbitrary: ds' rates' rule: block_rates.induct)
  case (2 d vs ds rates)
  from "2.prems"(1) obtain d' vs' ds2 where ds': "ds' = (d', vs') # ds2" "places ds = places ds2" and d: "loc_key d = loc_key d'"
    by (cases ds') (auto simp: places_def)
  have "rates = [] \<longleftrightarrow> rates' = []" using "2.prems"(2) by (metis map_is_Nil_conv)
  moreover have "sr_tag_value (last rates) = sr_tag_value (last rates')" if "rates \<noteq> []"
    using "2.prems"(2) that calculation by (metis last_map)
  ultimately have "sr_tag_value (new_sample_rate d c rates) = sr_tag_value (new_sample_rate d' c' rates')" for c c'
    by (auto simp: tag_value_key new_sample_rate_key new_sample_rate_index d)
  with "2.IH" ds' "2.prems"(2) show ?case by simp
qed (simp add: places_def)

lemma set_sample_rate_ok:
  assumes "set_datadog_sample_rate stod compile d b vs (mc, lc) = (Conf_ok, mc', lc')"
  shows "\<exists>q. stod (vs ! 1) = Stod q (length (vs ! 1)) \<and> rate_in_range q \<and>
    (let r = new_sample_rate d (condition_of vs) (ld_sample_rates lc)
     in ld_sample_rates lc' = ld_sample_rates lc @ [r] \<and>
        sampling_rules mc' = sampling_rules mc @ [\<lparr>rule_depth_of = b, rule_rate = q, rule_tag = (sr_tag_name r, sr_tag_value r)\<rparr>])"
  using assms
  by (cases "stod (vs ! 1)") (auto simp: set_datadog_sample_rate_def condition_of_def Let_def split: if_splits)

definition rate_tag :: "sample_rate \<Rightarrow> bytes \<times> bytes" where
  "rate_tag r = (sr_tag_name r, sr_tag_value r)"

lemma run_sample_rates_rules:
  "run_sample_rates stod compile b ds (mc, lc) = Some (mc', lc') \<Longrightarrow>
     ld_sample_rates lc' = block_rates ds (ld_sample_rates lc)
     \<and> (\<exists>rs. sampling_rules mc' = sampling_rules mc @ rs
          \<and> map rate_tag (ld_sample_rates lc') = map rate_tag (ld_sample_rates lc) @ map rule_tag rs
          \<and> list_all2 (\<lambda>d r. rule_depth_of r = b \<and> stod (snd d ! 1) = Stod (rule_rate r) (length (snd d ! 1))) ds rs)"
proof (induction ds arbitrary: mc lc)
  case (Cons dv ds)
  obtain d vs where dv: "dv = (d, vs)" by fastforce
  from Cons.prems obtain mc1 lc1 where 1: "set_datadog_sample_rate stod compile d b vs (mc, lc) = (Conf_ok, mc1, lc1)"
    and 2: "run_sample_rates stod compile b ds (mc1, lc1) = Some (mc', lc')"
    by (auto simp: dv split: prod.splits conf_rc.splits)
  from Cons.IH [OF 2] obtain rs where rs: "ld_sample_rates lc' = block_rates ds (ld_sample_rates lc1)"
    "sampling_rules mc' = sampling_rules mc1 @ rs"
    "map rate_tag (ld_sample_rates lc') = map rate_tag (ld_sample_rates lc1) @ map rule_tag rs"
    "list_all2 (\<lambda>d r. rule_depth_of r = b \<and> stod (snd d ! 1) = Stod (rule_rate r) (length (snd d ! 1))) ds rs" by blast
  from set_sample_rate_ok [OF 1] obtain q where q: "stod (vs ! 1) = Stod q (length (vs ! 1))"
    and l: "ld_sample_rates lc1 = ld_sample_rates lc @ [new_sample_rate d (condition_of vs) (ld_sample_rates lc)]"
    and m: "sampling_rules mc1 = sampling_rules mc @ [\<lparr>rule_depth_of = b, rule_rate = q,
       rule_tag = rate_tag (new_sample_rate d (condition_of vs) (ld_sample_rates lc))\<rparr>]"
    by (auto simp: Let_def rate_tag_def)
  show ?case
  proof (intro conjI exI)
    show "sampling_rules mc' = sampling_rules mc @ \<lparr>rule_depth_of = b, rule_rate = q,
       rule_tag = rate_tag (new_sample_rate d (condition_of vs) (ld_sample_rates lc))\<rparr> # rs"
      using rs(2) m by simp
  qed (use rs l q dv in simp_all)
qed simp

text \<open>
  C18. The tags of the sampling rules, for the directives of two blocks that the handler accepts one
  after the other. Each directive adds one rule with its rate and the depth of its block. The tags
  within a block are different exactly when the directives on one line of a file follow one another:
  a file that is included twice in a block with two directives gives equal tags. Across blocks the
  tags are equal whenever the places are, as for two blocks on one line, so that the rules of the two,
  whatever their rates, cannot be told apart.
\<close>

theorem sample_rate_tags:
  assumes "ld_sample_rates lc1 = []" and "ld_sample_rates lc2 = []"
    and "run_sample_rates stod compile b1 ds1 (mc, lc1) = Some (mc1, lc1')"
    and "run_sample_rates stod compile b2 ds2 (mc1, lc2) = Some (mc2, lc2')"
  shows "\<exists>rs1 rs2. sampling_rules mc2 = sampling_rules mc @ rs1 @ rs2
     \<and> list_all2 (\<lambda>d r. rule_depth_of r = b1 \<and> stod (snd d ! 1) = Stod (rule_rate r) (length (snd d ! 1))) ds1 rs1
     \<and> list_all2 (\<lambda>d r. rule_depth_of r = b2 \<and> stod (snd d ! 1) = Stod (rule_rate r) (length (snd d ! 1))) ds2 rs2
     \<and> (distinct (map rule_tag rs1) \<longleftrightarrow> contiguous (places ds1))
     \<and> (places ds1 = places ds2 \<longrightarrow> map rule_tag rs1 = map rule_tag rs2)"
proof -
  from run_sample_rates_rules [OF assms(3)] assms(1) obtain rs1 where
    1: "sampling_rules mc1 = sampling_rules mc @ rs1" "map rule_tag rs1 = map rate_tag (block_rates ds1 [])"
      "list_all2 (\<lambda>d r. rule_depth_of r = b1 \<and> stod (snd d ! 1) = Stod (rule_rate r) (length (snd d ! 1))) ds1 rs1" by auto
  from run_sample_rates_rules [OF assms(4)] assms(2) obtain rs2 where
    2: "sampling_rules mc2 = sampling_rules mc1 @ rs2" "map rule_tag rs2 = map rate_tag (block_rates ds2 [])"
      "list_all2 (\<lambda>d r. rule_depth_of r = b2 \<and> stod (snd d ! 1) = Stod (rule_rate r) (length (snd d ! 1))) ds2 rs2" by auto
  have tag: "map rate_tag rates = map (Pair ''nginx.sample_rate_source'') (map sr_tag_value rates)" for rates
    by (simp add: rate_tag_def sr_tag_name_def)
  have "distinct (map rate_tag (block_rates ds1 [])) \<longleftrightarrow> contiguous (places ds1)"
    unfolding tag distinct_map [of "Pair _"]
    using block_rates_distinct [of "[]" ds1] by (simp add: rates_ok_def inj_on_def)
  moreover have "map rate_tag (block_rates ds1 []) = map rate_tag (block_rates ds2 [])" if "places ds1 = places ds2"
    unfolding tag by (simp only: block_rates_places [OF that, of "[]" "[]"])
  ultimately show ?thesis using 1 2 by (intro exI [of _ rs1] exI [of _ rs2]) simp
qed

definition empty_main :: main_directives where
  "empty_main = \<lparr>are_propagation_styles_locked = False, propagation_styles_source = None, propagation_styles = [],
     sampling_rules = [], agent_url = None\<rparr>"

definition empty_loc :: loc_directives where
  "empty_loc = \<lparr>ld_tags = [], ld_baggage = Baggage_names [], ld_sample_rates = [], ld_waf_pool = None\<rparr>"

definition nginx_conf_line :: conf_location where
  "nginx_conf_line = \<lparr>file_name = ''nginx.conf'', conf_line = 7, directive_name = ''datadog_sample_rate''\<rparr>"

definition sample_stod :: "bytes \<Rightarrow> stod_result" where
  "sample_stod s = (if s = ''0.5'' then Stod (Fin (1 / 2)) 3 else if s = ''1'' then Stod (Fin 1) 1 else Stod_invalid_argument)"

text \<open>Witness: two blocks on line 7, with one directive each.\<close>

theorem sample_rate_tags_witness:
  "\<exists>mc1 mc2 lc1 lc2 r1 r2.
      run_sample_rates sample_stod (\<lambda>p. True) 1 [(nginx_conf_line, [''datadog_sample_rate'', ''0.5''])] (empty_main, empty_loc) = Some (mc1, lc1)
    \<and> run_sample_rates sample_stod (\<lambda>p. True) 2 [(nginx_conf_line, [''datadog_sample_rate'', ''1''])] (mc1, empty_loc) = Some (mc2, lc2)
    \<and> sampling_rules mc2 = [r1, r2] \<and> rule_tag r1 = rule_tag r2 \<and> rule_rate r1 = Fin (1 / 2) \<and> rule_rate r2 = Fin 1"
proof -
  let ?run = "run_sample_rates sample_stod (\<lambda>p. True)"
  let ?ds1 = "[(nginx_conf_line, [''datadog_sample_rate'', ''0.5''])]" and ?ds2 = "[(nginx_conf_line, [''datadog_sample_rate'', ''1''])]"
  obtain mc1 lc1 where 1: "?run 1 ?ds1 (empty_main, empty_loc) = Some (mc1, lc1)"
    by (simp add: set_datadog_sample_rate_def sample_stod_def Let_def)
  obtain mc2 lc2 where 2: "?run 2 ?ds2 (mc1, empty_loc) = Some (mc2, lc2)"
    by (simp add: set_datadog_sample_rate_def sample_stod_def Let_def)
  have e: "ld_sample_rates empty_loc = []" "sampling_rules empty_main = []" by (simp_all add: empty_loc_def empty_main_def)
  from sample_rate_tags [OF e(1) e(1) 1 2] e(2) obtain r1 r2 where "sampling_rules mc2 = [r1, r2]" "rule_tag r1 = rule_tag r2"
    "sample_stod ''0.5'' = Stod (rule_rate r1) (length ''0.5'')" "sample_stod ''1'' = Stod (rule_rate r2) (length ''1'')"
    by (auto simp: list_all2_Cons1 places_def)
  with 1 2 show ?thesis by (auto simp: sample_stod_def)
qed

text \<open>A block that includes a file with two directives twice: the places 7, 8, 7, 8 give two tags, each for two rules.\<close>

lemma included_twice_not_contiguous:
  "\<not> contiguous (places [(nginx_conf_line, v), (nginx_conf_line\<lparr>conf_line := 8\<rparr>, v), (nginx_conf_line, v), (nginx_conf_line\<lparr>conf_line := 8\<rparr>, v)])"
  by (simp add: places_def loc_key_def nginx_conf_line_def)

end
