(* ===== verification/Waf_Settings.thy ===== *)
theory Waf_Settings
  imports Client_Ip
begin

text \<open>
  The settings of the security library, \<^verbatim>\<open>FinalizedConfigSettings\<close> in
  \<^verbatim>\<open>src/security/library.cpp\<close>: every setting is taken from the directive in nginx's configuration, else from
  the environment variable of the same meaning, else from a default. The texts of an nginx string are
  empty when its length is zero; where the code looks at the pointer (the two regular expressions) the
  model has an option. \<^verbatim>\<open>ngx_flag_t\<close> and \<^verbatim>\<open>ngx_int_t\<close> are integers of 64 bits, and unset is \<open>-1\<close>. The messages the
  constructor logs are left out.
\<close>

section \<open>The configuration\<close>

record environment_variable =
  ev_name :: bytes
  ev_value :: bytes

definition NGX_CONF_UNSET :: int where
  "NGX_CONF_UNSET = -1"

definition NGX_CONF_UNSET_MSEC :: "64 word" where
  "NGX_CONF_UNSET_MSEC = -1"

definition NGX_CONF_UNSET_SIZE :: "64 word" where
  "NGX_CONF_UNSET_SIZE = -1"

record appsec_conf =
  environment_variables :: "environment_variable list"
  appsec_enabled :: int
  appsec_ruleset_file :: bytes
  appsec_http_blocked_template_json :: bytes
  appsec_http_blocked_template_html :: bytes
  custom_client_ip_header :: bytes
  appsec_waf_timeout_ms :: "64 word"
  appsec_obfuscation_key_regex :: "bytes option"
  appsec_obfuscation_value_regex :: "bytes option"
  appsec_max_saved_output_data :: "64 word"
  appsec_stats_host_port :: bytes
  conf_api_security_enabled :: int
  conf_api_security_proxy_sample_rate :: int

text \<open>The initialisers of the members of \<^verbatim>\<open>datadog_main_conf_t\<close>.\<close>

definition default_conf :: appsec_conf where
  "default_conf =
     \<lparr>environment_variables = [], appsec_enabled = NGX_CONF_UNSET, appsec_ruleset_file = [],
      appsec_http_blocked_template_json = [], appsec_http_blocked_template_html = [],
      custom_client_ip_header = [], appsec_waf_timeout_ms = NGX_CONF_UNSET_MSEC,
      appsec_obfuscation_key_regex = None, appsec_obfuscation_value_regex = None,
      appsec_max_saved_output_data = NGX_CONF_UNSET_SIZE, appsec_stats_host_port = [],
      conf_api_security_enabled = NGX_CONF_UNSET, conf_api_security_proxy_sample_rate = NGX_CONF_UNSET\<rparr>"

section \<open>Environment variables\<close>

fun get_env :: "environment_variable list \<Rightarrow> bytes \<Rightarrow> bytes option" where
  "get_env [] name = None"
| "get_env (e # evs) name = (if ev_name e = name then Some (ev_value e) else get_env evs name)"

definition get_env_bool :: "environment_variable list \<Rightarrow> bytes \<Rightarrow> bool option" where
  "get_env_bool evs name =
     (case get_env evs name of
        None \<Rightarrow> None
      | Some v \<Rightarrow> if v = [] then None else Some (v = ''1'' \<or> v = ''true'' \<or> v = ''yes'' \<or> v = ''on''))"

definition get_env_str :: "environment_variable list \<Rightarrow> bytes \<Rightarrow> bytes option" where
  "get_env_str evs name =
     (case get_env evs name of None \<Rightarrow> None | Some v \<Rightarrow> if v = [] then None else Some v)"

definition get_env_str_maybe_empty :: "environment_variable list \<Rightarrow> bytes \<Rightarrow> bytes option" where
  "get_env_str_maybe_empty evs name = get_env evs name"

text \<open>
  \<^verbatim>\<open>strtoul\<close> in base ten: the value and what the end pointer points to, which is the start of the text
  when there are no digits. White space and a sign may come first; a negated value wraps, and a value out of
  range is \<^verbatim>\<open>ULONG_MAX\<close> whatever the sign.
\<close>

definition strtoul :: "bytes \<Rightarrow> 64 word \<times> bytes" where
  "strtoul s =
     (let t = dropWhile isspace s;
          neg = t \<noteq> [] \<and> hd t = CHR ''-'';
          u = (if t \<noteq> [] \<and> (hd t = CHR ''-'' \<or> hd t = CHR ''+'') then tl t else t);
          ds = takeWhile isdigit u; n = digits_nat ds
      in if ds = [] then (0, s)
         else (if 2 ^ 64 \<le> n then - 1 else if neg then - of_nat n else of_nat n, dropWhile isdigit u))"

text \<open>The text is read as a C string: a NUL byte in it ends it.\<close>

definition get_env_unsigned :: "environment_variable list \<Rightarrow> bytes \<Rightarrow> 64 word option" where
  "get_env_unsigned evs name =
     (case get_env evs name of
        None \<Rightarrow> None
      | Some v \<Rightarrow>
          if v = [] then None
          else let (n, rest) = strtoul (takeWhile (\<lambda>c. c \<noteq> NUL) v) in if rest \<noteq> [] then None else Some n)"

definition normalize_char :: "char \<Rightarrow> char" where
  "normalize_char c =
     (if c = CHR ''_'' then CHR ''-'' else if 65 \<le> ord c \<and> ord c \<le> 90 then char_of (ord c - 65 + 97) else c)"

definition normalize_configured_header :: "bytes \<Rightarrow> bytes" where
  "normalize_configured_header value = map normalize_char value"

definition non_empty_or_nullopt :: "bytes \<Rightarrow> bytes option" where
  "non_empty_or_nullopt sv = (if sv = [] then None else Some sv)"

section \<open>The settings\<close>

datatype enable_status = ENABLED | DISABLED | UNSPECIFIED

record finalized_settings =
  s_status :: enable_status
  s_ruleset_file :: bytes
  s_custom_ip_header :: bytes
  s_custom_ip_header_hash :: "64 word"
  s_blocked_template_json :: bytes
  s_blocked_template_html :: bytes
  s_waf_timeout_usec :: "64 word"
  s_obfuscation_key_regex :: bytes
  s_obfuscation_value_regex :: bytes
  s_max_saved_output_data :: "64 word option"
  s_stats_host_port :: "(bytes \<times> nat) option"
  s_api_security_enabled :: bool
  s_api_security_proxy_sample_rate :: "64 word"

definition kDefaultWafTimeoutUsec :: "64 word" where
  "kDefaultWafTimeoutUsec = 1000000"

text \<open>
  The default expressions. In these texts a tilde stands for a backslash and a backquote for a double quote, which
  the literals of the logic do not have; neither character is in the originals.
\<close>

definition regex_text :: "bytes \<Rightarrow> bytes" where
  "regex_text s = map (\<lambda>c. if c = CHR ''~'' then BACKSLASH else if c = CHR 0x60 then DQUOTE else c) s"

definition kDefaultObfuscationKeyRegex :: bytes where
  "kDefaultObfuscationKeyRegex = regex_text
     (''(?i)pass|pw(?:or)?d|secret|(?:api|private|public|access)[_-]?key''
      @ ''|token|consumer[_-]?(?:id|key|secret)|sign(?:ed|ature)|bearer''
      @ ''|authorization|jsessionid|phpsessid|asp~.net[_-]sessionid|sid|jwt'')"

definition kDefaultObfuscationValueRegex :: bytes where
  "kDefaultObfuscationValueRegex = regex_text
     (''(?i)(?:p(?:ass)?w(?:or)?d|pass(?:[_-]?phrase)?|secret(?:[_-]?key)?''
      @ ''|(?:(?:api|private|public|access)[_-]?)key(?:[_-]?id)?''
      @ ''|(?:(?:auth|access|id|refresh)[_-]?)?token|consumer[_-]?(?:id|key|secret)''
      @ ''|sign(?:ed|ature)?|auth(?:entication|orization)?|jsessionid|phpsessid|''
      @ ''asp~.net(?:[_-]|-)sessionid|sid|jwt)(?:~s*=([^;&]+)|`~s*:~s*(`[^`]+`|~d+))''
      @ ''|bearer~s+([a-z0-9~._~-]+)|token~s*:~s*([a-z0-9]{13})|gh[opsu]_([0-9a-zA-Z]{36})''
      @ ''|ey[I-L][~w=-]+~.(ey[I-L][~w=-]+(?:~.[~w.+~/=-]+)?)|[~-]{5}BEGIN[a-z~s]+''
      @ ''PRIVATE~sKEY[~-]{5}([^~-]+)[~-]{5}END[a-z~s]+PRIVATE~sKEY|ssh-rsa~s*([a-z0-9~/~.+]{100,})'')"

definition finalize_status :: "appsec_conf \<Rightarrow> enable_status" where
  "finalize_status conf =
     (if appsec_enabled conf = NGX_CONF_UNSET then
        (case get_env_bool (environment_variables conf) ''DD_APPSEC_ENABLED'' of
           None \<Rightarrow> UNSPECIFIED
         | Some b \<Rightarrow> if b then ENABLED else DISABLED)
      else if appsec_enabled conf = 1 then ENABLED else DISABLED)"

text \<open>A text setting: the directive when it is not empty, else the variable, else empty.\<close>

definition text_setting :: "appsec_conf \<Rightarrow> bytes \<Rightarrow> bytes \<Rightarrow> bytes" where
  "text_setting conf directive name =
     (if directive \<noteq> [] then directive
      else (case get_env_str (environment_variables conf) name of None \<Rightarrow> [] | Some v \<Rightarrow> v))"

definition finalize_timeout :: "appsec_conf \<Rightarrow> 64 word" where
  "finalize_timeout conf =
     (if appsec_waf_timeout_ms conf = 0 \<or> appsec_waf_timeout_ms conf = NGX_CONF_UNSET_MSEC then
        (case get_env_unsigned (environment_variables conf) ''DD_APPSEC_WAF_TIMEOUT'' of
           None \<Rightarrow> kDefaultWafTimeoutUsec
         | Some n \<Rightarrow> n)
      else appsec_waf_timeout_ms conf * 1000)"

definition regex_setting :: "appsec_conf \<Rightarrow> bytes option \<Rightarrow> bytes \<Rightarrow> bytes \<Rightarrow> bytes" where
  "regex_setting conf directive name dflt =
     (case directive of
        Some r \<Rightarrow> r
      | None \<Rightarrow> (case get_env_str_maybe_empty (environment_variables conf) name of None \<Rightarrow> dflt | Some r \<Rightarrow> r))"

text \<open>The host and port of the statistics; nothing when the port is not a number of 16 bits.\<close>

definition parse_host_port :: "bytes \<Rightarrow> (bytes \<times> nat) option" where
  "parse_host_port host_port =
     (case find_char CHR '':'' host_port of
        Some colon_pos \<Rightarrow>
          map_option (Pair (take colon_pos host_port)) (from_chars_unsigned 16 (drop (colon_pos + 1) host_port))
      | None \<Rightarrow> Some (host_port, 8125))"

definition finalize_stats :: "appsec_conf \<Rightarrow> (bytes \<times> nat) option" where
  "finalize_stats conf =
     (if appsec_stats_host_port conf \<noteq> [] then parse_host_port (appsec_stats_host_port conf) else None)"

definition finalize_api_security :: "appsec_conf \<Rightarrow> bool" where
  "finalize_api_security conf =
     (if conf_api_security_enabled conf = NGX_CONF_UNSET then
        (case get_env_bool (environment_variables conf) ''DD_API_SECURITY_ENABLED'' of None \<Rightarrow> True | Some b \<Rightarrow> b)
      else conf_api_security_enabled conf = 1)"

definition finalize_sample_rate :: "appsec_conf \<Rightarrow> 64 word" where
  "finalize_sample_rate conf =
     (if conf_api_security_proxy_sample_rate conf = NGX_CONF_UNSET then
        (case get_env_unsigned (environment_variables conf) ''DD_API_SECURITY_PROXY_SAMPLE_RATE'' of
           None \<Rightarrow> 300
         | Some n \<Rightarrow> n)
      else word_of_int (conf_api_security_proxy_sample_rate conf))"

text \<open>The constructor of \<^verbatim>\<open>FinalizedConfigSettings\<close>.\<close>

definition finalize_settings :: "ip_env \<Rightarrow> appsec_conf \<Rightarrow> finalized_settings" where
  "finalize_settings env conf =
     (let hdr = normalize_configured_header
                  (text_setting conf (custom_client_ip_header conf) ''DD_TRACE_CLIENT_IP_HEADER'')
      in \<lparr>s_status = finalize_status conf,
          s_ruleset_file = text_setting conf (appsec_ruleset_file conf) ''DD_APPSEC_RULES'',
          s_custom_ip_header = hdr,
          s_custom_ip_header_hash = ngx_hash_ce env hdr,
          s_blocked_template_json = text_setting conf (appsec_http_blocked_template_json conf) ''DD_APPSEC_HTTP_BLOCKED_TEMPLATE_JSON'',
          s_blocked_template_html = text_setting conf (appsec_http_blocked_template_html conf) ''DD_APPSEC_HTTP_BLOCKED_TEMPLATE_HTML'',
          s_waf_timeout_usec = finalize_timeout conf,
          s_obfuscation_key_regex =
            regex_setting conf (appsec_obfuscation_key_regex conf)
              ''DD_APPSEC_OBFUSCATION_PARAMETER_KEY_REGEXP'' kDefaultObfuscationKeyRegex,
          s_obfuscation_value_regex =
            regex_setting conf (appsec_obfuscation_value_regex conf)
              ''DD_APPSEC_OBFUSCATION_PARAMETER_VALUE_REGEXP'' kDefaultObfuscationValueRegex,
          s_max_saved_output_data =
            (if appsec_max_saved_output_data conf \<noteq> NGX_CONF_UNSET_SIZE then Some (appsec_max_saved_output_data conf) else None),
          s_stats_host_port = finalize_stats conf,
          s_api_security_enabled = finalize_api_security conf,
          s_api_security_proxy_sample_rate = finalize_sample_rate conf\<rparr>)"

definition ruleset_file :: "finalized_settings \<Rightarrow> bytes option" where
  "ruleset_file st = non_empty_or_nullopt (s_ruleset_file st)"

definition custom_ip_header :: "finalized_settings \<Rightarrow> (bytes \<times> 64 word) option" where
  "custom_ip_header st = (if s_custom_ip_header st = [] then None else Some (s_custom_ip_header st, s_custom_ip_header_hash st))"

definition api_security_enabled :: "finalized_settings \<Rightarrow> bool" where
  "api_security_enabled st \<longleftrightarrow> s_api_security_enabled st \<and> 0 < s_api_security_proxy_sample_rate st"

definition environment_variable_names :: "bytes list" where
  "environment_variable_names =
     [''DD_APPSEC_ENABLED'', ''DD_APPSEC_RULES'', ''DD_APPSEC_HTTP_BLOCKED_TEMPLATE_JSON'',
      ''DD_APPSEC_HTTP_BLOCKED_TEMPLATE_HTML'', ''DD_TRACE_CLIENT_IP_HEADER'', ''DD_APPSEC_WAF_TIMEOUT'',
      ''DD_APPSEC_OBFUSCATION_PARAMETER_KEY_REGEXP'', ''DD_APPSEC_OBFUSCATION_PARAMETER_VALUE_REGEXP'',
      ''DD_API_SECURITY_ENABLED'', ''DD_API_SECURITY_PROXY_SAMPLE_RATE'']"


section \<open>What the settings are\<close>

text \<open>Only the variables that the library asks nginx to pass on are read: the settings do not depend on any other.\<close>

lemma get_env_filter:
  "P name \<Longrightarrow> get_env (filter (\<lambda>e. P (ev_name e)) evs) name = get_env evs name"
  by (induction evs) auto

lemma settings_environment:
  "finalize_settings env (conf\<lparr>environment_variables :=
      filter (\<lambda>e. ev_name e \<in> set environment_variable_names) (environment_variables conf)\<rparr>)
   = finalize_settings env conf"
proof -
  let ?evs = "environment_variables conf"
  define f where "f = filter (\<lambda>e. ev_name e \<in> set environment_variable_names) ?evs"
  have e0: "get_env f name = get_env ?evs name" if "name \<in> set environment_variable_names" for name
    unfolding f_def by (rule get_env_filter) (rule that)
  have e: "get_env f ''DD_APPSEC_ENABLED'' = get_env ?evs ''DD_APPSEC_ENABLED''"
    "get_env f ''DD_APPSEC_RULES'' = get_env ?evs ''DD_APPSEC_RULES''"
    "get_env f ''DD_APPSEC_HTTP_BLOCKED_TEMPLATE_JSON'' = get_env ?evs ''DD_APPSEC_HTTP_BLOCKED_TEMPLATE_JSON''"
    "get_env f ''DD_APPSEC_HTTP_BLOCKED_TEMPLATE_HTML'' = get_env ?evs ''DD_APPSEC_HTTP_BLOCKED_TEMPLATE_HTML''"
    "get_env f ''DD_TRACE_CLIENT_IP_HEADER'' = get_env ?evs ''DD_TRACE_CLIENT_IP_HEADER''"
    "get_env f ''DD_APPSEC_WAF_TIMEOUT'' = get_env ?evs ''DD_APPSEC_WAF_TIMEOUT''"
    "get_env f ''DD_APPSEC_OBFUSCATION_PARAMETER_KEY_REGEXP'' = get_env ?evs ''DD_APPSEC_OBFUSCATION_PARAMETER_KEY_REGEXP''"
    "get_env f ''DD_APPSEC_OBFUSCATION_PARAMETER_VALUE_REGEXP'' = get_env ?evs ''DD_APPSEC_OBFUSCATION_PARAMETER_VALUE_REGEXP''"
    "get_env f ''DD_API_SECURITY_ENABLED'' = get_env ?evs ''DD_API_SECURITY_ENABLED''"
    "get_env f ''DD_API_SECURITY_PROXY_SAMPLE_RATE'' = get_env ?evs ''DD_API_SECURITY_PROXY_SAMPLE_RATE''"
    by (rule e0, simp only: environment_variable_names_def list.set insert_iff simp_thms)+
  let ?conf = "conf\<lparr>environment_variables := f\<rparr>"
  have v: "environment_variables ?conf = f" by simp
  have t: "text_setting ?conf d n = text_setting conf d n" if "get_env f n = get_env ?evs n" for d n
    unfolding text_setting_def get_env_str_def v that ..
  have r: "regex_setting ?conf d n x = regex_setting conf d n x" if "get_env f n = get_env ?evs n" for d n x
    unfolding regex_setting_def get_env_str_maybe_empty_def v that ..
  have "finalize_status ?conf = finalize_status conf"
    unfolding finalize_status_def get_env_bool_def v e by simp
  moreover have "finalize_timeout ?conf = finalize_timeout conf"
    unfolding finalize_timeout_def get_env_unsigned_def v e by simp
  moreover have "finalize_api_security ?conf = finalize_api_security conf"
    unfolding finalize_api_security_def get_env_bool_def v e by simp
  moreover have "finalize_sample_rate ?conf = finalize_sample_rate conf"
    unfolding finalize_sample_rate_def get_env_unsigned_def v e by simp
  moreover have "finalize_stats ?conf = finalize_stats conf" by (simp add: finalize_stats_def)
  ultimately have "finalize_settings env ?conf = finalize_settings env conf"
    unfolding finalize_settings_def t [OF e(2)] t [OF e(3)] t [OF e(4)] t [OF e(5)] r [OF e(7)] r [OF e(8)] by simp
  then show ?thesis unfolding f_def .
qed

text \<open>The configured header is in the form in which nginx keeps header names, so that it can be found by its hash.\<close>

lemma normalize_char_tolower: "normalize_char c = (if c = CHR ''_'' then CHR ''-'' else tolower c)"
proof -
  have "65 \<le> ord c \<Longrightarrow> ord c - 65 + 97 = ord c + 32" by simp
  then show ?thesis by (simp add: normalize_char_def tolower_def)
qed

lemma normalized_char: "normalize_char c \<noteq> CHR ''_'' \<and> tolower (normalize_char c) = normalize_char c"
proof -
  have "tolower c \<noteq> CHR ''_''" if "c \<noteq> CHR ''_''"
  proof
    assume t: "tolower c = CHR ''_''"
    show False
    proof (cases "65 \<le> ord c \<and> ord c \<le> 90")
      case True
      then have "ord (tolower c) = ord c + 32" by (simp add: tolower_def of_char_of)
      with t True show False by simp
    qed (use t that in \<open>auto simp: tolower_def\<close>)
  qed
  moreover have "tolower (CHR ''-'') = CHR ''-''" by (simp add: tolower_def)
  ultimately show ?thesis by (simp add: normalize_char_tolower)
qed

lemma normalize_idem: "normalize_configured_header (normalize_configured_header v) = normalize_configured_header v"
proof -
  have "normalize_char (normalize_char c) = normalize_char c" for c
    using normalized_char [of c] by (simp add: normalize_char_tolower [of "normalize_char c"])
  then show ?thesis by (simp add: normalize_configured_header_def)
qed

text \<open>A host without a colon and a port of 16 bits, written as usual, are read back; an IPv6 address is cut at its first colon.\<close>

lemma host_port_roundtrip:
  assumes "CHR '':'' \<notin> set host" and "port < 2 ^ 16"
  shows "parse_host_port (host @ CHR '':'' # decimal port) = Some (host, port)"
proof -
  have "find_char CHR '':'' (host @ CHR '':'' # decimal port) = Some (length host)"
    using assms(1) by (intro find_pos_append_hit) auto
  with assms(2) show ?thesis by (simp add: parse_host_port_def)
qed

lemma ipv6_host_port_lost: "parse_host_port (CHR ''['' # CHR '':'' # rest @ CHR '']'' # port) = None"
  by (auto simp: parse_host_port_def from_chars_unsigned_def isdigit_def)

lemma strtoul_decimal: "n < 2 ^ 64 \<Longrightarrow> strtoul (decimal n) = (of_nat n, [])"
proof -
  assume n: "n < 2 ^ 64"
  have d: "\<forall>c \<in> set (decimal n). isdigit c" using decimal_digits by (simp add: list_all_iff)
  then have t: "takeWhile isdigit (decimal n) = decimal n" "dropWhile isdigit (decimal n) = []" by auto
  obtain c cs where c: "decimal n = c # cs" using decimal_pos [of n] by (cases "decimal n") auto
  with d have "isdigit c" by simp
  then have "\<not> isspace c" "c \<noteq> CHR ''-''" "c \<noteq> CHR ''+''" by (auto simp: isdigit_def isspace_def)
  then have "dropWhile isspace (decimal n) = decimal n" by (simp add: c)
  with n t c \<open>c \<noteq> CHR ''-''\<close> \<open>c \<noteq> CHR ''+''\<close> show ?thesis
    using digits_nat_decimal [of n] by (simp add: strtoul_def Let_def)
qed

lemma negative_timeout: "get_env_unsigned [\<lparr>ev_name = x, ev_value = ''-1''\<rparr>] x = Some (- 1)"
  by (simp add: get_env_unsigned_def strtoul_def isspace_def isdigit_def digits_nat_def)

end
