(* ===== verification/Waf_Library.thy ===== *)
theory Waf_Library
  imports Waf_Settings Shared_Limiter Metrics Blocking
begin

text \<open>
  The security library, \<^verbatim>\<open>src/security/library.cpp\<close> and \<^verbatim>\<open>library.h\<close>: reading the ruleset, the WAF instance that is
  rebuilt from the configurations loaded in a libddwaf builder, the switch that makes the library active, and its
  initialisation. The builder of libddwaf is outside the repository and a parameter: a record of its operations
  over a type \<open>'b\<close> of builder states and a type \<open>'h\<close> of handles. What the code relies on is stated as
  \<open>builder_laws\<close>. Reading a file and parsing JSON are functions handed in as well.
  Every operation of the instance holds its mutex and is one step here. Log messages are left out, but not the
  exceptions their construction can raise.
\<close>

section \<open>The ruleset\<close>

definition kConfigMaxDepth :: int where
  "kConfigMaxDepth = 25"

text \<open>The conversion to \<^verbatim>\<open>ddwaf_owned_map\<close> throws when the value is not a map.\<close>

definition to_owned_map :: "exn + ddwaf_obj \<Rightarrow> exn + ddwaf_obj" where
  "to_owned_map r = (case r of Inl e \<Rightarrow> Inl e | Inr v \<Rightarrow> (case as_map v of Inl e \<Rightarrow> Inl e | Inr _ \<Rightarrow> Inr v))"

definition parse_rule_json :: "(bytes \<Rightarrow> json option) \<Rightarrow> bytes \<Rightarrow> exn + ddwaf_obj" where
  "parse_rule_json json_parse text =
     (case json_parse text of
        None \<Rightarrow> Inl Invalid_argument
      | Some doc \<Rightarrow>
          (case doc of JObject _ \<Rightarrow> to_owned_map (json_to_object doc kConfigMaxDepth) | _ \<Rightarrow> Inl Invalid_argument))"

definition read_rule_file :: "(bytes \<Rightarrow> json option) \<Rightarrow> (bytes \<Rightarrow> bytes option) \<Rightarrow> bytes \<Rightarrow> exn + ddwaf_obj" where
  "read_rule_file json_parse files filename =
     (case files filename of None \<Rightarrow> Inl Runtime_error | Some buffer \<Rightarrow> parse_rule_json json_parse buffer)"

text \<open>Any exception of the two readers is turned into a \<^verbatim>\<open>runtime_error\<close>.\<close>

definition read_ruleset ::
  "(bytes \<Rightarrow> json option) \<Rightarrow> (bytes \<Rightarrow> bytes option) \<Rightarrow> bytes \<Rightarrow> bytes option \<Rightarrow> exn + ddwaf_obj" where
  "read_ruleset json_parse files recommended file =
     (case (case file of Some f \<Rightarrow> read_rule_file json_parse files f | None \<Rightarrow> parse_rule_json json_parse recommended) of
        Inl _ \<Rightarrow> Inl Runtime_error
      | Inr ruleset \<Rightarrow> Inr ruleset)"

section \<open>Log levels\<close>

datatype DDWAF_LOG_LEVEL = DDWAF_LOG_TRACE | DDWAF_LOG_DEBUG | DDWAF_LOG_INFO | DDWAF_LOG_WARN | DDWAF_LOG_ERROR | DDWAF_LOG_OFF

text \<open>nginx's levels are the numbers 0 (stderr) to 8 (debug); the debug masks start at \<open>0x10\<close>.\<close>

fun ddwaf_log_level_to_nginx :: "DDWAF_LOG_LEVEL \<Rightarrow> int" where
  "ddwaf_log_level_to_nginx DDWAF_LOG_TRACE = 8"
| "ddwaf_log_level_to_nginx DDWAF_LOG_DEBUG = 8"
| "ddwaf_log_level_to_nginx DDWAF_LOG_INFO = 7"
| "ddwaf_log_level_to_nginx DDWAF_LOG_WARN = 5"
| "ddwaf_log_level_to_nginx DDWAF_LOG_ERROR = 4"
| "ddwaf_log_level_to_nginx _ = 6"

definition ngx_log_level_to_ddwaf :: "int \<Rightarrow> DDWAF_LOG_LEVEL" where
  "ngx_log_level_to_ddwaf level =
     (if level = 8 then DDWAF_LOG_DEBUG
      else if level = 7 \<or> level = 6 then DDWAF_LOG_INFO
      else if level = 5 \<or> level = 0 then DDWAF_LOG_WARN
      else if level = 4 \<or> level = 3 \<or> level = 2 \<or> level = 1 then DDWAF_LOG_ERROR
      else if 16 \<le> level then DDWAF_LOG_DEBUG else DDWAF_LOG_ERROR)"

section \<open>Diagnostics\<close>

text \<open>\<^verbatim>\<open>get_opt\<close> with a type: an exception when the value found has another one.\<close>

definition get_opt_map :: "(bytes \<times> ddwaf_obj) list \<Rightarrow> bytes \<Rightarrow> exn + (bytes \<times> ddwaf_obj) list option" where
  "get_opt_map es k =
     (case get_opt es k of None \<Rightarrow> Inr None | Some v \<Rightarrow> (case as_map v of Inl e \<Rightarrow> Inl e | Inr m \<Rightarrow> Inr (Some m)))"

definition arr_size :: "(bytes \<times> ddwaf_obj) list \<Rightarrow> bytes \<Rightarrow> exn + nat" where
  "arr_size es k =
     (case get_opt es k of None \<Rightarrow> Inr 0 | Some v \<Rightarrow> (case as_array v of Inl e \<Rightarrow> Inl e | Inr vs \<Rightarrow> Inr (length vs)))"

fun join_strings :: "ddwaf_obj list \<Rightarrow> exn + bytes" where
  "join_strings [] = Inr []"
| "join_strings [Obj_string s] = Inr s"
| "join_strings (Obj_string s # v # vs) =
     (case join_strings (v # vs) of Inl e \<Rightarrow> Inl e | Inr t \<Rightarrow> Inr (s @ '', '' @ t))"
| "join_strings _ = Inl Invalid_argument"

definition error_str :: "bytes \<times> ddwaf_obj \<Rightarrow> exn + bytes" where
  "error_str kp =
     (case as_array (snd kp) of
        Inl e \<Rightarrow> Inl e
      | Inr vs \<Rightarrow> (case join_strings vs of Inl e \<Rightarrow> Inl e | Inr t \<Rightarrow> Inr (fst kp @ '' => ['' @ t @ '']'')))"

fun errors_str :: "(bytes \<times> ddwaf_obj) list \<Rightarrow> exn + bytes" where
  "errors_str [] = Inr []"
| "errors_str [kp] = error_str kp"
| "errors_str (kp # kq # kps) =
     (case error_str kp of
        Inl e \<Rightarrow> Inl e
      | Inr s \<Rightarrow> (case errors_str (kq # kps) of Inl e \<Rightarrow> Inl e | Inr t \<Rightarrow> Inr (s @ '', '' @ t)))"

definition ddwaf_subdiagnostics_to_str :: "(bytes \<times> ddwaf_obj) list \<Rightarrow> bytes \<Rightarrow> exn + bytes" where
  "ddwaf_subdiagnostics_to_str diags key =
     (case get_opt_map diags key of
        Inl e \<Rightarrow> Inl e
      | Inr None \<Rightarrow> Inr (''no diagnostics for '' @ key)
      | Inr (Some m) \<Rightarrow>
          (case arr_size m ''loaded'' of
             Inl e \<Rightarrow> Inl e
           | Inr loaded_count \<Rightarrow>
               (case arr_size m ''failed'' of
                  Inl e \<Rightarrow> Inl e
                | Inr failed_count \<Rightarrow>
                    (case get_opt_map m ''errors'' of
                       Inl e \<Rightarrow> Inl e
                     | Inr errs \<Rightarrow>
                         (case errors_str (case errs of None \<Rightarrow> [] | Some es \<Rightarrow> es) of
                            Inl e \<Rightarrow> Inl e
                          | Inr t \<Rightarrow>
                              Inr (key @ ''{loaded('' @ decimal loaded_count @ '') failed('' @ decimal failed_count
                                   @ '') errors('' @ t @ '')}''))))))"

fun concat_results :: "(exn + bytes) list \<Rightarrow> exn + bytes" where
  "concat_results [] = Inr []"
| "concat_results [r] = r"
| "concat_results (r # q # rs) =
     (case r of Inl e \<Rightarrow> Inl e
      | Inr s \<Rightarrow> (case concat_results (q # rs) of Inl e \<Rightarrow> Inl e | Inr t \<Rightarrow> Inr (s @ ''; '' @ t)))"

definition ddwaf_diagnostics_to_str :: "(bytes \<times> ddwaf_obj) list \<Rightarrow> exn + bytes" where
  "ddwaf_diagnostics_to_str diags =
     concat_results (map (ddwaf_subdiagnostics_to_str diags) [''rules'', ''processors'', ''exclusions'', ''rules_data''])"


section \<open>The WAF instance\<close>

definition kBundledRuleset :: bytes where
  "kBundledRuleset = ''datadog/0/NONE/none/bundled_rule_data''"

record ddwaf_config =
  max_container_size :: nat
  max_container_depth :: nat
  max_string_length :: nat
  key_regex :: bytes
  value_regex :: bytes

definition kBaseWafConfig :: ddwaf_config where
  "kBaseWafConfig = \<lparr>max_container_size = 256, max_container_depth = 20, max_string_length = 4096, key_regex = [], value_regex = []\<rparr>"

text \<open>
  The functions of libddwaf: adding a configuration gives whether it succeeded and the entries of the diagnostics map,
  counting is of the paths that match a pattern, and building gives no handle on failure.
\<close>

record ('b, 'h) builder_api =
  builder_init :: "ddwaf_config \<Rightarrow> 'b option"
  builder_add :: "'b \<Rightarrow> bytes \<Rightarrow> ddwaf_obj \<Rightarrow> bool \<times> (bytes \<times> ddwaf_obj) list \<times> 'b"
  builder_remove :: "'b \<Rightarrow> bytes \<Rightarrow> bool \<times> 'b"
  builder_count :: "'b \<Rightarrow> bytes \<Rightarrow> nat"
  builder_build :: "'b \<Rightarrow> 'h option"

text \<open>The members of \<^verbatim>\<open>OwnedDdwafBuilder\<close>; on a null builder libddwaf does nothing and reports failure.\<close>

definition owned_add :: "('b, 'h) builder_api \<Rightarrow> 'b option \<Rightarrow> bytes \<Rightarrow> ddwaf_obj \<Rightarrow> bool \<times> (bytes \<times> ddwaf_obj) list \<times> 'b option" where
  "owned_add api bo path ruleset =
     (case bo of None \<Rightarrow> (False, [], None)
      | Some b \<Rightarrow> let (r, d, b') = builder_add api b path ruleset in (r, d, Some b'))"

definition owned_remove :: "('b, 'h) builder_api \<Rightarrow> 'b option \<Rightarrow> bytes \<Rightarrow> bool \<times> 'b option" where
  "owned_remove api bo path =
     (case bo of None \<Rightarrow> (False, None) | Some b \<Rightarrow> let (r, b') = builder_remove api b path in (r, Some b'))"

definition count_config_paths :: "('b, 'h) builder_api \<Rightarrow> 'b option \<Rightarrow> bytes \<Rightarrow> nat" where
  "count_config_paths api bo pattern = (case bo of None \<Rightarrow> 0 | Some b \<Rightarrow> builder_count api b pattern)"

definition build_instance :: "('b, 'h) builder_api \<Rightarrow> 'b option \<Rightarrow> 'h option" where
  "build_instance api bo = (case bo of None \<Rightarrow> None | Some b \<Rightarrow> builder_build api b)"

record ('b, 'h) waf_instance =
  wi_builder :: "'b option"
  default_ruleset :: ddwaf_obj
  wi_handle :: "'h option"

definition live :: "('b, 'h) waf_instance \<Rightarrow> bool" where
  "live w \<longleftrightarrow> wi_builder w \<noteq> None"

definition has_bundled_data :: "('b, 'h) builder_api \<Rightarrow> ('b, 'h) waf_instance \<Rightarrow> bool" where
  "has_bundled_data api w \<longleftrightarrow> 0 < count_config_paths api (wi_builder w) kBundledRuleset"

definition inst_add_or_update_config ::
  "('b, 'h) builder_api \<Rightarrow> bytes \<Rightarrow> ddwaf_obj \<Rightarrow> ('b, 'h) waf_instance
     \<Rightarrow> bool \<times> (bytes \<times> ddwaf_obj) list \<times> ('b, 'h) waf_instance" where
  "inst_add_or_update_config api path ruleset w =
     (let b1 = (if has_bundled_data api w \<and> contains ''/ASM_DD/'' path
                then snd (owned_remove api (wi_builder w) kBundledRuleset) else wi_builder w);
          (r, d, b2) = owned_add api b1 path ruleset
      in (r, d, w\<lparr>wi_builder := b2\<rparr>))"

definition inst_remove_config ::
  "('b, 'h) builder_api \<Rightarrow> bytes \<Rightarrow> ('b, 'h) waf_instance \<Rightarrow> bool \<times> ('b, 'h) waf_instance" where
  "inst_remove_config api path w = (let (r, b) = owned_remove api (wi_builder w) path in (r, w\<lparr>wi_builder := b\<rparr>))"

definition inst_update ::
  "('b, 'h) builder_api \<Rightarrow> ('b, 'h) waf_instance \<Rightarrow> bool \<times> (bytes \<times> ddwaf_obj) list \<times> ('b, 'h) waf_instance" where
  "inst_update api w =
     (let (added, d, b) =
            (if count_config_paths api (wi_builder w) ''/ASM_DD/'' = 0
             then owned_add api (wi_builder w) kBundledRuleset (default_ruleset w)
             else (True, [], wi_builder w));
          w1 = w\<lparr>wi_builder := b\<rparr>
      in if \<not> added then (False, d, w1)
         else case build_instance api b of
           None \<Rightarrow> (False, d, w1)
         | Some h \<Rightarrow> (True, d, w1\<lparr>wi_handle := Some h\<rparr>))"

definition inst_init ::
  "('b, 'h) builder_api \<Rightarrow> ddwaf_obj \<Rightarrow> ddwaf_config \<Rightarrow> ('b, 'h) waf_instance
     \<Rightarrow> bool \<times> (bytes \<times> ddwaf_obj) list \<times> ('b, 'h) waf_instance" where
  "inst_init api ruleset config w =
     (case builder_init api config of
        None \<Rightarrow> (False, [], w)
      | Some b \<Rightarrow> inst_update api (w\<lparr>wi_builder := Some b, default_ruleset := ruleset\<rparr>))"

section \<open>The library\<close>

record ('b, 'h) lib_env =
  le_api :: "('b, 'h) builder_api"
  json_parse :: "bytes \<Rightarrow> json option"
  le_files :: "bytes \<Rightarrow> bytes option"
  recommended_json :: bytes
  default_html :: bytes
  default_json :: bytes
  le_ip_env :: ip_env
  stats_created :: bool
  le_log_level :: nat

text \<open>
  The static members of \<^verbatim>\<open>Library\<close>, the WAF instance, the blocking service and the statistics. The shared memory zone is
  \<^const>\<open>None\<close> for a null pointer and else holds the zone's data; \<open>has_limiter\<close> is whether
  \<^verbatim>\<open>shared_api_security_limiter_\<close> is set.
\<close>

record ('b, 'h) library =
  upd_waf_instance :: "('b, 'h) waf_instance"
  lib_active :: bool
  config_settings :: "finalized_settings option"
  api_security_shm_zone :: "limiter_state option option"
  has_limiter :: bool
  lib_blocking :: "blocking_service option"
  lib_stats :: stats_state
  ddwaf_log_cb :: "DDWAF_LOG_LEVEL option"

definition set_active :: "bool \<Rightarrow> ('b, 'h) library \<Rightarrow> ('b, 'h) library" where
  "set_active v lib = lib\<lparr>lib_active := v\<rparr>"

definition num_loaded_rules :: "(bytes \<times> ddwaf_obj) list \<Rightarrow> exn + nat" where
  "num_loaded_rules d =
     (case get_opt_map d ''rules'' of
        Inl e \<Rightarrow> Inl e
      | Inr rs \<Rightarrow> arr_size (case rs of None \<Rightarrow> [] | Some m \<Rightarrow> m) ''loaded'')"

text \<open>The rate is capped at the largest 32-bit number.\<close>

definition capped_rate :: "64 word \<Rightarrow> 32 word" where
  "capped_rate n = (if 4294967295 < n then 4294967295 else ucast n)"

definition init_limiter :: "u32 \<Rightarrow> finalized_settings \<Rightarrow> ('b, 'h) library \<Rightarrow> ('b, 'h) library" where
  "init_limiter now_tick st lib =
     (if api_security_enabled st then
        (case api_security_shm_zone lib of
           None \<Rightarrow> lib
         | Some data \<Rightarrow>
             (case get_limiter now_tick data (capped_rate (s_api_security_proxy_sample_rate st)) of
                None \<Rightarrow> lib
              | Some state \<Rightarrow> lib\<lparr>api_security_shm_zone := Some (Some state), has_limiter := True\<rparr>))
      else lib\<lparr>has_limiter := False\<rparr>)"

text \<open>After the WAF instance is there: the statistics, the blocking service, the limiter, the switch.\<close>

definition finish_initialize ::
  "('b, 'h) lib_env \<Rightarrow> u32 \<Rightarrow> finalized_settings \<Rightarrow> ddwaf_obj \<Rightarrow> ('b, 'h) library
     \<Rightarrow> (exn + ddwaf_obj option) \<times> ('b, 'h) library" where
  "finish_initialize env now_tick st ruleset lib =
     (let lib1 = (if s_stats_host_port st \<noteq> None
                  then lib\<lparr>lib_stats := snd (do_start (stats_created env) (lib_stats lib))\<rparr> else lib)
      in case service_initialize (le_files env) (default_html env) (default_json env)
                (non_empty_or_nullopt (s_blocked_template_html st)) (non_empty_or_nullopt (s_blocked_template_json st))
                (lib_blocking lib1) of
           Inl e \<Rightarrow> (Inl e, lib1)
         | Inr svc \<Rightarrow>
             (Inr (Some ruleset),
              set_active (s_status st = ENABLED) (init_limiter now_tick st (lib1\<lparr>lib_blocking := Some svc\<rparr>))))"

definition initialize_security_library ::
  "('b, 'h) lib_env \<Rightarrow> u32 \<Rightarrow> appsec_conf \<Rightarrow> ('b, 'h) library \<Rightarrow> (exn + ddwaf_obj option) \<times> ('b, 'h) library" where
  "initialize_security_library env now_tick conf lib =
     (let st = finalize_settings (le_ip_env env) conf; lib1 = lib\<lparr>config_settings := Some st\<rparr>
      in if s_status st = DISABLED then (Inr None, lib1)
         else let lib2 = lib1\<lparr>ddwaf_log_cb := Some (ngx_log_level_to_ddwaf (int (le_log_level env)))\<rparr>
           in case read_ruleset (json_parse env) (le_files env) (recommended_json env) (ruleset_file st) of
                Inl e \<Rightarrow> (Inl e, lib2)
              | Inr ruleset \<Rightarrow>
                  (let (res, d, w) =
                         inst_init (le_api env) ruleset
                           (kBaseWafConfig\<lparr>key_regex := c_string (s_obfuscation_key_regex st),
                                           value_regex := c_string (s_obfuscation_value_regex st)\<rparr>)
                           (upd_waf_instance lib2);
                       lib3 = lib2\<lparr>upd_waf_instance := w\<rparr>
                   in if \<not> res then
                        (case ddwaf_diagnostics_to_str d of Inl e \<Rightarrow> (Inl e, lib3) | Inr _ \<Rightarrow> (Inl Runtime_error, lib3))
                      else
                        (case (if 7 \<le> le_log_level env then num_loaded_rules d else Inr 0) of
                           Inl e \<Rightarrow> (Inl e, lib3)
                         | Inr _ \<Rightarrow> finish_initialize env now_tick st ruleset lib3)))"

definition update_waf_config ::
  "('b, 'h) lib_env \<Rightarrow> bytes \<Rightarrow> ddwaf_obj \<Rightarrow> ('b, 'h) library \<Rightarrow> (exn + bool) \<times> ('b, 'h) library" where
  "update_waf_config env path spec lib =
     (if \<not> live (upd_waf_instance lib) then (Inr False, lib)
      else
        (let (res, d, w) = inst_add_or_update_config (le_api env) path spec (upd_waf_instance lib);
             lib1 = lib\<lparr>upd_waf_instance := w\<rparr>
         in if \<not> res \<or> odd (le_log_level env div 256)
            then (case ddwaf_diagnostics_to_str d of Inl e \<Rightarrow> (Inl e, lib1) | Inr _ \<Rightarrow> (Inr res, lib1))
            else (Inr res, lib1)))"

definition remove_waf_config ::
  "('b, 'h) lib_env \<Rightarrow> bytes \<Rightarrow> ('b, 'h) library \<Rightarrow> bool \<times> ('b, 'h) library" where
  "remove_waf_config env path lib =
     (if \<not> live (upd_waf_instance lib) then (False, lib)
      else (let (res, w) = inst_remove_config (le_api env) path (upd_waf_instance lib)
            in (res, lib\<lparr>upd_waf_instance := w\<rparr>)))"

definition regenerate_handle :: "('b, 'h) lib_env \<Rightarrow> ('b, 'h) library \<Rightarrow> (exn + bool) \<times> ('b, 'h) library" where
  "regenerate_handle env lib =
     (if \<not> live (upd_waf_instance lib) then (Inr False, lib)
      else
        (let (res, d, w) = inst_update (le_api env) (upd_waf_instance lib);
             lib1 = lib\<lparr>upd_waf_instance := w\<rparr>
         in if res then (Inr True, lib1)
            else (case ddwaf_diagnostics_to_str d of Inl e \<Rightarrow> (Inl e, lib1) | Inr _ \<Rightarrow> (Inr False, lib1))))"

definition get_handle :: "('b, 'h) library \<Rightarrow> 'h option" where
  "get_handle lib = (if lib_active lib then wi_handle (upd_waf_instance lib) else None)"

definition api_security_should_sample :: "u32 \<Rightarrow> ('b, 'h) library \<Rightarrow> bool \<times> ('b, 'h) library" where
  "api_security_should_sample now_tick lib =
     (if has_limiter lib then
        (case api_security_shm_zone lib of
           None \<Rightarrow> (False, lib)
         | Some data \<Rightarrow>
             (let (r, data') = allow now_tick data in (r, lib\<lparr>api_security_shm_zone := Some data'\<rparr>)))
      else (False, lib))"

text \<open>\<open>zone\<close> is what \<^verbatim>\<open>create_zone\<close> returns; the result is whether it is \<^verbatim>\<open>NGX_OK\<close>.\<close>

definition initialize_api_security_shared_memory ::
  "limiter_state option option \<Rightarrow> ('b, 'h) library \<Rightarrow> bool \<times> ('b, 'h) library" where
  "initialize_api_security_shared_memory zone lib = (zone \<noteq> None, lib\<lparr>api_security_shm_zone := zone\<rparr>)"

text \<open>The members before initialisation.\<close>

definition new_library :: "('b, 'h) library" where
  "new_library =
     \<lparr>upd_waf_instance = \<lparr>wi_builder = None, default_ruleset = Obj_map [], wi_handle = None\<rparr>, lib_active = True,
      config_settings = None, api_security_shm_zone = None, has_limiter = False, lib_blocking = None,
      lib_stats = \<lparr>st_joinable = False, st_stop_flag = False, st_counters = no_events\<rparr>, ddwaf_log_cb = None\<rparr>"

end
