(* ===== verification/Waf_Rules.thy ===== *)
theory Waf_Rules
  imports Waf_Library
begin

text \<open>
  Which rules the WAF runs with. The library keeps the bundled ruleset and the rulesets delivered by remote configuration
  (paths with \<^verbatim>\<open>/ASM_DD/\<close>) apart: the lemmas follow the set of configurations in the builder through every
  operation of \<^verbatim>\<open>UpdateableWafInstance\<close> and \<^verbatim>\<open>Library\<close>, and show that no handle a request can get was built without a
  ruleset or with both kinds.
\<close>

section \<open>What libddwaf promises\<close>

text \<open>
  \<open>configs\<close> gives the configurations loaded in a builder, by path. A new builder has none; a successful addition sets its
  path and a failed one touches no other; a removal removes its path and tells whether it was there; and the count for
  one of the two patterns of the code, which have no special characters, is positive when a path contains it.
\<close>

definition builder_laws :: "('b, 'h) builder_api \<Rightarrow> ('b \<Rightarrow> bytes \<rightharpoonup> ddwaf_obj) \<Rightarrow> bool" where
  "builder_laws api configs \<longleftrightarrow>
     (\<forall>c b. builder_init api c = Some b \<longrightarrow> configs b = Map.empty)
   \<and> (\<forall>b p v d b'. builder_add api b p v = (True, d, b') \<longrightarrow> configs b' = (configs b)(p \<mapsto> v))
   \<and> (\<forall>b p v d b' q. builder_add api b p v = (False, d, b') \<longrightarrow> q \<noteq> p \<longrightarrow> configs b' q = configs b q)
   \<and> (\<forall>b p r b'. builder_remove api b p = (r, b') \<longrightarrow> configs b' = (configs b)(p := None) \<and> r = (configs b p \<noteq> None))
   \<and> (\<forall>b pat. pat \<in> {kBundledRuleset, ''/ASM_DD/''} \<longrightarrow>
        (0 < builder_count api b pat) = (\<exists>p. configs b p \<noteq> None \<and> contains pat p))"

definition asm_dd_loaded :: "(bytes \<rightharpoonup> ddwaf_obj) \<Rightarrow> bool" where
  "asm_dd_loaded m \<longleftrightarrow> (\<exists>p. m p \<noteq> None \<and> contains ''/ASM_DD/'' p)"

text \<open>One kind of ruleset and not the other.\<close>

definition one_ruleset :: "ddwaf_obj \<Rightarrow> (bytes \<rightharpoonup> ddwaf_obj) \<Rightarrow> bool" where
  "one_ruleset dflt m \<longleftrightarrow> m kBundledRuleset = (if asm_dd_loaded m then None else Some dflt)"

definition not_both :: "(bytes \<rightharpoonup> ddwaf_obj) \<Rightarrow> bool" where
  "not_both m \<longleftrightarrow> \<not> (asm_dd_loaded m \<and> m kBundledRuleset \<noteq> None)"

lemma bundled_not_asm: "\<not> contains ''/ASM_DD/'' kBundledRuleset"
  by (simp add: contains_def kBundledRuleset_def upt_rec)

lemma contains_self: "contains p p"
  unfolding contains_iff by (intro exI [of _ "[]"]) simp

lemma asm_dd_loaded_cong:
  "(\<And>q. q \<noteq> kBundledRuleset \<Longrightarrow> m q = m' q) \<Longrightarrow> asm_dd_loaded m = asm_dd_loaded m'"
  unfolding asm_dd_loaded_def using bundled_not_asm by metis

section \<open>The operations of the instance\<close>

lemma add_configs:
  assumes "builder_laws api configs" and "builder_add api b p v = (r, d, b')"
  shows "(q \<noteq> p \<longrightarrow> configs b' q = configs b q) \<and> (r \<longrightarrow> configs b' p = Some v)"
  using assms unfolding builder_laws_def by (cases r) auto

lemma remove_configs:
  assumes "builder_laws api configs" and "builder_remove api b p = (r, b')"
  shows "configs b' = (configs b)(p := None) \<and> r = (configs b p \<noteq> None)"
  using assms unfolding builder_laws_def by blast

lemma count_asm:
  "builder_laws api configs \<Longrightarrow> (0 < builder_count api b ''/ASM_DD/'') = asm_dd_loaded (configs b)"
  unfolding builder_laws_def asm_dd_loaded_def by simp

lemma count_bundled:
  assumes "builder_laws api configs" and "builder_count api b kBundledRuleset = 0"
  shows "configs b kBundledRuleset = None"
proof (rule ccontr)
  assume "configs b kBundledRuleset \<noteq> None"
  with contains_self have "\<exists>p. configs b p \<noteq> None \<and> contains kBundledRuleset p" by blast
  moreover have "(0 < builder_count api b kBundledRuleset) = (\<exists>p. configs b p \<noteq> None \<and> contains kBundledRuleset p)"
    using assms(1) unfolding builder_laws_def by blast
  ultimately show False using assms(2) by simp
qed

lemma inst_add_configs:
  assumes laws: "builder_laws api configs" and b: "wi_builder w = Some b"
    and add: "inst_add_or_update_config api p v w = (r, d, w')"
  shows "\<exists>b'. w' = w\<lparr>wi_builder := Some b'\<rparr>
      \<and> (\<forall>q. q \<noteq> p \<longrightarrow> configs b' q = (if q = kBundledRuleset \<and> contains ''/ASM_DD/'' p then None else configs b q))
      \<and> (r \<longrightarrow> configs b' p = Some v)"
proof -
  let ?drop = "has_bundled_data api w \<and> contains ''/ASM_DD/'' p"
  define b1 where "b1 = (if ?drop then snd (builder_remove api b kBundledRuleset) else b)"
  obtain r' d' b' where b': "builder_add api b1 p v = (r', d', b')" by (cases "builder_add api b1 p v")
  have o: "(if ?drop then snd (owned_remove api (wi_builder w) kBundledRuleset) else wi_builder w) = Some b1"
    by (simp add: owned_remove_def b b1_def split_beta)
  have "inst_add_or_update_config api p v w = (r', d', w\<lparr>wi_builder := Some b'\<rparr>)"
    unfolding inst_add_or_update_config_def o by (simp add: owned_add_def b')
  with add have eq: "r' = r" "w' = w\<lparr>wi_builder := Some b'\<rparr>" by auto
  have c1: "configs b1 q = (if q = kBundledRuleset \<and> contains ''/ASM_DD/'' p then None else configs b q)" for q
  proof (cases "?drop")
    case True
    then show ?thesis using remove_configs [OF laws, of b kBundledRuleset] by (simp add: b1_def prod_eq_iff)
  next
    case False
    have "configs b kBundledRuleset = None" if "\<not> has_bundled_data api w"
      using count_bundled [OF laws] that b by (simp add: has_bundled_data_def count_config_paths_def)
    with False show ?thesis by (auto simp: b1_def)
  qed
  with add_configs [OF laws b'] eq show ?thesis by auto
qed

lemma inst_remove_configs:
  assumes laws: "builder_laws api configs" and b: "wi_builder w = Some b"
    and rm: "inst_remove_config api p w = (r, w')"
  shows "\<exists>b'. w' = w\<lparr>wi_builder := Some b'\<rparr> \<and> configs b' = (configs b)(p := None) \<and> r = (configs b p \<noteq> None)"
  using remove_configs [OF laws, of b p] rm
  by (auto simp: inst_remove_config_def b owned_remove_def split: prod.splits)

lemma inst_update_configs:
  assumes laws: "builder_laws api configs" and b: "wi_builder w = Some b"
    and upd: "inst_update api w = (r, d, w')"
  shows "\<exists>b'. wi_builder w' = Some b' \<and> default_ruleset w' = default_ruleset w
      \<and> (\<forall>q. q \<noteq> kBundledRuleset \<longrightarrow> configs b' q = configs b q) \<and> (asm_dd_loaded (configs b) \<longrightarrow> b' = b)
      \<and> (if r then wi_handle w' \<noteq> None \<and> builder_build api b' = wi_handle w'
              \<and> (\<not> asm_dd_loaded (configs b) \<longrightarrow> configs b' kBundledRuleset = Some (default_ruleset w))
         else wi_handle w' = wi_handle w)"
proof (cases "asm_dd_loaded (configs b)")
  case True
  then have "builder_count api b ''/ASM_DD/'' \<noteq> 0" using count_asm [OF laws, of b] by simp
  with upd True b show ?thesis
    by (cases "builder_build api b") (auto simp: inst_update_def count_config_paths_def build_instance_def)
next
  case False
  then have c: "builder_count api b ''/ASM_DD/'' = 0" using count_asm [OF laws, of b] by simp
  obtain r' d' b' where b': "builder_add api b kBundledRuleset (default_ruleset w) = (r', d', b')"
    by (cases "builder_add api b kBundledRuleset (default_ruleset w)")
  with upd b c add_configs [OF laws b'] False show ?thesis
    by (cases r'; cases "builder_build api b'")
      (auto simp: inst_update_def count_config_paths_def build_instance_def owned_add_def)
qed

section \<open>Every handle has one ruleset\<close>

text \<open>What holds of the instance between operations once it was initialised.\<close>

definition instance_ok :: "('b, 'h) builder_api \<Rightarrow> ('b \<Rightarrow> bytes \<rightharpoonup> ddwaf_obj) \<Rightarrow> ('b, 'h) waf_instance \<Rightarrow> bool" where
  "instance_ok api configs w \<longleftrightarrow>
     (\<exists>b. wi_builder w = Some b \<and> not_both (configs b))
   \<and> wi_handle w \<noteq> None
   \<and> (\<exists>b0. builder_build api b0 = wi_handle w \<and> one_ruleset (default_ruleset w) (configs b0))"

lemma inst_add_ok:
  assumes laws: "builder_laws api configs" and ok: "instance_ok api configs w" and p: "p \<noteq> kBundledRuleset"
  shows "instance_ok api configs (snd (snd (inst_add_or_update_config api p v w)))"
proof -
  obtain b where b: "wi_builder w = Some b" "not_both (configs b)" using ok by (auto simp: instance_ok_def)
  obtain r d w' where add: "inst_add_or_update_config api p v w = (r, d, w')"
    by (cases "inst_add_or_update_config api p v w")
  obtain b' where w': "w' = w\<lparr>wi_builder := Some b'\<rparr>"
    and q: "\<And>q. q \<noteq> p \<Longrightarrow> configs b' q = (if q = kBundledRuleset \<and> contains ''/ASM_DD/'' p then None else configs b q)"
    using inst_add_configs [OF laws b(1) add] by blast
  have "not_both (configs b')"
  proof (cases "contains ''/ASM_DD/'' p")
    case True
    with q [of kBundledRuleset] p show ?thesis by (simp add: not_both_def)
  next
    case False
    then have "asm_dd_loaded (configs b') = asm_dd_loaded (configs b)"
      unfolding asm_dd_loaded_def using q by metis
    with False b(2) q [of kBundledRuleset] p show ?thesis by (simp add: not_both_def)
  qed
  with ok add w' show ?thesis by (simp add: instance_ok_def)
qed

lemma inst_remove_ok:
  assumes laws: "builder_laws api configs" and ok: "instance_ok api configs w"
  shows "instance_ok api configs (snd (inst_remove_config api p w))"
proof -
  obtain b where b: "wi_builder w = Some b" "not_both (configs b)" using ok by (auto simp: instance_ok_def)
  obtain r w' where rm: "inst_remove_config api p w = (r, w')" by (cases "inst_remove_config api p w")
  obtain b' where w': "w' = w\<lparr>wi_builder := Some b'\<rparr>" and c: "configs b' = (configs b)(p := None)"
    using inst_remove_configs [OF laws b(1) rm] by blast
  have "not_both (configs b')" using b(2) unfolding c not_both_def asm_dd_loaded_def
    by (auto split: if_splits) (metis option.distinct(1))
  with ok rm w' show ?thesis by (simp add: instance_ok_def)
qed

text \<open>A rebuilt handle has one ruleset even when the builder held both.\<close>

lemma inst_update_ok:
  assumes laws: "builder_laws api configs" and b: "wi_builder w = Some b" "not_both (configs b)"
    and upd: "inst_update api w = (r, d, w')" and r: "r \<or> instance_ok api configs w"
  shows "instance_ok api configs w'"
proof -
  obtain b' where b': "wi_builder w' = Some b'" "default_ruleset w' = default_ruleset w"
    and q: "\<And>q. q \<noteq> kBundledRuleset \<Longrightarrow> configs b' q = configs b q" and same: "asm_dd_loaded (configs b) \<longrightarrow> b' = b"
    and h: "if r then wi_handle w' \<noteq> None \<and> builder_build api b' = wi_handle w'
              \<and> (\<not> asm_dd_loaded (configs b) \<longrightarrow> configs b' kBundledRuleset = Some (default_ruleset w))
         else wi_handle w' = wi_handle w"
    using inst_update_configs [OF laws b(1) upd] by blast
  have asm: "asm_dd_loaded (configs b') = asm_dd_loaded (configs b)" by (rule asm_dd_loaded_cong) (rule q)
  have nb: "not_both (configs b')" using b(2) same asm by (auto simp: not_both_def)
  show ?thesis
  proof (cases r)
    case True
    with h asm same b(2) have "one_ruleset (default_ruleset w') (configs b')"
      by (auto simp: one_ruleset_def not_both_def b'(2))
    with True h nb b' show ?thesis by (auto simp: instance_ok_def)
  next
    case False
    with r h nb b' show ?thesis by (auto simp: instance_ok_def)
  qed
qed

lemma inst_init_ok:
  assumes laws: "builder_laws api configs" and i: "inst_init api ruleset cfg w = (True, d, w')"
  shows "instance_ok api configs w' \<and> default_ruleset w' = ruleset"
proof -
  obtain b where b: "builder_init api cfg = Some b"
    and u: "inst_update api (w\<lparr>wi_builder := Some b, default_ruleset := ruleset\<rparr>) = (True, d, w')"
    using i by (auto simp: inst_init_def split: option.splits)
  have "not_both (configs b)" using laws b unfolding builder_laws_def by (auto simp: not_both_def)
  with inst_update_ok [OF laws _ _ u, of b] inst_update_configs [OF laws _ u, of b] show ?thesis by auto
qed


section \<open>The library\<close>

datatype lib_op = Lib_update bytes ddwaf_obj | Lib_remove bytes | Lib_regenerate | Lib_set_active bool

fun lib_step :: "('b, 'h) lib_env \<Rightarrow> lib_op \<Rightarrow> ('b, 'h) library \<Rightarrow> ('b, 'h) library" where
  "lib_step env (Lib_update p v) lib = snd (update_waf_config env p v lib)"
| "lib_step env (Lib_remove p) lib = snd (remove_waf_config env p lib)"
| "lib_step env Lib_regenerate lib = snd (regenerate_handle env lib)"
| "lib_step env (Lib_set_active v) lib = set_active v lib"

fun path_free :: "lib_op \<Rightarrow> bool" where
  "path_free (Lib_update p v) \<longleftrightarrow> p \<noteq> kBundledRuleset"
| "path_free _ \<longleftrightarrow> True"

definition lib_ok :: "('b, 'h) lib_env \<Rightarrow> ('b \<Rightarrow> bytes \<rightharpoonup> ddwaf_obj) \<Rightarrow> ('b, 'h) library \<Rightarrow> bool" where
  "lib_ok env configs lib \<longleftrightarrow> instance_ok (le_api env) configs (upd_waf_instance lib)"

lemma update_waf_config_instance:
  "upd_waf_instance (snd (update_waf_config env p v lib)) =
     (if live (upd_waf_instance lib) then snd (snd (inst_add_or_update_config (le_api env) p v (upd_waf_instance lib)))
      else upd_waf_instance lib)"
  by (auto simp: update_waf_config_def Let_def split: prod.splits sum.splits)

lemma remove_waf_config_instance:
  "upd_waf_instance (snd (remove_waf_config env p lib)) =
     (if live (upd_waf_instance lib) then snd (inst_remove_config (le_api env) p (upd_waf_instance lib))
      else upd_waf_instance lib)"
  by (auto simp: remove_waf_config_def split: prod.splits)

lemma regenerate_handle_instance:
  "upd_waf_instance (snd (regenerate_handle env lib)) =
     (if live (upd_waf_instance lib) then snd (snd (inst_update (le_api env) (upd_waf_instance lib)))
      else upd_waf_instance lib)"
  by (auto simp: regenerate_handle_def Let_def split: prod.splits sum.splits)

lemma finish_initialize_instance:
  "upd_waf_instance (snd (finish_initialize env t st rs lib)) = upd_waf_instance lib"
  by (auto simp: finish_initialize_def Let_def set_active_def init_limiter_def split: sum.splits option.splits)

lemmas library_instance = update_waf_config_instance remove_waf_config_instance regenerate_handle_instance

lemma default_ruleset_kept [simp]:
  "default_ruleset (snd (snd (inst_add_or_update_config api p v w))) = default_ruleset w"
  "default_ruleset (snd (inst_remove_config api p w)) = default_ruleset w"
  "default_ruleset (snd (snd (inst_update api w))) = default_ruleset w"
  by (auto simp: inst_add_or_update_config_def inst_remove_config_def inst_update_def Let_def
      split: prod.splits option.splits)

lemma lib_step_ok:
  assumes laws: "builder_laws (le_api env) configs" and ok: "lib_ok env configs lib" and p: "path_free x"
  shows "lib_ok env configs (lib_step env x lib)
     \<and> default_ruleset (upd_waf_instance (lib_step env x lib)) = default_ruleset (upd_waf_instance lib)"
proof (cases x)
  case (Lib_update q v)
  with ok p inst_add_ok [OF laws, of "upd_waf_instance lib" q v] show ?thesis by (simp add: lib_ok_def library_instance)
next
  case (Lib_remove q)
  with ok inst_remove_ok [OF laws, of "upd_waf_instance lib" q] show ?thesis by (simp add: lib_ok_def library_instance)
next
  case Lib_regenerate
  obtain b where b: "wi_builder (upd_waf_instance lib) = Some b" "not_both (configs b)"
    using ok by (auto simp: lib_ok_def instance_ok_def)
  obtain r d w' where u: "inst_update (le_api env) (upd_waf_instance lib) = (r, d, w')"
    by (cases "inst_update (le_api env) (upd_waf_instance lib)")
  have "instance_ok (le_api env) configs w'" using ok inst_update_ok [OF laws b u] by (simp add: lib_ok_def)
  moreover have "default_ruleset w' = default_ruleset (upd_waf_instance lib)"
    using default_ruleset_kept(3) [of "le_api env" "upd_waf_instance lib"] u by simp
  ultimately show ?thesis using b ok u Lib_regenerate by (simp add: lib_ok_def library_instance)
next
  case (Lib_set_active v)
  with ok show ?thesis by (simp add: lib_ok_def set_active_def)
qed

lemma lib_steps_ok:
  assumes laws: "builder_laws (le_api env) configs" and ok: "lib_ok env configs lib" and p: "list_all path_free ops"
  shows "lib_ok env configs (fold (lib_step env) ops lib)
     \<and> default_ruleset (upd_waf_instance (fold (lib_step env) ops lib)) = default_ruleset (upd_waf_instance lib)"
  using ok p
proof (induction ops arbitrary: lib)
  case (Cons x ops)
  then show ?case using lib_step_ok [OF laws, of lib x] by simp
qed simp

text \<open>Initialisation once the ruleset was read: the instance, then the rest.\<close>

definition waf_config_of :: "finalized_settings \<Rightarrow> ddwaf_config" where
  "waf_config_of st = kBaseWafConfig\<lparr>key_regex := c_string (s_obfuscation_key_regex st),
     value_regex := c_string (s_obfuscation_value_regex st)\<rparr>"

lemma initialize_read:
  fixes lib :: "('b, 'h) library" and env :: "('b, 'h) lib_env" and conf :: appsec_conf
  defines "lib2 \<equiv> lib\<lparr>config_settings := Some (finalize_settings (le_ip_env env) conf),
     ddwaf_log_cb := Some (ngx_log_level_to_ddwaf (int (le_log_level env)))\<rparr>"
  assumes r: "read_ruleset (json_parse env) (le_files env) (recommended_json env)
       (ruleset_file (finalize_settings (le_ip_env env) conf)) = Inr rs"
    and u: "inst_init (le_api env) rs (waf_config_of (finalize_settings (le_ip_env env) conf)) (upd_waf_instance lib) = (res, d, w)"
  shows "initialize_security_library env t conf lib =
     (if s_status (finalize_settings (le_ip_env env) conf) = DISABLED
      then (Inr None, lib\<lparr>config_settings := Some (finalize_settings (le_ip_env env) conf)\<rparr>)
      else if \<not> res then (case ddwaf_diagnostics_to_str d of Inl e \<Rightarrow> (Inl e, lib2\<lparr>upd_waf_instance := w\<rparr>)
                          | Inr _ \<Rightarrow> (Inl Runtime_error, lib2\<lparr>upd_waf_instance := w\<rparr>))
      else (case (if 7 \<le> le_log_level env then num_loaded_rules d else Inr 0) of
              Inl e \<Rightarrow> (Inl e, lib2\<lparr>upd_waf_instance := w\<rparr>)
            | Inr _ \<Rightarrow> finish_initialize env t (finalize_settings (le_ip_env env) conf) rs (lib2\<lparr>upd_waf_instance := w\<rparr>)))"
  using r u unfolding initialize_security_library_def Let_def waf_config_of_def lib2_def by simp

lemma initialize_ok:
  assumes laws: "builder_laws (le_api env) configs"
    and i: "initialize_security_library env t conf lib = (Inr (Some rs), lib1)"
  shows "lib_ok env configs lib1 \<and> default_ruleset (upd_waf_instance lib1) = rs"
proof -
  let ?st = "finalize_settings (le_ip_env env) conf"
  obtain rs' where r: "read_ruleset (json_parse env) (le_files env) (recommended_json env) (ruleset_file ?st) = Inr rs'"
    using i by (auto simp: initialize_security_library_def Let_def split: if_splits sum.splits)
  obtain res d w where u: "inst_init (le_api env) rs' (waf_config_of ?st) (upd_waf_instance lib) = (res, d, w)"
    by (cases "inst_init (le_api env) rs' (waf_config_of ?st) (upd_waf_instance lib)")
  let ?lib2 = "lib\<lparr>config_settings := Some ?st, ddwaf_log_cb := Some (ngx_log_level_to_ddwaf (int (le_log_level env))),
    upd_waf_instance := w\<rparr>"
  from i initialize_read [OF r u, of t]
  have res: "res" and f: "finish_initialize env t ?st rs' ?lib2 = (Inr (Some rs), lib1)"
    by (auto split: if_splits sum.splits)
  have "upd_waf_instance lib1 = w" using finish_initialize_instance [of env t ?st rs' ?lib2] f by simp
  moreover have "rs' = rs" using f by (auto simp: finish_initialize_def Let_def split: sum.splits)
  ultimately show ?thesis using inst_init_ok [OF laws, of rs' "waf_config_of ?st" "upd_waf_instance lib" d w] u res
    by (simp add: lib_ok_def)
qed



section \<open>A builder that is a list\<close>

text \<open>The laws can hold: a builder that keeps its configurations in a list and whose handle is that list.\<close>

definition alist_api :: "((bytes \<times> ddwaf_obj) list, (bytes \<times> ddwaf_obj) list) builder_api" where
  "alist_api =
     \<lparr>builder_init = (\<lambda>c. Some []),
      builder_add = (\<lambda>b p v. case v of Obj_map _ \<Rightarrow> (True, [], (p, v) # b) | _ \<Rightarrow> (False, [], b)),
      builder_remove = (\<lambda>b p. (list_ex (\<lambda>e. fst e = p) b, filter (\<lambda>e. fst e \<noteq> p) b)),
      builder_count = (\<lambda>b pat. length (filter (\<lambda>e. contains pat (fst e)) b)),
      builder_build = Some\<rparr>"

lemma map_of_filter_ne: "map_of (filter (\<lambda>e. fst e \<noteq> p) b) = (map_of b)(p := None)"
  by (induction b) (auto simp: fun_eq_iff)

lemma filter_contains_pos: "(0 < length (filter (\<lambda>e. contains pat (fst e)) b)) = (\<exists>p. map_of b p \<noteq> None \<and> contains pat p)"
proof -
  have "(0 < length (filter (\<lambda>e. contains pat (fst e)) b)) = (\<exists>p \<in> fst ` set b. contains pat p)"
    by (auto simp: filter_empty_conv)
  then show ?thesis unfolding map_of_eq_None_iff by blast
qed

lemma alist_builder_laws: "builder_laws alist_api map_of"
proof -
  have "list_ex (\<lambda>e. fst e = p) b = (map_of b p \<noteq> None)" for p and b :: "(bytes \<times> ddwaf_obj) list"
    by (induction b) auto
  then show ?thesis
    unfolding builder_laws_def alist_api_def
    by (auto simp: map_of_filter_ne filter_contains_pos [simplified] split: ddwaf_obj.splits)
qed

definition sample_env :: "((bytes \<times> ddwaf_obj) list, (bytes \<times> ddwaf_obj) list) lib_env" where
  "sample_env =
     \<lparr>le_api = alist_api, json_parse = (\<lambda>s. if s = ''{}'' then Some (JObject []) else None), le_files = (\<lambda>f. None),
      recommended_json = ''{}'', default_html = ''<p>'', default_json = ''{}'', le_ip_env = localhost_env,
      stats_created = False, le_log_level = 4\<rparr>"

definition sample_lib :: "((bytes \<times> ddwaf_obj) list, (bytes \<times> ddwaf_obj) list) library" where
  "sample_lib = snd (initialize_security_library sample_env 0 (default_conf\<lparr>appsec_enabled := 1\<rparr>) new_library)"

lemma sample_status: "s_status (finalize_settings e (default_conf\<lparr>appsec_enabled := 1\<rparr>)) = ENABLED"
  by (simp add: finalize_settings_def Let_def finalize_status_def default_conf_def NGX_CONF_UNSET_def)

lemma sample_initialization:
  "fst (initialize_security_library sample_env 0 (default_conf\<lparr>appsec_enabled := 1\<rparr>) new_library) = Inr (Some (Obj_map []))
   \<and> upd_waf_instance sample_lib = \<lparr>wi_builder = Some [(kBundledRuleset, Obj_map [])], default_ruleset = Obj_map [],
       wi_handle = Some [(kBundledRuleset, Obj_map [])]\<rparr>"
proof -
  let ?st = "finalize_settings localhost_env (default_conf\<lparr>appsec_enabled := 1\<rparr>)"
  have st: "ruleset_file ?st = None" "s_stats_host_port ?st = None"
    "s_blocked_template_html ?st = []" "s_blocked_template_json ?st = []"
    by (simp_all add: finalize_settings_def Let_def default_conf_def ruleset_file_def non_empty_or_nullopt_def
        text_setting_def get_env_str_def finalize_stats_def)
  have r: "read_ruleset (json_parse sample_env) (le_files sample_env) (recommended_json sample_env)
      (ruleset_file (finalize_settings (le_ip_env sample_env) (default_conf\<lparr>appsec_enabled := 1\<rparr>))) = Inr (Obj_map [])"
    using st(1) by (simp add: read_ruleset_def parse_rule_json_def sample_env_def to_owned_map_def json_to_object_def
        json_to_obj_impl.simps kConfigMaxDepth_def)
  have u: "inst_init (le_api sample_env) (Obj_map []) cfg (upd_waf_instance new_library) =
      (True, [], \<lparr>wi_builder = Some [(kBundledRuleset, Obj_map [])], default_ruleset = Obj_map [],
         wi_handle = Some [(kBundledRuleset, Obj_map [])]\<rparr>)" for cfg
    by (simp add: sample_env_def new_library_def inst_init_def alist_api_def inst_update_def count_config_paths_def
        owned_add_def build_instance_def)
  have log: "\<not> 7 \<le> le_log_level sample_env" by (simp add: sample_env_def)
  show ?thesis
    unfolding sample_lib_def initialize_read [OF r u] sample_status
    by (simp add: log finish_initialize_instance)
      (simp add: sample_env_def finish_initialize_def st new_library_def service_initialize_def
        blocking_service_new_def template_of_def non_empty_or_nullopt_def Let_def)
qed

lemmas sample_instance = sample_initialization [THEN conjunct2]

lemma sample_initialized:
  "initialize_security_library sample_env 0 (default_conf\<lparr>appsec_enabled := 1\<rparr>) new_library = (Inr (Some (Obj_map [])), sample_lib)"
  using sample_initialization by (simp add: sample_lib_def prod_eq_iff)



section \<open>A library that is switched off\<close>

lemma not_live_step:
  assumes "\<not> live (upd_waf_instance lib)" and "wi_handle (upd_waf_instance lib) = None"
  shows "\<not> live (upd_waf_instance (lib_step env x lib)) \<and> wi_handle (upd_waf_instance (lib_step env x lib)) = None"
  using assms by (cases x) (simp_all add: update_waf_config_def remove_waf_config_def regenerate_handle_def set_active_def)

lemma not_live_steps:
  assumes "\<not> live (upd_waf_instance lib)" and "wi_handle (upd_waf_instance lib) = None"
  shows "get_handle (fold (lib_step env) ops lib) = None"
  using assms
proof (induction ops arbitrary: lib)
  case (Cons x ops)
  then show ?case using not_live_step [of lib env x] by simp
qed (simp add: get_handle_def)

text \<open>
  When the library is disabled by the configuration or by the environment, no sequence of operations ever gives a request a
  handle, although the library still calls itself active.
\<close>

theorem disabled_stays_off:
  assumes "appsec_enabled conf = 0 \<or> appsec_enabled conf = NGX_CONF_UNSET \<and>
      get_env_bool (environment_variables conf) ''DD_APPSEC_ENABLED'' = Some False"
  shows "\<exists>lib1. initialize_security_library env t conf new_library = (Inr None, lib1) \<and> lib_active lib1
      \<and> get_handle (fold (lib_step env) ops lib1) = None"
proof -
  have "finalize_status conf = DISABLED" using assms by (auto simp: finalize_status_def NGX_CONF_UNSET_def)
  then have "s_status (finalize_settings (le_ip_env env) conf) = DISABLED" by (simp add: finalize_settings_def Let_def)
  then have "initialize_security_library env t conf new_library =
      (Inr None, new_library\<lparr>config_settings := Some (finalize_settings (le_ip_env env) conf)\<rparr>)"
    by (simp add: initialize_security_library_def Let_def)
  then show ?thesis by (auto simp: new_library_def live_def intro!: not_live_steps)
qed

section \<open>Diagnostics\<close>

text \<open>The shape libddwaf documents for its diagnostics; the text of such a map can always be made.\<close>

definition section_ok :: "ddwaf_obj \<Rightarrow> bool" where
  "section_ok v \<longleftrightarrow>
     (case v of Obj_map m \<Rightarrow>
        (case get_opt m ''loaded'' of None \<Rightarrow> True | Some x \<Rightarrow> (\<exists>vs. x = Obj_array vs))
      \<and> (case get_opt m ''failed'' of None \<Rightarrow> True | Some x \<Rightarrow> (\<exists>vs. x = Obj_array vs))
      \<and> (case get_opt m ''errors'' of None \<Rightarrow> True
         | Some x \<Rightarrow> (\<exists>es. x = Obj_map es \<and> (\<forall>(k, y) \<in> set es. \<exists>ss. y = Obj_array (map Obj_string ss))))
      | _ \<Rightarrow> False)"

lemma join_strings_total: "\<exists>t. join_strings (map Obj_string ss) = Inr t"
proof (induction ss)
  case (Cons s ss)
  then show ?case by (cases ss) auto
qed simp

lemma errors_str_total:
  "(\<forall>(k, y) \<in> set es. \<exists>ss. y = Obj_array (map Obj_string ss)) \<Longrightarrow> \<exists>t. errors_str es = Inr t"
proof (induction es rule: errors_str.induct)
  case (2 kp)
  then obtain ss where "snd kp = Obj_array (map Obj_string ss)" by (cases kp) auto
  with join_strings_total [of ss] show ?case by (auto simp: error_str_def)
next
  case (3 kp kq kps)
  then obtain ss where "snd kp = Obj_array (map Obj_string ss)" by (cases kp) auto
  with join_strings_total [of ss] have s: "\<exists>s. error_str kp = Inr s" by (auto simp: error_str_def)
  then obtain x where x: "error_str kp = Inr x" ..
  with 3 show ?case by auto
qed simp

lemma subdiagnostics_total:
  assumes "\<And>v. get_opt d k = Some v \<Longrightarrow> section_ok v"
  shows "\<exists>t. ddwaf_subdiagnostics_to_str d k = Inr t"
proof (cases "get_opt d k")
  case None
  then show ?thesis by (simp add: ddwaf_subdiagnostics_to_str_def get_opt_map_def)
next
  case (Some v)
  with assms obtain m where m: "v = Obj_map m" "section_ok (Obj_map m)" by (auto simp: section_ok_def split: ddwaf_obj.splits)
  have "\<exists>n. arr_size m ''loaded'' = Inr n" using m(2) by (auto simp: section_ok_def arr_size_def split: option.splits)
  moreover have "\<exists>n. arr_size m ''failed'' = Inr n" using m(2) by (auto simp: section_ok_def arr_size_def split: option.splits)
  moreover have "\<exists>es. get_opt_map m ''errors'' = Inr es \<and> (\<exists>t. errors_str (case es of None \<Rightarrow> [] | Some es \<Rightarrow> es) = Inr t)"
    using m(2) errors_str_total by (cases "get_opt m ''errors''") (auto simp: section_ok_def get_opt_map_def)
  ultimately show ?thesis using Some m(1) by (auto simp: ddwaf_subdiagnostics_to_str_def get_opt_map_def)
qed

lemma diagnostics_total:
  assumes "\<And>k v. get_opt d k = Some v \<Longrightarrow> section_ok v"
  shows "\<exists>t. ddwaf_diagnostics_to_str d = Inr t"
proof -
  have s: "\<exists>t. ddwaf_subdiagnostics_to_str d k = Inr t" for k using subdiagnostics_total assms by blast
  obtain a b c e where "ddwaf_subdiagnostics_to_str d ''rules'' = Inr a" "ddwaf_subdiagnostics_to_str d ''processors'' = Inr b"
    "ddwaf_subdiagnostics_to_str d ''exclusions'' = Inr c" "ddwaf_subdiagnostics_to_str d ''rules_data'' = Inr e"
    using s by metis
  then show ?thesis by (simp add: ddwaf_diagnostics_to_str_def)
qed

end
