(* ===== verification/Remote_Config.thy ===== *)
theory Remote_Config
  imports Waf_Rules
begin

text \<open>
  Remote configuration of the WAF, \<^verbatim>\<open>src/security/waf_remote_cfg.cpp\<close>: the keys of configurations, the two listeners
  that change the library, the listener that rebuilds the WAF once a batch was delivered, and the subscription to
  them, which \<^verbatim>\<open>TracingLibrary::make_tracer\<close> decides on. The client that delivers configurations is in
  dd-trace-cpp: it calls a listener's functions with a path and a content, and its table of product names is the
  parameter \<open>parse_product\<close>. Not modelled: the masks of capabilities, and moving a \<^verbatim>\<open>ParsedConfigKey\<close>, which no code does.
\<close>

section \<open>Configuration keys\<close>

datatype product = UNKNOWN | ASM | ASM_DATA | ASM_DD | ASM_FEATURES | Other_product nat

record parsed_config_key =
  full_key :: bytes
  key_source :: bytes
  org_id :: nat
  key_product :: product
  config_id :: bytes
  key_name :: bytes

text \<open>
  The regular expression \<^verbatim>\<open>(?:datadog/(\d+)|employee)/([^/]+)/([^/]+)/([^/]+)\<close>, matched against the whole key: the groups.
  All its pieces are between slashes and none can hold one.
\<close>

definition match_config_key :: "bytes \<Rightarrow> (bytes option \<times> bytes \<times> bytes \<times> bytes) option" where
  "match_config_key key =
     (case split_on CHR ''/'' key of
        [s, p, i, n] \<Rightarrow>
          if s = ''employee'' \<and> p \<noteq> [] \<and> i \<noteq> [] \<and> n \<noteq> [] then Some (None, p, i, n) else None
      | [s, org, p, i, n] \<Rightarrow>
          if s = ''datadog'' \<and> org \<noteq> [] \<and> list_all isdigit org \<and> p \<noteq> [] \<and> i \<noteq> [] \<and> n \<noteq> [] then Some (Some org, p, i, n) else None
      | _ \<Rightarrow> None)"

definition parse_config_key :: "(bytes \<Rightarrow> product) \<Rightarrow> bytes \<Rightarrow> exn + parsed_config_key" where
  "parse_config_key parse_product key =
     (case match_config_key key of
        None \<Rightarrow> Inl Invalid_argument
      | Some (Some org, p, i, n) \<Rightarrow>
          (case from_chars_unsigned 64 org of
             None \<Rightarrow> Inl Invalid_argument
           | Some oid \<Rightarrow> Inr \<lparr>full_key = key, key_source = ''datadog'', org_id = oid, key_product = parse_product p, config_id = i, key_name = n\<rparr>)
      | Some (None, p, i, n) \<Rightarrow>
          Inr \<lparr>full_key = key, key_source = ''employee'', org_id = 0, key_product = parse_product p, config_id = i, key_name = n\<rparr>)"

section \<open>The current configuration\<close>

record ('b, 'h) rc_state =
  rc_lib :: "('b, 'h) library"
  cfg_dirty :: bool
  cfg_failed :: bool

definition set_config_rc :: "('b, 'h) lib_env \<Rightarrow> parsed_config_key \<Rightarrow> ddwaf_obj \<Rightarrow> ('b, 'h) rc_state \<Rightarrow> exn option \<times> ('b, 'h) rc_state" where
  "set_config_rc env key new_config st =
     (case update_waf_config env (full_key key) new_config (rc_lib st) of
        (Inl e, lib) \<Rightarrow> (Some e, st\<lparr>rc_lib := lib\<rparr>)
      | (Inr res, lib) \<Rightarrow>
          (let st1 = st\<lparr>rc_lib := lib, cfg_dirty := True\<rparr>
           in if \<not> res then (Some Runtime_error, st1\<lparr>cfg_failed := True\<rparr>) else (None, st1)))"

definition remove_config_rc :: "('b, 'h) lib_env \<Rightarrow> parsed_config_key \<Rightarrow> ('b, 'h) rc_state \<Rightarrow> exn option \<times> ('b, 'h) rc_state" where
  "remove_config_rc env key st =
     (let (res, lib) = remove_waf_config env (full_key key) (rc_lib st); st1 = st\<lparr>rc_lib := lib\<rparr>
      in if \<not> res then (Some Runtime_error, st1\<lparr>cfg_failed := True\<rparr>) else (None, st1\<lparr>cfg_dirty := True\<rparr>))"

definition consume_status :: "('b, 'h) rc_state \<Rightarrow> (bool \<times> bool) \<times> ('b, 'h) rc_state" where
  "consume_status st = ((cfg_dirty st, cfg_failed st), st\<lparr>cfg_dirty := False, cfg_failed := False\<rparr>)"

section \<open>Listeners\<close>

text \<open>
  A call of a listener ends with an exception or without, or in a failed assertion: \<^verbatim>\<open>GetBool\<close> asserts that the value is
  a boolean.
\<close>

datatype ('b, 'h) rc_result = Rc_end "exn option" "('b, 'h) rc_state" | Rc_assertion

text \<open>\<^verbatim>\<open>rapidjson::Pointer::Get\<close> for names that are not numbers, so that they select nothing in an array.\<close>

fun pointer_get :: "json \<Rightarrow> bytes list \<Rightarrow> json option" where
  "pointer_get doc [] = Some doc"
| "pointer_get (JObject ms) (t # ts) = (case map_of ms t of None \<Rightarrow> None | Some v \<Rightarrow> pointer_get v ts)"
| "pointer_get _ (t # ts) = None"

definition asm_enabled :: "json \<Rightarrow> bool option" where
  "asm_enabled doc =
     (case pointer_get doc [''asm'', ''enabled''] of
        None \<Rightarrow> Some False
      | Some (JBool b) \<Rightarrow> Some b
      | Some _ \<Rightarrow> None)"

definition features_on_update :: "('b, 'h) lib_env \<Rightarrow> parsed_config_key \<Rightarrow> bytes \<Rightarrow> ('b, 'h) rc_state \<Rightarrow> ('b, 'h) rc_result" where
  "features_on_update env key content st =
     (if config_id key \<noteq> ''asm_features_activation'' then Rc_end None st
      else case json_parse env (c_string content) of
        None \<Rightarrow> Rc_end (Some Runtime_error) st
      | Some doc \<Rightarrow>
          (case asm_enabled doc of
             None \<Rightarrow> Rc_assertion
           | Some new_state \<Rightarrow>
               if new_state = lib_active (rc_lib st) then Rc_end None st
               else Rc_end None (st\<lparr>rc_lib := set_active new_state (rc_lib st)\<rparr>)))"

definition features_on_revert :: "('b, 'h) lib_env \<Rightarrow> parsed_config_key \<Rightarrow> ('b, 'h) rc_state \<Rightarrow> ('b, 'h) rc_result" where
  "features_on_revert env key st = features_on_update env key ''{}'' st"

definition config_on_update :: "('b, 'h) lib_env \<Rightarrow> parsed_config_key \<Rightarrow> bytes \<Rightarrow> ('b, 'h) rc_state \<Rightarrow> exn option \<times> ('b, 'h) rc_state" where
  "config_on_update env key content st =
     (case json_parse env content of
        None \<Rightarrow> (Some Invalid_argument, st)
      | Some doc \<Rightarrow>
          (case to_owned_map (json_to_object doc kConfigMaxDepth) of
             Inl e \<Rightarrow> (Some e, st)
           | Inr new_data \<Rightarrow> set_config_rc env key new_data st))"

definition config_on_revert :: "('b, 'h) lib_env \<Rightarrow> parsed_config_key \<Rightarrow> ('b, 'h) rc_state \<Rightarrow> exn option \<times> ('b, 'h) rc_state" where
  "config_on_revert env key st = remove_config_rc env key st"

datatype listener = AsmFeaturesListener | AsmConfigListener | ConfigurationEndListener

fun get_products :: "listener \<Rightarrow> product set" where
  "get_products AsmFeaturesListener = {ASM_FEATURES}"
| "get_products AsmConfigListener = {ASM, ASM_DATA, ASM_DD}"
| "get_products ConfigurationEndListener = {ASM, ASM_DATA, ASM_DD}"

text \<open>\<^verbatim>\<open>ProductListener\<close>: the key is parsed first; an exception is what an update reports, and a revert only logs it.\<close>

definition on_update :: "('b, 'h) lib_env \<Rightarrow> (bytes \<Rightarrow> product) \<Rightarrow> listener \<Rightarrow> bytes \<Rightarrow> bytes \<Rightarrow> ('b, 'h) rc_state \<Rightarrow> ('b, 'h) rc_result" where
  "on_update env parse_product l path content st =
     (if l = ConfigurationEndListener then Rc_end None st
      else case parse_config_key parse_product path of
        Inl e \<Rightarrow> Rc_end (Some e) st
      | Inr key \<Rightarrow>
          if l = AsmFeaturesListener then features_on_update env key content st
          else (let (e, st1) = config_on_update env key content st in Rc_end e st1))"

definition on_revert :: "('b, 'h) lib_env \<Rightarrow> (bytes \<Rightarrow> product) \<Rightarrow> listener \<Rightarrow> bytes \<Rightarrow> ('b, 'h) rc_state \<Rightarrow> ('b, 'h) rc_result" where
  "on_revert env parse_product l path st =
     (if l = ConfigurationEndListener then Rc_end None st
      else case parse_config_key parse_product path of
        Inl e \<Rightarrow> Rc_end None st
      | Inr key \<Rightarrow>
          if l = AsmFeaturesListener
          then (case features_on_revert env key st of Rc_end e st1 \<Rightarrow> Rc_end None st1 | Rc_assertion \<Rightarrow> Rc_assertion)
          else Rc_end None (snd (config_on_revert env key st)))"

text \<open>The end of a batch: the function \<^verbatim>\<open>subscribe_to_remote_config\<close> gives to its \<^verbatim>\<open>ConfigurationEndListener\<close>.\<close>

definition configuration_end :: "('b, 'h) lib_env \<Rightarrow> ('b, 'h) rc_state \<Rightarrow> exn option \<times> ('b, 'h) rc_state" where
  "configuration_end env st =
     (let ((dirty, failed), st1) = consume_status st
      in if dirty then
           (case regenerate_handle env (rc_lib st1) of
              (Inl e, lib) \<Rightarrow> (Some e, st1\<lparr>rc_lib := lib\<rparr>)
            | (Inr _, lib) \<Rightarrow> (None, st1\<lparr>rc_lib := lib\<rparr>))
         else (None, st1))"

definition on_post_process :: "('b, 'h) lib_env \<Rightarrow> listener \<Rightarrow> ('b, 'h) rc_state \<Rightarrow> exn option \<times> ('b, 'h) rc_state" where
  "on_post_process env l st = (if l = ConfigurationEndListener then configuration_end env st else (None, st))"

section \<open>Subscription\<close>

definition subscribe_to_remote_config :: "bool \<Rightarrow> bool \<Rightarrow> listener list \<Rightarrow> listener list" where
  "subscribe_to_remote_config accept_cfg_update is_subscribe_activation ls =
     ls @ (if is_subscribe_activation then [AsmFeaturesListener] else [])
        @ (if accept_cfg_update then [AsmConfigListener, ConfigurationEndListener] else [])"

text \<open>\<^verbatim>\<open>AppSecConfigService::initialize\<close>: the argument is whether there is an instance, the result that there is one.\<close>

definition register_default_config :: "bool \<Rightarrow> exn + bool" where
  "register_default_config has_instance = (if has_instance then Inl Logic_error else Inr True)"

definition register_with_remote_cfg :: "bool \<Rightarrow> bool \<Rightarrow> bool \<Rightarrow> listener list \<Rightarrow> listener list" where
  "register_with_remote_cfg has_instance accept_cfg_update subscribe_activation ls =
     (if \<not> has_instance then ls else subscribe_to_remote_config accept_cfg_update subscribe_activation ls)"

text \<open>The part of \<^verbatim>\<open>make_tracer\<close> that subscribes the WAF.\<close>

definition subscribe_waf :: "appsec_conf \<Rightarrow> bool \<Rightarrow> listener list \<Rightarrow> listener list" where
  "subscribe_waf conf has_instance ls =
     (if appsec_enabled conf = 0 then ls
      else register_with_remote_cfg has_instance (appsec_ruleset_file conf = []) (appsec_enabled conf = NGX_CONF_UNSET) ls)"

section \<open>The keys\<close>

definition datadog_key :: "nat \<Rightarrow> bytes \<Rightarrow> bytes \<Rightarrow> bytes \<Rightarrow> bytes" where
  "datadog_key oid p i n = ''datadog/'' @ decimal oid @ ''/'' @ p @ ''/'' @ i @ ''/'' @ n"

definition employee_key :: "bytes \<Rightarrow> bytes \<Rightarrow> bytes \<Rightarrow> bytes" where
  "employee_key p i n = ''employee/'' @ p @ ''/'' @ i @ ''/'' @ n"

definition segment :: "bytes \<Rightarrow> bool" where
  "segment s \<longleftrightarrow> s \<noteq> [] \<and> CHR ''/'' \<notin> set s"

lemma split_datadog_key:
  assumes "segment p" and "segment i" and "segment n"
  shows "split_on CHR ''/'' (datadog_key oid p i n) = [''datadog'', decimal oid, p, i, n]"
proof -
  have k: "datadog_key oid p i n = join_with CHR ''/'' [''datadog'', decimal oid, p, i, n]"
    by (simp add: datadog_key_def)
  have "CHR ''/'' \<notin> set (decimal oid)" by (rule decimal_no) (simp add: isdigit_def)
  with assms show ?thesis unfolding k by (intro split_on_join) (auto simp: segment_def)
qed

lemma split_employee_key:
  assumes "segment p" and "segment i" and "segment n"
  shows "split_on CHR ''/'' (employee_key p i n) = [''employee'', p, i, n]"
proof -
  have k: "employee_key p i n = join_with CHR ''/'' [''employee'', p, i, n]" by (simp add: employee_key_def)
  from assms show ?thesis unfolding k by (intro split_on_join) (auto simp: segment_def)
qed

text \<open>
  The keys of both forms are parsed back into their parts, for every organisation number of 64 bits.
\<close>

theorem config_key_roundtrip:
  assumes "segment p" and "segment i" and "segment n"
  shows "(oid < 2 ^ 64 \<longrightarrow> parse_config_key parse_product (datadog_key oid p i n) =
           Inr \<lparr>full_key = datadog_key oid p i n, key_source = ''datadog'', org_id = oid, key_product = parse_product p, config_id = i, key_name = n\<rparr>)
       \<and> (2 ^ 64 \<le> oid \<longrightarrow> parse_config_key parse_product (datadog_key oid p i n) = Inl Invalid_argument)
       \<and> parse_config_key parse_product (employee_key p i n) =
           Inr \<lparr>full_key = employee_key p i n, key_source = ''employee'', org_id = 0, key_product = parse_product p, config_id = i, key_name = n\<rparr>"
proof -
  have d: "decimal oid \<noteq> []" "list_all isdigit (decimal oid)" using decimal_pos [of oid] decimal_digits by auto
  have "match_config_key (datadog_key oid p i n) = Some (Some (decimal oid), p, i, n)"
    using assms d by (simp add: match_config_key_def split_datadog_key segment_def)
  moreover have "match_config_key (employee_key p i n) = Some (None, p, i, n)"
    using assms by (simp add: match_config_key_def split_employee_key segment_def)
  moreover have "2 ^ 64 \<le> oid \<Longrightarrow> from_chars_unsigned 64 (decimal oid) = None" by (simp add: from_chars_unsigned_def)
  ultimately show ?thesis by (auto simp: parse_config_key_def)
qed


theorem config_key_roundtrip_witness:
  "parse_config_key (\<lambda>p. if p = ''ASM'' then ASM else UNKNOWN) (datadog_key 2 ''ASM'' ''blocked_ips'' ''config'') =
     Inr \<lparr>full_key = datadog_key 2 ''ASM'' ''blocked_ips'' ''config'', key_source = ''datadog'', org_id = 2, key_product = ASM,
          config_id = ''blocked_ips'', key_name = ''config''\<rparr>"
  using config_key_roundtrip [of "''ASM''" "''blocked_ips''" "''config''" 2 "\<lambda>p. if p = ''ASM'' then ASM else UNKNOWN"]
  by (simp add: segment_def)

text \<open>The regular expression of the keys, written out as the texts it stands for, with an organisation number of 64 bits.\<close>

definition config_key_language :: "bytes set" where
  "config_key_language =
     {key. \<exists>p i n. segment p \<and> segment i \<and> segment n
        \<and> (key = employee_key p i n
           \<or> (\<exists>org. org \<noteq> [] \<and> list_all isdigit org \<and> digits_nat org < 2 ^ 64
                \<and> key = ''datadog/'' @ org @ ''/'' @ p @ ''/'' @ i @ ''/'' @ n))}"

lemma match_config_key_datadog:
  assumes "segment p" and "segment i" and "segment n" and "org \<noteq> []" and "list_all isdigit org"
  shows "match_config_key (''datadog/'' @ org @ ''/'' @ p @ ''/'' @ i @ ''/'' @ n) = Some (Some org, p, i, n)"
proof -
  have k: "''datadog/'' @ org @ ''/'' @ p @ ''/'' @ i @ ''/'' @ n = join_with CHR ''/'' [''datadog'', org, p, i, n]" by simp
  have "CHR ''/'' \<notin> set org" using assms(5) by (auto simp: list_all_iff isdigit_def)
  then have "split_on CHR ''/'' (''datadog/'' @ org @ ''/'' @ p @ ''/'' @ i @ ''/'' @ n) = [''datadog'', org, p, i, n]"
    unfolding k using assms by (intro split_on_join) (auto simp: segment_def)
  with assms show ?thesis unfolding match_config_key_def by (simp add: segment_def)
qed

lemma match_config_keyD:
  assumes "match_config_key key = Some (org, p, i, n)"
  shows "segment p \<and> segment i \<and> segment n \<and>
     (case org of None \<Rightarrow> key = employee_key p i n
      | Some os \<Rightarrow> os \<noteq> [] \<and> list_all isdigit os \<and> key = ''datadog/'' @ os @ ''/'' @ p @ ''/'' @ i @ ''/'' @ n)"
proof -
  define xs where "xs = split_on CHR ''/'' key"
  have j: "join_with CHR ''/'' xs = key" by (simp add: xs_def join_split_on)
  have sep: "CHR ''/'' \<notin> set x" if "x \<in> set xs" for x using that unfolding xs_def by (rule split_on_pieces)
  have "(org = None \<and> xs = [''employee'', p, i, n] \<or> (\<exists>os. org = Some os \<and> os \<noteq> [] \<and> list_all isdigit os \<and> xs = [''datadog'', os, p, i, n]))
      \<and> p \<noteq> [] \<and> i \<noteq> [] \<and> n \<noteq> []"
    using assms unfolding match_config_key_def xs_def [symmetric] by (auto split: list.splits if_splits)
  then show ?thesis using j sep by (auto simp: employee_key_def segment_def)
qed

text \<open>
  C16. The keys that are accepted are exactly those of the regular expression whose organisation number has 64 bits, whatever the
  product named in the key is.
\<close>

theorem config_keys_accepted:
  "(\<exists>k. parse_config_key parse_product key = Inr k) \<longleftrightarrow> key \<in> config_key_language"
proof
  assume "\<exists>k. parse_config_key parse_product key = Inr k"
  then obtain org p i n where m: "match_config_key key = Some (org, p, i, n)"
    and o: "org = None \<or> (\<exists>os. org = Some os \<and> from_chars_unsigned 64 os \<noteq> None)"
    by (auto simp: parse_config_key_def split: option.splits)
  from o have "org = None \<or> (\<exists>os. org = Some os \<and> digits_nat os < 2 ^ 64)"
    by (auto simp: from_chars_unsigned_def split: if_splits)
  with match_config_keyD [OF m] show "key \<in> config_key_language"
    unfolding config_key_language_def by (auto split: option.splits)
next
  assume "key \<in> config_key_language"
  then consider (emp) p i n where "segment p" "segment i" "segment n" "key = employee_key p i n"
    | (dd) p i n org where "segment p" "segment i" "segment n" "org \<noteq> []" "list_all isdigit org" "digits_nat org < 2 ^ 64"
        "key = ''datadog/'' @ org @ ''/'' @ p @ ''/'' @ i @ ''/'' @ n"
    unfolding config_key_language_def by blast
  then show "\<exists>k. parse_config_key parse_product key = Inr k"
  proof cases
    case emp
    then show ?thesis by (simp add: parse_config_key_def match_config_key_def split_employee_key segment_def)
  next
    case dd
    have "match_config_key key = Some (Some org, p, i, n)" unfolding dd(7) by (rule match_config_key_datadog) (use dd in simp_all)
    with dd show ?thesis by (simp add: parse_config_key_def from_chars_unsigned_def)
  qed
qed

text \<open>Which keys the library takes for a ruleset: those of the product, and those whose configuration is called so.\<close>

lemma contains_segment:
  assumes "contains (CHR ''/'' # w @ [CHR ''/'']) s" and "CHR ''/'' \<notin> set w"
  shows "\<exists>xs ys. split_on CHR ''/'' s = xs @ w # ys \<and> xs \<noteq> [] \<and> ys \<noteq> []"
proof -
  obtain a b where s: "s = a @ CHR ''/'' # w @ CHR ''/'' # b" using assms(1) unfolding contains_iff by auto
  have "split_on CHR ''/'' s = split_on CHR ''/'' a @ w # split_on CHR ''/'' b"
    unfolding s using assms(2) by (simp add: split_on_separator split_on_append split_on_none)
  then show ?thesis by (intro exI conjI) (assumption, simp_all)
qed

lemma middle_segment:
  assumes "xs @ w # ys = [a, b, c, d, e]" and "xs \<noteq> []" and "ys \<noteq> []"
  shows "w = b \<or> w = c \<or> w = d"
  using assms by (auto simp: append_eq_Cons_conv)

theorem ruleset_paths:
  assumes "segment p" and "segment i" and "segment n"
  shows "contains ''/ASM_DD/'' (datadog_key oid p i n) \<longleftrightarrow> p = ''ASM_DD'' \<or> i = ''ASM_DD''"
proof
  assume "contains ''/ASM_DD/'' (datadog_key oid p i n)"
  then obtain xs ys where s: "[''datadog'', decimal oid, p, i, n] = xs @ ''ASM_DD'' # ys" "xs \<noteq> []" "ys \<noteq> []"
    using contains_segment [of "''ASM_DD''" "datadog_key oid p i n"] split_datadog_key [OF assms, of oid] by auto
  have "CHR ''A'' \<notin> set (decimal oid)" by (rule decimal_no) (simp add: isdigit_def)
  then have "''ASM_DD'' \<noteq> decimal oid" by (metis list.set_intros(1))
  with middle_segment [OF s(1) [symmetric] s(2,3)] show "p = ''ASM_DD'' \<or> i = ''ASM_DD''" by auto
next
  assume "p = ''ASM_DD'' \<or> i = ''ASM_DD''"
  then show "contains ''/ASM_DD/'' (datadog_key oid p i n)"
  proof
    assume "p = ''ASM_DD''"
    then have "datadog_key oid p i n = (''datadog/'' @ decimal oid) @ ''/ASM_DD/'' @ i @ ''/'' @ n" by (simp add: datadog_key_def)
    then show ?thesis unfolding contains_iff by blast
  next
    assume "i = ''ASM_DD''"
    then have "datadog_key oid p i n = (''datadog/'' @ decimal oid @ ''/'' @ p) @ ''/ASM_DD/'' @ n" by (simp add: datadog_key_def)
    then show ?thesis unfolding contains_iff by blast
  qed
qed


theorem ruleset_paths_witness:
  "contains ''/ASM_DD/'' (datadog_key 2 ''ASM'' ''ASM_DD'' ''x'') \<and> \<not> contains ''/ASM_DD/'' (datadog_key 2 ''ASM'' ''x'' ''ASM_DD'')"
  using ruleset_paths [of "''ASM''" "''ASM_DD''" "''x''" 2] ruleset_paths [of "''ASM''" "''x''" "''ASM_DD''" 2]
  by (simp add: segment_def)

section \<open>A batch of configurations\<close>

datatype rc_event = Rc_update bytes bytes | Rc_revert bytes

fun event_path :: "rc_event \<Rightarrow> bytes" where
  "event_path (Rc_update path content) = path"
| "event_path (Rc_revert path) = path"

fun deliver :: "('b, 'h) lib_env \<Rightarrow> (bytes \<Rightarrow> product) \<Rightarrow> rc_event \<Rightarrow> ('b, 'h) rc_state \<Rightarrow> ('b, 'h) rc_result" where
  "deliver env pp (Rc_update path content) st = on_update env pp AsmConfigListener path content st"
| "deliver env pp (Rc_revert path) st = on_revert env pp AsmConfigListener path st"

text \<open>All of a batch, with what each event reports.\<close>

fun rc_batch :: "('b, 'h) lib_env \<Rightarrow> (bytes \<Rightarrow> product) \<Rightarrow> rc_event list \<Rightarrow> ('b, 'h) rc_state \<Rightarrow> (exn option list \<times> ('b, 'h) rc_state) option" where
  "rc_batch env pp [] st = Some ([], st)"
| "rc_batch env pp (ev # evs) st =
     (case deliver env pp ev st of
        Rc_assertion \<Rightarrow> None
      | Rc_end e st1 \<Rightarrow> (case rc_batch env pp evs st1 of None \<Rightarrow> None | Some (es, st2) \<Rightarrow> Some (e # es, st2)))"

text \<open>What the client delivers to the listener: keys of the products it has registered for.\<close>

definition delivered :: "(bytes \<Rightarrow> product) \<Rightarrow> rc_event \<Rightarrow> bool" where
  "delivered pp ev \<longleftrightarrow>
     (case parse_config_key pp (event_path ev) of Inl _ \<Rightarrow> True | Inr k \<Rightarrow> key_product k \<in> get_products AsmConfigListener)"

lemma delivered_not_bundled:
  assumes "delivered pp ev" and "pp ''NONE'' \<notin> get_products AsmConfigListener"
  shows "event_path ev \<noteq> kBundledRuleset"
proof
  assume e: "event_path ev = kBundledRuleset"
  have "split_on CHR ''/'' kBundledRuleset = [''datadog'', ''0'', ''NONE'', ''none'', ''bundled_rule_data'']"
    by (simp add: kBundledRuleset_def)
  then have "match_config_key kBundledRuleset = Some (Some ''0'', ''NONE'', ''none'', ''bundled_rule_data'')"
    by (simp add: match_config_key_def isdigit_def)
  then have "\<exists>k. parse_config_key pp kBundledRuleset = Inr k \<and> key_product k = pp ''NONE''"
    by (simp add: parse_config_key_def from_chars_unsigned_def isdigit_def digits_nat_def)
  with assms e show False by (auto simp: delivered_def)
qed

text \<open>The specification: the map of configurations, by path.\<close>

definition config_of :: "('b, 'h) lib_env \<Rightarrow> bytes \<Rightarrow> ddwaf_obj option" where
  "config_of env content =
     (case json_parse env content of
        None \<Rightarrow> None
      | Some doc \<Rightarrow> (case to_owned_map (json_to_object doc kConfigMaxDepth) of Inl _ \<Rightarrow> None | Inr v \<Rightarrow> Some v))"

fun rc_spec :: "('b, 'h) lib_env \<Rightarrow> rc_event \<Rightarrow> (bytes \<rightharpoonup> ddwaf_obj) \<Rightarrow> (bytes \<rightharpoonup> ddwaf_obj)" where
  "rc_spec env (Rc_update path content) m = m(path := config_of env content)"
| "rc_spec env (Rc_revert path) m = m(path := None)"

definition agree :: "(bytes \<rightharpoonup> ddwaf_obj) \<Rightarrow> (bytes \<rightharpoonup> ddwaf_obj) \<Rightarrow> bool" where
  "agree m m' \<longleftrightarrow> (\<forall>q. q \<noteq> kBundledRuleset \<longrightarrow> m q = m' q)"

lemma agree_rc_spec: "agree m m' \<Longrightarrow> agree (rc_spec env ev m) (rc_spec env ev m')"
  by (cases ev) (simp_all add: agree_def)

lemma agree_trans: "agree m1 m2 \<Longrightarrow> agree m2 m3 \<Longrightarrow> agree m1 m3"
  by (simp add: agree_def)

lemma agree_fold_spec: "agree m m' \<Longrightarrow> agree (fold (rc_spec env) evs m) (fold (rc_spec env) evs m')"
  by (induction evs arbitrary: m m') (simp_all add: agree_rc_spec)

text \<open>The libraries before and after an event: the builder has other configurations, the rest is the same.\<close>

definition only_builder :: "('b, 'h) library \<Rightarrow> ('b, 'h) library \<Rightarrow> bool" where
  "only_builder lib lib' \<longleftrightarrow>
     lib_active lib' = lib_active lib
   \<and> wi_handle (upd_waf_instance lib') = wi_handle (upd_waf_instance lib)
   \<and> default_ruleset (upd_waf_instance lib') = default_ruleset (upd_waf_instance lib)"

lemma parsed_full_key: "parse_config_key pp path = Inr k \<Longrightarrow> full_key k = path"
  by (auto simp: parse_config_key_def split: option.splits)

lemma set_config_rc_lib: "rc_lib (snd (set_config_rc env k v st)) = snd (update_waf_config env (full_key k) v (rc_lib st))"
  by (auto simp: set_config_rc_def Let_def split: prod.splits sum.splits)

lemma remove_config_rc_lib [simp]:
  "rc_lib (snd (remove_config_rc env k st)) = snd (remove_waf_config env (full_key k) (rc_lib st))"
  "cfg_dirty (snd (remove_config_rc env k st)) = (cfg_dirty st \<or> fst (remove_waf_config env (full_key k) (rc_lib st)))"
  by (auto simp: remove_config_rc_def Let_def split: prod.splits)

lemma config_on_update_lib:
  "rc_lib (snd (config_on_update env k content st)) =
     (case config_of env content of None \<Rightarrow> rc_lib st | Some v \<Rightarrow> snd (update_waf_config env (full_key k) v (rc_lib st)))"
  by (simp add: config_on_update_def config_of_def set_config_rc_lib split: option.splits sum.splits)

lemma update_applied:
  assumes laws: "builder_laws (le_api env) configs" and b: "wi_builder (upd_waf_instance lib) = Some b"
    and u: "update_waf_config env path v lib = (Inr True, lib')" and p: "path \<noteq> kBundledRuleset"
  shows "only_builder lib lib' \<and> (\<exists>b'. wi_builder (upd_waf_instance lib') = Some b' \<and> agree (configs b') ((configs b)(path \<mapsto> v)))"
proof -
  obtain r d w where w: "inst_add_or_update_config (le_api env) path v (upd_waf_instance lib) = (r, d, w)"
    by (cases "inst_add_or_update_config (le_api env) path v (upd_waf_instance lib)")
  with b u have l: "r" "lib' = lib\<lparr>upd_waf_instance := w\<rparr>"
    by (auto simp: update_waf_config_def live_def Let_def split: sum.splits if_splits)
  with inst_add_configs [OF laws b w] p show ?thesis by (auto simp: only_builder_def agree_def)
qed

lemma deliver_applied:
  assumes laws: "builder_laws (le_api env) configs" and b: "wi_builder (upd_waf_instance (rc_lib st)) = Some b"
    and d: "deliver env pp ev st = Rc_end None st'" and p: "event_path ev \<noteq> kBundledRuleset"
    and keys: "\<And>q. configs b q \<noteq> None \<Longrightarrow> q \<noteq> kBundledRuleset \<Longrightarrow> \<exists>k. parse_config_key pp q = Inr k"
  shows "only_builder (rc_lib st) (rc_lib st')
     \<and> (\<exists>b'. wi_builder (upd_waf_instance (rc_lib st')) = Some b' \<and> agree (configs b') (rc_spec env ev (configs b))
           \<and> (\<not> cfg_dirty st' \<longrightarrow> \<not> cfg_dirty st \<and> configs b' = configs b)
           \<and> (\<forall>q. configs b' q \<noteq> None \<longrightarrow> q \<noteq> kBundledRuleset \<longrightarrow> (\<exists>k. parse_config_key pp q = Inr k)))"
proof (cases ev)
  case (Rc_update path content)
  obtain k v lib' where k: "parse_config_key pp path = Inr k" and v: "config_of env content = Some v"
    and u: "update_waf_config env (full_key k) v (rc_lib st) = (Inr True, lib')"
    and st': "st' = st\<lparr>rc_lib := lib', cfg_dirty := True\<rparr>"
    using d Rc_update
    by (auto simp: on_update_def config_on_update_def set_config_rc_def config_of_def Let_def
        split: sum.splits option.splits prod.splits if_splits)
  have fk: "full_key k = path" using k by (rule parsed_full_key)
  obtain b' where b': "only_builder (rc_lib st) lib'" "wi_builder (upd_waf_instance lib') = Some b'"
    and a: "agree (configs b') ((configs b)(path \<mapsto> v))"
    using update_applied [OF laws b u] fk p Rc_update by auto
  have "\<exists>k. parse_config_key pp q = Inr k" if "configs b' q \<noteq> None" "q \<noteq> kBundledRuleset" for q
    using keys [of q] that a k by (cases "q = path") (auto simp: agree_def)
  with b' a st' v Rc_update show ?thesis by auto
next
  case (Rc_revert path)
  show ?thesis
  proof (cases "parse_config_key pp path")
    case (Inl e)
    with keys [of path] p Rc_revert have "configs b path = None" by (cases "configs b path") auto
    then have "agree (configs b) (rc_spec env ev (configs b))" by (auto simp: agree_def Rc_revert)
    with d Rc_revert Inl b keys show ?thesis by (auto simp: on_revert_def only_builder_def)
  next
    case (Inr k)
    then have fk: "full_key k = path" by (rule parsed_full_key)
    obtain r w where w: "inst_remove_config (le_api env) path (upd_waf_instance (rc_lib st)) = (r, w)"
      by (cases "inst_remove_config (le_api env) path (upd_waf_instance (rc_lib st))")
    obtain b' where b': "w = (upd_waf_instance (rc_lib st))\<lparr>wi_builder := Some b'\<rparr>"
      "configs b' = (configs b)(path := None)" "r = (configs b path \<noteq> None)"
      using inst_remove_configs [OF laws b w] by blast
    have st': "st' = snd (remove_config_rc env k st)"
      using d Rc_revert Inr by (simp add: on_revert_def config_on_revert_def)
    have "remove_waf_config env path (rc_lib st) = (r, (rc_lib st)\<lparr>upd_waf_instance := w\<rparr>)"
      using b w by (simp add: remove_waf_config_def live_def)
    with st' fk have "rc_lib st' = (rc_lib st)\<lparr>upd_waf_instance := w\<rparr>" "cfg_dirty st' = (cfg_dirty st \<or> r)"
      by simp_all
    with b' Rc_revert keys show ?thesis by (auto simp: only_builder_def agree_def fun_eq_iff)
  qed
qed


text \<open>Whatever an event reports, the library has only made steps of its own.\<close>

lemma deliver_steps:
  assumes "deliver env pp ev st = Rc_end e st'" and "event_path ev \<noteq> kBundledRuleset"
  shows "\<exists>ops. list_all path_free ops \<and> rc_lib st' = fold (lib_step env) ops (rc_lib st)"
proof (cases ev)
  case (Rc_update path content)
  have "rc_lib st' = rc_lib st \<or> (\<exists>v. rc_lib st' = lib_step env (Lib_update path v) (rc_lib st))"
  proof (cases "parse_config_key pp path")
    case (Inr k)
    then have "st' = snd (config_on_update env k content st)"
      using assms(1) Rc_update by (auto simp: on_update_def split: prod.splits)
    then show ?thesis using parsed_full_key [OF Inr] by (auto simp: config_on_update_lib split: option.splits)
  qed (use assms(1) Rc_update in \<open>auto simp: on_update_def\<close>)
  then show ?thesis
  proof
    assume "\<exists>v. rc_lib st' = lib_step env (Lib_update path v) (rc_lib st)"
    then obtain v where "rc_lib st' = lib_step env (Lib_update path v) (rc_lib st)" ..
    with assms(2) Rc_update show ?thesis by (intro exI [of _ "[Lib_update path v]"]) simp
  qed (intro exI [of _ "[]"], simp)
next
  case (Rc_revert path)
  have "rc_lib st' = rc_lib st \<or> rc_lib st' = lib_step env (Lib_remove path) (rc_lib st)"
    using assms(1) Rc_revert parsed_full_key [of pp path]
    by (auto simp: on_revert_def config_on_revert_def split: sum.splits)
  then show ?thesis
  proof
    assume "rc_lib st' = lib_step env (Lib_remove path) (rc_lib st)"
    then show ?thesis by (intro exI [of _ "[Lib_remove path]"]) simp
  qed (intro exI [of _ "[]"], simp)
qed

definition keys_ok :: "(bytes \<Rightarrow> product) \<Rightarrow> (bytes \<rightharpoonup> ddwaf_obj) \<Rightarrow> bool" where
  "keys_ok pp m \<longleftrightarrow> (\<forall>q. m q \<noteq> None \<longrightarrow> q \<noteq> kBundledRuleset \<longrightarrow> (\<exists>k. parse_config_key pp q = Inr k))"

lemma only_builder_trans: "only_builder l1 l2 \<Longrightarrow> only_builder l2 l3 \<Longrightarrow> only_builder l1 l3"
  by (simp add: only_builder_def)

lemma batch_applied:
  assumes laws: "builder_laws (le_api env) configs" and ok: "lib_ok env configs (rc_lib st)"
    and b: "wi_builder (upd_waf_instance (rc_lib st)) = Some b" and keys: "keys_ok pp (configs b)"
    and del: "list_all (delivered pp) evs" and none: "pp ''NONE'' \<notin> get_products AsmConfigListener"
    and run: "rc_batch env pp evs st = Some (es, st1)" and es: "set es \<subseteq> {None}"
  shows "lib_ok env configs (rc_lib st1) \<and> only_builder (rc_lib st) (rc_lib st1)
     \<and> (\<exists>b1. wi_builder (upd_waf_instance (rc_lib st1)) = Some b1 \<and> keys_ok pp (configs b1)
          \<and> agree (configs b1) (fold (rc_spec env) evs (configs b))
          \<and> (\<not> cfg_dirty st1 \<longrightarrow> \<not> cfg_dirty st \<and> configs b1 = configs b))"
  using ok b keys del run es
proof (induction evs arbitrary: st b es)
  case Nil
  then show ?case by (auto simp: only_builder_def agree_def)
next
  case (Cons ev evs)
  obtain e st' es' where d: "deliver env pp ev st = Rc_end e st'" and r: "rc_batch env pp evs st' = Some (es', st1)"
    and es': "es = e # es'"
    using Cons.prems(5) by (auto split: rc_result.splits option.splits)
  have e: "e = None" "set es' \<subseteq> {None}" using Cons.prems(6) es' by auto
  have p: "event_path ev \<noteq> kBundledRuleset" using delivered_not_bundled [of pp ev] Cons.prems(4) none by simp
  obtain b' where b': "wi_builder (upd_waf_instance (rc_lib st')) = Some b'" "only_builder (rc_lib st) (rc_lib st')"
    "agree (configs b') (rc_spec env ev (configs b))" "keys_ok pp (configs b')"
    "\<not> cfg_dirty st' \<longrightarrow> \<not> cfg_dirty st \<and> configs b' = configs b"
    using deliver_applied [OF laws Cons.prems(2) d [unfolded e(1)] p] Cons.prems(3) unfolding keys_ok_def by blast
  obtain ops where "list_all path_free ops" "rc_lib st' = fold (lib_step env) ops (rc_lib st)"
    using deliver_steps [OF d p] by blast
  then have ok': "lib_ok env configs (rc_lib st')" using lib_steps_ok [OF laws Cons.prems(1)] by simp
  have "list_all (delivered pp) evs" using Cons.prems(4) by simp
  from Cons.IH [OF ok' b'(1,4) this r e(2)] obtain b1 where
    ih: "lib_ok env configs (rc_lib st1)" "only_builder (rc_lib st') (rc_lib st1)"
    "wi_builder (upd_waf_instance (rc_lib st1)) = Some b1" "keys_ok pp (configs b1)"
    "agree (configs b1) (fold (rc_spec env) evs (configs b'))"
    "\<not> cfg_dirty st1 \<longrightarrow> \<not> cfg_dirty st' \<and> configs b1 = configs b'" by blast
  have "agree (configs b1) (fold (rc_spec env) (ev # evs) (configs b))"
    using agree_trans [OF ih(5) agree_fold_spec [OF b'(3)]] by simp
  with ih b' only_builder_trans [OF b'(2) ih(2)] show ?case by auto
qed

text \<open>
  C12. A batch of configurations in which every event is applied, and the end of the batch, implement the specification in
  which an update sets the configuration of its path and a revert removes it. When the WAF is rebuilt, the requests get
  from then on the handle built from exactly the configurations of the specification, with the bundled ruleset
  added when no ruleset is among them and left out otherwise; when the rebuild fails they keep the handle they had; and when the
  batch changes nothing, neither does its end. That libddwaf works as documented, and that the client delivers only keys of
  registered products, are hypotheses.
\<close>

theorem remote_batch_applied:
  assumes "builder_laws (le_api env) configs" and "lib_ok env configs (rc_lib st)"
    and "wi_builder (upd_waf_instance (rc_lib st)) = Some b" and "keys_ok pp (configs b)"
    and "list_all (delivered pp) evs" and "pp ''NONE'' \<notin> get_products AsmConfigListener"
    and "rc_batch env pp evs st = Some (es, st1)" and "set es \<subseteq> {None}"
    and "on_post_process env ConfigurationEndListener st1 = (e, st2)"
    and "m = fold (rc_spec env) evs (configs b)"
  shows "\<not> cfg_dirty st2 \<and> lib_active (rc_lib st2) = lib_active (rc_lib st) \<and>
    (if cfg_dirty st1 \<and> fst (regenerate_handle env (rc_lib st1)) = Inr True
     then \<exists>b2 h. wi_handle (upd_waf_instance (rc_lib st2)) = Some h \<and> builder_build (le_api env) b2 = Some h
            \<and> configs b2 = m(kBundledRuleset :=
                if asm_dd_loaded (m(kBundledRuleset := None)) then None else Some (default_ruleset (upd_waf_instance (rc_lib st))))
     else get_handle (rc_lib st2) = get_handle (rc_lib st) \<and> (\<not> cfg_dirty st1 \<longrightarrow> agree m (configs b)))"
proof -
  obtain b1 where ok1: "lib_ok env configs (rc_lib st1)" and same: "only_builder (rc_lib st) (rc_lib st1)"
    and b1: "wi_builder (upd_waf_instance (rc_lib st1)) = Some b1" and a: "agree (configs b1) m"
    and nd: "\<not> cfg_dirty st1 \<longrightarrow> configs b1 = configs b"
    using batch_applied [OF assms(1-8)] assms(10) by blast
  obtain r d w where u: "inst_update (le_api env) (upd_waf_instance (rc_lib st1)) = (r, d, w)"
    by (cases "inst_update (le_api env) (upd_waf_instance (rc_lib st1))")
  let ?lib2 = "(rc_lib st1)\<lparr>upd_waf_instance := w\<rparr>"
  have g: "snd (regenerate_handle env (rc_lib st1)) = ?lib2" "(fst (regenerate_handle env (rc_lib st1)) = Inr True) = r"
    using u b1 by (auto simp: regenerate_handle_def live_def Let_def split: sum.splits)
  have st2: "rc_lib st2 = (if cfg_dirty st1 then ?lib2 else rc_lib st1)" "\<not> cfg_dirty st2"
    using assms(9) g(1) by (auto simp: on_post_process_def configuration_end_def consume_status_def split: prod.splits sum.splits if_splits)
  have dflt: "default_ruleset (upd_waf_instance (rc_lib st1)) = default_ruleset (upd_waf_instance (rc_lib st))"
    using same by (simp add: only_builder_def)
  obtain b2 where b2: "agree (configs b2) (configs b1)" "asm_dd_loaded (configs b1) \<longrightarrow> b2 = b1"
    and h: "if r then wi_handle w \<noteq> None \<and> builder_build (le_api env) b2 = wi_handle w
              \<and> (\<not> asm_dd_loaded (configs b1) \<longrightarrow> configs b2 kBundledRuleset = Some (default_ruleset (upd_waf_instance (rc_lib st))))
         else wi_handle w = wi_handle (upd_waf_instance (rc_lib st1))"
    using inst_update_configs [OF assms(1) b1 u] unfolding agree_def dflt by blast
  have asm: "asm_dd_loaded (m(kBundledRuleset := None)) = asm_dd_loaded (configs b1)"
    by (rule asm_dd_loaded_cong) (use a in \<open>simp add: agree_def\<close>)
  have nb: "asm_dd_loaded (configs b1) \<Longrightarrow> configs b1 kBundledRuleset = None"
    using ok1 b1 by (auto simp: lib_ok_def instance_ok_def not_both_def)
  have act: "lib_active (rc_lib st2) = lib_active (rc_lib st)" using st2(1) same by (simp add: only_builder_def)
  show ?thesis
  proof (cases "cfg_dirty st1 \<and> r")
    case True
    then have "configs b2 = m(kBundledRuleset := if asm_dd_loaded (m(kBundledRuleset := None)) then None
        else Some (default_ruleset (upd_waf_instance (rc_lib st))))"
      unfolding asm using h b2 a nb by (auto simp: fun_eq_iff agree_def)
    moreover obtain x where "wi_handle w = Some x" "builder_build (le_api env) b2 = Some x" using h True by auto
    moreover have "wi_handle (upd_waf_instance (rc_lib st2)) = wi_handle w" using st2(1) True by simp
    ultimately show ?thesis using True st2(2) act g(2) by auto
  next
    case False
    have "wi_handle (upd_waf_instance (rc_lib st2)) = wi_handle (upd_waf_instance (rc_lib st))"
      using st2(1) False h same by (auto simp: only_builder_def)
    moreover have "\<not> cfg_dirty st1 \<longrightarrow> agree m (configs b)" using nd a by (auto simp: agree_def)
    ultimately show ?thesis using False st2(2) act g(2) by (auto simp: get_handle_def)
  qed
qed

definition sample_products :: "bytes \<Rightarrow> product" where
  "sample_products p =
     (if p = ''ASM'' then ASM else if p = ''ASM_DD'' then ASM_DD else if p = ''ASM_DATA'' then ASM_DATA
      else if p = ''ASM_FEATURES'' then ASM_FEATURES else UNKNOWN)"

definition sample_rc :: "((bytes \<times> ddwaf_obj) list, (bytes \<times> ddwaf_obj) list) rc_state" where
  "sample_rc = \<lparr>rc_lib = sample_lib, cfg_dirty = False, cfg_failed = False\<rparr>"

lemma sample_key:
  "parse_config_key sample_products ''datadog/2/ASM_DD/x/y'' =
     Inr \<lparr>full_key = ''datadog/2/ASM_DD/x/y'', key_source = ''datadog'', org_id = 2, key_product = ASM_DD, config_id = ''x'', key_name = ''y''\<rparr>"
proof -
  have "match_config_key ''datadog/2/ASM_DD/x/y'' = Some (Some ''2'', ''ASM_DD'', ''x'', ''y'')"
    by (simp add: match_config_key_def isdigit_def)
  then show ?thesis
    by (simp add: parse_config_key_def from_chars_unsigned_def isdigit_def digits_nat_def sample_products_def)
qed

definition sample_updated :: "((bytes \<times> ddwaf_obj) list, (bytes \<times> ddwaf_obj) list) rc_state" where
  "sample_updated = sample_rc\<lparr>cfg_dirty := True, rc_lib := sample_lib\<lparr>upd_waf_instance :=
     \<lparr>wi_builder = Some [(''datadog/2/ASM_DD/x/y'', Obj_map [])], default_ruleset = Obj_map [],
      wi_handle = Some [(kBundledRuleset, Obj_map [])]\<rparr>\<rparr>\<rparr>"

lemma sample_batch:
  "rc_batch sample_env sample_products [Rc_update ''datadog/2/ASM_DD/x/y'' ''{}''] sample_rc = Some ([None], sample_updated)"
proof -
  have c: "contains ''/ASM_DD/'' ''datadog/2/ASM_DD/x/y''" by (simp add: contains_def upt_rec)
  have "inst_add_or_update_config alist_api ''datadog/2/ASM_DD/x/y'' (Obj_map []) (upd_waf_instance sample_lib) =
      (True, [], upd_waf_instance (rc_lib sample_updated))"
    unfolding sample_instance inst_add_or_update_config_def
    using c by (simp add: has_bundled_data_def count_config_paths_def alist_api_def contains_self owned_remove_def
        owned_add_def sample_updated_def)
  then have "update_waf_config sample_env ''datadog/2/ASM_DD/x/y'' (Obj_map []) sample_lib =
      (Inr True, sample_lib\<lparr>upd_waf_instance := upd_waf_instance (rc_lib sample_updated)\<rparr>)"
    by (simp add: update_waf_config_def sample_env_def live_def sample_instance)
  moreover have "config_on_update sample_env k ''{}'' st = set_config_rc sample_env k (Obj_map []) st" for k st
    by (simp add: config_on_update_def sample_env_def to_owned_map_def json_to_object_def json_to_obj_impl.simps kConfigMaxDepth_def)
  ultimately show ?thesis
    by (simp add: on_update_def sample_key set_config_rc_def sample_rc_def sample_updated_def)
qed

theorem remote_batch_applied_witness:
  "\<exists>st2. on_post_process sample_env ConfigurationEndListener sample_updated = (None, st2)
     \<and> rc_batch sample_env sample_products [Rc_update ''datadog/2/ASM_DD/x/y'' ''{}''] sample_rc = Some ([None], sample_updated)
     \<and> (\<exists>h. wi_handle (upd_waf_instance (rc_lib st2)) = Some h \<and> map_of h = [''datadog/2/ASM_DD/x/y'' \<mapsto> Obj_map []])"
proof -
  let ?p = "''datadog/2/ASM_DD/x/y''"
  let ?m = "fold (rc_spec sample_env) [Rc_update ?p ''{}''] (map_of [(kBundledRuleset, Obj_map [])])"
  have ok: "lib_ok sample_env map_of (rc_lib sample_rc)"
    using initialize_ok [OF _ sample_initialized, of map_of] alist_builder_laws by (simp add: sample_rc_def sample_env_def)
  have c: "contains ''/ASM_DD/'' ?p" by (simp add: contains_def upt_rec)
  have u: "inst_update alist_api (upd_waf_instance (rc_lib sample_updated)) =
      (True, [], (upd_waf_instance (rc_lib sample_updated))\<lparr>wi_handle := Some [(?p, Obj_map [])]\<rparr>)"
    using c by (simp add: inst_update_def sample_updated_def count_config_paths_def alist_api_def build_instance_def)
  have g: "regenerate_handle sample_env (rc_lib sample_updated) = (Inr True, (rc_lib sample_updated)\<lparr>upd_waf_instance :=
      (upd_waf_instance (rc_lib sample_updated))\<lparr>wi_handle := Some [(?p, Obj_map [])]\<rparr>\<rparr>)"
    using u by (simp add: regenerate_handle_def live_def sample_env_def sample_updated_def)
  obtain st2 where st2: "on_post_process sample_env ConfigurationEndListener sample_updated = (None, st2)"
    using g by (auto simp: on_post_process_def configuration_end_def consume_status_def sample_updated_def)
  have m: "?m = [kBundledRuleset \<mapsto> Obj_map [], ?p \<mapsto> Obj_map []]"
    by (simp add: config_of_def sample_env_def to_owned_map_def json_to_object_def json_to_obj_impl.simps kConfigMaxDepth_def)
  have pk: "?p \<noteq> kBundledRuleset" by (simp add: kBundledRuleset_def)
  have asm: "asm_dd_loaded (?m(kBundledRuleset := None))"
    unfolding asm_dd_loaded_def m using c pk by (intro exI [of _ ?p]) simp
  have "\<exists>b2 h. wi_handle (upd_waf_instance (rc_lib st2)) = Some h \<and> builder_build (le_api sample_env) b2 = Some h
      \<and> map_of b2 = ?m(kBundledRuleset := if asm_dd_loaded (?m(kBundledRuleset := None)) then None
          else Some (default_ruleset (upd_waf_instance (rc_lib sample_rc))))"
    using remote_batch_applied [of sample_env map_of sample_rc "[(kBundledRuleset, Obj_map [])]" sample_products, OF _ ok _ _ _ _ sample_batch _ st2 refl]
      g by (simp add: sample_env_def alist_builder_laws sample_rc_def sample_instance keys_ok_def delivered_def sample_key
          sample_products_def sample_updated_def)
  then obtain h where "wi_handle (upd_waf_instance (rc_lib st2)) = Some h" "map_of h = ?m(kBundledRuleset := None)"
    using asm by (auto simp: sample_env_def alist_api_def)
  moreover have "?m(kBundledRuleset := None) = [?p \<mapsto> Obj_map []]" unfolding m using pk by (auto simp: fun_eq_iff)
  ultimately show ?thesis using st2 sample_batch by auto
qed


section \<open>Activation and subscription\<close>

text \<open>
  The activation switch: an update of the activation configuration makes the library active exactly when it says so with a
  boolean, inactive when it says nothing, and fails an assertion when the value is not a boolean; text that is not JSON is
  reported and changes nothing; a revert makes the library inactive; other configurations are ignored.
\<close>

lemma features_update_switch:
  assumes "parse_config_key pp path = Inr k" and "config_id k = ''asm_features_activation''"
  shows "on_update env pp AsmFeaturesListener path content st =
     (case json_parse env (c_string content) of
        None \<Rightarrow> Rc_end (Some Runtime_error) st
      | Some doc \<Rightarrow>
          (case pointer_get doc [''asm'', ''enabled''] of
             None \<Rightarrow> Rc_end None (st\<lparr>rc_lib := set_active False (rc_lib st)\<rparr>)
           | Some (JBool b) \<Rightarrow> Rc_end None (st\<lparr>rc_lib := set_active b (rc_lib st)\<rparr>)
           | Some _ \<Rightarrow> Rc_assertion))"
proof -
  have id: "st\<lparr>rc_lib := set_active v (rc_lib st)\<rparr> = st" if "v = lib_active (rc_lib st)" for v
    using that by (simp add: set_active_def)
  show ?thesis using assms
    by (auto simp: on_update_def features_on_update_def asm_enabled_def id split: option.splits json.splits)
qed

lemma features_revert_switch:
  assumes "parse_config_key pp path = Inr k" and "config_id k = ''asm_features_activation''"
    and "json_parse env ''{}'' = Some (JObject [])"
  shows "on_revert env pp AsmFeaturesListener path st = Rc_end None (st\<lparr>rc_lib := set_active False (rc_lib st)\<rparr>)"
proof -
  have "c_string ''{}'' = ''{}''" by (simp add: c_string_def)
  then show ?thesis using assms by (auto simp: on_revert_def features_on_revert_def features_on_update_def asm_enabled_def set_active_def)
qed

text \<open>
  What the client of dd-trace-cpp may do with the listeners it was given: call any of them, with any path and
  content, any number of times, and in any order.
\<close>

inductive rc_call ::
  "('b, 'h) lib_env \<Rightarrow> (bytes \<Rightarrow> product) \<Rightarrow> listener list \<Rightarrow> ('b, 'h) rc_state \<Rightarrow> ('b, 'h) rc_state \<Rightarrow> bool" for env pp ls where
  Call_update: "l \<in> set ls \<Longrightarrow> on_update env pp l path content st = Rc_end e st' \<Longrightarrow> rc_call env pp ls st st'"
| Call_revert: "l \<in> set ls \<Longrightarrow> on_revert env pp l path st = Rc_end e st' \<Longrightarrow> rc_call env pp ls st st'"
| Call_end: "l \<in> set ls \<Longrightarrow> on_post_process env l st = (e, st') \<Longrightarrow> rc_call env pp ls st st'"

abbreviation rc_calls where "rc_calls env pp ls \<equiv> (rc_call env pp ls)\<^sup>*\<^sup>*"

lemma library_keeps_active [simp]:
  "lib_active (snd (update_waf_config env path v lib)) = lib_active lib"
  "lib_active (snd (remove_waf_config env path lib)) = lib_active lib"
  "lib_active (snd (regenerate_handle env lib)) = lib_active lib"
  by (auto simp: update_waf_config_def remove_waf_config_def regenerate_handle_def Let_def split: prod.splits sum.splits)

lemma configuration_end_lib:
  "rc_lib (snd (configuration_end env st)) = (if cfg_dirty st then snd (regenerate_handle env (rc_lib st)) else rc_lib st)"
  by (auto simp: configuration_end_def consume_status_def split: prod.splits sum.splits)

lemma config_on_update_active:
  "config_on_update env k content st = (e, st') \<Longrightarrow> lib_active (rc_lib st') = lib_active (rc_lib st)"
  using config_on_update_lib [of env k content st] by (auto split: option.splits)

text \<open>Only the features listener changes the activation, and only the other two change the WAF.\<close>

lemma rc_call_keeps_active:
  assumes "rc_call env pp ls st st'" and "AsmFeaturesListener \<notin> set ls"
  shows "lib_active (rc_lib st') = lib_active (rc_lib st)"
  using assms
proof (cases rule: rc_call.cases)
  case (Call_update l path content e)
  have "l \<noteq> AsmFeaturesListener" using Call_update(1) assms(2) by metis
  then have "l = AsmConfigListener \<or> l = ConfigurationEndListener" by (metis listener.exhaust)
  with Call_update(2) show ?thesis
    by (auto simp: on_update_def config_on_update_active split: sum.splits prod.splits)
next
  case (Call_revert l path e)
  have "l \<noteq> AsmFeaturesListener" using Call_revert(1) assms(2) by metis
  then have "l = AsmConfigListener \<or> l = ConfigurationEndListener" by (metis listener.exhaust)
  with Call_revert(2) show ?thesis
    by (auto simp: on_revert_def config_on_revert_def split: sum.splits)
next
  case (Call_end l e)
  then show ?thesis
    using configuration_end_lib [of env st] by (auto simp: on_post_process_def split: if_splits)
qed

lemma rc_call_keeps_waf:
  assumes "rc_call env pp ls st st'" and "set ls \<subseteq> {AsmFeaturesListener}"
  shows "upd_waf_instance (rc_lib st') = upd_waf_instance (rc_lib st)"
  using assms
  by (cases rule: rc_call.cases)
    (auto simp: on_update_def on_revert_def on_post_process_def features_on_update_def features_on_revert_def set_active_def
      split: sum.splits option.splits if_splits rc_result.splits)

lemma rc_calls_keep:
  assumes "rc_calls env pp ls st st'" and "\<And>a b. rc_call env pp ls a b \<Longrightarrow> f b = f a"
  shows "f st' = f st"
  using assms(1) by induction (simp_all add: assms(2))

lemma subscribed:
  "AsmFeaturesListener \<in> set (subscribe_waf conf inst []) \<longleftrightarrow> inst \<and> appsec_enabled conf = NGX_CONF_UNSET"
  "AsmConfigListener \<in> set (subscribe_waf conf inst []) \<longleftrightarrow> inst \<and> appsec_enabled conf \<noteq> 0 \<and> appsec_ruleset_file conf = []"
  "ConfigurationEndListener \<in> set (subscribe_waf conf inst []) \<longleftrightarrow> AsmConfigListener \<in> set (subscribe_waf conf inst [])"
  by (auto simp: subscribe_waf_def register_with_remote_cfg_def subscribe_to_remote_config_def NGX_CONF_UNSET_def)

lemma no_listeners: "subscribe_waf conf inst [] = [] \<Longrightarrow> rc_calls env pp (subscribe_waf conf inst []) st st' \<Longrightarrow> st' = st"
  by (erule converse_rtranclpE) (auto elim: rc_call.cases)

text \<open>
  C17. How far remote configuration reaches, whatever calls the client makes of the listeners that were subscribed. With the
  directive for the activation, on or off, the library stays as active as it was; with the directive for the ruleset the WAF stays
  the one it was; and when the library is switched off by the directive, or there is no configuration service, nothing
  changes. The environment has no such effect: the subscription is the same for all environment variables. A library that is
  enabled by \<^verbatim>\<open>DD_APPSEC_ENABLED\<close>, with no directive, can at any time be switched off by reverting an activation; and the
  ruleset file of \<^verbatim>\<open>DD_APPSEC_RULES\<close>, with no directive, leaves the listener for remote rulesets subscribed.
\<close>

theorem remote_config_scope:
  assumes "rc_calls env pp (subscribe_waf conf inst []) st st'"
  shows "(appsec_enabled conf \<noteq> NGX_CONF_UNSET \<longrightarrow> lib_active (rc_lib st') = lib_active (rc_lib st))
    \<and> (appsec_ruleset_file conf \<noteq> [] \<longrightarrow> upd_waf_instance (rc_lib st') = upd_waf_instance (rc_lib st))
    \<and> (appsec_enabled conf = 0 \<or> \<not> inst \<longrightarrow> st' = st)
    \<and> subscribe_waf (conf\<lparr>environment_variables := evs\<rparr>) inst [] = subscribe_waf conf inst []
    \<and> (inst \<and> appsec_enabled conf = NGX_CONF_UNSET \<and> get_env_bool (environment_variables conf) ''DD_APPSEC_ENABLED'' = Some True
        \<and> json_parse env ''{}'' = Some (JObject []) \<and> parse_config_key pp path = Inr k \<and> config_id k = ''asm_features_activation''
       \<longrightarrow> s_status (finalize_settings ipe conf) = ENABLED
         \<and> (\<exists>st''. rc_calls env pp (subscribe_waf conf inst []) st' st'' \<and> get_handle (rc_lib st'') = None))
    \<and> (inst \<and> appsec_enabled conf \<noteq> 0 \<and> appsec_ruleset_file conf = []
        \<and> get_env_str (environment_variables conf) ''DD_APPSEC_RULES'' = Some file
       \<longrightarrow> s_ruleset_file (finalize_settings ipe conf) = file \<and> AsmConfigListener \<in> set (subscribe_waf conf inst []))"
proof (intro conjI impI)
  let ?ls = "subscribe_waf conf inst []"
  show "lib_active (rc_lib st') = lib_active (rc_lib st)" if "appsec_enabled conf \<noteq> NGX_CONF_UNSET"
    using rc_calls_keep [OF assms, of "\<lambda>x. lib_active (rc_lib x)"] rc_call_keeps_active [of env pp ?ls] that by (simp add: subscribed)
  show "upd_waf_instance (rc_lib st') = upd_waf_instance (rc_lib st)" if r: "appsec_ruleset_file conf \<noteq> []"
  proof (rule rc_calls_keep [OF assms])
    fix a b assume c: "rc_call env pp ?ls a b"
    have "set ?ls \<subseteq> {AsmFeaturesListener}"
      by (metis (full_types) subscribed(2,3) r listener.exhaust insertI1 subsetI)
    from rc_call_keeps_waf [OF c this] show "upd_waf_instance (rc_lib b) = upd_waf_instance (rc_lib a)" .
  qed
  show "st' = st" if "appsec_enabled conf = 0 \<or> \<not> inst"
    using that assms by (intro no_listeners) (auto simp: subscribe_waf_def register_with_remote_cfg_def)
  show "subscribe_waf (conf\<lparr>environment_variables := evs\<rparr>) inst [] = ?ls" by (simp add: subscribe_waf_def)
next
  let ?ls = "subscribe_waf conf inst []"
  assume a: "inst \<and> appsec_enabled conf = NGX_CONF_UNSET \<and> get_env_bool (environment_variables conf) ''DD_APPSEC_ENABLED'' = Some True
      \<and> json_parse env ''{}'' = Some (JObject []) \<and> parse_config_key pp path = Inr k \<and> config_id k = ''asm_features_activation''"
  then show "s_status (finalize_settings ipe conf) = ENABLED" by (simp add: finalize_settings_def finalize_status_def Let_def)
  have "rc_call env pp ?ls st' (st'\<lparr>rc_lib := set_active False (rc_lib st')\<rparr>)"
    using features_revert_switch [of pp path k env st'] a by (intro Call_revert [of AsmFeaturesListener]) (simp_all add: subscribed)
  then show "\<exists>st''. rc_calls env pp ?ls st' st'' \<and> get_handle (rc_lib st'') = None"
    by (intro exI [of _ "st'\<lparr>rc_lib := set_active False (rc_lib st')\<rparr>"] conjI r_into_rtranclp)
      (simp_all add: get_handle_def set_active_def)
next
  assume a: "inst \<and> appsec_enabled conf \<noteq> 0 \<and> appsec_ruleset_file conf = []
      \<and> get_env_str (environment_variables conf) ''DD_APPSEC_RULES'' = Some file"
  then show "s_ruleset_file (finalize_settings ipe conf) = file" by (simp add: finalize_settings_def text_setting_def Let_def)
  from a show "AsmConfigListener \<in> set (subscribe_waf conf inst [])" by (simp add: subscribed)
qed

definition environment_conf :: appsec_conf where
  "environment_conf = default_conf\<lparr>environment_variables := [\<lparr>ev_name = ''DD_APPSEC_ENABLED'', ev_value = ''on''\<rparr>]\<rparr>"

text \<open>Witness: only \<^verbatim>\<open>DD_APPSEC_ENABLED\<close> is set; reverting the activation switches the library off.\<close>

theorem remote_config_scope_witness:
  "s_status (finalize_settings localhost_env environment_conf) = ENABLED
   \<and> (\<exists>st'. rc_calls sample_env sample_products (subscribe_waf environment_conf True []) sample_rc st' \<and> get_handle (rc_lib st') = None)"
proof -
  let ?p = "''employee/ASM_FEATURES/asm_features_activation/x''"
  have "match_config_key ?p = Some (None, ''ASM_FEATURES'', ''asm_features_activation'', ''x'')"
    by (simp add: match_config_key_def)
  then obtain k where k: "parse_config_key sample_products ?p = Inr k" "config_id k = ''asm_features_activation''"
    by (simp add: parse_config_key_def)
  show ?thesis
    using remote_config_scope [of sample_env sample_products environment_conf True sample_rc sample_rc "[]" ?p k localhost_env "[]"] k
    by (simp add: environment_conf_def default_conf_def sample_env_def get_env_bool_def)
qed

end
