(* ===== verification/Module_Conf.thy ===== *)
theory Module_Conf
  imports Directives Rum_Config Remote_Config "HOL-Library.Multiset"
begin

text \<open>
  The module's configuration and start-up: the merging of a location's settings into those of the blocks around it
  (\<^verbatim>\<open>merge_datadog_loc_conf\<close> in \<^verbatim>\<open>src/ngx_http_datadog_module.cpp\<close>), the configuration of the tracer
  (\<^verbatim>\<open>make_tracer\<close> in \<^verbatim>\<open>src/tracing_library.cpp\<close>), and what the master and the workers do when they start. The
  settings are given by a block or not (\<^const>\<open>None\<close> is \<^verbatim>\<open>NGX_CONF_UNSET\<close>); a script is its text, and the inner
  \<^const>\<open>None\<close> is a null pointer. The tracer itself and \<^verbatim>\<open>finalize_config\<close> are in dd-trace-cpp and parameters.
\<close>

section \<open>Inherited settings\<close>

text \<open>
  What merging promises for one setting: its own value, else the one of the block around it, else a default. The
  setting of a location is then that of the nearest block that has one.
\<close>

fun nearest :: "'v option list \<Rightarrow> 'v option" where
  "nearest [] = None"
| "nearest (x # xs) = (case nearest xs of Some v \<Rightarrow> Some v | None \<Rightarrow> x)"

locale inherited =
  fixes merge :: "'c \<Rightarrow> 'c \<Rightarrow> 'c"
    and setting :: "'c \<Rightarrow> 'v option"
    and dflt :: 'v
  assumes merge_setting:
    "setting (merge prev conf) = Some (case setting conf of Some v \<Rightarrow> v | None \<Rightarrow> (case setting prev of Some v \<Rightarrow> v | None \<Rightarrow> dflt))"
begin

lemma merged_nearest:
  assumes "cs \<noteq> []"
  shows "setting (foldl merge c0 cs) = Some (case nearest (map setting (c0 # cs)) of Some v \<Rightarrow> v | None \<Rightarrow> dflt)"
  using assms
proof (induction cs arbitrary: c0)
  case (Cons c cs)
  show ?case
  proof (cases cs)
    case Nil
    then show ?thesis by (simp add: merge_setting split: option.splits)
  next
    case (Cons c' cs')
    then have "setting (foldl merge c0 (c # cs)) =
        Some (case nearest (map setting (merge c0 c # cs)) of Some v \<Rightarrow> v | None \<Rightarrow> dflt)"
      using Cons.IH [of "merge c0 c"] by simp
    then show ?thesis by (auto simp: merge_setting split: option.splits)
  qed
qed simp

end

section \<open>The configuration of a block\<close>

record loc_conf =
  lc_enable_tracing :: "bool option"
  lc_enable_locations :: "bool option"
  lc_baggage_enabled :: "bool option"
  lc_trust_incoming_span :: "bool option"
  lc_service_name :: "bytes option option"
  lc_service_env :: "bytes option option"
  lc_service_version :: "bytes option option"
  lc_operation_name :: "bytes option option"
  lc_loc_operation_name :: "bytes option option"
  lc_resource_name :: "bytes option option"
  lc_loc_resource_name :: "bytes option option"
  lc_tags :: "(bytes \<times> bytes) list"
  lc_baggage :: baggage_tags
  lc_ancestor_rates :: "sample_rate list list"
  lc_sample_rates :: "sample_rate list"
  lc_depth :: nat
  lc_waf_pool :: "nat option"
  lc_rum :: rum_loc

definition tracing_on_by_default :: bool where "tracing_on_by_default = True"
definition trace_locations_by_default :: bool where "trace_locations_by_default = False"
definition bagage_span_tags_by_default :: bool where "bagage_span_tags_by_default = True"
definition default_request_operation_name_pattern :: bytes where "default_request_operation_name_pattern = ''nginx.request''"
definition default_location_operation_name_pattern :: bytes where "default_location_operation_name_pattern = ''nginx.location''"
definition default_resource_name_pattern :: bytes where "default_resource_name_pattern = ''$request_method $uri''"
definition default_baggage_span_tags :: "bytes list" where "default_baggage_span_tags = [''user.id'', ''session.id'', ''account.id'']"

definition default_tags :: "(bytes \<times> bytes) list" where
  "default_tags =
     [(''component'', ''nginx''), (''nginx.worker_pid'', ''$pid''), (''peer.address'', ''$remote_addr:$remote_port''),
      (''upstream.address'', ''$upstream_addr''), (''http.method'', ''$request_method''),
      (''http.url'', ''$scheme://$http_host$request_uri''), (''http.host'', ''$http_host''),
      (''http.useragent'', ''$http_user_agent''), (''nginx.location'', ''$datadog_location'')]"

text \<open>\<^verbatim>\<open>ngx_conf_merge_value\<close> and \<^verbatim>\<open>ngx_conf_merge_ptr_value\<close>.\<close>

definition merge_value :: "'v option \<Rightarrow> 'v option \<Rightarrow> 'v \<Rightarrow> 'v option" where
  "merge_value conf prev dflt = Some (case conf of Some v \<Rightarrow> v | None \<Rightarrow> (case prev of Some v \<Rightarrow> v | None \<Rightarrow> dflt))"

text \<open>\<open>compile\<close> is whether the script of a pattern can be made; \<^verbatim>\<open>make_complex_value\<close> gives a null pointer when not.\<close>

definition make_complex_value :: "(bytes \<Rightarrow> bool) \<Rightarrow> bytes \<Rightarrow> bytes option" where
  "make_complex_value compile p = (if compile p then Some p else None)"

text \<open>\<^verbatim>\<open>unordered_map::merge\<close> takes over the entries whose name is not there.\<close>

definition merge_tags :: "(bytes \<times> bytes) list \<Rightarrow> (bytes \<times> bytes) list \<Rightarrow> (bytes \<times> bytes) list" where
  "merge_tags conf prev = conf @ filter (\<lambda>e. fst e \<notin> fst ` set conf) prev"

definition merge_baggage :: "baggage_tags \<Rightarrow> baggage_tags \<Rightarrow> baggage_tags" where
  "merge_baggage conf prev =
     (if conf = Baggage_names [] then
        (if prev = Baggage_names [] then Baggage_names default_baggage_span_tags else prev)
      else conf)"

definition merge_datadog_loc_conf ::
  "(bytes \<Rightarrow> bool) \<Rightarrow> snippet_result \<Rightarrow> bytes option \<Rightarrow> loc_conf \<Rightarrow> loc_conf \<Rightarrow> loc_conf" where
  "merge_datadog_loc_conf compile scfg rum_env prev conf =
     \<lparr>lc_enable_tracing = merge_value (lc_enable_tracing conf) (lc_enable_tracing prev) tracing_on_by_default,
      lc_enable_locations = merge_value (lc_enable_locations conf) (lc_enable_locations prev) trace_locations_by_default,
      lc_baggage_enabled = merge_value (lc_baggage_enabled conf) (lc_baggage_enabled prev) bagage_span_tags_by_default,
      lc_trust_incoming_span = merge_value (lc_trust_incoming_span conf) (lc_trust_incoming_span prev) True,
      lc_service_name = merge_value (lc_service_name conf) (lc_service_name prev) None,
      lc_service_env = merge_value (lc_service_env conf) (lc_service_env prev) None,
      lc_service_version = merge_value (lc_service_version conf) (lc_service_version prev) None,
      lc_operation_name = merge_value (lc_operation_name conf) (lc_operation_name prev)
        (make_complex_value compile default_request_operation_name_pattern),
      lc_loc_operation_name = merge_value (lc_loc_operation_name conf) (lc_loc_operation_name prev)
        (make_complex_value compile default_location_operation_name_pattern),
      lc_resource_name = merge_value (lc_resource_name conf) (lc_resource_name prev)
        (make_complex_value compile default_resource_name_pattern),
      lc_loc_resource_name = merge_value (lc_loc_resource_name conf) (lc_loc_resource_name prev)
        (make_complex_value compile default_resource_name_pattern),
      lc_tags = (if lc_tags prev \<noteq> [] then merge_tags (lc_tags conf) (lc_tags prev) else lc_tags conf),
      lc_baggage = merge_baggage (lc_baggage conf) (lc_baggage prev),
      lc_ancestor_rates = lc_sample_rates prev # lc_ancestor_rates prev,
      lc_sample_rates = lc_sample_rates conf,
      lc_depth = lc_depth prev + 1,
      lc_waf_pool = (if lc_waf_pool conf = None then lc_waf_pool prev else lc_waf_pool conf),
      lc_rum = datadog_rum_merge_loc_config scfg rum_env (lc_rum prev) (lc_rum conf)\<rparr>"

interpretation m_tracing: inherited "merge_datadog_loc_conf compile scfg rum_env" lc_enable_tracing tracing_on_by_default
  for compile scfg rum_env by unfold_locales (simp add: merge_datadog_loc_conf_def merge_value_def)

interpretation m_locations: inherited "merge_datadog_loc_conf compile scfg rum_env" lc_enable_locations trace_locations_by_default
  for compile scfg rum_env by unfold_locales (simp add: merge_datadog_loc_conf_def merge_value_def)

interpretation m_baggage: inherited "merge_datadog_loc_conf compile scfg rum_env" lc_baggage_enabled bagage_span_tags_by_default
  for compile scfg rum_env by unfold_locales (simp add: merge_datadog_loc_conf_def merge_value_def)

interpretation m_trust: inherited "merge_datadog_loc_conf compile scfg rum_env" lc_trust_incoming_span True
  for compile scfg rum_env by unfold_locales (simp add: merge_datadog_loc_conf_def merge_value_def)

interpretation m_service: inherited "merge_datadog_loc_conf compile scfg rum_env" lc_service_name None
  for compile scfg rum_env by unfold_locales (simp add: merge_datadog_loc_conf_def merge_value_def)

interpretation m_operation: inherited "merge_datadog_loc_conf compile scfg rum_env" lc_operation_name
    "make_complex_value compile default_request_operation_name_pattern"
  for compile scfg rum_env by unfold_locales (simp add: merge_datadog_loc_conf_def merge_value_def)

interpretation m_resource: inherited "merge_datadog_loc_conf compile scfg rum_env" lc_resource_name
    "make_complex_value compile default_resource_name_pattern"
  for compile scfg rum_env by unfold_locales (simp add: merge_datadog_loc_conf_def merge_value_def)

text \<open>The baggage tags are inherited like the other settings, an empty selection being none.\<close>

definition baggage_setting :: "loc_conf \<Rightarrow> baggage_tags option" where
  "baggage_setting lc = (if lc_baggage lc = Baggage_names [] then None else Some (lc_baggage lc))"

interpretation m_keys: inherited "merge_datadog_loc_conf compile scfg rum_env" baggage_setting "Baggage_names default_baggage_span_tags"
  for compile scfg rum_env
  by unfold_locales (simp add: merge_datadog_loc_conf_def merge_baggage_def baggage_setting_def default_baggage_span_tags_def)

lemma map_of_merge_tags: "map_of (merge_tags conf prev) k = (case map_of conf k of Some v \<Rightarrow> Some v | None \<Rightarrow> map_of prev k)"
proof (cases "k \<in> fst ` set conf")
  case True
  then obtain v where "map_of conf k = Some v" by (metis map_of_eq_None_iff not_None_eq)
  then show ?thesis by (simp add: merge_tags_def map_add_def)
next
  case False
  then have "map_of (filter (\<lambda>e. fst e \<notin> fst ` set conf) prev) k = map_of prev k"
    by (induction prev) auto
  moreover have "map_of conf k = None" using False by (simp add: map_of_eq_None_iff)
  ultimately show ?thesis by (simp add: merge_tags_def map_add_def split: option.splits)
qed

lemma merged_tags:
  "map_of (lc_tags (foldl (merge_datadog_loc_conf compile scfg rum_env) c0 cs)) k = nearest (map (\<lambda>c. map_of (lc_tags c) k) (c0 # cs))"
proof (induction cs arbitrary: c0)
  case (Cons c cs)
  have "map_of (lc_tags (merge_datadog_loc_conf compile scfg rum_env c0 c)) k =
      (case map_of (lc_tags c) k of Some v \<Rightarrow> Some v | None \<Rightarrow> map_of (lc_tags c0) k)"
    by (auto simp: merge_datadog_loc_conf_def map_of_merge_tags split: option.splits)
  then show ?case using Cons [of "merge_datadog_loc_conf compile scfg rum_env c0 c"] by (auto split: option.splits)
qed simp

lemma merged_chain:
  "lc_depth (foldl (merge_datadog_loc_conf compile scfg rum_env) c0 cs) = lc_depth c0 + length cs"
  "lc_sample_rates (foldl (merge_datadog_loc_conf compile scfg rum_env) c0 cs)
     # lc_ancestor_rates (foldl (merge_datadog_loc_conf compile scfg rum_env) c0 cs)
   = rev (map lc_sample_rates cs) @ lc_sample_rates c0 # lc_ancestor_rates c0"
proof -
  have "lc_depth (foldl (merge_datadog_loc_conf compile scfg rum_env) c0 cs) = lc_depth c0 + length cs
      \<and> lc_sample_rates (foldl (merge_datadog_loc_conf compile scfg rum_env) c0 cs)
          # lc_ancestor_rates (foldl (merge_datadog_loc_conf compile scfg rum_env) c0 cs)
        = rev (map lc_sample_rates cs) @ lc_sample_rates c0 # lc_ancestor_rates c0"
    by (induction cs arbitrary: c0) (simp_all add: merge_datadog_loc_conf_def)
  then show "lc_depth (foldl (merge_datadog_loc_conf compile scfg rum_env) c0 cs) = lc_depth c0 + length cs"
    "lc_sample_rates (foldl (merge_datadog_loc_conf compile scfg rum_env) c0 cs)
     # lc_ancestor_rates (foldl (merge_datadog_loc_conf compile scfg rum_env) c0 cs)
   = rev (map lc_sample_rates cs) @ lc_sample_rates c0 # lc_ancestor_rates c0" by auto
qed

text \<open>
  C14. What a location inherits. For the blocks around a location, from the outermost in, each merged into the one before: whether
  it is traced, its operation name and its baggage tags are those of the nearest block that sets them, and
  the defaults when none does; of a tag the nearest block's value is kept, also when outer blocks set the same tag; its depth is the
  number of blocks around it; and the sampling directives that apply are its own, then those of the blocks
  around it going outwards.
\<close>

theorem location_inherits:
  assumes "cs \<noteq> []" and "lc = foldl (merge_datadog_loc_conf compile scfg rum_env) c0 cs" and "lc_depth c0 = 0" and "lc_ancestor_rates c0 = []"
  shows "lc_enable_tracing lc = Some (case nearest (map lc_enable_tracing (c0 # cs)) of Some v \<Rightarrow> v | None \<Rightarrow> True)
     \<and> lc_operation_name lc = Some (case nearest (map lc_operation_name (c0 # cs)) of Some v \<Rightarrow> v
          | None \<Rightarrow> make_complex_value compile ''nginx.request'')
     \<and> baggage_setting lc = Some (case nearest (map baggage_setting (c0 # cs)) of Some v \<Rightarrow> v
          | None \<Rightarrow> Baggage_names [''user.id'', ''session.id'', ''account.id''])
     \<and> map_of (lc_tags lc) k = nearest (map (\<lambda>c. map_of (lc_tags c) k) (c0 # cs))
     \<and> lc_depth lc = length cs
     \<and> lc_sample_rates lc # lc_ancestor_rates lc = rev (map lc_sample_rates (c0 # cs))"
proof (intro conjI)
  show "lc_enable_tracing lc = Some (case nearest (map lc_enable_tracing (c0 # cs)) of Some v \<Rightarrow> v | None \<Rightarrow> True)"
    using m_tracing.merged_nearest [OF assms(1), of compile scfg rum_env c0] unfolding assms(2) tracing_on_by_default_def .
  show "lc_operation_name lc = Some (case nearest (map lc_operation_name (c0 # cs)) of Some v \<Rightarrow> v
          | None \<Rightarrow> make_complex_value compile ''nginx.request'')"
    using m_operation.merged_nearest [OF assms(1), of compile scfg rum_env c0]
    unfolding assms(2) default_request_operation_name_pattern_def .
  show "baggage_setting lc = Some (case nearest (map baggage_setting (c0 # cs)) of Some v \<Rightarrow> v
          | None \<Rightarrow> Baggage_names [''user.id'', ''session.id'', ''account.id''])"
    using m_keys.merged_nearest [OF assms(1), of compile scfg rum_env c0] unfolding assms(2) default_baggage_span_tags_def .
  show "map_of (lc_tags lc) k = nearest (map (\<lambda>c. map_of (lc_tags c) k) (c0 # cs))" unfolding assms(2) by (rule merged_tags)
  show "lc_depth lc = length cs" using merged_chain(1) [of compile scfg rum_env c0 cs] assms(3) by (simp add: assms(2))
  show "lc_sample_rates lc # lc_ancestor_rates lc = rev (map lc_sample_rates (c0 # cs))"
    using merged_chain(2) [of compile scfg rum_env c0 cs] assms(4) by (simp add: assms(2))
qed


definition unset_conf :: loc_conf where
  "unset_conf =
     \<lparr>lc_enable_tracing = None, lc_enable_locations = None, lc_baggage_enabled = None, lc_trust_incoming_span = None,
      lc_service_name = None, lc_service_env = None, lc_service_version = None, lc_operation_name = None,
      lc_loc_operation_name = None, lc_resource_name = None, lc_loc_resource_name = None, lc_tags = [],
      lc_baggage = Baggage_names [], lc_ancestor_rates = [], lc_sample_rates = [], lc_depth = 0, lc_waf_pool = None,
      lc_rum = \<lparr>rl_enable = None, rl_snippet = None, rl_application_id_tag = [], rl_remote_config_tag = []\<rparr>\<rparr>"

theorem location_inherits_witness:
  "\<exists>lc. lc = foldl (merge_datadog_loc_conf (\<lambda>p. True) No_snippet None)
        (unset_conf\<lparr>lc_tags := [(''a'', ''1''), (''b'', ''2'')], lc_enable_tracing := Some False\<rparr>)
        [unset_conf\<lparr>lc_tags := [(''a'', ''3'')]\<rparr>, unset_conf]
     \<and> lc_enable_tracing lc = Some False \<and> map_of (lc_tags lc) ''a'' = Some ''3'' \<and> lc_depth lc = 2"
proof -
  let ?c0 = "unset_conf\<lparr>lc_tags := [(''a'', ''1''), (''b'', ''2'')], lc_enable_tracing := Some False\<rparr>"
  let ?cs = "[unset_conf\<lparr>lc_tags := [(''a'', ''3'')]\<rparr>, unset_conf]"
  show ?thesis
    using location_inherits [of ?cs _ "\<lambda>p. True" No_snippet None ?c0 "''a''", OF _ refl] by (simp add: unset_conf_def)
qed

section \<open>The tracer\<close>

datatype flavor = Vanilla | Openresty | Ingress_nginx

fun integration_name_from_flavor :: "flavor \<Rightarrow> bytes" where
  "integration_name_from_flavor Vanilla = ''nginx''"
| "integration_name_from_flavor Openresty = ''nginx:openresty''"
| "integration_name_from_flavor Ingress_nginx = ''nginx:ingress-nginx''"

record trace_main_conf =
  tm_root_session_id :: bytes
  tm_apm_tracing_enabled :: "bool option"
  tm_resource_renaming_enabled :: "bool option"
  tm_always_simplified_endpoint :: "bool option"
  tm_directives :: main_directives
  tm_appsec :: appsec_conf

record tracer_config =
  tc_integration_name :: bytes
  tc_service :: bytes
  tc_root_session_id :: "bytes option"
  tc_tracing_enabled :: "bool option"
  tc_styles :: "bytes list option"
  tc_agent_url :: "bytes option"
  tc_resource_renaming_enabled :: "bool option"
  tc_always_simplified_endpoint :: "bool option"
  tc_rules :: "(f64 \<times> (bytes \<times> bytes) list) list"
  tc_listeners :: "listener list"

text \<open>
  The rules go into the tracer's configuration deepest first. \<open>depth\<close> is the depth of a block once all are merged.
  \<^const>\<open>sort_key\<close> is stable, as \<^verbatim>\<open>std::stable_sort\<close> is.
\<close>

definition sorted_rules :: "(nat \<Rightarrow> int) \<Rightarrow> sampling_rule list \<Rightarrow> sampling_rule list" where
  "sorted_rules depth rules = sort_key (\<lambda>r. - depth (rule_depth_of r)) rules"

text \<open>\<open>renaming_env\<close> is the variable \<^verbatim>\<open>DD_TRACE_RESOURCE_RENAMING_ENABLED\<close>, \<open>has_handle\<close> whether the library has a handle.\<close>

definition tracer_configuration ::
  "flavor \<Rightarrow> (nat \<Rightarrow> int) \<Rightarrow> bytes option \<Rightarrow> bool \<Rightarrow> bool \<Rightarrow> trace_main_conf \<Rightarrow> tracer_config" where
  "tracer_configuration fl depth renaming_env has_handle has_instance conf =
     (let dirs = tm_directives conf
      in \<lparr>tc_integration_name = integration_name_from_flavor fl,
          tc_service = ''nginx'',
          tc_root_session_id = (if tm_root_session_id conf \<noteq> [] then Some (tm_root_session_id conf) else None),
          tc_tracing_enabled = tm_apm_tracing_enabled conf,
          tc_styles = (if propagation_styles dirs \<noteq> [] then Some (propagation_styles dirs) else None),
          tc_agent_url = agent_url dirs,
          tc_resource_renaming_enabled =
            (if tm_resource_renaming_enabled conf \<noteq> None then tm_resource_renaming_enabled conf
             else if renaming_env = None \<or> renaming_env = Some [] then Some has_handle else None),
          tc_always_simplified_endpoint = tm_always_simplified_endpoint conf,
          tc_rules = map (\<lambda>r. (rule_rate r, [rule_tag r])) (sorted_rules depth (sampling_rules dirs)),
          tc_listeners = subscribe_waf (tm_appsec conf) has_instance []\<rparr>)"

text \<open>
  The rules for the health checks of ingress-nginx are added to the finalised configuration before it is looked at whether there
  is one; on an error that is undefined behaviour, \<^const>\<open>None\<close> here.
\<close>

datatype 'f tracer_rule = Config_rules 'f | Zero_rate bytes

definition make_tracer ::
  "(tracer_config \<Rightarrow> 'e + 'f) \<Rightarrow> flavor \<Rightarrow> (nat \<Rightarrow> int) \<Rightarrow> bytes option \<Rightarrow> bool \<Rightarrow> bool \<Rightarrow> trace_main_conf
     \<Rightarrow> ('e + 'f tracer_rule list) option" where
  "make_tracer finalize_config fl depth renaming_env has_handle has_instance conf =
     (case finalize_config (tracer_configuration fl depth renaming_env has_handle has_instance conf) of
        Inl e \<Rightarrow> if fl = Ingress_nginx then None else Some (Inl e)
      | Inr fc \<Rightarrow>
          Some (Inr (Config_rules fc
            # (if fl = Ingress_nginx then [Zero_rate ''GET /is-dynamic-lb-initialized'', Zero_rate ''GET /nginx_status''] else []))))"

section \<open>Starting\<close>

text \<open>The master process keeps the values of the listed variables that are set.\<close>

definition push_to_main_conf :: "(bytes \<Rightarrow> bytes option) \<Rightarrow> bytes list \<Rightarrow> environment_variable list" where
  "push_to_main_conf getenv names =
     concat (map (\<lambda>n. case getenv n of None \<Rightarrow> [] | Some v \<Rightarrow> [\<lparr>ev_name = n, ev_value = v\<rparr>]) names)"

definition forwarded_environment ::
  "(bytes \<Rightarrow> bytes option) \<Rightarrow> bytes list \<Rightarrow> bytes list \<Rightarrow> environment_variable list \<Rightarrow> environment_variable list" where
  "forwarded_environment getenv tracer_names rum_names evs =
     evs @ push_to_main_conf getenv tracer_names @ push_to_main_conf getenv environment_variable_names
       @ push_to_main_conf getenv rum_names"

text \<open>\<^verbatim>\<open>setenv\<close> without overwriting, for each entry in turn.\<close>

definition apply_environment :: "environment_variable list \<Rightarrow> (bytes \<Rightarrow> bytes option) \<Rightarrow> bytes \<Rightarrow> bytes option" where
  "apply_environment evs getenv =
     fold (\<lambda>e env. if env (ev_name e) = None then env(ev_name e \<mapsto> ev_value e) else env) evs getenv"

text \<open>
  A worker starts: the security library, the service of remote configuration, the tracer. The result is whether it is
  \<^verbatim>\<open>NGX_OK\<close>, the library, whether there is an instance of the service, and the tracer; \<^const>\<open>None\<close> is undefined behaviour.
\<close>

definition datadog_init_worker ::
  "('b, 'h) lib_env \<Rightarrow> u32 \<Rightarrow> (tracer_config \<Rightarrow> 'e + 'f) \<Rightarrow> flavor \<Rightarrow> (nat \<Rightarrow> int) \<Rightarrow> (bytes \<Rightarrow> bytes option) \<Rightarrow> trace_main_conf
     \<Rightarrow> bool \<Rightarrow> ('b, 'h) library \<Rightarrow> (bool \<times> ('b, 'h) library \<times> bool \<times> 'f tracer_rule list option) option" where
  "datadog_init_worker env t finalize_config fl depth getenv conf has_instance lib =
     (let getenv' = apply_environment (environment_variables (tm_appsec conf)) getenv
      in case initialize_security_library env t (tm_appsec conf) lib of
           (Inl e, lib1) \<Rightarrow> Some (False, lib1, has_instance, None)
         | (Inr cfg, lib1) \<Rightarrow>
             (case (if cfg = None then Inr has_instance else register_default_config has_instance) of
                Inl e \<Rightarrow> Some (False, lib1, has_instance, None)
              | Inr inst \<Rightarrow>
                  (case make_tracer finalize_config fl depth (getenv' ''DD_TRACE_RESOURCE_RENAMING_ENABLED'')
                          (get_handle lib1 \<noteq> None) inst conf of
                     None \<Rightarrow> None
                   | Some (Inl e) \<Rightarrow> Some (False, lib1, inst, None)
                   | Some (Inr tracer) \<Rightarrow> Some (True, lib1, inst, Some tracer))))"

section \<open>What the tracer is given\<close>

text \<open>The rules are those of the configuration, deeper blocks first, in the order of the file within a depth.\<close>

lemma sampling_rules_sorted:
  "mset (sorted_rules depth rules) = mset rules
   \<and> sorted_wrt (\<lambda>r r'. depth (rule_depth_of r') \<le> depth (rule_depth_of r)) (sorted_rules depth rules)
   \<and> filter (\<lambda>r. depth (rule_depth_of r) = d) (sorted_rules depth rules) = filter (\<lambda>r. depth (rule_depth_of r) = d) rules"
proof (intro conjI)
  let ?f = "\<lambda>r. - depth (rule_depth_of r)"
  show "mset (sorted_rules depth rules) = mset rules" by (simp add: sorted_rules_def)
  have "sorted (map ?f (sorted_rules depth rules))" unfolding sorted_rules_def by (rule sorted_sort_key)
  then show "sorted_wrt (\<lambda>r r'. depth (rule_depth_of r') \<le> depth (rule_depth_of r)) (sorted_rules depth rules)"
    by (simp add: sorted_map)
  show "filter (\<lambda>r. depth (rule_depth_of r) = d) (sorted_rules depth rules) = filter (\<lambda>r. depth (rule_depth_of r) = d) rules"
    using sort_key_stable [of ?f "- d" rules] by (simp add: sorted_rules_def)
qed

text \<open>A failed configuration on ingress-nginx is used all the same.\<close>

lemma ingress_error_undefined:
  "(\<And>c. \<exists>e. finalize_config c = Inl e) \<Longrightarrow> make_tracer finalize_config Ingress_nginx depth ren h inst conf = None"
proof -
  assume a: "\<And>c. \<exists>e. finalize_config c = Inl e"
  obtain e where "finalize_config (tracer_configuration Ingress_nginx depth ren h inst conf) = Inl e" using a by blast
  then show ?thesis by (simp add: make_tracer_def)
qed

text \<open>
  A worker that starts well has a library in which every handle will have one ruleset, when the library is not disabled, and no
  subscription to remote configuration otherwise. The settings it uses are those of the variables the master forwarded.
\<close>

lemma worker_started:
  assumes laws: "builder_laws (le_api env) configs"
    and w: "datadog_init_worker env t finalize_config fl depth getenv conf False new_library = Some (True, lib, inst, tr)"
  shows "if finalize_status (tm_appsec conf) = DISABLED then \<not> inst \<and> get_handle lib = None else inst \<and> lib_ok env configs lib"
proof -
  obtain r lib1 where i: "initialize_security_library env t (tm_appsec conf) new_library = (r, lib1)"
    by (cases "initialize_security_library env t (tm_appsec conf) new_library")
  obtain cfg where r: "r = Inr cfg" and l: "lib1 = lib" and inst: "inst = (cfg \<noteq> None)"
    using w i by (cases r) (auto simp: datadog_init_worker_def register_default_config_def Let_def split: sum.splits option.splits if_splits)
  have st: "s_status (finalize_settings (le_ip_env env) (tm_appsec conf)) = finalize_status (tm_appsec conf)"
    by (simp add: finalize_settings_def Let_def)
  show ?thesis
  proof (cases "finalize_status (tm_appsec conf) = DISABLED")
    case True
    then have "initialize_security_library env t (tm_appsec conf) new_library =
        (Inr None, new_library\<lparr>config_settings := Some (finalize_settings (le_ip_env env) (tm_appsec conf))\<rparr>)"
      by (simp add: initialize_security_library_def Let_def st)
    with i r l inst True show ?thesis by (auto simp: get_handle_def new_library_def)
  next
    case False
    have "cfg \<noteq> None"
    proof
      assume "cfg = None"
      with i r False show False
        by (auto simp: initialize_security_library_def finish_initialize_def Let_def st split: sum.splits prod.splits if_splits)
    qed
    then obtain rs where "cfg = Some rs" by blast
    with i r l inst False initialize_ok [OF laws] show ?thesis by auto
  qed
qed

end
