(* ===== verification/Module_Start.thy ===== *)
theory Module_Start
  imports Module_Conf
begin

text \<open>
  What surrounds the configuration and the requests: the hooks of \<^verbatim>\<open>src/ngx_http_datadog_module.cpp\<close> that nginx calls when the
  configuration is read, before the workers are started and when a worker ends; the test of \<^verbatim>\<open>src/nginx_package_abi.cpp\<close> whether
  nginx is a distribution's; the timers of \<^verbatim>\<open>src/ngx_event_scheduler.cpp\<close>; and the scripts of \<^verbatim>\<open>src/ngx_script.cpp\<close>. What the
  operating system and nginx answer are arguments. Messages to the log are left out.
\<close>

section \<open>The package of nginx\<close>

definition kUbuntuVersionMarker :: bytes where "kUbuntuVersionMarker = ''(Ubuntu)''"
definition kUbuntuConfigureMarker :: bytes where "kUbuntuConfigureMarker = ''--build=Ubuntu''"
definition kDebianBuildPath :: bytes where "kDebianBuildPath = ''-ffile-prefix-map=/build/reproducible-path/nginx-''"

definition kDebianPackagingLayout :: "bytes list" where
  "kDebianPackagingLayout =
     [''--prefix=/usr/share/nginx'', ''--modules-path=/usr/lib/nginx/modules'',
      ''--http-client-body-temp-path=/var/lib/nginx/body'']"

definition is_debian_or_ubuntu_build :: "bytes \<Rightarrow> bool" where
  "is_debian_or_ubuntu_build version_info \<longleftrightarrow>
     (if contains kUbuntuVersionMarker version_info \<or> contains kUbuntuConfigureMarker version_info then True
      else if \<not> contains kDebianBuildPath version_info then False
      else list_all (\<lambda>marker. contains marker version_info) kDebianPackagingLayout)"

text \<open>What \<^verbatim>\<open>read\<close> answers: some bytes, an interruption, the end, or another error.\<close>

datatype read_answer = Read_bytes bytes | Read_eintr | Read_end | Read_error

text \<open>
  The loop that reads what nginx printed, over the answers in turn; the outer \<^const>\<open>None\<close> is a loop that has not ended
  with the answers given, the inner one the failure.
\<close>

fun read_version :: "bytes \<Rightarrow> read_answer list \<Rightarrow> bytes option option" where
  "read_version result [] = None"
| "read_version result (Read_bytes b # as) = read_version (result @ b) as"
| "read_version result (Read_eintr # as) = read_version result as"
| "read_version result (Read_end # as) = Some (Some result)"
| "read_version result (Read_error # as) = Some None"

text \<open>\<open>po_wait\<close> is whether the child was waited for and ended with status zero.\<close>

record package_os =
  po_symbols :: bool
  po_memfd :: bool
  po_fork :: bool
  po_wait :: bool
  po_lseek :: bool
  po_reads :: "read_answer list"

definition running_nginx_version_info :: "package_os \<Rightarrow> bytes option option" where
  "running_nginx_version_info os =
     (if \<not> po_symbols os then Some None
      else if \<not> po_memfd os then Some None
      else if \<not> po_fork os then Some None
      else if \<not> po_wait os \<or> \<not> po_lseek os then Some None
      else read_version [] (po_reads os))"

definition is_running_nginx_is_debian_or_ubuntu :: "package_os \<Rightarrow> bool option" where
  "is_running_nginx_is_debian_or_ubuntu os =
     map_option (\<lambda>v. case v of None \<Rightarrow> False | Some version_info \<Rightarrow> is_debian_or_ubuntu_build version_info)
       (running_nginx_version_info os)"

section \<open>The hooks\<close>

datatype phase = NGX_HTTP_REWRITE_PHASE | NGX_HTTP_ACCESS_PHASE | NGX_HTTP_PRECONTENT_PHASE | NGX_HTTP_LOG_PHASE

datatype phase_handler = On_enter_block | On_access | On_precontent_phase | On_log_request | Other_handler nat

datatype body_or_header_filter = Module_filter | Other_filter nat

text \<open>nginx's tables that the hooks change, and the members of the main configuration; a filter chain is its head and what the module calls next.\<close>

record hooks =
  phases :: "phase \<Rightarrow> phase_handler list"
  top_header_filter :: body_or_header_filter
  next_header_filter :: body_or_header_filter
  top_body_filter :: body_or_header_filter
  next_body_filter :: body_or_header_filter
  top_request_body_filter :: body_or_header_filter
  next_request_body_filter :: body_or_header_filter
  main_tags :: "(bytes \<times> bytes) list"
  hk_environment :: "environment_variable list"

text \<open>\<open>push\<close> is whether \<^verbatim>\<open>ngx_array_push\<close> has memory.\<close>

definition set_handler :: "(phase \<Rightarrow> bool) \<Rightarrow> phase \<Rightarrow> phase_handler \<Rightarrow> hooks \<Rightarrow> bool \<times> hooks" where
  "set_handler push ph callback h =
     (if push ph then (True, h\<lparr>phases := (phases h)(ph := phases h ph @ [callback])\<rparr>) else (False, h))"

fun set_handlers :: "(phase \<Rightarrow> bool) \<Rightarrow> (phase \<times> phase_handler) list \<Rightarrow> hooks \<Rightarrow> bool \<times> hooks" where
  "set_handlers push [] h = (True, h)"
| "set_handlers push ((ph, callback) # hs) h =
     (let (ok, h1) = set_handler push ph callback h in if ok then set_handlers push hs h1 else (False, h1))"

fun add_default_tags :: "(bytes \<Rightarrow> bool) \<Rightarrow> (bytes \<times> bytes) list \<Rightarrow> hooks \<Rightarrow> bool \<times> hooks" where
  "add_default_tags compile [] h = (True, h)"
| "add_default_tags compile ((key, v) # dtags) h =
     (case make_complex_value compile v of
        None \<Rightarrow> (False, h)
      | Some cv \<Rightarrow> add_default_tags compile dtags (h\<lparr>main_tags := insert_or_assign key cv (main_tags h)\<rparr>))"

text \<open>The phases in which the module has handlers, in the order of registration, with and without the WAF.\<close>

definition module_handlers :: "bool \<Rightarrow> (phase \<times> phase_handler) list" where
  "module_handlers waf =
     [(NGX_HTTP_REWRITE_PHASE, On_enter_block), (NGX_HTTP_LOG_PHASE, On_log_request)]
     @ (if waf then [(NGX_HTTP_ACCESS_PHASE, On_access)] else [])
     @ [(NGX_HTTP_PRECONTENT_PHASE, On_precontent_phase)]"

text \<open>\<open>has_conf\<close> is whether there is a main configuration; the zone is made by \<^const>\<open>initialize_api_security_shared_memory\<close>. The result is whether it is \<^verbatim>\<open>NGX_OK\<close>.\<close>

definition datadog_module_init ::
  "bool \<Rightarrow> (phase \<Rightarrow> bool) \<Rightarrow> (bytes \<Rightarrow> bool) \<Rightarrow> limiter_state option option \<Rightarrow> bool \<Rightarrow> hooks \<Rightarrow> ('b, 'h) library
     \<Rightarrow> bool \<times> hooks \<times> ('b, 'h) library" where
  "datadog_module_init waf push compile zone has_conf h lib =
     (let h1 = h\<lparr>next_header_filter := top_header_filter h, top_header_filter := Module_filter,
                 next_body_filter := top_body_filter h, top_body_filter := Module_filter\<rparr>
      in if \<not> has_conf then (True, h1, lib)
         else case set_handlers push (module_handlers waf) h1 of
           (False, h2) \<Rightarrow> (False, h2, lib)
         | (True, h2) \<Rightarrow>
             (case add_default_tags compile default_tags h2 of
                (False, h3) \<Rightarrow> (False, h3, lib)
              | (True, h3) \<Rightarrow>
                  if waf then (let (ok, lib') = initialize_api_security_shared_memory zone lib in (ok, h3, lib'))
                  else (True, h3, lib)))"

text \<open>
  After the configuration the master process refuses a distribution's nginx for which the module was not built, puts the request
  body filter in place and keeps the environment for the workers.
\<close>

definition datadog_master_process_post_config ::
  "bool \<Rightarrow> bool \<Rightarrow> bool \<Rightarrow> bool \<Rightarrow> bool \<Rightarrow> (bytes \<Rightarrow> bytes option) \<Rightarrow> bytes list \<Rightarrow> bytes list \<Rightarrow> hooks \<Rightarrow> bool \<times> hooks" where
  "datadog_master_process_post_config distribution built_for_it has_conf waf rum getenv tracer_names rum_names h =
     (if distribution \<and> \<not> built_for_it then (False, h)
      else if \<not> has_conf then (True, h)
      else let h1 = (if waf then h\<lparr>next_request_body_filter := top_request_body_filter h, top_request_body_filter := Module_filter\<rparr> else h)
        in (True, h1\<lparr>hk_environment :=
              hk_environment h1 @ push_to_main_conf getenv tracer_names
                @ (if waf then push_to_main_conf getenv environment_variable_names else [])
                @ (if rum then push_to_main_conf getenv rum_names else [])\<rparr>))"

section \<open>The tracer of the process\<close>

definition global_tracer :: "'t option \<Rightarrow> 't option" where
  "global_tracer inst = inst"

definition reset_global_tracer :: "'t option \<Rightarrow> 't option \<Rightarrow> 't option" where
  "reset_global_tracer new inst = new"

definition datadog_exit_worker :: "'t option \<Rightarrow> 't option" where
  "datadog_exit_worker inst = reset_global_tracer None inst"

section \<open>Timers\<close>

text \<open>
  Events are allocated at addresses. Kept are the events that are allocated with their interval, the set of the scheduler,
  the events whose timer is set, and the calls of the callbacks with the interval of the timer set before. \<^const>\<open>None\<close> is a use
  of an event that is not allocated.
\<close>

record scheduler =
  sc_alive :: bool
  sc_heap :: "nat \<rightharpoonup> int"
  sc_events :: "nat set"
  sc_timers :: "nat set"
  sc_calls :: "(nat \<times> int) list"

text \<open>The duration of the steady clock is in nanoseconds; the cast truncates towards zero.\<close>

definition to_milliseconds :: "int \<Rightarrow> int" where
  "to_milliseconds interval = sgn interval * (\<bar>interval\<bar> div 1000000)"

definition schedule_recurring_event :: "nat \<Rightarrow> int \<Rightarrow> scheduler \<Rightarrow> scheduler" where
  "schedule_recurring_event e interval s =
     s\<lparr>sc_heap := (sc_heap s)(e \<mapsto> interval), sc_events := insert e (sc_events s), sc_timers := insert e (sc_timers s)\<rparr>"

definition cancel_event :: "nat \<Rightarrow> scheduler \<Rightarrow> scheduler option" where
  "cancel_event e s =
     (if \<not> sc_alive s \<or> sc_heap s e = None then None
      else Some (s\<lparr>sc_heap := (sc_heap s)(e := None), sc_events := sc_events s - {e}, sc_timers := sc_timers s - {e}\<rparr>))"

text \<open>nginx takes the timer out when it expires and calls the handler, which sets it again before it calls the callback.\<close>

definition handle_event :: "nat \<Rightarrow> scheduler \<Rightarrow> scheduler option" where
  "handle_event e s =
     (case sc_heap s e of
        None \<Rightarrow> None
      | Some interval \<Rightarrow>
          Some (s\<lparr>sc_timers := insert e (sc_timers s), sc_calls := sc_calls s @ [(e, to_milliseconds interval)]\<rparr>))"

definition scheduler_destroy :: "scheduler \<Rightarrow> scheduler" where
  "scheduler_destroy s =
     s\<lparr>sc_alive := False, sc_heap := (\<lambda>e. if e \<in> sc_events s then None else sc_heap s e),
       sc_timers := sc_timers s - sc_events s\<rparr>"

definition new_scheduler :: scheduler where
  "new_scheduler = \<lparr>sc_alive = True, sc_heap = Map.empty, sc_events = {}, sc_timers = {}, sc_calls = []\<rparr>"

section \<open>Scripts\<close>

text \<open>\<open>compiled\<close> is the code nginx made for a pattern with variables.\<close>

record 'c ngx_script =
  script_pattern :: "bytes option"
  script_code :: "'c option"

definition script_compile ::
  "(bytes \<Rightarrow> nat) \<Rightarrow> (bytes \<Rightarrow> 'c option) \<Rightarrow> bytes \<Rightarrow> bool \<times> 'c ngx_script" where
  "script_compile variables_count compile_code p =
     (let sc = \<lparr>script_pattern = Some p, script_code = None\<rparr>
      in if variables_count p = 0 then (True, sc)
         else case compile_code p of None \<Rightarrow> (False, sc) | Some c \<Rightarrow> (True, sc\<lparr>script_code := Some c\<rparr>))"

definition script_run :: "('c \<Rightarrow> bytes option) \<Rightarrow> 'c ngx_script \<Rightarrow> bytes" where
  "script_run run_code sc =
     (case script_pattern sc of
        None \<Rightarrow> []
      | Some p \<Rightarrow>
          (case script_code sc of
             None \<Rightarrow> p
           | Some c \<Rightarrow> (case run_code c of None \<Rightarrow> [] | Some r \<Rightarrow> r)))"

section \<open>Properties\<close>

text \<open>The loop ends with the first end or error, and the text is all bytes read before it.\<close>

lemma read_version_collects:
  assumes "list_all (\<lambda>a. a = Read_eintr \<or> (\<exists>b. a = Read_bytes b)) as"
  shows "read_version r (as @ Read_end # rest) = Some (Some (r @ concat (map (\<lambda>a. case a of Read_bytes b \<Rightarrow> b | _ \<Rightarrow> []) as)))
     \<and> read_version r (as @ Read_error # rest) = Some None"
  using assms by (induction as arbitrary: r) auto

text \<open>A text with Debian's build path alone is not taken for a distribution's: all of the layout is needed.\<close>

lemma debian_needs_layout:
  assumes "\<not> contains kUbuntuVersionMarker v" "\<not> contains kUbuntuConfigureMarker v"
  shows "is_debian_or_ubuntu_build v \<longleftrightarrow> (\<forall>m \<in> insert kDebianBuildPath (set kDebianPackagingLayout). contains m v)"
  using assms by (auto simp: is_debian_or_ubuntu_build_def list_all_iff)

lemma set_handlers_phases:
  "\<forall>e \<in> set hs. push (fst e) \<Longrightarrow>
   \<exists>h'. set_handlers push hs h = (True, h') \<and> h' = h\<lparr>phases := \<lambda>ph. phases h ph @ map snd (filter (\<lambda>e. fst e = ph) hs)\<rparr>"
proof (induction hs arbitrary: h)
  case Nil
  then show ?case by simp
next
  case (Cons e hs)
  obtain ph cb where e: "e = (ph, cb)" by (cases e)
  show ?case using Cons by (auto simp: e set_handler_def fun_eq_iff)
qed

lemma map_of_insert_or_assign: "map_of (insert_or_assign k v xs) = (map_of xs)(k \<mapsto> v)"
  by (simp add: insert_or_assign_def map_of_filter_ne fun_eq_iff)

lemma add_default_tags_map:
  "(\<forall>e \<in> set dtags. compile (snd e)) \<Longrightarrow>
   \<exists>t. add_default_tags compile dtags h = (True, h\<lparr>main_tags := t\<rparr>) \<and> map_of t = map_of (main_tags h) ++ map_of (rev dtags)"
proof (induction dtags arbitrary: h)
  case Nil
  then show ?case by (intro exI [of _ "main_tags h"]) simp
next
  case (Cons e dtags)
  obtain k v where e: "e = (k, v)" by (cases e)
  let ?h = "h\<lparr>main_tags := insert_or_assign k v (main_tags h)\<rparr>"
  obtain t where t: "add_default_tags compile dtags ?h = (True, ?h\<lparr>main_tags := t\<rparr>)"
    "map_of t = map_of (insert_or_assign k v (main_tags h)) ++ map_of (rev dtags)"
    using Cons.IH [of ?h] Cons.prems by auto
  have "map_of t = map_of (main_tags h) ++ map_of (rev (e # dtags))"
    unfolding t(2) map_of_insert_or_assign by (simp add: e map_add_def fun_eq_iff split: option.split)
  then show ?case using Cons.prems t(1) by (intro exI [of _ t]) (simp add: e make_complex_value_def)
qed

text \<open>
  When nginx reads a configuration with an \<^verbatim>\<open>http\<close> block and there is memory, the module's handlers are the last of their phases, its
  filters are first in their chains and call what was first before, and the tags of the main configuration are the default ones
  over what was there.
\<close>

lemma module_initialised:
  assumes "\<And>ph. push ph" "\<forall>e \<in> set default_tags. compile (snd e)"
  shows "\<exists>h' lib'. datadog_module_init True push compile (Some zone) True h lib = (True, h', lib')
    \<and> (\<forall>ph. phases h' ph = phases h ph @ (case ph of NGX_HTTP_REWRITE_PHASE \<Rightarrow> [On_enter_block] | NGX_HTTP_ACCESS_PHASE \<Rightarrow> [On_access]
          | NGX_HTTP_PRECONTENT_PHASE \<Rightarrow> [On_precontent_phase] | NGX_HTTP_LOG_PHASE \<Rightarrow> [On_log_request]))
    \<and> top_header_filter h' = Module_filter \<and> next_header_filter h' = top_header_filter h
    \<and> top_body_filter h' = Module_filter \<and> next_body_filter h' = top_body_filter h
    \<and> map_of (main_tags h') = map_of (main_tags h) ++ map_of (rev default_tags)
    \<and> api_security_shm_zone lib' = Some zone"
proof -
  let ?h1 = "h\<lparr>next_header_filter := top_header_filter h, top_header_filter := Module_filter,
                 next_body_filter := top_body_filter h, top_body_filter := Module_filter\<rparr>"
  obtain h2 where h2: "set_handlers push (module_handlers True) ?h1 = (True, h2)"
    "h2 = ?h1\<lparr>phases := \<lambda>ph. phases ?h1 ph @ map snd (filter (\<lambda>e. fst e = ph) (module_handlers True))\<rparr>"
    using set_handlers_phases [of "module_handlers True" push ?h1] assms(1) by blast
  obtain t where t: "add_default_tags compile default_tags h2 = (True, h2\<lparr>main_tags := t\<rparr>)"
    "map_of t = map_of (main_tags h2) ++ map_of (rev default_tags)"
    using add_default_tags_map [of default_tags compile h2] assms(2) by blast
  have "datadog_module_init True push compile (Some zone) True h lib
      = (True, h2\<lparr>main_tags := t\<rparr>, lib\<lparr>api_security_shm_zone := Some zone\<rparr>)"
    using h2(1) t(1) by (simp add: datadog_module_init_def initialize_api_security_shared_memory_def Let_def)
  moreover have "phases h2 ph = phases h ph @ (case ph of NGX_HTTP_REWRITE_PHASE \<Rightarrow> [On_enter_block] | NGX_HTTP_ACCESS_PHASE \<Rightarrow> [On_access]
          | NGX_HTTP_PRECONTENT_PHASE \<Rightarrow> [On_precontent_phase] | NGX_HTTP_LOG_PHASE \<Rightarrow> [On_log_request])" for ph
    by (cases ph) (simp_all add: h2(2) module_handlers_def)
  ultimately show ?thesis using t(2) h2(2) by simp
qed

text \<open>The variables a worker is given are the listed ones that the master has, and nothing else.\<close>

lemma environment_forwarded:
  assumes "datadog_master_process_post_config False b True True rum getenv tn rn h = (True, h')"
  shows "set (hk_environment h') = set (hk_environment h) \<union>
    {\<lparr>ev_name = n, ev_value = v\<rparr> | n v. getenv n = Some v \<and> n \<in> set tn \<union> set environment_variable_names \<union> (if rum then set rn else {})}"
  using assms by (auto simp: datadog_master_process_post_config_def push_to_main_conf_def Let_def split: option.splits if_splits)

section \<open>Timers never fire for freed events\<close>

text \<open>
  What happens to the scheduler: an event is scheduled at a fresh address while the scheduler is there, a timer that is set
  expires, an event that is there is cancelled, and the scheduler is destroyed.
\<close>

inductive timer_step :: "scheduler \<Rightarrow> scheduler option \<Rightarrow> bool" where
  Schedule: "sc_alive s \<Longrightarrow> sc_heap s e = None \<Longrightarrow> timer_step s (Some (schedule_recurring_event e i s))"
| Expire: "e \<in> sc_timers s \<Longrightarrow> timer_step s (handle_event e (s\<lparr>sc_timers := sc_timers s - {e}\<rparr>))"
| Cancel: "sc_alive s \<Longrightarrow> e \<in> sc_events s \<Longrightarrow> timer_step s (cancel_event e s)"
| Destroy: "sc_alive s \<Longrightarrow> timer_step s (Some (scheduler_destroy s))"

inductive_cases timer_stepE: "timer_step s r"

inductive timer_run :: "scheduler \<Rightarrow> bool" where
  timer_start: "timer_run new_scheduler"
| timer_next: "timer_run s \<Longrightarrow> timer_step s (Some s') \<Longrightarrow> timer_run s'"

definition timers_ok :: "scheduler \<Rightarrow> bool" where
  "timers_ok s \<longleftrightarrow> (if sc_alive s then sc_events s = dom (sc_heap s) \<and> sc_timers s = dom (sc_heap s)
     else dom (sc_heap s) = {} \<and> sc_timers s = {})"

lemma timer_step_ok:
  assumes "timers_ok s" "timer_step s r"
  shows "r \<noteq> None \<and> timers_ok (the r)"
  using assms(2)
proof cases
  case (Expire e)
  then have "\<exists>i. sc_heap s e = Some i" using assms(1) by (auto simp: timers_ok_def split: if_splits)
  then show ?thesis using Expire assms(1) by (cases "sc_alive s") (auto simp: timers_ok_def handle_event_def)
next
  case (Cancel e)
  then have "\<exists>i. sc_heap s e = Some i" using assms(1) by (auto simp: timers_ok_def split: if_splits)
  then show ?thesis using Cancel assms(1) by (cases "sc_alive s") (auto simp: timers_ok_def cancel_event_def)
qed (use assms(1) in \<open>auto simp: timers_ok_def schedule_recurring_event_def scheduler_destroy_def split: if_splits\<close>)

text \<open>
  Over every run of the scheduler each step has defined behaviour, exactly the events that were scheduled and not cancelled have
  a timer, and after the scheduler is destroyed there is neither an event nor a timer.
\<close>

theorem timers_safe:
  assumes "timer_run s"
  shows "(sc_alive s \<longrightarrow> sc_timers s = sc_events s) \<and> (\<not> sc_alive s \<longrightarrow> sc_timers s = {} \<and> sc_heap s = Map.empty)
     \<and> (\<forall>r. timer_step s r \<longrightarrow> r \<noteq> None)"
proof -
  have ok: "timers_ok s" using assms
  proof induction
    case timer_start
    then show ?case by (simp add: timers_ok_def new_scheduler_def)
  next
    case (timer_next s s')
    then show ?case using timer_step_ok by fastforce
  qed
  then show ?thesis using timer_step_ok [OF ok] by (auto simp: timers_ok_def split: if_splits)
qed

text \<open>A cancellation that is called after the scheduler is gone uses a freed event.\<close>

lemma cancel_after_destroy: "cancel_event e (scheduler_destroy s) = None"
  by (simp add: cancel_event_def scheduler_destroy_def)

text \<open>A script without variables always compiles and gives its pattern; a script that was never compiled gives nothing.\<close>

lemma script_without_variables:
  "variables_count p = 0 \<Longrightarrow> \<exists>sc. script_compile variables_count compile_code p = (True, sc) \<and> script_run run_code sc = p"
  by (simp add: script_compile_def script_run_def)

end
