(* ===== verification/Variables.thy ===== *)
theory Variables
  imports Dd_Context Ddwaf_Obj
begin

text \<open>
  The variables of the module, \<^verbatim>\<open>src/datadog_variable.cpp\<close> with the properties of a span from
  \<^verbatim>\<open>src/tracing_library.cpp\<close> and the text functions of \<^verbatim>\<open>src/string_util.h\<close>. The span's identifiers, the headers it
  injects, the environment, the tracer's configuration, and JSON's reader and writer are parameters.
\<close>

section \<open>Texts\<close>

definition toupper :: "char \<Rightarrow> char" where
  "toupper c = (if 97 \<le> ord c \<and> ord c \<le> 122 then char_of (ord c - 32) else c)"

definition hyphen_to_underscore :: "char \<Rightarrow> char" where
  "hyphen_to_underscore c = (if c = CHR ''-'' then CHR ''_'' else c)"

definition header_transform_char :: "char \<Rightarrow> char" where
  "header_transform_char c = tolower (hyphen_to_underscore c)"

text \<open>\<^verbatim>\<open>slice\<close>, for bounds within the text.\<close>

definition slice :: "bytes \<Rightarrow> int \<Rightarrow> int \<Rightarrow> bytes" where
  "slice s b e =
     (let b = (if b < 0 then b + int (length s) else b); e = (if e < 0 then e + int (length s) else e)
      in take (nat (e - b)) (drop (nat b) s))"

definition slice_from :: "bytes \<Rightarrow> int \<Rightarrow> bytes" where
  "slice_from s b = slice s b (int (length s))"

text \<open>
  \<^verbatim>\<open>starts_with\<close> of \<^verbatim>\<open>string_util.h\<close>: \<^verbatim>\<open>std::mismatch\<close> is given the end of the subject only, and reads past the end of
  the prefix when the subject goes on after it.
\<close>

fun mismatch_at :: "bytes \<Rightarrow> bytes \<Rightarrow> nat outcome" where
  "mismatch_at [] p = Done 0"
| "mismatch_at (x # xs) [] = Undefined"
| "mismatch_at (x # xs) (y # ys) = (if x = y then outcome_bind (mismatch_at xs ys) (\<lambda>n. Done (Suc n)) else Done 0)"

definition starts_with :: "bytes \<Rightarrow> bytes \<Rightarrow> bool outcome" where
  "starts_with subject pfx =
     (if length subject < length pfx then Done False
      else outcome_bind (mismatch_at subject pfx) (\<lambda>n. Done (n = length pfx)))"

section \<open>The properties of a span\<close>

record span_info =
  si_trace_id_hex :: bytes
  si_trace_id_low :: "64 word"
  si_id :: "64 word"
  si_injected :: "(bytes \<times> bytes) list"

fun hex_text :: "nat \<Rightarrow> nat \<Rightarrow> bytes" where
  "hex_text 0 n = []"
| "hex_text (Suc w) n = hex_text w (n div 16) @ [hex_digit (n mod 16)]"

text \<open>\<^verbatim>\<open>%016\<close> with \<^verbatim>\<open>PRIx64\<close>: sixteen digits, with leading zeros.\<close>

definition hex16 :: "64 word \<Rightarrow> bytes" where
  "hex16 n = hex_text 16 (unat n)"

definition json_set :: "bytes \<times> bytes \<Rightarrow> (bytes \<times> json) list \<Rightarrow> (bytes \<times> json) list" where
  "json_set kv ms = ms @ [(c_string (map header_transform_char (fst kv)), JString (c_string (snd kv)))]"

definition span_json :: "span_info \<Rightarrow> json" where
  "span_json sp = JObject (fold json_set (si_injected sp) [])"

definition span_property :: "(json \<Rightarrow> bytes) \<Rightarrow> bytes \<Rightarrow> span_info \<Rightarrow> bytes" where
  "span_property write_json key sp =
     (if key = ''trace_id_hex'' \<or> key = ''trace_id'' then si_trace_id_hex sp
      else if key = ''span_id_hex'' \<or> key = ''span_id'' then hex16 (si_id sp)
      else if key = ''trace_id_64bits_base10'' then decimal (unat (si_trace_id_low sp))
      else if key = ''span_id_64bits_base10'' then decimal (unat (si_id sp))
      else if key = ''json'' then c_string (write_json (span_json sp))
      else ''-'')"

section \<open>Expanding a variable\<close>

text \<open>The result of a handler: whether it is \<^verbatim>\<open>NGX_OK\<close>, and the text when one was stored. Stored values are valid, found and not cached.\<close>

datatype expanded = Expanded bytes | Nothing_stored | Expand_error

definition is_untraced_subrequest :: "bool \<Rightarrow> bool \<Rightarrow> bool" where
  "is_untraced_subrequest has_parent log_subrequest \<longleftrightarrow> has_parent \<and> \<not> log_subrequest"

definition prefix_of :: "bytes \<Rightarrow> bytes \<Rightarrow> bool" where
  "prefix_of p s \<longleftrightarrow> take (length p) s = p"

definition expand_span_variable ::
  "(bytes \<Rightarrow> nat \<Rightarrow> bytes) \<Rightarrow> nat \<Rightarrow> bool \<Rightarrow> bool \<Rightarrow> 'i ddctx option \<Rightarrow> bytes \<Rightarrow> expanded outcome" where
  "expand_span_variable resolve request has_parent log_subrequest ctx variable_name =
     (case ctx of
        None \<Rightarrow> Done (Expanded ''-'')
      | Some dc \<Rightarrow>
          if is_untraced_subrequest has_parent log_subrequest then Done (Expanded ''-'')
          else
            (let set_variable = (\<lambda>suffix.
               (case dd_lookup_span_variable resolve request suffix dc of
                  Done v \<Rightarrow> Done (Expanded v) | Raised \<Rightarrow> Done Expand_error | Undefined \<Rightarrow> Undefined))
             in if prefix_of ''datadog_'' variable_name then set_variable (slice_from variable_name 8)
                else if prefix_of ''opentelemetry_'' variable_name then set_variable (slice_from variable_name 14)
                else Done Nothing_stored))"

definition environment_variable_name_prefix :: bytes where
  "environment_variable_name_prefix = ''datadog_env_''"

text \<open>\<open>allow_list\<close> is \<^verbatim>\<open>TracingLibrary::environment_variable_names\<close>; the value of a variable is a C string.\<close>

definition expand_environment_variable :: "bytes list \<Rightarrow> (bytes \<Rightarrow> bytes option) \<Rightarrow> bytes \<Rightarrow> expanded" where
  "expand_environment_variable allow_list getenv variable_name =
     (let env_var_name = map toupper (slice_from variable_name (int (length environment_variable_name_prefix)))
      in case (if env_var_name \<in> set allow_list then getenv (c_string env_var_name) else None) of
           None \<Rightarrow> Expanded ''-''
         | Some env_value \<Rightarrow> Expanded env_value)"

text \<open>
  The tracer's configuration with the location's settings added. A failed parse leaves a null document, and the handler goes on with it;
  \<^verbatim>\<open>AddMember\<close> asserts that the document is an object, which is \<^const>\<open>Undefined\<close> here.
\<close>

definition append_to_doc :: "(bytes \<Rightarrow> bytes option) \<Rightarrow> bytes \<Rightarrow> bytes option \<Rightarrow> json \<Rightarrow> json outcome" where
  "append_to_doc eval key script doc =
     (case script of
        None \<Rightarrow> Done doc
      | Some p \<Rightarrow>
          (case eval p of
             None \<Rightarrow> Done doc
           | Some res \<Rightarrow>
               if res = [] then Done doc
               else case doc of JObject ms \<Rightarrow> Done (JObject (ms @ [(key, JString res)])) | _ \<Rightarrow> Undefined))"

definition expand_configuration_variable ::
  "(bytes \<Rightarrow> json option) \<Rightarrow> (json \<Rightarrow> bytes) \<Rightarrow> (bytes \<Rightarrow> bytes option) \<Rightarrow> bytes option
     \<Rightarrow> bytes option \<Rightarrow> bytes option \<Rightarrow> bytes option \<Rightarrow> expanded outcome" where
  "expand_configuration_variable parse write_json eval tracer_config service env version =
     (case tracer_config of
        None \<Rightarrow> Done (Expanded ''-'')
      | Some config \<Rightarrow>
          (let doc = (case parse (c_string config) of Some d \<Rightarrow> d | None \<Rightarrow> JNull)
           in outcome_bind (append_to_doc eval ''service'' service doc) (\<lambda>doc.
              outcome_bind (append_to_doc eval ''environment'' env doc) (\<lambda>doc.
              outcome_bind (append_to_doc eval ''version'' version doc) (\<lambda>doc.
              Done (Expanded (c_string (write_json doc))))))))"

definition expand_location_variable :: "bytes option \<Rightarrow> expanded" where
  "expand_location_variable core_name = Expanded (case core_name of None \<Rightarrow> ''-'' | Some n \<Rightarrow> n)"

text \<open>The variables that are registered: a prefix or a whole name, and the handler.\<close>

datatype variable_handler = Span_variable | Environment_variable | Configuration_variable | Location_variable

definition add_variables :: "(bytes \<times> bool \<times> variable_handler) list" where
  "add_variables =
     [(''datadog_'', True, Span_variable), (environment_variable_name_prefix, True, Environment_variable),
      (''opentelemetry_'', True, Span_variable), (''datadog_config_json'', False, Configuration_variable),
      (''datadog_location'', False, Location_variable)]"

section \<open>Properties\<close>

lemma slice_from_prefix: "slice_from (p @ s) (int (length p)) = s"
  by (simp add: slice_from_def slice_def)

lemma starts_with_overreads: "starts_with (pfx @ c # s) pfx = Undefined"
proof -
  have "mismatch_at (pfx @ c # s) pfx = Undefined" by (induction pfx) simp_all
  then show ?thesis by (simp add: starts_with_def)
qed

text \<open>The sixteen digits of a span's identifier are read back.\<close>

lemma length_hex_text [simp]: "length (hex_text w n) = w"
  by (induction w arbitrary: n) simp_all

lemma hex_text_value: "foldl (\<lambda>k c. 16 * k + hex_val c) 0 (hex_text w n) = n mod 16 ^ w"
proof (induction w arbitrary: n)
  case (Suc w)
  have "hex_val (hex_digit (n mod 16)) = n mod 16" using hex_digit_roundtrip [of "n mod 16"] by simp
  with Suc [of "n div 16"] show ?case
    by (simp add: mod_mult2_eq [of n 16 "16 ^ w"])
qed simp

lemma hex16_roundtrip: "length (hex16 i) = 16 \<and> foldl (\<lambda>k c. 16 * k + hex_val c) 0 (hex16 i) = unat i"
proof -
  have "unat i < 16 ^ 16" using unsigned_less [of i] by simp
  then show ?thesis unfolding hex16_def hex_text_value by simp
qed

text \<open>
  The variables for the environment give away nothing but the listed variables, whatever name a configuration uses.
\<close>

lemma environment_confined:
  assumes "\<And>n. n \<in> set allow_list \<Longrightarrow> getenv1 (c_string n) = getenv2 (c_string n)"
  shows "expand_environment_variable allow_list getenv1 v = expand_environment_variable allow_list getenv2 v"
  using assms by (simp add: expand_environment_variable_def Let_def)

text \<open>A configuration that cannot be parsed is never the variable's value: the text stored for that case is overwritten.\<close>

lemma configuration_fallback_lost:
  assumes "parse (c_string config) = None"
  shows "expand_configuration_variable parse write_json eval (Some config) None None None = Done (Expanded (c_string (write_json JNull)))
     \<and> (eval p = Some (x # xs) \<longrightarrow> expand_configuration_variable parse write_json eval (Some config) (Some p) env ver = Undefined)"
  using assms by (simp add: expand_configuration_variable_def append_to_doc_def)

text \<open>
  The span variables. In a request that is traced each name gives the property of the active span, under both prefixes; an
  identifier is given as sixteen hexadecimal digits that read back as the identifier. Without a context, and in subrequests that
  are not logged, the value is a hyphen. When the context has no trace of the request, which is so when only RUM is enabled
  for it, the variable is not a hyphen but an error.
\<close>

theorem span_variables:
  "expand_span_variable resolve request has_parent log_sub (None :: 'i ddctx option) name = Done (Expanded ''-'')
   \<and> expand_span_variable resolve request True False (Some dc) name = Done (Expanded ''-'')
   \<and> (find_trace request dc = None \<longrightarrow>
        expand_span_variable resolve request False log_sub (Some dc) (''datadog_'' @ key) = Done Expand_error)
   \<and> (find_trace request dc = Some rt \<longrightarrow> active_span rt = Some sp \<longrightarrow>
        expand_span_variable resolve request False log_sub (Some dc) (''datadog_'' @ key) = Done (Expanded (resolve key sp))
      \<and> expand_span_variable resolve request False log_sub (Some dc) (''opentelemetry_'' @ key) = Done (Expanded (resolve key sp)))
   \<and> span_property write_json ''span_id'' info = hex16 (si_id info)
   \<and> length (hex16 (si_id info)) = 16 \<and> foldl (\<lambda>k c. 16 * k + hex_val c) 0 (hex16 (si_id info)) = unat (si_id info)"
proof -
  have s: "slice_from (''datadog_'' @ key) 8 = key" "slice_from (''opentelemetry_'' @ key) 14 = key"
    using slice_from_prefix [of "''datadog_''" key] slice_from_prefix [of "''opentelemetry_''" key] by simp_all
  have p: "prefix_of ''datadog_'' (''datadog_'' @ key)" "\<not> prefix_of ''datadog_'' (''opentelemetry_'' @ key)"
    "prefix_of ''opentelemetry_'' (''opentelemetry_'' @ key)" by (simp_all add: prefix_of_def)
  have d: "expand_span_variable resolve request False log_sub (Some dc) (''datadog_'' @ key) =
      (case dd_lookup_span_variable resolve request key dc of Done v \<Rightarrow> Done (Expanded v) | Raised \<Rightarrow> Done Expand_error | Undefined \<Rightarrow> Undefined)"
    unfolding expand_span_variable_def Let_def s using p(1) by (simp add: is_untraced_subrequest_def)
  have o: "expand_span_variable resolve request False log_sub (Some dc) (''opentelemetry_'' @ key) =
      (case dd_lookup_span_variable resolve request key dc of Done v \<Rightarrow> Done (Expanded v) | Raised \<Rightarrow> Done Expand_error | Undefined \<Rightarrow> Undefined)"
    unfolding expand_span_variable_def Let_def s using p(2,3) by (simp add: is_untraced_subrequest_def)
  show ?thesis unfolding d o
    using hex16_roundtrip [of "si_id info"]
    by (simp add: expand_span_variable_def is_untraced_subrequest_def dd_lookup_span_variable_def the_active_span_def span_property_def)
qed

end
