(* ===== verification/Spec2Isabelle.thy ===== *)
theory Spec2Isabelle
  imports Waf_Verdict Shared_Limiter Header_Tags Metrics Rum_Config Dd_Context Module_Start Variables
begin

text \<open>
  A model of the Datadog nginx module: its application security part (\<^verbatim>\<open>src/security\<close>), the tracing of
  requests, and the injection of the RUM SDK, with the theorems that make it correct.

  \<^bold>\<open>The program.\<close> nginx calls the module's handlers in the phases of a request. For every request the
  module keeps a context with the spans of the request and, when it is built with the WAF, a security
  context. When the request starts, the security context collects its data and submits a task to a
  thread pool that runs the WAF on it; the request body filter collects the body and runs the WAF
  again; the header and output body filters hold the response back until a final run. A run that
  decides to block makes the main thread replace the response by a blocking response. At the end the
  matches are reported on the span. Built with RUM injection instead, the filters look for the place in
  an HTML page at which the SDK is inserted.

  \<^bold>\<open>Theories and sources.\<close> Paths are relative to \<^verbatim>\<open>src/\<close>.
  \<^item> \<open>Prelude\<close>: bytes, ASCII classes, list and option lemmas shared by the others.
  \<^item> \<open>Memres\<close>: \<^verbatim>\<open>security/ddwaf_memres.h\<close>, the arenas for objects and strings and the pool of arrays.
    Addresses are pairs of a segment and an offset, and the sums of sizes wrap at 64 bits. Allocations
    are disjoint as long as every request is below \<open>2 ^ 63\<close> (\<open>huge_string_overruns\<close> shows what a sum that
    wraps does), and so are live and free arrays.
  \<^item> \<open>Decode\<close>: \<^verbatim>\<open>security/decode.cpp\<close> and \<^verbatim>\<open>decode.h\<close>, percent decoding and iteration over query strings.
  \<^item> \<open>Chain_Stream\<close>: the input streams over buffer chains of \<^verbatim>\<open>security/body_parse/chain_is.h\<close> and
    \<^verbatim>\<open>body_json.cpp\<close>; \<open>Http_Header\<close>: \<^verbatim>\<open>security/body_parse/header.cpp\<close>; \<open>Ddwaf_Obj\<close>: \<^verbatim>\<open>security/ddwaf_obj.h\<close>
    and \<^verbatim>\<open>ddwaf_obj.cpp\<close>; \<open>Body_Json\<close>, \<open>Multipart\<close> and \<open>Body_Parsing\<close>: the body parsers of
    \<^verbatim>\<open>security/body_parse\<close>. Parsing a rendered body gives back its fields for every split of the body
    into buffers; a truncated JSON body keeps the handler within its invariant.
  \<^item> \<open>Ngx_List\<close>, \<open>Kv_Collect\<close> and \<open>Collection\<close>: \<^verbatim>\<open>security/collection.cpp\<close> and the header iterators of
    \<^verbatim>\<open>security/util.h\<close>; the two-pass grouping of pairs is proved once over an iterator and
    interpreted for query strings, cookies and headers. The locale \<open>kv_marked\<close> has pairs that only the
    second pass sees, as response headers with hash 0 are, and says exactly when the second pass
    writes out of bounds; \<open>kv_source\<close> is the case in which there are none.
  \<^item> \<open>Client_Ip\<close>: \<^verbatim>\<open>security/client_ip.cpp\<close>, addresses, private ranges and the priority of headers.
  \<^item> \<open>Ddwaf_Req\<close>: \<^verbatim>\<open>security/ddwaf_req.cpp\<close>, the result of a run of libddwaf: blocking decision, tags,
    metrics and matches.
  \<^item> \<open>Blocking\<close>: \<^verbatim>\<open>security/blocking.cpp\<close>, content negotiation and the blocking response. Quality values are
    rounded to doubles as \<^verbatim>\<open>strtod\<close> does, to the nearest and to even on a tie.
  \<^item> \<open>Shared_Limiter\<close>: \<^verbatim>\<open>security/shared_limiter.h\<close>, the token bucket in shared memory, sequentially and
    as interleaved atomic steps of several workers.
  \<^item> \<open>Filter_Buf\<close>: \<^verbatim>\<open>buffer_chain\<close> of \<^verbatim>\<open>security/context.cpp\<close>, which copies or drains buffers.
  \<^item> \<open>Waf_Context\<close>: the handlers of \<^verbatim>\<open>security/context.cpp\<close> as functions on the state of a request: the
    parts of \<^verbatim>\<open>ngx_http_request_t\<close> they touch, the context, the tasks in flight, and the calls made to
    nginx in order. What nginx answers is an argument.
  \<^item> \<open>Waf_System\<close>: the handlers and the steps of the tasks as a step relation, so that they interleave in
    any order; the invariant of stages, tasks and counters. \<open>Waf_Request\<close>: the request body filter is a
    lossless delay over every run. \<open>Waf_Response\<close>: the response is held over every run of the filters until the
    final run is over, then released or discarded, and a run that throws fails open. \<open>Waf_Verdict\<close>: over every run a request is blocked at most once.
  \<^item> \<open>Ngx_Headers\<close>: \<^verbatim>\<open>common/headers.cpp\<close>, \<^verbatim>\<open>ngx_header_reader.h\<close> and \<^verbatim>\<open>ngx_header_writer.h\<close>. The walk over the
    parts of a header list finds, changes and removes the first header of a name; the dictionary the
    tracer writes and reads obeys the laws of the locale \<open>header_dict\<close>, so that a trace context is read
    back as it was written.
  \<^item> \<open>Header_Tags\<close>: \<^verbatim>\<open>security/header_tags.cpp\<close>, the span tags that headers leave.
  \<^item> \<open>Metrics\<close>: \<^verbatim>\<open>security/stats.cpp\<close> and \<^verbatim>\<open>stats.h\<close>, counters, the text of a metric in its static buffer and the
    reporting thread.
  \<^item> \<open>Request_Tracing\<close>: \<^verbatim>\<open>request_tracing.cpp\<close>. Calls on spans are recorded; through every sequence of
    blocks every span is ended once. \<open>Dd_Context\<close>: \<^verbatim>\<open>datadog_context.cpp\<close> and \<^verbatim>\<open>datadog_handler.cpp\<close>, the context
    of a request, its lookup, and the handlers of all phases in the three builds.
  \<^item> \<open>Rum_Injection\<close>: \<^verbatim>\<open>rum/injection.cpp\<close>, with chain links in an explicit store, so that relinking and its
    failures are visible; the body filter refines a filter on lists of buffers, and a page is followed to its
    end: what is handed on, what is consumed and what a recycled last buffer loses. \<open>Rum_Config\<close>:
    \<^verbatim>\<open>rum/config.cpp\<close>, the directive and the merging of settings.
  \<^item> \<open>Waf_Settings\<close>: the settings of the security library in \<^verbatim>\<open>security/library.cpp\<close>: the environment variables that stand in
    for directives, and the values that result; normalised header names, the statistics address and the timeout.
    \<open>Waf_Library\<close>: the rest of \<^verbatim>\<open>library.cpp\<close>: reading rulesets, the instance and its configurations, the library's
    state with the active flag, the published handle and the limiters, and the text of diagnostics. \<open>Waf_Rules\<close>: over every
    sequence of updates that are balanced the published handle was built from exactly one ruleset, the bundled one when no other is
    in use. libddwaf's builder is a parameter; what is assumed of it is the predicate \<open>builder_laws\<close>, which association lists satisfy.
  \<^item> \<open>Remote_Config\<close>: \<^verbatim>\<open>security/waf_remote_cfg.cpp\<close> and the subscription in \<^verbatim>\<open>tracing_library.cpp\<close>: configuration keys, the
    listeners and the end of a batch. A batch refines a map of configurations that is updated at once and published if something changed.
    What remote configuration can reach depends on the directives and not on the environment variables.
  \<^item> \<open>Directives\<close>: the tables of directives of \<^verbatim>\<open>tracing/directives.cpp\<close>, \<^verbatim>\<open>security/directives.h\<close>, \<^verbatim>\<open>rum/config.h\<close> and the module, aliases
    dispatched by \<^verbatim>\<open>datadog_conf_handler.cpp\<close>, and the setters. Dispatching an alias ends and does what its target does; the
    sampling directives of a block get tags of their own when their places are told apart.
  \<^item> \<open>Module_Conf\<close>: \<^verbatim>\<open>merge_datadog_loc_conf\<close> of \<^verbatim>\<open>ngx_http_datadog_module.cpp\<close>, the configuration of the tracer in \<^verbatim>\<open>tracing_library.cpp\<close>, and
    the start of a worker. The settings of a block are those of the nearest block that has them: the rule is a locale interpreted
    for each of the settings.
  \<^item> \<open>Module_Start\<close>: the other hooks of \<^verbatim>\<open>ngx_http_datadog_module.cpp\<close>, \<^verbatim>\<open>nginx_package_abi.cpp\<close>, \<^verbatim>\<open>global_tracer.cpp\<close>,
    \<^verbatim>\<open>ngx_event_scheduler.cpp\<close> and \<^verbatim>\<open>ngx_script.cpp\<close>. Over every run of the scheduler exactly its events have a timer.
  \<^item> \<open>Variables\<close>: \<^verbatim>\<open>datadog_variable.cpp\<close> and \<^verbatim>\<open>string_util.h\<close>, the variables for spans, environment, configuration and location.

  \<^bold>\<open>Conventions.\<close> A C++ exception is a value of a sum type, undefined behaviour and a write or read out
  of bounds are \<^const>\<open>None\<close>. Machine integers are words where their width matters. Loops over data are
  structural or have a termination proof; the loops over iterators are \<^verbatim>\<open>partial_function\<close>s and are
  proved to return where a property says what they return. There is no fuel.

  \<^bold>\<open>Parameters.\<close> libddwaf and its builder, rapidjson's reader and writer, zlib, base64, \<^verbatim>\<open>inet_pton\<close> and \<^verbatim>\<open>inet_ntop\<close>,
  nginx's hash and list functions, the RUM injector and snippet generator, the order of
  \<^verbatim>\<open>std::unordered_map\<close> and what nginx returns are arguments of the definitions. The tracer of dd-trace-cpp
  is seen through the calls made on spans.

  \<^bold>\<open>Not modelled.\<close> \<^verbatim>\<open>ngx_logger.cpp\<close> only formats messages for nginx's log; memory that nginx's pool does not have when a
  configuration is created, destructors and the ownership wrappers of libddwaf's objects are left out. \<^verbatim>\<open>incbin.h\<close> is third-party, and the
  clang-tidy check under \<^verbatim>\<open>tools\<close> is not part of the module. Of \<^verbatim>\<open>context.cpp\<close> the log
  messages, the test-only delays and the event manipulation inside the empty handlers are left out.
  \<^verbatim>\<open>Context\<close>'s stage is read and written atomically, so a handler is one step. Of \<^verbatim>\<open>stats.cpp\<close> the sockets are
  left out.
\<close>

end
